(* ===== verification/NP_Prelude.thy ===== *)
theory NP_Prelude
  imports Main "HOL-Library.Word"
begin

text \<open>
  Shared vocabulary of the development: the error values that stand for what the C and C++
  sources leave undefined or throw, the error monad on \<open>cxx_error + 'a\<close>, bytes, and the
  generic list lemmas the component theories share.  Two collections are declared:
  \<open>ebind_simps\<close> evaluates the error monad, \<open>list_scan\<close> holds facts on
  \<^const>\<open>takeWhile\<close>/\<^const>\<open>dropWhile\<close> scanning.
\<close>

unbundle bit_operations_syntax

named_theorems ebind_simps "evaluation of the error monad"
named_theorems list_scan "facts about scanning a list for a separator"

section \<open>Errors\<close>

text \<open>
  What a run of the sources can do besides returning: read a vector or array out of range,
  throw \<^verbatim>\<open>std::out_of_range\<close>, dereference a null pointer, write past a fixed buffer, or
  interpret text of a user as a format.
\<close>

datatype cxx_error = OutOfRange | NullDeref | BufferOverflow | FormatString | DanglingPointer | Thrown string

type_synonym 'a result = "cxx_error + 'a"

definition ebind :: "'a result \<Rightarrow> ('a \<Rightarrow> 'b result) \<Rightarrow> 'b result" where
  "ebind m f = (case m of Inl e \<Rightarrow> Inl e | Inr a \<Rightarrow> f a)"

lemma ebind_Inl [simp, ebind_simps]: "ebind (Inl e) f = Inl e"
  by (simp add: ebind_def)

lemma ebind_Inr [simp, ebind_simps]: "ebind (Inr a) f = f a"
  by (simp add: ebind_def)

lemma ebind_eq_Inr_iff: "ebind m f = Inr b \<longleftrightarrow> (\<exists>a. m = Inr a \<and> f a = Inr b)"
  by (cases m) simp_all

lemma ebind_eq_InrE [elim!]:
  assumes "ebind m f = Inr b"
  obtains a where "m = Inr a" and "f a = Inr b"
  using assms by (cases m) auto

lemma ebind_assoc: "ebind (ebind m f) g = ebind m (\<lambda>a. ebind (f a) g)"
  by (cases m) simp_all

text \<open>\<^verbatim>\<open>v[i]\<close> on a \<^verbatim>\<open>std::vector\<close>: out of range it is undefined.\<close>

definition vec_at :: "'a list \<Rightarrow> nat \<Rightarrow> 'a result" where
  "vec_at v i = (if i < length v then Inr (v ! i) else Inl OutOfRange)"

lemma vec_at_in [simp, ebind_simps]: "i < length v \<Longrightarrow> vec_at v i = Inr (v ! i)"
  by (simp add: vec_at_def)

lemma vec_at_out [simp, ebind_simps]: "length v \<le> i \<Longrightarrow> vec_at v i = Inl OutOfRange"
  by (simp add: vec_at_def)

section \<open>Bytes\<close>

type_synonym byte = "8 word"

definition byte_of_char :: "char \<Rightarrow> byte" where
  "byte_of_char c = of_nat (of_char c)"

lemma unat_byte_of_nat [simp]: "n < 256 \<Longrightarrow> unat (of_nat n :: byte) = n"
  by (simp add: unsigned_of_nat take_bit_nat_eq_self)

lemma unat_byte_less: "unat (b :: byte) < 256"
  using unsigned_less [of b, where ?'a = nat] by simp

text \<open>The value of a plain \<^verbatim>\<open>char\<close>, which the build targets (x86) treat as signed.\<close>

definition schar :: "char \<Rightarrow> int" where
  "schar c = (let n = int (of_char c) in if n < 128 then n else n - 256)"

section \<open>Lists\<close>

lemma takeWhile_append_stop [simp, list_scan]:
  "\<forall>x\<in>set xs. P x \<Longrightarrow> \<not> P y \<Longrightarrow> takeWhile P (xs @ y # ys) = xs"
  by (induction xs) auto

lemma dropWhile_append_stop [simp, list_scan]:
  "\<forall>x\<in>set xs. P x \<Longrightarrow> \<not> P y \<Longrightarrow> dropWhile P (xs @ y # ys) = y # ys"
  by (induction xs) auto

lemma takeWhile_all [list_scan]: "\<forall>x\<in>set xs. P x \<Longrightarrow> takeWhile P xs = xs"
  by (induction xs) auto

lemma dropWhile_all [list_scan]: "\<forall>x\<in>set xs. P x \<Longrightarrow> dropWhile P xs = []"
  by (induction xs) auto

lemma length_dropWhile_Cons:
  assumes "dropWhile P xs = y # ys"
  shows "length ys < length xs"
  using assms length_dropWhile_le [of P xs] by simp

lemma dropWhile_hd_not: "dropWhile P xs = y # ys \<Longrightarrow> \<not> P y"
  by (metis hd_dropWhile list.distinct(1) list.sel(1))

lemma take_eq_prefix_iff: "take (length p) s = p \<longleftrightarrow> (\<exists>t. s = p @ t)"
  by (metis append_eq_conv_conj append_take_drop_id)

end
