(* ===== verification/C_Strings.thy ===== *)
theory C_Strings
  imports NP_Prelude
begin

text \<open>
  The pieces of the C and C++ standard libraries on strings that the sources use: C strings
  cut at their NUL, \<^verbatim>\<open>strtok\<close>, \<^verbatim>\<open>atoi\<close>, \<^verbatim>\<open>std::to_string\<close>, \<^verbatim>\<open>find\<close>/\<^verbatim>\<open>substr\<close>/\<^verbatim>\<open>erase\<close> with their
  \<^verbatim>\<open>npos\<close> conventions, \<^verbatim>\<open>getline\<close> and word extraction with \<^verbatim>\<open>operator>>\<close>.
  Characters are bytes.
\<close>

section \<open>C strings\<close>

definition NUL :: char where
  "NUL = CHR 0x00"

text \<open>What a \<^verbatim>\<open>char*\<close> denotes: the bytes before the first NUL.\<close>

definition cstr :: "string \<Rightarrow> string" where
  "cstr s = takeWhile (\<lambda>c. c \<noteq> NUL) s"

lemma cstr_no_NUL: "NUL \<notin> set (cstr s)"
  by (auto simp: cstr_def dest: set_takeWhileD)

lemma cstr_id [simp]: "NUL \<notin> set s \<Longrightarrow> cstr s = s"
  by (auto simp: cstr_def takeWhile_eq_all_conv)

lemma cstr_append_NUL [simp]: "NUL \<notin> set s \<Longrightarrow> cstr (s @ NUL # t) = s"
  unfolding cstr_def by (rule takeWhile_append_stop) auto

section \<open>Splitting and tokens\<close>

text \<open>
  \<open>split_at p s\<close> cuts \<open>s\<close> at every element satisfying \<open>p\<close>; \<open>tokens p s\<close> keeps the
  nonempty pieces, which is the sequence a \<^verbatim>\<open>strtok\<close> loop returns and what a loop of
  \<^verbatim>\<open>stream >> word\<close> extracts.
\<close>

fun split_at :: "('a \<Rightarrow> bool) \<Rightarrow> 'a list \<Rightarrow> 'a list list" where
  "split_at p [] = [[]]"
| "split_at p (c # s) =
     (if p c then [] # split_at p s
      else (case split_at p s of [] \<Rightarrow> [[c]] | w # ws \<Rightarrow> (c # w) # ws))"

definition tokens :: "('a \<Rightarrow> bool) \<Rightarrow> 'a list \<Rightarrow> 'a list list" where
  "tokens p s = filter (\<lambda>w. w \<noteq> []) (split_at p s)"

lemma split_at_nonempty [simp]: "split_at p s \<noteq> []"
  by (induction s) (auto split: list.splits)

lemma split_at_none: "\<forall>c\<in>set w. \<not> p c \<Longrightarrow> split_at p w = [w]"
  by (induction w) auto

lemma split_at_append_sep:
  "\<forall>c\<in>set w. \<not> p c \<Longrightarrow> p d \<Longrightarrow> split_at p (w @ d # s) = w # split_at p s"
  by (induction w) auto

lemma split_at_no_sep: "w \<in> set (split_at p s) \<Longrightarrow> c \<in> set w \<Longrightarrow> \<not> p c"
  by (induction s arbitrary: w) (fastforce split: list.splits if_splits)+

lemma tokens_Nil [simp]: "tokens p [] = []"
  by (simp add: tokens_def)

lemma tokens_nonempty: "w \<in> set (tokens p s) \<Longrightarrow> w \<noteq> []"
  by (simp add: tokens_def)

lemma tokens_no_sep: "w \<in> set (tokens p s) \<Longrightarrow> c \<in> set w \<Longrightarrow> \<not> p c"
  by (auto simp: tokens_def dest: split_at_no_sep)

lemma tokens_word: "w \<noteq> [] \<Longrightarrow> \<forall>c\<in>set w. \<not> p c \<Longrightarrow> tokens p w = [w]"
  by (simp add: tokens_def split_at_none)

lemma tokens_sep [simp]: "p d \<Longrightarrow> tokens p (d # s) = tokens p s"
  by (simp add: tokens_def)

lemma tokens_word_sep:
  "w \<noteq> [] \<Longrightarrow> \<forall>c\<in>set w. \<not> p c \<Longrightarrow> p d \<Longrightarrow> tokens p (w @ d # s) = w # tokens p s"
  by (simp add: tokens_def split_at_append_sep)

text \<open>The first token, \<^verbatim>\<open>strtok(s, d)\<close> on a fresh string: \<^const>\<open>None\<close> is the null pointer.\<close>

definition strtok_first :: "(char \<Rightarrow> bool) \<Rightarrow> string \<Rightarrow> string option" where
  "strtok_first p s = (case tokens p s of [] \<Rightarrow> None | w # _ \<Rightarrow> Some w)"

text \<open>Joining words with one separator: the inverse of \<^const>\<open>tokens\<close>.\<close>

fun join_with :: "'a \<Rightarrow> 'a list list \<Rightarrow> 'a list" where
  "join_with d [] = []"
| "join_with d [w] = w"
| "join_with d (w # v # ws) = w @ d # join_with d (v # ws)"

lemma tokens_join_with:
  assumes "p d" and "\<forall>w\<in>set ws. w \<noteq> [] \<and> (\<forall>c\<in>set w. \<not> p c)"
  shows "tokens p (join_with d ws) = ws"
  using assms(2)
proof (induction ws)
  case (Cons w ws)
  then show ?case
    using assms(1) by (cases ws) (simp_all add: tokens_word tokens_word_sep)
qed simp

section \<open>Numbers\<close>

text \<open>Decimal digits of a natural number, and \<^verbatim>\<open>std::to_string\<close> of an \<^verbatim>\<open>int\<close>.\<close>

definition digit_char :: "nat \<Rightarrow> char" where
  "digit_char d = char_of (48 + d)"

function dec_nat :: "nat \<Rightarrow> string" where
  "dec_nat n = (if n < 10 then [digit_char n] else dec_nat (n div 10) @ [digit_char (n mod 10)])"
  by pat_completeness auto
termination
  by (relation "measure id") auto

declare dec_nat.simps [simp del]

definition to_string :: "int \<Rightarrow> string" where
  "to_string i = (if i < 0 then CHR ''-'' # dec_nat (nat (- i)) else dec_nat (nat i))"

definition is_digit :: "char \<Rightarrow> bool" where
  "is_digit c \<longleftrightarrow> 48 \<le> (of_char c :: nat) \<and> (of_char c :: nat) \<le> 57"

definition digit_val :: "char \<Rightarrow> nat" where
  "digit_val c = of_char c - 48"

lemma digit_char_is_digit [simp]: "d < 10 \<Longrightarrow> is_digit (digit_char d)"
  by (simp add: is_digit_def digit_char_def)

lemma digit_val_digit_char [simp]: "d < 10 \<Longrightarrow> digit_val (digit_char d) = d"
  by (simp add: digit_val_def digit_char_def)

lemma digit_char_numerals [simp]:
  "digit_char 0 = CHR ''0''" "digit_char 1 = CHR ''1''" "digit_char (Suc 0) = CHR ''1''"
  "digit_char 2 = CHR ''2''" "digit_char 3 = CHR ''3''" "digit_char 4 = CHR ''4''"
  "digit_char 5 = CHR ''5''" "digit_char 6 = CHR ''6''" "digit_char 7 = CHR ''7''"
  "digit_char 8 = CHR ''8''" "digit_char 9 = CHR ''9''"
  by code_simp+

lemma dec_nat_digits: "c \<in> set (dec_nat n) \<Longrightarrow> is_digit c"
proof (induction n rule: dec_nat.induct)
  case (1 n)
  then show ?case
    by (cases "n < 10") (auto simp: dec_nat.simps [of n])
qed

lemma dec_nat_nonempty [simp]: "dec_nat n \<noteq> []"
  by (subst dec_nat.simps) simp

definition digits_val :: "nat \<Rightarrow> string \<Rightarrow> nat" where
  "digits_val a s = foldl (\<lambda>n c. 10 * n + digit_val c) a s"

lemma digits_val_Nil [simp]: "digits_val a [] = a"
  by (simp add: digits_val_def)

lemma digits_val_Cons [simp]: "digits_val a (c # s) = digits_val (10 * a + digit_val c) s"
  by (simp add: digits_val_def)

lemma digits_val_append: "digits_val a (s @ t) = digits_val (digits_val a s) t"
  by (simp add: digits_val_def)

lemma digits_val_dec_nat: "digits_val 0 (dec_nat n) = n"
proof (induction n rule: dec_nat.induct)
  case (1 n)
  then show ?case
    by (cases "n < 10") (auto simp: dec_nat.simps [of n] digits_val_append)
qed

lemma dec_nat_inject [simp]: "dec_nat m = dec_nat n \<longleftrightarrow> m = n"
  by (metis digits_val_dec_nat)

text \<open>
  White space as \<^verbatim>\<open>isspace\<close> sees it in the C locale, and \<^verbatim>\<open>atoi\<close>: leading white space, an
  optional sign, the longest run of digits.  As in glibc the value is read as a 64-bit \<^verbatim>\<open>long\<close>
  that saturates, then cut to 32 bits.
\<close>

definition isspace :: "char \<Rightarrow> bool" where
  "isspace c \<longleftrightarrow> (let n = (of_char c :: nat) in n = 32 \<or> (9 \<le> n \<and> n \<le> 13))"

definition strtol_clamp :: "int \<Rightarrow> int" where
  "strtol_clamp v = max (- (2 ^ 63)) (min (2 ^ 63 - 1) v)"

definition to_int32 :: "int \<Rightarrow> int" where
  "to_int32 v = sint (word_of_int v :: 32 word)"

definition atoi :: "string \<Rightarrow> int" where
  "atoi s =
     (let t = dropWhile isspace s;
          v = (case t of
                 [] \<Rightarrow> 0
               | c # r \<Rightarrow>
                   if c = CHR ''-'' then - int (digits_val 0 (takeWhile is_digit r))
                   else if c = CHR ''+'' then int (digits_val 0 (takeWhile is_digit r))
                   else int (digits_val 0 (takeWhile is_digit t)))
      in to_int32 (strtol_clamp v))"

lemma to_int32_id: "- (2 ^ 31) \<le> v \<Longrightarrow> v < 2 ^ 31 \<Longrightarrow> to_int32 v = v"
  by (simp add: to_int32_def signed_take_bit_int_eq_self sint_sbintrunc')

lemma digit_not_space: "is_digit c \<Longrightarrow> \<not> isspace c"
  by (auto simp: is_digit_def isspace_def Let_def)

lemma digit_not_sign: "is_digit c \<Longrightarrow> c \<noteq> CHR ''-'' \<and> c \<noteq> CHR ''+''"
  by (auto simp: is_digit_def)

lemma atoi_digits:
  assumes "\<forall>c\<in>set s. is_digit c" and "s \<noteq> []" and "digits_val 0 s < 2 ^ 31"
  shows "atoi s = int (digits_val 0 s)"
proof -
  obtain c r where s: "s = c # r" using assms(2) by (cases s) auto
  have "is_digit c" using assms(1) s by simp
  then have c: "\<not> isspace c" "c \<noteq> CHR ''-''" "c \<noteq> CHR ''+''"
    using digit_not_space digit_not_sign by auto
  have "takeWhile is_digit s = s" using assms(1) by (rule takeWhile_all)
  then have "atoi s = to_int32 (strtol_clamp (int (digits_val 0 s)))"
    using c by (simp add: atoi_def s Let_def)
  also have "\<dots> = int (digits_val 0 s)"
    using assms(3) by (simp add: strtol_clamp_def to_int32_id)
  finally show ?thesis .
qed

lemma atoi_dec_nat: "n < 2 ^ 31 \<Longrightarrow> atoi (dec_nat n) = int n"
  by (subst atoi_digits) (auto simp: digits_val_dec_nat dest: dec_nat_digits)

section \<open>Searching and cutting C++ strings\<close>

text \<open>
  \<^verbatim>\<open>s.find(c)\<close>: \<^const>\<open>None\<close> is \<^verbatim>\<open>npos\<close>.  \<^verbatim>\<open>s.substr(pos, n)\<close> throws when \<open>pos\<close> is past the
  end; \<^verbatim>\<open>s.substr(0, npos)\<close> is the whole string, and \<^verbatim>\<open>npos + 1\<close> wraps to 0.
\<close>

fun find_char :: "char \<Rightarrow> string \<Rightarrow> nat option" where
  "find_char c [] = None"
| "find_char c (d # s) = (if d = c then Some 0 else map_option Suc (find_char c s))"

definition substr_from :: "string \<Rightarrow> nat \<Rightarrow> string result" where
  "substr_from s pos = (if pos \<le> length s then Inr (drop pos s) else Inl (Thrown ''out_of_range''))"

definition substr_to :: "string \<Rightarrow> nat option \<Rightarrow> string" where
  "substr_to s pos = (case pos of None \<Rightarrow> s | Some p \<Rightarrow> take p s)"

definition after_pos :: "nat option \<Rightarrow> nat" where
  "after_pos pos = (case pos of None \<Rightarrow> 0 | Some p \<Rightarrow> Suc p)"

lemma find_char_None_iff: "find_char c s = None \<longleftrightarrow> c \<notin> set s"
  by (induction s) auto

lemma find_char_eq: "find_char c s = (if c \<in> set s then Some (length (takeWhile (\<lambda>d. d \<noteq> c) s)) else None)"
  by (induction s) auto

lemma substr_to_find: "substr_to s (find_char c s) = takeWhile (\<lambda>d. d \<noteq> c) s"
  by (induction s) (auto simp: substr_to_def split: option.splits)

lemma find_char_append [simp]: "c \<notin> set s \<Longrightarrow> find_char c (s @ c # t) = Some (length s)"
  by (induction s) auto

lemma find_char_less: "find_char c s = Some p \<Longrightarrow> p < length s"
  by (induction s arbitrary: p) (auto split: if_splits)

section \<open>Lines\<close>

text \<open>The lines a loop of \<^verbatim>\<open>getline(in, line)\<close> yields from the rest of a stream.\<close>

definition NL :: char where
  "NL = CHR 0x0A"

definition CR :: char where
  "CR = CHR 0x0D"

definition getlines :: "string \<Rightarrow> string list" where
  "getlines s = (let ws = split_at (\<lambda>c. c = NL) s in if last ws = [] then butlast ws else ws)"

lemma getlines_no_NL: "l \<in> set (getlines s) \<Longrightarrow> NL \<notin> set l"
  by (auto simp: getlines_def Let_def split: if_splits dest!: in_set_butlastD dest: split_at_no_sep)

lemma getlines_unlines:
  "\<forall>l\<in>set ls. NL \<notin> set l \<Longrightarrow> getlines (concat (map (\<lambda>l. l @ [NL]) ls)) = ls"
proof -
  assume h: "\<forall>l\<in>set ls. NL \<notin> set l"
  then have "split_at (\<lambda>c. c = NL) (concat (map (\<lambda>l. l @ [NL]) ls)) = ls @ [[]]"
    by (induction ls) (simp_all, subst split_at_append_sep, auto)
  then show ?thesis by (simp add: getlines_def Let_def)
qed

end
