(* ===== verification/Socks_Request.thy ===== *)
theory Socks_Request
  imports C_Strings
begin

text \<open>
  The SOCKS4 request side of \<^verbatim>\<open>nctu_np_project4/socks_server.cpp\<close>: class \<^verbatim>\<open>SockSession\<close>.  It
  reads one request into a 1024-byte buffer, decodes it (\<^verbatim>\<open>parse_request\<close>, \<^verbatim>\<open>bytetoint\<close>), asks
  the firewall (\<^verbatim>\<open>firewall\<close>, the rules of \<^verbatim>\<open>socks.conf\<close>), logs the decision and either hands
  the socket to a connect or bind session or sends the reject reply.
\<close>

section \<open>Decoding the request\<close>

text \<open>
  \<^verbatim>\<open>bytetoint\<close> reads a signed \<^verbatim>\<open>char\<close> bit by bit: \<^verbatim>\<open>c >> 1\<close> is an arithmetic shift, so the sign
  bit is copied, and the loop stops after eight rounds.
\<close>

fun bytetoint_loop :: "nat \<Rightarrow> byte \<Rightarrow> int \<Rightarrow> int \<Rightarrow> int" where
  "bytetoint_loop 0 c a r = a"
| "bytetoint_loop (Suc n) c a r =
     bytetoint_loop n (signed_drop_bit 1 c) (a + uint (c AND 1) * r) (r * 2)"

definition bytetoint :: "byte \<Rightarrow> int" where
  "bytetoint c = bytetoint_loop 8 c 0 1"

type_synonym strmap = "string \<rightharpoonup> string"

text \<open>
  \<^verbatim>\<open>m[k]\<close> of a \<^verbatim>\<open>map<string,string>\<close> reads the empty string at an absent key.  (It also inserts
  that empty string, which nothing in the sources can observe: no map is iterated or tested for
  a key.)
\<close>

definition mget :: "strmap \<Rightarrow> string \<Rightarrow> string" where
  "mget m k = (case m k of None \<Rightarrow> [] | Some v \<Rightarrow> v)"

lemma mget_upd [simp]: "mget (m(k \<mapsto> v)) k' = (if k' = k then v else mget m k')"
  by (simp add: mget_def)

lemma mget_empty [simp]: "mget Map.empty k = []"
  by (simp add: mget_def)

definition dotted :: "byte list \<Rightarrow> string" where
  "dotted bs = to_string (bytetoint (bs ! 0)) @ ''.'' @ to_string (bytetoint (bs ! 1)) @ ''.''
     @ to_string (bytetoint (bs ! 2)) @ ''.'' @ to_string (bytetoint (bs ! 3))"

definition parse_request :: "byte list \<Rightarrow> strmap \<Rightarrow> strmap" where
  "parse_request req m =
     (let m = m(''VN'' \<mapsto> to_string (bytetoint (req ! 0)));
          m = (if bytetoint (req ! 1) = 1 then m(''CD'' \<mapsto> ''c'')
               else if bytetoint (req ! 1) = 2 then m(''CD'' \<mapsto> ''b'')
               else m);
          m = m(''DST_PORT'' \<mapsto>
                 to_string (bytetoint (req ! 2) * 256 + bytetoint (req ! 3)));
          m = m(''DST_IP'' \<mapsto>
                 to_string (bytetoint (req ! 4)) @ ''.'' @ to_string (bytetoint (req ! 5)) @ ''.''
                 @ to_string (bytetoint (req ! 6)) @ ''.'' @ to_string (bytetoint (req ! 7)))
      in m)"

section \<open>The firewall\<close>

text \<open>
  One line of \<^verbatim>\<open>socks.conf\<close>: cut at \<^verbatim>\<open>#\<close>, split into words, and compared.  The subscripts
  \<^verbatim>\<open>socks_vec[0..2]\<close> are unchecked, so a line with too few words reads out of range.
  \<open>Inr True\<close> is the \<^verbatim>\<open>return 1\<close>, \<open>Inr False\<close> goes on to the next line.
\<close>

definition strip_comment :: "string \<Rightarrow> string" where
  "strip_comment line = substr_to line (find_char (CHR ''#'') line)"

definition conf_pattern :: "string \<Rightarrow> string" where
  "conf_pattern w = substr_to w (find_char (CHR ''*'') w)"

definition firewall_line :: "string \<Rightarrow> string \<Rightarrow> string \<Rightarrow> bool result" where
  "firewall_line cd dst_ip line =
     (let socks_vec = tokens isspace (strip_comment line)
      in ebind (vec_at socks_vec 0) (\<lambda>w0.
         if w0 \<noteq> ''permit'' then Inr False
         else ebind (vec_at socks_vec 1) (\<lambda>w1.
           if w1 \<noteq> cd then Inr False
           else ebind (vec_at socks_vec 2) (\<lambda>w2.
             let pattern = conf_pattern w2; ip = take (length pattern) dst_ip
             in Inr (ip = pattern)))))"

fun firewall_lines :: "string \<Rightarrow> string \<Rightarrow> string list \<Rightarrow> int result" where
  "firewall_lines cd dst_ip [] = Inr (- 1)"
| "firewall_lines cd dst_ip (line # lines) =
     ebind (firewall_line cd dst_ip line) (\<lambda>hit.
       if hit then Inr 1 else firewall_lines cd dst_ip lines)"

text \<open>The file may be missing (\<^const>\<open>None\<close>): then \<^verbatim>\<open>if(socks_conf)\<close> fails and the result is -1.\<close>

definition firewall :: "string option \<Rightarrow> strmap \<Rightarrow> string \<Rightarrow> int result" where
  "firewall socks_conf info cd =
     (case socks_conf of
        None \<Rightarrow> Inr (- 1)
      | Some text \<Rightarrow> firewall_lines cd (mget info ''DST_IP'') (getlines text))"

section \<open>The session\<close>

text \<open>
  The members of \<^verbatim>\<open>SockSession\<close>: the 8-byte reply, the 1024-byte request buffer (indeterminate
  before the read) and the decoded fields.
\<close>

record sock_session =
  ss_reply :: "byte list"
  ss_request :: "byte list"
  ss_sock_request :: strmap

definition ACCEPT :: byte where "ACCEPT = 90"
definition REJECT :: byte where "REJECT = 91"

definition sock_session_init :: "string \<Rightarrow> int \<Rightarrow> byte list \<Rightarrow> sock_session" where
  "sock_session_init source_ip source_port buf =
     \<lparr>ss_reply = replicate 8 0, ss_request = buf,
      ss_sock_request =
        [''SOURCE_IP'' \<mapsto> source_ip, ''SOURCE_PORT'' \<mapsto> to_string source_port]\<rparr>"

text \<open>What the session does next, and what it wrote to standard output.\<close>

datatype sock_action =
    StartConnect string string "byte list"
  | StartBind string string "byte list"
  | SendReply "byte list"
  | NoAction

definition show_host_sock_info :: "strmap \<Rightarrow> int \<Rightarrow> string" where
  "show_host_sock_info info res =
     ''<S_IP>:'' @ [CHR 0x09] @ mget info ''SOURCE_IP'' @ [NL] @
     ''<S_PORT>:'' @ [CHR 0x09] @ mget info ''SOURCE_PORT'' @ [NL] @
     ''<D_IP>:'' @ [CHR 0x09] @ mget info ''DST_IP'' @ [NL] @
     ''<D_PORT>:'' @ [CHR 0x09] @ mget info ''DST_PORT'' @ [NL] @
     (if mget info ''CD'' = ''c'' then ''<Command>:'' @ [CHR 0x09] @ ''CONNECT'' @ [NL]
      else if mget info ''CD'' = ''b'' then ''<Command>:'' @ [CHR 0x09] @ ''BIND'' @ [NL]
      else []) @
     (if res = 1 then ''<Reply>:'' @ [CHR 0x09] @ ''Accept'' @ [NL]
      else ''<Reply>:'' @ [CHR 0x09] @ ''Reject'' @ [NL]) @
     [NL]"

definition doBindSession :: "sock_session \<Rightarrow> sock_session \<times> sock_action" where
  "doBindSession s =
     (let r = [0, ACCEPT, 0, 0, 0, 0, 0, 0]
      in (s\<lparr>ss_reply := r\<rparr>,
          StartBind (mget (ss_sock_request s) ''DST_IP'')
                    (mget (ss_sock_request s) ''DST_PORT'') r))"

definition doConnectSession :: "sock_session \<Rightarrow> sock_session \<times> sock_action" where
  "doConnectSession s =
     (if mget (ss_sock_request s) ''DST_IP'' \<noteq> ''0.0.0.0'' then
        (let r = [0, ACCEPT] @ take 6 (drop 2 (ss_request s))
         in (s\<lparr>ss_reply := r\<rparr>,
             StartConnect (mget (ss_sock_request s) ''DST_IP'')
                          (mget (ss_sock_request s) ''DST_PORT'') r))
      else (s, NoAction))"

definition rejectRequest :: "sock_session \<Rightarrow> sock_session \<times> sock_action" where
  "rejectRequest s =
     (let r = [0, 91] @ take 6 (drop 2 (ss_request s))
      in (s\<lparr>ss_reply := r\<rparr>, SendReply r))"

text \<open>
  The completion handler of the read in \<^verbatim>\<open>do_read\<close>.  \<^const>\<open>None\<close> is a read error; otherwise the
  bytes received (at most 1024) overwrite the front of the buffer.  The length is not looked at.
\<close>

definition fill_buffer :: "byte list \<Rightarrow> byte list \<Rightarrow> byte list" where
  "fill_buffer buf bs = bs @ drop (length bs) buf"

definition on_request ::
  "string option \<Rightarrow> sock_session \<Rightarrow> byte list option \<Rightarrow> (sock_session \<times> string \<times> sock_action) result" where
  "on_request socks_conf s rd =
     (case rd of
        None \<Rightarrow> Inr (s, [], NoAction)
      | Some bs \<Rightarrow>
          (let req = fill_buffer (ss_request s) bs;
               info = parse_request req (ss_sock_request s);
               s = s\<lparr>ss_request := req, ss_sock_request := info\<rparr>;
               cd = mget info ''CD''
           in ebind (firewall socks_conf info cd) (\<lambda>res.
                if res = 1 then
                  (let out = show_host_sock_info info 1;
                       (s', act) = (if cd = ''c'' then doConnectSession s
                                    else if cd = ''b'' then doBindSession s
                                    else (s, NoAction))
                   in Inr (s', out, act))
                else
                  (let out = show_host_sock_info info 0; (s', act) = rejectRequest s
                   in Inr (s', out, act)))))"

section \<open>The decoder\<close>

lemma uint_and_1_sint: "uint (c AND 1) = sint (c :: byte) mod 2"
proof -
  have "c AND 1 = take_bit 1 c" by (simp add: take_bit_eq_mask)
  then have "uint (c AND 1) = take_bit 1 (uint c)" by (simp only: unsigned_take_bit_eq)
  also have "\<dots> = take_bit 1 (sint c)" by (simp add: uint_sint)
  finally show ?thesis by (simp add: take_bit_eq_mod)
qed

lemma bytetoint_loop_sint:
  "bytetoint_loop n c a r = a + r * (sint c mod 2 ^ n)"
proof (induction n arbitrary: c a r)
  case 0
  then show ?case by simp
next
  case (Suc n)
  have split: "sint c mod 2 ^ Suc n = sint c mod 2 + 2 * (sint c div 2 mod 2 ^ n)"
    by (simp add: zmod_zmult2_eq)
  have "bytetoint_loop (Suc n) c a r
      = a + (sint c mod 2) * r + r * 2 * (sint c div 2 mod 2 ^ n)"
    by (simp add: Suc uint_and_1_sint sint_signed_drop_bit_eq drop_bit_Suc)
  then show ?case by (simp only: split) (simp add: algebra_simps)
qed

text \<open>
  Although the byte is a signed \<^verbatim>\<open>char\<close> and the shift in the loop is arithmetic,
  \<^verbatim>\<open>bytetoint\<close> returns the byte's unsigned value.
\<close>

lemma bytetoint_uint: "bytetoint c = uint c"
  by (simp add: bytetoint_def bytetoint_loop_sint uint_sint take_bit_eq_mod)

lemma bytetoint_range: "0 \<le> bytetoint c \<and> bytetoint c < 256"
  using uint_lt2p [of c] by (simp add: bytetoint_uint)

definition dec_byte :: "byte \<Rightarrow> string" where
  "dec_byte b = dec_nat (unat b)"

lemma to_string_bytetoint: "to_string (bytetoint b) = dec_byte b"
  by (simp add: to_string_def bytetoint_uint dec_byte_def not_less)

definition request_port :: "byte list \<Rightarrow> nat" where
  "request_port req = 256 * unat (req ! 2) + unat (req ! 3)"

lemma request_port_less: "request_port req < 2 ^ 16"
  using unat_byte_less [of "req ! 2"] unat_byte_less [of "req ! 3"] by (simp add: request_port_def)

lemma to_string_port:
  "to_string (bytetoint a * 256 + bytetoint b) = dec_nat (256 * unat a + unat b)"
proof -
  have "bytetoint a * 256 + bytetoint b = int (256 * unat a + unat b)"
    by (simp add: bytetoint_uint)
  then show ?thesis by (simp add: to_string_def del: of_nat_add of_nat_mult)
qed

definition request_ip :: "byte list \<Rightarrow> string" where
  "request_ip req = join_with (CHR ''.'') (map dec_byte (take 4 (drop 4 req)))"

lemma take4_drop4:
  assumes "8 \<le> length req"
  shows "take 4 (drop 4 req) = [req ! 4, req ! 5, req ! 6, req ! 7]"
proof -
  have "take 4 (drop 4 req) = map ((!) req) [4, 5, 6, 7]"
    using assms by (intro nth_equalityI) (auto simp: less_Suc_eq numeral_eq_Suc)
  then show ?thesis by simp
qed

lemma parse_request_IP:
  "8 \<le> length req \<Longrightarrow> mget (parse_request req m) ''DST_IP'' = request_ip req"
  by (simp add: parse_request_def Let_def request_ip_def take4_drop4 to_string_bytetoint)

lemma parse_request_PORT:
  "mget (parse_request req m) ''DST_PORT'' = dec_nat (request_port req)"
  by (simp add: parse_request_def Let_def to_string_port request_port_def)

lemma parse_request_CD:
  "mget (parse_request req m) ''CD'' =
     (if req ! 1 = 1 then ''c'' else if req ! 1 = 2 then ''b'' else mget m ''CD'')"
  by (simp add: parse_request_def Let_def bytetoint_uint word_uint_eq_iff)

text \<open>
  C30.  \<^verbatim>\<open>parse_request\<close> decodes every request of at least eight bytes to the command, port and
  address its bytes encode: the port is the big-endian pair (so below 65536), the address the
  dotted decimal of bytes 4 to 7, and splitting that text at the dots gives the four decimal
  numbers back.
\<close>

theorem parse_request_decodes:
  assumes "8 \<le> length req"
  shows "mget (parse_request req m) ''DST_PORT'' = dec_nat (request_port req)
    \<and> request_port req < 2 ^ 16
    \<and> map (digits_val 0) (tokens (\<lambda>c. c = CHR ''.'') (mget (parse_request req m) ''DST_IP''))
        = map unat (take 4 (drop 4 req))
    \<and> mget (parse_request req m) ''CD'' =
        (if req ! 1 = 1 then ''c'' else if req ! 1 = 2 then ''b'' else mget m ''CD'')"
proof -
  let ?ws = "map dec_byte (take 4 (drop 4 req))"
  have "\<forall>w\<in>set ?ws. w \<noteq> [] \<and> (\<forall>c\<in>set w. c \<noteq> CHR ''.'')"
    by (auto simp: dec_byte_def is_digit_def dest!: dec_nat_digits)
  then have "tokens (\<lambda>c. c = CHR ''.'') (request_ip req) = ?ws"
    unfolding request_ip_def by (intro tokens_join_with) auto
  then show ?thesis
    using assms request_port_less
    by (simp add: parse_request_IP parse_request_PORT parse_request_CD dec_byte_def
        digits_val_dec_nat comp_def)
qed

theorem parse_request_decodes_witness:
  "mget (parse_request [4, 1, 0, 80, 140, 113, 1, 200] Map.empty) ''DST_PORT'' = ''80''
   \<and> 8 \<le> length [4, 1, 0, 80, 140, 113, 1, 200 :: byte]"
proof -
  have h: "8 \<le> length [4, 1, 0, 80, 140, 113, 1, 200 :: byte]" by simp
  have "dec_nat (request_port [4, 1, 0, 80, 140, 113, 1, 200]) = ''80''"
    by code_simp
  then show ?thesis using h parse_request_decodes [OF h, of Map.empty] by simp
qed

section \<open>The firewall's decision\<close>

text \<open>
  The specification of a rule: the words of a line with its comment removed; the line permits a
  destination when it reads \<^verbatim>\<open>permit <command> <pattern>\<close> and the pattern, cut at its first
  star, is a prefix of the destination's text.
\<close>

definition rule_words :: "string \<Rightarrow> string list" where
  "rule_words line = tokens isspace (takeWhile (\<lambda>c. c \<noteq> CHR ''#'') line)"

definition wf_rule :: "string \<Rightarrow> bool" where
  "wf_rule line \<longleftrightarrow> 3 \<le> length (rule_words line)"

definition permits :: "string \<Rightarrow> string \<Rightarrow> string \<Rightarrow> bool" where
  "permits cd dst_ip line \<longleftrightarrow>
     (\<exists>pat more rest. rule_words line = ''permit'' # cd # pat # more
        \<and> dst_ip = takeWhile (\<lambda>c. c \<noteq> CHR ''*'') pat @ rest)"

lemma strip_comment_eq: "strip_comment line = takeWhile (\<lambda>c. c \<noteq> CHR ''#'') line"
  by (simp add: strip_comment_def substr_to_find)

lemma conf_pattern_eq: "conf_pattern w = takeWhile (\<lambda>c. c \<noteq> CHR ''*'') w"
  by (simp add: conf_pattern_def substr_to_find)

lemma firewall_line_cases:
  "firewall_line cd ip line =
     (case rule_words line of
        [] \<Rightarrow> Inl OutOfRange
      | w0 # v \<Rightarrow> if w0 \<noteq> ''permit'' then Inr False else
          (case v of
             [] \<Rightarrow> Inl OutOfRange
           | w1 # v \<Rightarrow> if w1 \<noteq> cd then Inr False else
               (case v of [] \<Rightarrow> Inl OutOfRange
                | w2 # _ \<Rightarrow> Inr (\<exists>rest. ip = takeWhile (\<lambda>c. c \<noteq> CHR ''*'') w2 @ rest))))"
  by (auto simp: firewall_line_def Let_def rule_words_def strip_comment_eq conf_pattern_eq
      take_eq_prefix_iff split: list.splits)

lemma firewall_line_True: "firewall_line cd ip line = Inr True \<longleftrightarrow> permits cd ip line"
  by (auto simp: firewall_line_cases permits_def split: list.splits if_splits)

lemma firewall_line_wf: "wf_rule line \<Longrightarrow> firewall_line cd ip line = Inr (permits cd ip line)"
  by (auto simp: firewall_line_cases permits_def wf_rule_def split: list.splits)

lemma firewall_lines_wf:
  "\<forall>l\<in>set ls. wf_rule l \<Longrightarrow>
   firewall_lines cd ip ls = Inr (if \<exists>l\<in>set ls. permits cd ip l then 1 else - 1)"
  by (induction ls) (auto simp: firewall_line_wf)

lemma firewall_lines_1: "firewall_lines cd ip ls = Inr 1 \<Longrightarrow> \<exists>l\<in>set ls. permits cd ip l"
proof (induction ls)
  case (Cons l ls)
  then show ?case
    by (auto simp: firewall_line_True [symmetric] split: if_splits)
qed simp

lemma firewall_1E:
  assumes "firewall conf info cd = Inr 1"
  obtains body line where "conf = Some body" "line \<in> set (getlines body)"
    "permits cd (mget info ''DST_IP'') line"
  using assms by (auto simp: firewall_def split: option.splits dest: firewall_lines_1)

lemma permits_cd_nonempty: "permits cd ip line \<Longrightarrow> cd \<noteq> []"
  using tokens_nonempty [of _ isspace "takeWhile (\<lambda>c. c \<noteq> CHR ''#'') line"]
  by (fastforce simp: permits_def rule_words_def)

text \<open>
  C32.  Default deny: when every line of \<^verbatim>\<open>socks.conf\<close> has at least three words, the firewall
  accepts exactly the requests that some \<^verbatim>\<open>permit\<close> line covers, and a missing file
  accepts nothing.
\<close>

theorem firewall_default_deny:
  assumes "\<forall>line\<in>set (getlines conf). wf_rule line"
  shows "firewall (Some conf) info cd =
      Inr (if \<exists>line\<in>set (getlines conf). permits cd (mget info ''DST_IP'') line then 1 else - 1)
    \<and> firewall None info cd = Inr (- 1)"
  using assms by (simp add: firewall_def firewall_lines_wf)

theorem firewall_default_deny_witness:
  "firewall (Some (''permit c 140.113.*.*'' @ [NL])) [''DST_IP'' \<mapsto> ''140.113.1.2''] ''c'' = Inr 1
   \<and> list_all wf_rule (getlines (''permit c 140.113.*.*'' @ [NL]))"
proof -
  have h: "\<forall>line\<in>set (getlines (''permit c 140.113.*.*'' @ [NL])). wf_rule line"
    by code_simp
  have "firewall_line ''c'' ''140.113.1.2'' ''permit c 140.113.*.*'' = Inr True"
    by code_simp
  then have "permits ''c'' ''140.113.1.2'' ''permit c 140.113.*.*''"
    by (simp only: firewall_line_True)
  moreover have "getlines (''permit c 140.113.*.*'' @ [NL]) = [''permit c 140.113.*.*'']"
    by code_simp
  ultimately show ?thesis
    using h firewall_default_deny [OF h, of "[''DST_IP'' \<mapsto> ''140.113.1.2'']" "''c''"]
    by (simp add: list_all_iff)
qed

text \<open>
   A line that holds nothing but a comment or white space, which the comment stripping is
  there to allow, reads \<^verbatim>\<open>socks_vec[0]\<close> of an empty vector unless an earlier line already
  accepted.
\<close>

theorem comment_line_out_of_range:
  assumes "\<forall>line\<in>set before. wf_rule line \<and> \<not> permits cd ip line" and "\<forall>c\<in>set ws. isspace c"
  shows "firewall_lines cd ip (before @ (ws @ CHR ''#'' # comment) # after) = Inl OutOfRange"
proof -
  have "takeWhile (\<lambda>c. c \<noteq> CHR ''#'') (ws @ CHR ''#'' # comment) = ws"
    using assms(2) by (intro takeWhile_append_stop) (auto simp: isspace_def Let_def)
  moreover have "tokens isspace ws = []"
    using assms(2) by (induction ws) simp_all
  ultimately have "firewall_line cd ip (ws @ CHR ''#'' # comment) = Inl OutOfRange"
    by (simp add: firewall_line_cases rule_words_def)
  then show ?thesis
    using assms(1) by (induction before) (simp_all add: firewall_line_wf)
qed

theorem comment_line_out_of_range_witness:
  "firewall_lines ''c'' ''1.2.3.4'' [''permit b 1.*.*.*'', ''# campus'', ''permit c *.*.*.*''] = Inl OutOfRange
   \<and> wf_rule ''permit b 1.*.*.*''"
proof -
  have w: "wf_rule ''permit b 1.*.*.*''" by code_simp
  have "firewall_line ''c'' ''1.2.3.4'' ''permit b 1.*.*.*'' = Inr False" by code_simp
  with w have "\<not> permits ''c'' ''1.2.3.4'' ''permit b 1.*.*.*''" by (simp add: firewall_line_wf)
  with w show ?thesis
    using comment_line_out_of_range [of "[''permit b 1.*.*.*'']" "''c''" "''1.2.3.4''" "[]"
        "'' campus''" "[''permit c *.*.*.*'']"] by simp
qed

section \<open>The session's decision\<close>

lemma fill_buffer_take8:
  "8 \<le> length bs \<Longrightarrow> take 6 (drop 2 (fill_buffer buf bs)) = take 6 (drop 2 bs)"
  by (simp add: fill_buffer_def)

lemma fill_buffer_nth: "i < length bs \<Longrightarrow> fill_buffer buf bs ! i = bs ! i"
  by (simp add: fill_buffer_def nth_append)

lemma fill_buffer_request_ip:
  "8 \<le> length bs \<Longrightarrow> request_ip (fill_buffer buf bs) = request_ip bs"
  by (simp add: request_ip_def fill_buffer_def)

lemma fill_buffer_request_port:
  "8 \<le> length bs \<Longrightarrow> request_port (fill_buffer buf bs) = request_port bs"
  by (simp add: request_port_def fill_buffer_nth)

lemma length_fill_buffer: "length bs \<le> length buf \<Longrightarrow> length (fill_buffer buf bs) = length buf"
  by (simp add: fill_buffer_def)

text \<open>The decision handed on, as one expression over the decoded request.\<close>

lemma on_request_bytes:
  assumes "8 \<le> length bs"
  shows "on_request conf s (Some bs) =
    (let req = fill_buffer (ss_request s) bs;
         info = parse_request req (ss_sock_request s);
         cd = mget info ''CD''
     in ebind (firewall conf info cd) (\<lambda>res.
          if res = 1 then
            (if cd = ''c'' then
               (if request_ip bs \<noteq> ''0.0.0.0'' then
                  Inr (s\<lparr>ss_request := req, ss_sock_request := info,
                         ss_reply := [0, 90] @ take 6 (drop 2 bs)\<rparr>,
                       show_host_sock_info info 1,
                       StartConnect (request_ip bs) (dec_nat (request_port bs))
                         ([0, 90] @ take 6 (drop 2 bs)))
                else Inr (s\<lparr>ss_request := req, ss_sock_request := info\<rparr>,
                          show_host_sock_info info 1, NoAction))
             else if cd = ''b'' then
               Inr (s\<lparr>ss_request := req, ss_sock_request := info,
                      ss_reply := [0, 90, 0, 0, 0, 0, 0, 0]\<rparr>,
                    show_host_sock_info info 1,
                    StartBind (request_ip bs) (dec_nat (request_port bs)) [0, 90, 0, 0, 0, 0, 0, 0])
             else Inr (s\<lparr>ss_request := req, ss_sock_request := info\<rparr>,
                       show_host_sock_info info 1, NoAction))
          else Inr (s\<lparr>ss_request := req, ss_sock_request := info,
                      ss_reply := [0, 91] @ take 6 (drop 2 bs)\<rparr>,
                    show_host_sock_info info 0, SendReply ([0, 91] @ take 6 (drop 2 bs)))))"
proof -
  have "8 \<le> length (fill_buffer (ss_request s) bs)"
    using assms by (simp add: fill_buffer_def)
  then show ?thesis
    using assms
    by (simp add: on_request_def Let_def parse_request_IP parse_request_PORT
        fill_buffer_request_ip fill_buffer_request_port fill_buffer_take8
        doConnectSession_def doBindSession_def rejectRequest_def ACCEPT_def cong: if_cong)
qed

text \<open>
  C29.  Nothing gets past the firewall: if the session goes on to open a connection (or to
  bind), then some line of \<^verbatim>\<open>socks.conf\<close> permits that command for that destination, the
  destination and port are the ones in the request, and the reply carries code 90.
\<close>

theorem session_only_if_permitted:
  assumes "on_request conf s (Some bs) = Inr (s', out, act)"
    and "8 \<le> length bs" and "mget (ss_sock_request s) ''CD'' = []"
    and "act = StartConnect ip port r \<or> act = StartBind ip port r"
  shows "ip = request_ip bs \<and> port = dec_nat (request_port bs) \<and> length r = 8 \<and> r ! 1 = 90
    \<and> (\<exists>cd body line. conf = Some body \<and> line \<in> set (getlines body) \<and> permits cd ip line
         \<and> (cd = ''c'' \<and> bs ! 1 = 1 \<and> act = StartConnect ip port r
            \<or> cd = ''b'' \<and> bs ! 1 = 2 \<and> act = StartBind ip port r))"
proof -
  let ?info = "parse_request (fill_buffer (ss_request s) bs) (ss_sock_request s)"
  let ?cd = "mget ?info ''CD''"
  have ip: "mget ?info ''DST_IP'' = request_ip bs"
    using assms(2) by (subst parse_request_IP) (simp_all add: fill_buffer_def request_ip_def)
  have cd: "?cd = (if bs ! 1 = 1 then ''c'' else if bs ! 1 = 2 then ''b'' else [])"
    using assms(2,3) by (simp add: parse_request_CD fill_buffer_nth)
  have fw: "firewall conf ?info ?cd = Inr 1"
    and res: "ip = request_ip bs" "port = dec_nat (request_port bs)" "length r = 8" "r ! 1 = 90"
    and kind: "?cd = ''c'' \<and> act = StartConnect ip port r \<or> ?cd = ''b'' \<and> act = StartBind ip port r"
    using assms(1,2,4)
    by (auto simp: on_request_bytes Let_def ebind_eq_Inr_iff split: if_splits)
  obtain body line where line: "conf = Some body" "line \<in> set (getlines body)"
    "permits ?cd ip line"
    using fw ip res(1) by (metis firewall_1E)
  from kind have "?cd = ''c'' \<and> bs ! 1 = 1 \<and> act = StartConnect ip port r
      \<or> ?cd = ''b'' \<and> bs ! 1 = 2 \<and> act = StartBind ip port r"
    using cd by (auto split: if_splits)
  with line res show ?thesis by blast
qed

text \<open>
   A request whose command byte is neither CONNECT nor BIND is never accepted: with a
  well-formed \<^verbatim>\<open>socks.conf\<close> the session answers code 91 and echoes port and address.
\<close>

theorem unknown_command_rejected:
  assumes "8 \<le> length bs" and "bs ! 1 \<noteq> 1" and "bs ! 1 \<noteq> 2"
    and "mget (ss_sock_request s) ''CD'' = []"
    and "\<forall>line\<in>set (getlines conf). wf_rule line"
  shows "\<exists>s' out. on_request (Some conf) s (Some bs)
           = Inr (s', out, SendReply ([0, 91] @ take 6 (drop 2 bs)))"
proof -
  let ?info = "parse_request (fill_buffer (ss_request s) bs) (ss_sock_request s)"
  have cd: "mget ?info ''CD'' = []"
    using assms(1-4) by (simp add: parse_request_CD fill_buffer_nth)
  have "firewall (Some conf) ?info [] = Inr (- 1)"
    using assms(5) permits_cd_nonempty by (auto simp: firewall_def firewall_lines_wf)
  then show ?thesis
    using assms(1) cd by (simp add: on_request_bytes Let_def)
qed

definition demo_session :: sock_session where
  "demo_session = sock_session_init ''10.0.0.9'' 40000 (replicate 1024 0)"

lemma demo_session_CD: "mget (ss_sock_request demo_session) ''CD'' = []"
  by (simp add: demo_session_def sock_session_init_def mget_def)

theorem session_only_if_permitted_witness:
  "\<exists>s' out r. on_request (Some ''permit c 140.*'') demo_session
       (Some [4, 1, 0, 80, 140, 113, 1, 2]) = Inr (s', out, StartConnect ''140.113.1.2'' ''80'' r)
     \<and> r ! 1 = 90"
proof -
  let ?bs = "[4, 1, 0, 80, 140, 113, 1, 2 :: byte]"
  have len: "8 \<le> length ?bs" by simp
  have ip: "request_ip ?bs = ''140.113.1.2''" and port: "dec_nat (request_port ?bs) = ''80''"
    by code_simp+
  have fw: "firewall_lines ''c'' ''140.113.1.2'' (getlines ''permit c 140.*'') = Inr 1"
    by code_simp
  let ?info = "parse_request (fill_buffer (ss_request demo_session) ?bs) (ss_sock_request demo_session)"
  have "mget ?info ''DST_IP'' = ''140.113.1.2''"
    using ip by (simp add: parse_request_IP fill_buffer_def request_ip_def)
  moreover have "mget ?info ''CD'' = ''c''"
    by (simp add: parse_request_CD fill_buffer_nth)
  ultimately obtain s' out where run: "on_request (Some ''permit c 140.*'') demo_session (Some ?bs)
      = Inr (s', out, StartConnect ''140.113.1.2'' ''80'' ([0, 90] @ take 6 (drop 2 ?bs)))"
    using fw ip port len by (simp add: on_request_bytes Let_def firewall_def)
  show ?thesis
    using run session_only_if_permitted [OF run len demo_session_CD disjI1 [OF refl]] by blast
qed

theorem unknown_command_rejected_witness:
  "\<exists>s' out. on_request (Some ''permit c *'') demo_session (Some [4, 7, 0, 80, 140, 113, 1, 2])
     = Inr (s', out, SendReply [0, 91, 0, 80, 140, 113, 1, 2])"
proof -
  have h: "\<forall>line\<in>set (getlines ''permit c *''). wf_rule line" by code_simp
  show ?thesis
    using unknown_command_rejected [of "[4, 7, 0, 80, 140, 113, 1, 2]" demo_session, OF _ _ _ demo_session_CD h]
    by simp
qed

end
