(* ===== verification/Socks_Relay.thy ===== *)
theory Socks_Relay
  imports Socks_Request
begin

text \<open>
  The relay of an accepted SOCKS4 session, \<^verbatim>\<open>HttpSession\<close> (CONNECT) and \<^verbatim>\<open>BindSession\<close> (BIND)
  of \<^verbatim>\<open>nctu_np_project4/socks_server.cpp\<close>.  Both pump bytes in two directions with
  asynchronous reads and sends; a completion handler is one step of the model, taken on the
  event the I/O service reports.  The section on one direction is the contract both classes
  implement; the locale \<open>relay_session\<close> proves its consequences once, and each class
  interprets it.
\<close>

section \<open>One direction of a relay, as a specification\<close>

text \<open>
  An operation in flight: none, a read, or a send of the first \<open>n\<close> bytes of the buffer.
  Events report its completion; a failed read is how the peer's end of stream shows up.
\<close>

datatype io_op = OpIdle | OpRead | OpWrite nat

datatype dir_event = Got "byte list" | ReadFailed | Wrote nat | WriteFailed

record direction =
  d_op :: io_op
  d_buf :: "byte list"
  d_sent :: "byte list"
  d_eof :: bool

fun dir_step :: "direction \<Rightarrow> dir_event \<Rightarrow> direction option" where
  "dir_step d (Got bs) =
     (if d_op d = OpRead \<and> 0 < length bs \<and> length bs \<le> 1024
      then Some (d\<lparr>d_buf := fill_buffer (d_buf d) bs, d_op := OpWrite (length bs)\<rparr>) else None)"
| "dir_step d ReadFailed =
     (if d_op d = OpRead then Some (d\<lparr>d_op := OpIdle, d_eof := True\<rparr>) else None)"
| "dir_step d (Wrote n) =
     (case d_op d of
        OpWrite r \<Rightarrow>
          if 0 < n \<and> n \<le> r
          then Some (d\<lparr>d_sent := d_sent d @ take n (take r (d_buf d)),
                       d_op := (if r \<noteq> n then OpWrite (r - n) else OpRead)\<rparr>)
          else None
      | _ \<Rightarrow> None)"
| "dir_step d WriteFailed =
     (case d_op d of OpWrite r \<Rightarrow> Some (d\<lparr>d_op := OpIdle\<rparr>) | _ \<Rightarrow> None)"

fun dir_run :: "direction \<Rightarrow> dir_event list \<Rightarrow> direction option" where
  "dir_run d [] = Some d"
| "dir_run d (e # es) = (case dir_step d e of None \<Rightarrow> None | Some d' \<Rightarrow> dir_run d' es)"

definition received :: "dir_event list \<Rightarrow> byte list" where
  "received es = concat (map (\<lambda>e. case e of Got bs \<Rightarrow> bs | _ \<Rightarrow> []) es)"

lemma received_simps [simp]:
  "received [] = []" "received (Got bs # es) = bs @ received es"
  "received (ReadFailed # es) = received es" "received (Wrote n # es) = received es"
  "received (WriteFailed # es) = received es"
  by (simp_all add: received_def)

text \<open>The bytes read and not yet sent, and what a complete send means.\<close>

definition in_flight :: "direction \<Rightarrow> byte list" where
  "in_flight d = (case d_op d of OpWrite r \<Rightarrow> take r (d_buf d) | _ \<Rightarrow> [])"

definition dir_wf :: "direction \<Rightarrow> bool" where
  "dir_wf d \<longleftrightarrow> length (d_buf d) = 1024 \<and> (\<forall>r. d_op d = OpWrite r \<longrightarrow> 0 < r \<and> r \<le> 1024)
     \<and> (d_eof d \<longrightarrow> d_op d = OpIdle)"

definition complete_send :: "direction \<Rightarrow> dir_event \<Rightarrow> bool" where
  "complete_send d e \<longleftrightarrow> (\<forall>n r. e = Wrote n \<and> d_op d = OpWrite r \<longrightarrow> n = r)"

fun all_complete :: "direction \<Rightarrow> dir_event list \<Rightarrow> bool" where
  "all_complete d [] = True"
| "all_complete d (e # es) =
     (complete_send d e \<and> (case dir_step d e of None \<Rightarrow> True | Some d' \<Rightarrow> all_complete d' es))"

definition no_write_failure :: "dir_event list \<Rightarrow> bool" where
  "no_write_failure es \<longleftrightarrow> WriteFailed \<notin> set es"

lemma no_write_failure_Cons [simp]:
  "no_write_failure (e # es) \<longleftrightarrow> e \<noteq> WriteFailed \<and> no_write_failure es"
  by (auto simp: no_write_failure_def)

lemma dir_step_wf: "dir_step d e = Some d' \<Longrightarrow> dir_wf d \<Longrightarrow> dir_wf d'"
  by (cases e) (auto simp: dir_wf_def length_fill_buffer split: if_splits io_op.splits)

text \<open>One step with a complete send moves the buffered bytes to the sent bytes unchanged.\<close>

lemma dir_step_transparent:
  assumes "dir_step d e = Some d'" and "dir_wf d" and "complete_send d e" and "e \<noteq> WriteFailed"
  shows "d_sent d' @ in_flight d' = d_sent d @ in_flight d @ received [e]"
  using assms
  by (cases e) (auto simp: in_flight_def complete_send_def dir_wf_def fill_buffer_def
      split: if_splits io_op.splits)

lemma dir_run_transparent:
  assumes "dir_run d es = Some d'" and "dir_wf d" and "all_complete d es" and "no_write_failure es"
  shows "d_sent d' @ in_flight d' = d_sent d @ in_flight d @ received es"
  using assms
proof (induction es arbitrary: d)
  case Nil
  then show ?case by simp
next
  case (Cons e es)
  from Cons.prems(1) obtain d1 where d1: "dir_step d e = Some d1" "dir_run d1 es = Some d'"
    by (auto split: option.splits)
  have "d_sent d' @ in_flight d' = d_sent d1 @ in_flight d1 @ received es"
    using Cons.prems d1 by (intro Cons.IH) (auto intro: dir_step_wf)
  also have "\<dots> = d_sent d @ in_flight d @ received (e # es)"
    using dir_step_transparent [OF d1(1)] Cons.prems by (cases e) auto
  finally show ?case .
qed

text \<open>Whatever the sizes of the sends, no byte is lost or added in number.\<close>

definition flight_size :: "direction \<Rightarrow> nat" where
  "flight_size d = (case d_op d of OpWrite r \<Rightarrow> r | _ \<Rightarrow> 0)"

lemma dir_step_count:
  assumes "dir_step d e = Some d'" and "dir_wf d" and "e \<noteq> WriteFailed"
  shows "length (d_sent d') + flight_size d' = length (d_sent d) + flight_size d + length (received [e])"
  using assms
  by (cases e) (auto simp: flight_size_def dir_wf_def split: if_splits io_op.splits)

lemma dir_run_count:
  assumes "dir_run d es = Some d'" and "dir_wf d" and "no_write_failure es"
  shows "length (d_sent d') + flight_size d' = length (d_sent d) + flight_size d + length (received es)"
  using assms
proof (induction es arbitrary: d)
  case (Cons e es)
  from Cons.prems(1) obtain d1 where d1: "dir_step d e = Some d1" "dir_run d1 es = Some d'"
    by (auto split: option.splits)
  have "length (d_sent d') + flight_size d' = length (d_sent d1) + flight_size d1 + length (received es)"
    using Cons.prems d1 by (intro Cons.IH) (auto intro: dir_step_wf)
  then show ?case
    using dir_step_count [OF d1(1)] Cons.prems by (cases e) auto
qed simp

text \<open>A direction comes to rest when its read or its send fails, and then takes no event any more.\<close>

definition over :: "dir_event list \<Rightarrow> bool" where
  "over es \<longleftrightarrow> ReadFailed \<in> set es \<or> WriteFailed \<in> set es"

lemma dir_step_idle: "d_op d = OpIdle \<Longrightarrow> dir_step d e = None"
  by (cases e) simp_all

lemma dir_step_over: "dir_step d e = Some d' \<Longrightarrow> d_op d' = OpIdle \<longleftrightarrow> over [e]"
  by (cases e) (auto simp: over_def split: if_splits io_op.splits)

lemma dir_run_over: "dir_run d es = Some d' \<Longrightarrow> d_op d \<noteq> OpIdle \<Longrightarrow> d_op d' = OpIdle \<longleftrightarrow> over es"
proof (induction es arbitrary: d)
  case (Cons e es)
  then obtain d1 where d1: "dir_step d e = Some d1" "dir_run d1 es = Some d'" by (auto split: option.splits)
  show ?case
  proof (cases "d_op d1 = OpIdle")
    case True
    then have "es = []" using d1(2) dir_step_idle [OF True] by (cases es) auto
    then show ?thesis using True d1 dir_step_over [OF d1(1)] by simp
  next
    case False
    then show ?thesis using Cons.IH [OF d1(2) False] dir_step_over [OF d1(1)] by (auto simp: over_def)
  qed
qed (simp add: over_def)

lemma dir_run_eof: "dir_run d es = Some d' \<Longrightarrow> d_eof d' \<longleftrightarrow> d_eof d \<or> ReadFailed \<in> set es"
proof (induction es arbitrary: d)
  case (Cons e es)
  then obtain d1 where d1: "dir_step d e = Some d1" "dir_run d1 es = Some d'" by (auto split: option.splits)
  have "d_eof d1 \<longleftrightarrow> d_eof d \<or> e = ReadFailed" using d1(1) by (cases e) (auto split: if_splits io_op.splits)
  then show ?case using Cons.IH [OF d1(2)] by auto
qed simp

definition ups :: "(dir_event + dir_event) list \<Rightarrow> dir_event list" where
  "ups evs = concat (map (case_sum (\<lambda>e. [e]) (\<lambda>_. [])) evs)"

definition downs :: "(dir_event + dir_event) list \<Rightarrow> dir_event list" where
  "downs evs = concat (map (case_sum (\<lambda>_. []) (\<lambda>e. [e])) evs)"

lemma ups_simps [simp]:
  "ups [] = []" "ups (Inl e # evs) = e # ups evs" "ups (Inr e # evs) = ups evs"
  by (simp_all add: ups_def)

lemma downs_simps [simp]:
  "downs [] = []" "downs (Inl e # evs) = downs evs" "downs (Inr e # evs) = e # downs evs"
  by (simp_all add: downs_def)

text \<open>The relay as a whole, as a specification: two directions and whether the sockets are closed.\<close>

type_synonym relay = "direction \<times> direction \<times> bool"

fun relay_step :: "relay \<Rightarrow> dir_event + dir_event \<Rightarrow> relay option" where
  "relay_step (u, d, c) (Inl e) =
     map_option (\<lambda>u'. (u', d, c \<or> d_op u' = OpIdle \<and> d_op d = OpIdle)) (dir_step u e)"
| "relay_step (u, d, c) (Inr e) =
     map_option (\<lambda>d'. (u, d', c \<or> d_op u = OpIdle \<and> d_op d' = OpIdle)) (dir_step d e)"

fun relay_run :: "relay \<Rightarrow> (dir_event + dir_event) list \<Rightarrow> relay option" where
  "relay_run r [] = Some r"
| "relay_run r (ev # evs) = (case relay_step r ev of None \<Rightarrow> None | Some r' \<Rightarrow> relay_run r' evs)"

section \<open>The contract of a relaying session\<close>

text \<open>
  A session steps on an event of one of its two directions.  It promises that each event is a
  step of that direction and leaves the other alone, that it takes every event the direction
  can take, that a direction at the end of its stream is idle, and that its two sockets get closed exactly when no
  operation of either direction is left.
\<close>

locale relay_session =
  fixes step :: "'s \<Rightarrow> dir_event + dir_event \<Rightarrow> 's option"
    and up :: "'s \<Rightarrow> direction"
    and down :: "'s \<Rightarrow> direction"
    and relaying :: "'s \<Rightarrow> bool"
    and shut :: "'s \<Rightarrow> bool"
  assumes step_up: "relaying s \<Longrightarrow> map_option (\<lambda>t. (up t, down t)) (step s (Inl e))
      = map_option (\<lambda>d. (d, down s)) (dir_step (up s) e)"
    and step_down: "relaying s \<Longrightarrow> map_option (\<lambda>t. (up t, down t)) (step s (Inr e))
      = map_option (\<lambda>d. (up s, d)) (dir_step (down s) e)"
    and step_relaying: "relaying s \<Longrightarrow> step s ev = Some t \<Longrightarrow> relaying t"
    and step_shut: "relaying s \<Longrightarrow> step s ev = Some t \<Longrightarrow> shut t \<longleftrightarrow>
      shut s \<or> d_op (up t) = OpIdle \<and> d_op (down t) = OpIdle"
begin

fun run :: "'s \<Rightarrow> (dir_event + dir_event) list \<Rightarrow> 's option" where
  "run s [] = Some s"
| "run s (ev # evs) = (case step s ev of None \<Rightarrow> None | Some t \<Rightarrow> run t evs)"

lemma step_upD:
  "relaying s \<Longrightarrow> step s (Inl e) = Some t \<Longrightarrow> dir_step (up s) e = Some (up t) \<and> down t = down s"
  using step_up [of s e] by (auto simp: map_option_case split: option.splits)

lemma step_downD:
  "relaying s \<Longrightarrow> step s (Inr e) = Some t \<Longrightarrow> dir_step (down s) e = Some (down t) \<and> up t = up s"
  using step_down [of s e] by (auto simp: map_option_case split: option.splits)

lemma step_None:
  assumes "relaying s"
  shows "step s (Inl e) = None \<longleftrightarrow> dir_step (up s) e = None"
    and "step s (Inr e) = None \<longleftrightarrow> dir_step (down s) e = None"
  using arg_cong [OF step_up [OF assms, of e], of "\<lambda>x. x = None"]
    arg_cong [OF step_down [OF assms, of e], of "\<lambda>x. x = None"] by simp_all

text \<open>A run of the session is a run of each direction on its own events.\<close>

lemma run_directions:
  assumes "relaying s" and "run s evs = Some t"
  shows "relaying t \<and> dir_run (up s) (ups evs) = Some (up t)
    \<and> dir_run (down s) (downs evs) = Some (down t)"
  using assms
proof (induction evs arbitrary: s)
  case Nil
  then show ?case by simp
next
  case (Cons ev evs)
  from Cons.prems(2) obtain s1 where s1: "step s ev = Some s1" "run s1 evs = Some t"
    by (auto split: option.splits)
  have "relaying s1" using Cons.prems(1) s1(1) by (rule step_relaying)
  note IH = Cons.IH [OF this s1(2)]
  show ?case
  proof (cases ev)
    case (Inl e)
    then show ?thesis
      using IH step_upD [OF Cons.prems(1), of e s1] s1(1) by simp
  next
    case (Inr e)
    then show ?thesis
      using IH step_downD [OF Cons.prems(1), of e s1] s1(1) by simp
  qed
qed

text \<open>The session refines the specification: its abstraction runs as \<^const>\<open>relay_run\<close>.\<close>

definition abs_relay :: "'s \<Rightarrow> relay" where
  "abs_relay s = (up s, down s, shut s)"

lemma step_refines:
  assumes "relaying s"
  shows "map_option abs_relay (step s ev) = relay_step (abs_relay s) ev"
proof (cases "step s ev")
  case None
  then show ?thesis
    using step_None [OF assms] by (cases ev) (simp_all add: abs_relay_def)
next
  case (Some t)
  note sh = step_shut [OF assms Some]
  show ?thesis
  proof (cases ev)
    case (Inl e)
    then have "dir_step (up s) e = Some (up t)" "down t = down s"
      using step_upD [OF assms] Some by simp_all
    with Some sh Inl show ?thesis by (auto simp: abs_relay_def)
  next
    case (Inr e)
    then have "dir_step (down s) e = Some (down t)" "up t = up s"
      using step_downD [OF assms] Some by simp_all
    with Some sh Inr show ?thesis by (auto simp: abs_relay_def)
  qed
qed

lemma run_refines:
  "relaying s \<Longrightarrow> map_option abs_relay (run s evs) = relay_run (abs_relay s) evs"
proof (induction evs arbitrary: s)
  case (Cons ev evs)
  show ?case
  proof (cases "step s ev")
    case None
    then show ?thesis using step_refines [OF Cons.prems, of ev] by (simp split: option.splits)
  next
    case (Some t)
    then have "relay_step (abs_relay s) ev = Some (abs_relay t)"
      using step_refines [OF Cons.prems, of ev] by simp
    then show ?thesis
      using Some Cons.IH [OF step_relaying [OF Cons.prems Some]] by simp
  qed
qed simp

text \<open>The sockets are closed exactly when neither direction has an operation in flight.\<close>

definition shut_ok :: "'s \<Rightarrow> bool" where
  "shut_ok s \<longleftrightarrow> (shut s \<longleftrightarrow> d_op (up s) = OpIdle \<and> d_op (down s) = OpIdle)"

lemma shut_quiescent:
  assumes "relaying s" and "shut_ok s" and "shut s"
  shows "step s ev = None"
  using assms step_None [OF assms(1)] dir_step_idle by (cases ev) (auto simp: shut_ok_def)

lemma step_shut_ok: "relaying s \<Longrightarrow> step s ev = Some t \<Longrightarrow> shut_ok s \<Longrightarrow> shut_ok t"
  using step_shut [of s ev t] shut_quiescent [of s ev] by (auto simp: shut_ok_def)

lemma run_shut_ok:
  assumes "relaying s" and "run s evs = Some t" and "shut_ok s"
  shows "shut_ok t"
  using assms
proof (induction evs arbitrary: s)
  case (Cons ev evs)
  then show ?case
    by (auto split: option.splits intro: step_relaying step_shut_ok)
qed simp

text \<open>With complete sends the relay is transparent in each direction.\<close>

lemma run_transparent:
  assumes "relaying s" and "run s evs = Some t" and "dir_wf (up s)" and "dir_wf (down s)"
    and "all_complete (up s) (ups evs)" and "no_write_failure (ups evs)"
    and "all_complete (down s) (downs evs)" and "no_write_failure (downs evs)"
  shows "d_sent (up t) @ in_flight (up t) = d_sent (up s) @ in_flight (up s) @ received (ups evs)
    \<and> d_sent (down t) @ in_flight (down t) = d_sent (down s) @ in_flight (down s) @ received (downs evs)"
  using run_directions [OF assms(1,2)] assms dir_run_transparent by blast

end

section \<open>CONNECT: HttpSession\<close>

text \<open>A TCP socket as the sessions use it: what was sent on it, what was shut down.\<close>

record sock =
  sk_sent :: "byte list"
  sk_rcv_shut :: bool
  sk_snd_shut :: bool
  sk_closed :: bool

definition fresh_sock :: sock where
  "fresh_sock = \<lparr>sk_sent = [], sk_rcv_shut = False, sk_snd_shut = False, sk_closed = False\<rparr>"

definition sock_send :: "byte list \<Rightarrow> sock \<Rightarrow> sock" where
  "sock_send bs k = k\<lparr>sk_sent := sk_sent k @ bs\<rparr>"

datatype http_phase = HResolving | HConnecting | HReplying | HRelaying | HFailed

record http_session =
  hs_in_socket :: sock
  hs_out_socket :: sock
  hs_ip :: string
  hs_port :: string
  hs_reply :: "byte list"
  hs_read_data :: "byte list"
  hs_write_data :: "byte list"
  hs_flag1 :: bool
  hs_flag2 :: bool
  hs_phase :: http_phase
  hs_in_op :: io_op
  hs_out_op :: io_op
  hs_cout :: string

text \<open>
  Events: the resolver and the connector report success or an error message, the reply's send
  completes, and the two directions report their reads and sends.
\<close>

datatype http_event =
    Resolved "string option"
  | Connected "string option"
  | ReplySent "nat option"
  | HIn dir_event
  | HOut dir_event

definition http_start :: "sock \<Rightarrow> string \<Rightarrow> string \<Rightarrow> byte list \<Rightarrow> byte list \<Rightarrow> byte list \<Rightarrow> http_session" where
  "http_start socket ip port reply rbuf wbuf =
     \<lparr>hs_in_socket = socket, hs_out_socket = fresh_sock, hs_ip = ip, hs_port = port,
      hs_reply = reply, hs_read_data = rbuf, hs_write_data = wbuf, hs_flag1 = False,
      hs_flag2 = False, hs_phase = HResolving, hs_in_op = OpIdle, hs_out_op = OpIdle, hs_cout = []\<rparr>"

definition http_in_do_read :: "http_session \<Rightarrow> http_session" where
  "http_in_do_read s = s\<lparr>hs_in_op := OpRead\<rparr>"

definition http_in_do_write :: "nat \<Rightarrow> http_session \<Rightarrow> http_session" where
  "http_in_do_write r_length s = s\<lparr>hs_in_op := OpWrite r_length\<rparr>"

definition http_out_do_read :: "http_session \<Rightarrow> http_session" where
  "http_out_do_read s = s\<lparr>hs_out_op := OpRead\<rparr>"

definition http_out_do_write :: "nat \<Rightarrow> http_session \<Rightarrow> http_session" where
  "http_out_do_write r_length s = s\<lparr>hs_out_op := OpWrite r_length\<rparr>"

text \<open>
  Every operation in flight keeps the session alive by its shared pointer.  A handler that starts no other operation
  lets go of its own: with none left in the other direction either the session is destroyed, and the destructors of
  the sockets close them.
\<close>

definition http_release :: "http_session \<Rightarrow> http_session" where
  "http_release s =
     (if hs_in_op s = OpIdle \<and> hs_out_op s = OpIdle
      then s\<lparr>hs_in_socket := (hs_in_socket s)\<lparr>sk_closed := True\<rparr>, hs_out_socket := (hs_out_socket s)\<lparr>sk_closed := True\<rparr>\<rparr> else s)"

text \<open>The resolver's and the connector's handlers of \<^verbatim>\<open>do_connect\<close>.\<close>

definition http_on_resolved :: "string option \<Rightarrow> http_session \<Rightarrow> http_session" where
  "http_on_resolved ec s =
     (case ec of
        None \<Rightarrow> s\<lparr>hs_phase := HConnecting\<rparr>
      | Some msg \<Rightarrow> http_release (s\<lparr>hs_phase := HFailed, hs_cout := hs_cout s @ ''RESOLVE ERROR: '' @ msg @ [NL]\<rparr>))"

definition http_on_connected :: "string option \<Rightarrow> http_session \<Rightarrow> http_session" where
  "http_on_connected ec s =
     (case ec of
        None \<Rightarrow> s\<lparr>hs_phase := HReplying\<rparr>
      | Some msg \<Rightarrow> http_release (s\<lparr>hs_phase := HFailed, hs_cout := hs_cout s @ ''CONNECT ERROR: '' @ msg @ [NL]\<rparr>))"

definition http_socks_reply_done :: "nat option \<Rightarrow> http_session \<Rightarrow> http_session" where
  "http_socks_reply_done sent s =
     (case sent of
        Some n \<Rightarrow>
          http_out_do_read (http_in_do_read
            (s\<lparr>hs_in_socket := sock_send (take n (take 8 (hs_reply s))) (hs_in_socket s),
               hs_phase := HRelaying\<rparr>))
      | None \<Rightarrow> http_release (s\<lparr>hs_phase := HFailed\<rparr>))"

text \<open>The completion handlers of the two directions.\<close>

definition http_in_read_done :: "byte list option \<Rightarrow> http_session \<Rightarrow> http_session" where
  "http_in_read_done rd s =
     (case rd of
        Some bs \<Rightarrow>
          http_in_do_write (length bs) (s\<lparr>hs_write_data := fill_buffer (hs_write_data s) bs\<rparr>)
      | None \<Rightarrow>
          (let s = s\<lparr>hs_in_op := OpIdle, hs_flag1 := True,
                     hs_in_socket := (hs_in_socket s)\<lparr>sk_rcv_shut := True\<rparr>,
                     hs_out_socket := (hs_out_socket s)\<lparr>sk_snd_shut := True\<rparr>\<rparr>
           in http_release
                (if hs_flag2 s
                 then s\<lparr>hs_in_socket := (hs_in_socket s)\<lparr>sk_closed := True\<rparr>,
                        hs_out_socket := (hs_out_socket s)\<lparr>sk_closed := True\<rparr>\<rparr>
                 else s)))"

definition http_in_write_done :: "nat \<Rightarrow> nat option \<Rightarrow> http_session \<Rightarrow> http_session" where
  "http_in_write_done r_length sent s =
     (case sent of
        Some s_length \<Rightarrow>
          (let s = s\<lparr>hs_out_socket :=
                       sock_send (take s_length (take r_length (hs_write_data s))) (hs_out_socket s)\<rparr>
           in if r_length \<noteq> s_length then http_in_do_write (r_length - s_length) s
              else http_in_do_read s)
      | None \<Rightarrow> http_release (s\<lparr>hs_in_op := OpIdle\<rparr>))"

definition http_out_read_done :: "byte list option \<Rightarrow> http_session \<Rightarrow> http_session" where
  "http_out_read_done rd s =
     (case rd of
        Some bs \<Rightarrow>
          http_out_do_write (length bs) (s\<lparr>hs_read_data := fill_buffer (hs_read_data s) bs\<rparr>)
      | None \<Rightarrow>
          (let s = s\<lparr>hs_out_op := OpIdle, hs_flag2 := True,
                     hs_out_socket := (hs_out_socket s)\<lparr>sk_rcv_shut := True\<rparr>,
                     hs_in_socket := (hs_in_socket s)\<lparr>sk_snd_shut := True\<rparr>\<rparr>
           in http_release
                (if hs_flag1 s
                 then s\<lparr>hs_in_socket := (hs_in_socket s)\<lparr>sk_closed := True\<rparr>,
                        hs_out_socket := (hs_out_socket s)\<lparr>sk_closed := True\<rparr>\<rparr>
                 else s)))"

definition http_out_write_done :: "nat \<Rightarrow> nat option \<Rightarrow> http_session \<Rightarrow> http_session" where
  "http_out_write_done r_length sent s =
     (case sent of
        Some s_length \<Rightarrow>
          (let s = s\<lparr>hs_in_socket :=
                       sock_send (take s_length (take r_length (hs_read_data s))) (hs_in_socket s)\<rparr>
           in if r_length \<noteq> s_length then http_out_do_write (r_length - s_length) s
              else http_out_do_read s)
      | None \<Rightarrow> http_release (s\<lparr>hs_out_op := OpIdle\<rparr>))"

text \<open>
  The session takes an event only while the operation it completes is in flight; a successful
  read into the 1024-byte buffer yields between 1 and 1024 bytes, a send of \<open>r\<close> bytes between
  1 and \<open>r\<close>.
\<close>

fun http_step :: "http_session \<Rightarrow> http_event \<Rightarrow> http_session option" where
  "http_step s (Resolved ec) =
     (if hs_phase s = HResolving then Some (http_on_resolved ec s) else None)"
| "http_step s (Connected ec) =
     (if hs_phase s = HConnecting then Some (http_on_connected ec s) else None)"
| "http_step s (ReplySent n) =
     (if hs_phase s = HReplying then Some (http_socks_reply_done n s) else None)"
| "http_step s (HIn (Got bs)) =
     (if hs_in_op s = OpRead \<and> 0 < length bs \<and> length bs \<le> 1024
      then Some (http_in_read_done (Some bs) s) else None)"
| "http_step s (HIn ReadFailed) =
     (if hs_in_op s = OpRead then Some (http_in_read_done None s) else None)"
| "http_step s (HIn (Wrote n)) =
     (case hs_in_op s of
        OpWrite r \<Rightarrow> if 0 < n \<and> n \<le> r then Some (http_in_write_done r (Some n) s) else None
      | _ \<Rightarrow> None)"
| "http_step s (HIn WriteFailed) =
     (case hs_in_op s of OpWrite r \<Rightarrow> Some (http_in_write_done r None s) | _ \<Rightarrow> None)"
| "http_step s (HOut (Got bs)) =
     (if hs_out_op s = OpRead \<and> 0 < length bs \<and> length bs \<le> 1024
      then Some (http_out_read_done (Some bs) s) else None)"
| "http_step s (HOut ReadFailed) =
     (if hs_out_op s = OpRead then Some (http_out_read_done None s) else None)"
| "http_step s (HOut (Wrote n)) =
     (case hs_out_op s of
        OpWrite r \<Rightarrow> if 0 < n \<and> n \<le> r then Some (http_out_write_done r (Some n) s) else None
      | _ \<Rightarrow> None)"
| "http_step s (HOut WriteFailed) =
     (case hs_out_op s of OpWrite r \<Rightarrow> Some (http_out_write_done r None s) | _ \<Rightarrow> None)"

fun http_run :: "http_session \<Rightarrow> http_event list \<Rightarrow> http_session option" where
  "http_run s [] = Some s"
| "http_run s (ev # evs) = (case http_step s ev of None \<Rightarrow> None | Some t \<Rightarrow> http_run t evs)"

text \<open>The two directions of the session, and its instance of the contract.\<close>

definition http_up :: "http_session \<Rightarrow> direction" where
  "http_up s = \<lparr>d_op = hs_in_op s, d_buf = hs_write_data s, d_sent = sk_sent (hs_out_socket s),
     d_eof = hs_flag1 s\<rparr>"

definition http_down :: "http_session \<Rightarrow> direction" where
  "http_down s = \<lparr>d_op = hs_out_op s, d_buf = hs_read_data s, d_sent = sk_sent (hs_in_socket s),
     d_eof = hs_flag2 s\<rparr>"

definition http_dir_event :: "dir_event + dir_event \<Rightarrow> http_event" where
  "http_dir_event = case_sum HIn HOut"

definition http_shut :: "http_session \<Rightarrow> bool" where
  "http_shut s \<longleftrightarrow> sk_closed (hs_in_socket s) \<and> sk_closed (hs_out_socket s)"

text \<open>A session that relays; a direction that is at the end of its stream has no operation in flight.\<close>

definition http_relaying :: "http_session \<Rightarrow> bool" where
  "http_relaying s \<longleftrightarrow> hs_phase s = HRelaying \<and> (hs_flag1 s \<longrightarrow> hs_in_op s = OpIdle) \<and> (hs_flag2 s \<longrightarrow> hs_out_op s = OpIdle)"

lemmas http_handler_defs =
  http_in_do_read_def http_in_do_write_def http_out_do_read_def http_out_do_write_def
  http_on_resolved_def http_on_connected_def http_socks_reply_done_def
  http_in_read_done_def http_in_write_done_def http_out_read_done_def http_out_write_done_def
  http_release_def sock_send_def Let_def

interpretation http: relay_session
  "\<lambda>s ev. http_step s (http_dir_event ev)" http_up http_down http_relaying http_shut
proof (unfold_locales, goal_cases)
  case (1 s e)
  then show ?case
    by (cases e) (auto simp: http_dir_event_def http_up_def http_down_def http_handler_defs
        split: io_op.splits)
next
  case (2 s e)
  then show ?case
    by (cases e) (auto simp: http_dir_event_def http_up_def http_down_def http_handler_defs
        split: io_op.splits)
next
  case (3 s ev t)
  then show ?case
    by (cases "(s, http_dir_event ev)" rule: http_step.cases)
      (auto simp: http_dir_event_def http_handler_defs http_relaying_def split: if_splits io_op.splits sum.splits)
next
  case (4 s ev t)
  then show ?case
    by (cases "(s, http_dir_event ev)" rule: http_step.cases)
      (auto simp: http_dir_event_def http_handler_defs http_relaying_def http_shut_def http_up_def http_down_def
        split: if_splits io_op.splits sum.splits)
qed

section \<open>BIND: BindSession\<close>

datatype bind_phase = BReplying | BAccepting | BReplying2 | BRelaying | BFailed

record bind_session =
  bs_read_data :: "byte list"
  bs_write_data :: "byte list"
  bs_acceptor :: "16 word option"
  bs_socket :: sock
  bs_rsocket :: sock
  bs_ip :: string
  bs_port :: string
  bs_reply :: "byte list"
  bs_flag1 :: bool
  bs_flag2 :: bool
  bs_phase :: bind_phase
  bs_in_op :: io_op
  bs_out_op :: io_op
  bs_cerr :: string

datatype bind_event =
    BReplySent "nat + string"
  | BAccepted bool
  | BReply2Sent "nat option"
  | BIn dir_event
  | BOut dir_event

text \<open>
  The constructor and \<^verbatim>\<open>do_connect\<close>: the acceptor listens on a port of the system's choice
  (\<open>port\<close>), which goes into bytes 2 and 3 of the reply.
\<close>

definition bind_init :: "sock \<Rightarrow> string \<Rightarrow> string \<Rightarrow> byte list \<Rightarrow> byte list \<Rightarrow> byte list \<Rightarrow> bind_session" where
  "bind_init socket ip port reply rbuf wbuf =
     \<lparr>bs_read_data = rbuf, bs_write_data = wbuf, bs_acceptor = None, bs_socket = socket,
      bs_rsocket = fresh_sock, bs_ip = ip, bs_port = port, bs_reply = reply, bs_flag1 = False,
      bs_flag2 = False, bs_phase = BReplying, bs_in_op = OpIdle, bs_out_op = OpIdle, bs_cerr = []\<rparr>"

definition bind_do_connect :: "16 word \<Rightarrow> bind_session \<Rightarrow> bind_session" where
  "bind_do_connect port s =
     s\<lparr>bs_acceptor := Some port,
       bs_reply := (bs_reply s)[2 := of_nat (unat port div 256), 3 := of_nat (unat port mod 256)],
       bs_phase := BReplying\<rparr>"

text \<open>
  Every operation in flight keeps the session alive by its shared pointer.  A handler that starts no other operation
  lets go of its own: with none left in the other direction either the session is destroyed, and the destructors of
  the sockets close them.
\<close>

definition bind_release :: "bind_session \<Rightarrow> bind_session" where
  "bind_release s =
     (if bs_in_op s = OpIdle \<and> bs_out_op s = OpIdle
      then s\<lparr>bs_socket := (bs_socket s)\<lparr>sk_closed := True\<rparr>, bs_rsocket := (bs_rsocket s)\<lparr>sk_closed := True\<rparr>\<rparr> else s)"

definition bind_do_reply_done :: "nat + string \<Rightarrow> bind_session \<Rightarrow> bind_session" where
  "bind_do_reply_done ec s =
     (case ec of
        Inl n \<Rightarrow> s\<lparr>bs_socket := sock_send (take n (take 8 (bs_reply s))) (bs_socket s),
                   bs_phase := BAccepting\<rparr>
      | Inr msg \<Rightarrow>
          bind_release (s\<lparr>bs_phase := BFailed, bs_cerr := bs_cerr s @ ''send reply error: '' @ msg @ [NL]\<rparr>))"

definition bind_in_do_read :: "bind_session \<Rightarrow> bind_session" where
  "bind_in_do_read s = s\<lparr>bs_in_op := OpRead\<rparr>"

definition bind_in_do_write :: "nat \<Rightarrow> bind_session \<Rightarrow> bind_session" where
  "bind_in_do_write r_length s = s\<lparr>bs_in_op := OpWrite r_length\<rparr>"

definition bind_out_do_read :: "bind_session \<Rightarrow> bind_session" where
  "bind_out_do_read s = s\<lparr>bs_out_op := OpRead\<rparr>"

definition bind_out_do_write :: "nat \<Rightarrow> bind_session \<Rightarrow> bind_session" where
  "bind_out_do_write r_length s = s\<lparr>bs_out_op := OpWrite r_length\<rparr>"

text \<open>The two nested handlers of \<^verbatim>\<open>do_accept\<close>.\<close>

definition bind_on_accept :: "bool \<Rightarrow> bind_session \<Rightarrow> bind_session" where
  "bind_on_accept ok s = (if ok then s\<lparr>bs_phase := BReplying2\<rparr> else bind_release (s\<lparr>bs_phase := BFailed\<rparr>))"

definition bind_reply2_done :: "nat option \<Rightarrow> bind_session \<Rightarrow> bind_session" where
  "bind_reply2_done sent s =
     (case sent of
        Some n \<Rightarrow>
          bind_in_do_read (bind_out_do_read
            (s\<lparr>bs_socket := sock_send (take n (take 8 (bs_reply s))) (bs_socket s),
               bs_phase := BRelaying\<rparr>))
      | None \<Rightarrow> bind_release (s\<lparr>bs_phase := BFailed\<rparr>))"

definition bind_in_read_done :: "byte list option \<Rightarrow> bind_session \<Rightarrow> bind_session" where
  "bind_in_read_done rd s =
     (case rd of
        Some bs \<Rightarrow>
          bind_in_do_write (length bs) (s\<lparr>bs_write_data := fill_buffer (bs_write_data s) bs\<rparr>)
      | None \<Rightarrow>
          (let s = s\<lparr>bs_in_op := OpIdle, bs_flag1 := True,
                     bs_socket := (bs_socket s)\<lparr>sk_rcv_shut := True\<rparr>,
                     bs_rsocket := (bs_rsocket s)\<lparr>sk_snd_shut := True\<rparr>\<rparr>
           in bind_release
                (if bs_flag2 s
                 then s\<lparr>bs_socket := (bs_socket s)\<lparr>sk_closed := True\<rparr>,
                        bs_rsocket := (bs_rsocket s)\<lparr>sk_closed := True\<rparr>\<rparr>
                 else s)))"

definition bind_in_write_done :: "nat \<Rightarrow> nat option \<Rightarrow> bind_session \<Rightarrow> bind_session" where
  "bind_in_write_done r_length sent s =
     (case sent of
        Some s_length \<Rightarrow>
          (let s = s\<lparr>bs_rsocket :=
                       sock_send (take s_length (take r_length (bs_write_data s))) (bs_rsocket s)\<rparr>
           in if r_length \<noteq> s_length then bind_in_do_write (r_length - s_length) s
              else bind_in_do_read s)
      | None \<Rightarrow> bind_release (s\<lparr>bs_in_op := OpIdle\<rparr>))"

definition bind_out_read_done :: "byte list option \<Rightarrow> bind_session \<Rightarrow> bind_session" where
  "bind_out_read_done rd s =
     (case rd of
        Some bs \<Rightarrow>
          bind_out_do_write (length bs) (s\<lparr>bs_read_data := fill_buffer (bs_read_data s) bs\<rparr>)
      | None \<Rightarrow>
          (let s = s\<lparr>bs_out_op := OpIdle, bs_flag2 := True,
                     bs_rsocket := (bs_rsocket s)\<lparr>sk_rcv_shut := True\<rparr>,
                     bs_socket := (bs_socket s)\<lparr>sk_snd_shut := True\<rparr>\<rparr>
           in bind_release
                (if bs_flag1 s
                 then s\<lparr>bs_socket := (bs_socket s)\<lparr>sk_closed := True\<rparr>,
                        bs_rsocket := (bs_rsocket s)\<lparr>sk_closed := True\<rparr>\<rparr>
                 else s)))"

definition bind_out_write_done :: "nat \<Rightarrow> nat option \<Rightarrow> bind_session \<Rightarrow> bind_session" where
  "bind_out_write_done r_length sent s =
     (case sent of
        Some s_length \<Rightarrow>
          (let s = s\<lparr>bs_socket :=
                       sock_send (take s_length (take r_length (bs_read_data s))) (bs_socket s)\<rparr>
           in if r_length \<noteq> s_length then bind_out_do_write (r_length - s_length) s
              else bind_out_do_read s)
      | None \<Rightarrow> bind_release (s\<lparr>bs_out_op := OpIdle\<rparr>))"

fun bind_step :: "bind_session \<Rightarrow> bind_event \<Rightarrow> bind_session option" where
  "bind_step s (BReplySent ec) =
     (if bs_phase s = BReplying then Some (bind_do_reply_done ec s) else None)"
| "bind_step s (BAccepted ok) =
     (if bs_phase s = BAccepting then Some (bind_on_accept ok s) else None)"
| "bind_step s (BReply2Sent n) =
     (if bs_phase s = BReplying2 then Some (bind_reply2_done n s) else None)"
| "bind_step s (BIn (Got bs)) =
     (if bs_in_op s = OpRead \<and> 0 < length bs \<and> length bs \<le> 1024
      then Some (bind_in_read_done (Some bs) s) else None)"
| "bind_step s (BIn ReadFailed) =
     (if bs_in_op s = OpRead then Some (bind_in_read_done None s) else None)"
| "bind_step s (BIn (Wrote n)) =
     (case bs_in_op s of
        OpWrite r \<Rightarrow> if 0 < n \<and> n \<le> r then Some (bind_in_write_done r (Some n) s) else None
      | _ \<Rightarrow> None)"
| "bind_step s (BIn WriteFailed) =
     (case bs_in_op s of OpWrite r \<Rightarrow> Some (bind_in_write_done r None s) | _ \<Rightarrow> None)"
| "bind_step s (BOut (Got bs)) =
     (if bs_out_op s = OpRead \<and> 0 < length bs \<and> length bs \<le> 1024
      then Some (bind_out_read_done (Some bs) s) else None)"
| "bind_step s (BOut ReadFailed) =
     (if bs_out_op s = OpRead then Some (bind_out_read_done None s) else None)"
| "bind_step s (BOut (Wrote n)) =
     (case bs_out_op s of
        OpWrite r \<Rightarrow> if 0 < n \<and> n \<le> r then Some (bind_out_write_done r (Some n) s) else None
      | _ \<Rightarrow> None)"
| "bind_step s (BOut WriteFailed) =
     (case bs_out_op s of OpWrite r \<Rightarrow> Some (bind_out_write_done r None s) | _ \<Rightarrow> None)"

fun bind_run :: "bind_session \<Rightarrow> bind_event list \<Rightarrow> bind_session option" where
  "bind_run s [] = Some s"
| "bind_run s (ev # evs) = (case bind_step s ev of None \<Rightarrow> None | Some t \<Rightarrow> bind_run t evs)"

definition bind_up :: "bind_session \<Rightarrow> direction" where
  "bind_up s = \<lparr>d_op = bs_in_op s, d_buf = bs_write_data s, d_sent = sk_sent (bs_rsocket s),
     d_eof = bs_flag1 s\<rparr>"

definition bind_down :: "bind_session \<Rightarrow> direction" where
  "bind_down s = \<lparr>d_op = bs_out_op s, d_buf = bs_read_data s, d_sent = sk_sent (bs_socket s),
     d_eof = bs_flag2 s\<rparr>"

definition bind_dir_event :: "dir_event + dir_event \<Rightarrow> bind_event" where
  "bind_dir_event = case_sum BIn BOut"

definition bind_shut :: "bind_session \<Rightarrow> bool" where
  "bind_shut s \<longleftrightarrow> sk_closed (bs_socket s) \<and> sk_closed (bs_rsocket s)"

text \<open>A session that relays; a direction that is at the end of its stream has no operation in flight.\<close>

definition bind_relaying :: "bind_session \<Rightarrow> bool" where
  "bind_relaying s \<longleftrightarrow> bs_phase s = BRelaying \<and> (bs_flag1 s \<longrightarrow> bs_in_op s = OpIdle) \<and> (bs_flag2 s \<longrightarrow> bs_out_op s = OpIdle)"

lemmas bind_handler_defs =
  bind_in_do_read_def bind_in_do_write_def bind_out_do_read_def bind_out_do_write_def
  bind_do_reply_done_def bind_on_accept_def bind_reply2_done_def
  bind_in_read_done_def bind_in_write_done_def bind_out_read_done_def bind_out_write_done_def
  bind_release_def sock_send_def Let_def

interpretation bindr: relay_session
  "\<lambda>s ev. bind_step s (bind_dir_event ev)" bind_up bind_down bind_relaying bind_shut
proof (unfold_locales, goal_cases)
  case (1 s e)
  then show ?case
    by (cases e) (auto simp: bind_dir_event_def bind_up_def bind_down_def bind_handler_defs
        split: io_op.splits)
next
  case (2 s e)
  then show ?case
    by (cases e) (auto simp: bind_dir_event_def bind_up_def bind_down_def bind_handler_defs
        split: io_op.splits)
next
  case (3 s ev t)
  then show ?case
    by (cases "(s, bind_dir_event ev)" rule: bind_step.cases)
      (auto simp: bind_dir_event_def bind_handler_defs bind_relaying_def split: if_splits io_op.splits sum.splits)
next
  case (4 s ev t)
  then show ?case
    by (cases "(s, bind_dir_event ev)" rule: bind_step.cases)
      (auto simp: bind_dir_event_def bind_handler_defs bind_relaying_def bind_shut_def bind_up_def bind_down_def
        split: if_splits io_op.splits sum.splits)
qed

section \<open>What the sessions guarantee\<close>

lemma http_run_eq: "http.run s evs = http_run s (map http_dir_event evs)"
  by (induction evs arbitrary: s) (auto split: option.splits)

lemma bind_run_eq: "bindr.run s evs = bind_run s (map bind_dir_event evs)"
  by (induction evs arbitrary: s) (auto split: option.splits)

definition http_abs :: "http_session \<Rightarrow> relay" where
  "http_abs s = (http_up s, http_down s, http_shut s)"

definition bind_abs :: "bind_session \<Rightarrow> relay" where
  "bind_abs s = (bind_up s, bind_down s, bind_shut s)"

lemma http_abs_eq: "http_abs = http.abs_relay"
  by (simp add: fun_eq_iff http_abs_def http.abs_relay_def)

lemma bind_abs_eq: "bind_abs = bindr.abs_relay"
  by (simp add: fun_eq_iff bind_abs_def bindr.abs_relay_def)

text \<open>What a session has shut down: each end of stream shuts its own direction on both sockets.\<close>

definition http_half :: "http_session \<Rightarrow> bool" where
  "http_half s \<longleftrightarrow> sk_rcv_shut (hs_in_socket s) = hs_flag1 s \<and> sk_snd_shut (hs_out_socket s) = hs_flag1 s
     \<and> sk_rcv_shut (hs_out_socket s) = hs_flag2 s \<and> sk_snd_shut (hs_in_socket s) = hs_flag2 s"

lemma http_handlers_half:
  "http_half s \<Longrightarrow> http_half (http_on_resolved ec s)" "http_half s \<Longrightarrow> http_half (http_on_connected ec s)"
  "http_half s \<Longrightarrow> http_half (http_socks_reply_done n s)"
  "http_half s \<Longrightarrow> http_half (http_in_read_done rd s)" "http_half s \<Longrightarrow> http_half (http_out_read_done rd s)"
  "http_half s \<Longrightarrow> http_half (http_in_write_done r n s)" "http_half s \<Longrightarrow> http_half (http_out_write_done r n s)"
  by (simp_all add: http_handler_defs http_half_def split: option.split)

lemma http_step_half: "http_step s ev = Some t \<Longrightarrow> http_half s \<Longrightarrow> http_half t"
  by (cases "(s, ev)" rule: http_step.cases) (auto intro: http_handlers_half split: if_splits io_op.splits)

lemma http_run_half: "http_run s evs = Some t \<Longrightarrow> http_half s \<Longrightarrow> http_half t"
  by (induction evs arbitrary: s) (auto split: option.splits dest: http_step_half)

text \<open>A session right after its reply went out: two reads in flight, nothing relayed yet.\<close>

definition http_ready :: "http_session \<Rightarrow> byte list \<Rightarrow> bool" where
  "http_ready s reply \<longleftrightarrow> hs_phase s = HRelaying \<and> hs_in_op s = OpRead \<and> hs_out_op s = OpRead
     \<and> length (hs_read_data s) = 1024 \<and> length (hs_write_data s) = 1024
     \<and> \<not> hs_flag1 s \<and> \<not> hs_flag2 s \<and> http_half s \<and> sk_sent (hs_out_socket s) = []
     \<and> sk_sent (hs_in_socket s) = reply \<and> \<not> http_shut s"

lemma http_ready_reached:
  assumes "length rbuf = 1024" and "length wbuf = 1024" and "length reply = 8"
  shows "\<exists>s. http_run (http_start fresh_sock ip port reply rbuf wbuf)
      [Resolved None, Connected None, ReplySent (Some 8)] = Some s \<and> http_ready s reply"
  using assms
  by (simp add: http_start_def http_handler_defs http_ready_def http_half_def http_shut_def fresh_sock_def)

lemma http_ready_wf: "http_ready s reply \<Longrightarrow> dir_wf (http_up s) \<and> dir_wf (http_down s)"
  by (simp add: http_ready_def dir_wf_def http_up_def http_down_def)

text \<open>
  C34.  As long as every send is complete and none fails, a CONNECT session is a transparent
  pipe: whatever the interleaving of the events of the two directions, the destination has
  been sent exactly the client's bytes in order (up to what is still buffered), and the client
  the reply followed by exactly the destination's bytes.
\<close>

theorem connect_relay_transparent:
  assumes "http_ready s reply" and "http_run s (map http_dir_event evs) = Some t"
    and "all_complete (http_up s) (ups evs)" and "no_write_failure (ups evs)"
    and "all_complete (http_down s) (downs evs)" and "no_write_failure (downs evs)"
  shows "sk_sent (hs_out_socket t) @ in_flight (http_up t) = received (ups evs)
    \<and> sk_sent (hs_in_socket t) @ in_flight (http_down t) = reply @ received (downs evs)"
proof -
  have "http_relaying s" using assms(1) by (simp add: http_ready_def http_relaying_def)
  from http.run_transparent [OF this, of evs t] show ?thesis
    using assms http_ready_wf [OF assms(1)]
    by (simp add: http_run_eq) (simp add: http_ready_def http_up_def http_down_def in_flight_def)
qed

definition demo_connect :: http_session where
  "demo_connect =
     (http_start fresh_sock ''140.113.1.2'' ''80'' [0, 90, 0, 80, 140, 113, 1, 2]
        (replicate 1024 0) (replicate 1024 0))
     \<lparr>hs_phase := HRelaying, hs_in_op := OpRead, hs_out_op := OpRead,
      hs_in_socket := fresh_sock\<lparr>sk_sent := [0, 90, 0, 80, 140, 113, 1, 2]\<rparr>\<rparr>"

lemma demo_connect_ready: "http_ready demo_connect [0, 90, 0, 80, 140, 113, 1, 2]"
  by (simp add: demo_connect_def http_start_def http_ready_def http_half_def http_shut_def fresh_sock_def)

definition demo_evs :: "(dir_event + dir_event) list" where
  "demo_evs = [Inl (Got [71, 69]), Inr (Got [72]), Inl (Wrote 2), Inr (Wrote 1), Inl (Got [84])]"

theorem connect_relay_transparent_witness:
  "\<exists>t. http_run demo_connect (map http_dir_event demo_evs) = Some t
     \<and> sk_sent (hs_out_socket t) @ in_flight (http_up t) = [71, 69, 84]
     \<and> sk_sent (hs_in_socket t) @ in_flight (http_down t) = [0, 90, 0, 80, 140, 113, 1, 2, 72]"
proof -
  have ups: "ups demo_evs = [Got [71, 69], Wrote 2, Got [84]]"
    and downs: "downs demo_evs = [Got [72], Wrote 1]"
    by (simp_all add: demo_evs_def)
  obtain t where run: "http_run demo_connect (map http_dir_event demo_evs) = Some t"
    by (simp add: demo_evs_def demo_connect_def http_start_def http_dir_event_def http_handler_defs)
  have "all_complete (http_up demo_connect) (ups demo_evs)"
    and "all_complete (http_down demo_connect) (downs demo_evs)"
    by (simp_all add: ups downs complete_send_def http_up_def http_down_def demo_connect_def http_start_def)
  moreover have "no_write_failure (ups demo_evs)" "no_write_failure (downs demo_evs)"
    by (simp_all add: ups downs no_write_failure_def)
  ultimately show ?thesis
    using run connect_relay_transparent [OF demo_connect_ready run] by (simp add: ups downs)
qed

text \<open>
  A short send corrupts the stream: after \<open>n < r\<close> bytes went out, the retry sends the
  buffer from its start again, so the peer receives the first \<open>n\<close> bytes twice and never the
  last \<open>n\<close>; only the number of bytes is right.
\<close>

theorem short_send_repeats_prefix:
  assumes "hs_in_op s = OpWrite r" and "0 < n" and "n < r" and "r \<le> length (hs_write_data s)"
  shows "\<exists>t. http_run s [HIn (Wrote n), HIn (Wrote (r - n))] = Some t
    \<and> sk_sent (hs_out_socket t) = sk_sent (hs_out_socket s)
        @ take n (hs_write_data s) @ take (r - n) (hs_write_data s)
    \<and> length (sk_sent (hs_out_socket t)) = length (sk_sent (hs_out_socket s)) + r
    \<and> (sk_sent (hs_out_socket t) = sk_sent (hs_out_socket s) @ take r (hs_write_data s)
         \<longleftrightarrow> take (r - n) (hs_write_data s) = take (r - n) (drop n (hs_write_data s)))"
proof -
  have "take n (hs_write_data s) @ take (r - n) (drop n (hs_write_data s)) = take r (hs_write_data s)"
    using assms(3) by (metis add_diff_inverse_nat not_less_iff_gr_or_eq take_add)
  then have "take n (hs_write_data s) @ take (r - n) (hs_write_data s) = take r (hs_write_data s)
      \<longleftrightarrow> take (r - n) (hs_write_data s) = take (r - n) (drop n (hs_write_data s))"
    by (metis same_append_eq)
  with assms show ?thesis
    by (auto simp: http_handler_defs min_def)
qed

theorem short_send_repeats_prefix_witness:
  "\<exists>t. http_run (demo_connect\<lparr>hs_in_op := OpWrite 3, hs_write_data := [97, 98, 99]\<rparr>)
         [HIn (Wrote 1), HIn (Wrote 2)] = Some t
     \<and> sk_sent (hs_out_socket t) = [97, 97, 98]"
  using short_send_repeats_prefix
    [of "demo_connect\<lparr>hs_in_op := OpWrite 3, hs_write_data := [97, 98, 99]\<rparr>" 3 1]
  by (auto simp: demo_connect_def http_start_def fresh_sock_def)

text \<open>
  C35.  The end of a CONNECT session: from the start of the relay on, whatever happens in whatever order, both
  sockets are closed if and only if each direction is over, by the end of its stream or by a failed send, whether
  the handler of the second end of stream closes them or the session is destroyed with its last handler.  The end
  of one stream alone shuts the sockets down in that direction only, and a session that is closed reacts to no
  further event.\<close>

theorem connect_close_discipline:
  assumes "http_ready s reply" and "http_run s (map http_dir_event evs) = Some t"
  shows "(http_shut t \<longleftrightarrow> over (ups evs) \<and> over (downs evs))
    \<and> (sk_rcv_shut (hs_in_socket t) \<and> sk_snd_shut (hs_out_socket t) \<longleftrightarrow> ReadFailed \<in> set (ups evs))
    \<and> (sk_rcv_shut (hs_out_socket t) \<and> sk_snd_shut (hs_in_socket t) \<longleftrightarrow> ReadFailed \<in> set (downs evs))
    \<and> (http_shut t \<longrightarrow> (\<forall>ev. http_step t (http_dir_event ev) = None))"
proof -
  have rel: "http_relaying s" using assms(1) by (simp add: http_ready_def http_relaying_def)
  have run: "http.run s evs = Some t" using assms(2) by (simp add: http_run_eq)
  note dirs = http.run_directions [OF rel run]
  have "http.shut_ok s"
    using assms(1) by (simp add: http.shut_ok_def http_ready_def http_up_def)
  then have ok: "http.shut_ok t" using rel run http.run_shut_ok by blast
  have ops: "d_op (http_up s) \<noteq> OpIdle" "d_op (http_down s) \<noteq> OpIdle" "\<not> d_eof (http_up s)" "\<not> d_eof (http_down s)"
    using assms(1) by (simp_all add: http_ready_def http_up_def http_down_def)
  have "http_shut t \<longleftrightarrow> over (ups evs) \<and> over (downs evs)"
    using ok dirs dir_run_over ops(1,2) unfolding http.shut_ok_def by blast
  moreover have "hs_flag1 t \<longleftrightarrow> ReadFailed \<in> set (ups evs)" "hs_flag2 t \<longleftrightarrow> ReadFailed \<in> set (downs evs)"
    using dirs dir_run_eof [of "http_up s" "ups evs"] dir_run_eof [of "http_down s" "downs evs"] ops(3,4)
    by (simp_all add: http_up_def http_down_def)
  moreover have "http_half s" using assms(1) by (simp add: http_ready_def http_half_def)
  then have "http_half t" using http_run_half assms(2) by blast
  ultimately show ?thesis using http.shut_quiescent [OF _ ok] dirs by (simp add: http_half_def)
qed

theorem connect_close_discipline_witness:
  "\<exists>t. http_run demo_connect (map http_dir_event [Inl ReadFailed, Inr (Got [72]), Inr WriteFailed]) = Some t
    \<and> http_shut t \<and> \<not> sk_snd_shut (hs_in_socket t)"
proof -
  let ?evs = "[Inl ReadFailed, Inr (Got [72]), Inr WriteFailed]"
  obtain t where run: "http_run demo_connect (map http_dir_event ?evs) = Some t" and f: "\<not> sk_snd_shut (hs_in_socket t)"
    by (simp add: demo_connect_def http_start_def http_dir_event_def http_handler_defs fresh_sock_def)
  show ?thesis
    using run f connect_close_discipline [OF demo_connect_ready run] by (auto simp: over_def)
qed

text \<open>
  The relay of \<^verbatim>\<open>BindSession\<close> and the one of \<^verbatim>\<open>HttpSession\<close> are the same machine: from
  corresponding states they take the same event sequences, and what they sent, what they have
  buffered and whether they are closed keeps corresponding.
\<close>

theorem bind_relay_equals_connect_relay:
  assumes "bind_relaying b" and "http_relaying h" and "bind_abs b = http_abs h"
  shows "map_option bind_abs (bind_run b (map bind_dir_event evs))
       = map_option http_abs (http_run h (map http_dir_event evs))"
  using bindr.run_refines [OF assms(1), of evs] http.run_refines [OF assms(2), of evs] assms(3)
  by (simp add: bind_run_eq http_run_eq bind_abs_eq http_abs_eq)

text \<open>
   BIND set-up: when both reply sends succeed, the client has been sent the reply twice,
  each time with code 90, an all-zero address and the port the acceptor listens on, and only
  then does the relay start reading, in both directions.
\<close>

definition bind_reply_bytes :: "16 word \<Rightarrow> byte list" where
  "bind_reply_bytes port = [0, 90, of_nat (unat port div 256), of_nat (unat port mod 256), 0, 0, 0, 0]"

lemma bind_reply_port: "request_port (bind_reply_bytes port) = unat port"
proof -
  have p: "unat port < 65536" using unsigned_less [of port, where ?'a = nat] by simp
  then have "unat port div 256 < 256" by (simp add: less_mult_imp_div_less)
  then show ?thesis
    by (simp add: request_port_def bind_reply_bytes_def)
qed

theorem bind_announces_port:
  assumes "bs_reply s = [0, 90, 0, 0, 0, 0, 0, 0]" and "sk_sent (bs_socket s) = []"
  shows "\<exists>t. bind_run (bind_do_connect port s)
        [BReplySent (Inl 8), BAccepted True, BReply2Sent (Some 8)] = Some t
    \<and> bs_phase t = BRelaying \<and> bs_in_op t = OpRead \<and> bs_out_op t = OpRead
    \<and> sk_sent (bs_socket t) = bind_reply_bytes port @ bind_reply_bytes port
    \<and> request_port (bind_reply_bytes port) = unat port"
  using assms bind_reply_port [of port]
  by (simp add: bind_do_connect_def bind_handler_defs bind_reply_bytes_def)

definition demo_bind :: bind_session where
  "demo_bind = bind_init fresh_sock ''140.113.1.2'' ''21'' [0, 90, 0, 0, 0, 0, 0, 0]
     (replicate 1024 0) (replicate 1024 0)"

theorem bind_announces_port_witness:
  "\<exists>t. bind_run (bind_do_connect 5000 demo_bind)
        [BReplySent (Inl 8), BAccepted True, BReply2Sent (Some 8)] = Some t
    \<and> bs_phase t = BRelaying \<and> take 4 (sk_sent (bs_socket t)) = [0, 90, 19, 136]"
proof -
  have r: "bs_reply demo_bind = [0, 90, 0, 0, 0, 0, 0, 0]" and k: "sk_sent (bs_socket demo_bind) = []"
    by (simp_all add: demo_bind_def bind_init_def fresh_sock_def)
  have bytes: "take 4 (bind_reply_bytes 5000 @ bind_reply_bytes 5000) = [0, 90, 19, 136]"
    by (simp add: bind_reply_bytes_def)
  from bind_announces_port [OF r k, of 5000] bytes show ?thesis by metis
qed

theorem bind_relay_equals_connect_relay_witness:
  "\<exists>b. bind_relaying b \<and> bind_abs b = http_abs demo_connect
     \<and> map_option bind_abs (bind_run b (map bind_dir_event demo_evs))
       = map_option http_abs (http_run demo_connect (map http_dir_event demo_evs))"
proof -
  let ?b = "demo_bind\<lparr>bs_phase := BRelaying, bs_in_op := OpRead, bs_out_op := OpRead,
      bs_socket := fresh_sock\<lparr>sk_sent := [0, 90, 0, 80, 140, 113, 1, 2]\<rparr>\<rparr>"
  have "bind_abs ?b = http_abs demo_connect"
    by (simp add: bind_abs_def http_abs_def bind_up_def bind_down_def http_up_def http_down_def
        bind_shut_def http_shut_def demo_bind_def bind_init_def demo_connect_def http_start_def
        fresh_sock_def)
  moreover have "http_relaying demo_connect" "bind_relaying ?b"
    by (simp_all add: demo_connect_def http_relaying_def http_start_def bind_relaying_def demo_bind_def bind_init_def)
  ultimately show ?thesis
    using bind_relay_equals_connect_relay [of ?b demo_connect demo_evs] by (intro exI [of _ ?b]) simp
qed

end
