(* ===== verification/Fork_Server.thy ===== *)
theory Fork_Server
  imports C_Strings
begin

text \<open>
  The accept loop shared by the servers that fork one process per connection: the contract of
  such a server as a locale, the events it reacts to, and the conversion of a port argument.
  \<^verbatim>\<open>SockServer\<close> (socks_server.cpp) and \<^verbatim>\<open>TcpConnection\<close> (http_server.cpp) interpret it.
\<close>

section \<open>Events\<close>

text \<open>
  What \<^verbatim>\<open>fork()\<close> returned to the process that is being modelled: 0 in the child, a process id
  or -1 in the parent.
\<close>

datatype fork_result = InChild | InParent | ForkFailed

datatype server_event =
    AcceptDone "fork_result option"
  | ChildExited
  | SigChld

text \<open>\<open>AcceptDone None\<close> is an accept error; \<open>SigChld\<close> is the completion of the signal wait.\<close>

section \<open>The contract\<close>

text \<open>
  The listening process keeps an accept and a signal wait in flight and reaps its dead children
  on the signal; a process that has forked off to serve a connection has no acceptor and accepts
  nothing.
\<close>

locale forking_server =
  fixes step :: "'s \<Rightarrow> server_event \<Rightarrow> 's option"
    and listening :: "'s \<Rightarrow> bool"
    and accepting :: "'s \<Rightarrow> bool"
    and armed :: "'s \<Rightarrow> bool"
    and zombies :: "'s \<Rightarrow> nat"
  assumes parent_step: "step s ev = Some t \<Longrightarrow> listening s \<Longrightarrow> accepting s \<Longrightarrow> armed s \<Longrightarrow>
      ev \<noteq> AcceptDone (Some InChild) \<Longrightarrow> listening t \<and> accepting t \<and> armed t"
    and child_step: "step s (AcceptDone (Some InChild)) = Some t \<Longrightarrow>
      \<not> listening t \<and> \<not> accepting t \<and> \<not> armed t"
    and served_step: "step s ev = Some t \<Longrightarrow> \<not> listening s \<Longrightarrow> \<not> accepting s \<Longrightarrow> \<not> armed s \<Longrightarrow>
      \<not> listening t \<and> \<not> accepting t \<and> \<not> armed t"
    and enabled: "accepting s \<Longrightarrow> step s (AcceptDone r) \<noteq> None"
    and not_accepting: "\<not> accepting s \<Longrightarrow> step s (AcceptDone r) = None"
    and reaps: "step s SigChld = Some t \<Longrightarrow> listening s \<Longrightarrow> zombies t = 0"
    and zombie_step: "step s ev = Some t \<Longrightarrow> zombies t \<le> zombies s + (if ev = ChildExited then 1 else 0)"
begin

fun run :: "'s \<Rightarrow> server_event list \<Rightarrow> 's option" where
  "run s [] = Some s"
| "run s (ev # evs) = (case step s ev of None \<Rightarrow> None | Some t \<Rightarrow> run t evs)"

lemma run_append:
  "run s (evs @ evs') = Some t \<longleftrightarrow> (\<exists>s1. run s evs = Some s1 \<and> run s1 evs' = Some t)"
  by (induction evs arbitrary: s) (auto split: option.splits)

text \<open>The parent never stops accepting, whatever accept errors or fork failures it meets.\<close>

lemma parent_keeps_accepting:
  assumes "run s evs = Some t" and "listening s" and "accepting s" and "armed s"
    and "AcceptDone (Some InChild) \<notin> set evs"
  shows "listening t \<and> accepting t \<and> armed t"
  using assms
proof (induction evs arbitrary: s)
  case (Cons ev evs)
  from Cons.prems(1) obtain s1 where s1: "step s ev = Some s1" "run s1 evs = Some t"
    by (auto split: option.splits)
  have "listening s1 \<and> accepting s1 \<and> armed s1"
    using parent_step [OF s1(1)] Cons.prems by auto
  then show ?case using Cons.IH [OF s1(2)] Cons.prems(5) by simp
qed simp

text \<open>A process that serves a connection never accepts another one.\<close>

lemma served_never_accepts:
  assumes "run s evs = Some t" and "\<not> listening s" and "\<not> accepting s" and "\<not> armed s"
  shows "\<not> listening t \<and> \<not> accepting t \<and> \<not> armed t"
  using assms
proof (induction evs arbitrary: s)
  case (Cons ev evs)
  from Cons.prems(1) obtain s1 where s1: "step s ev = Some s1" "run s1 evs = Some t"
    by (auto split: option.splits)
  have "\<not> listening s1 \<and> \<not> accepting s1 \<and> \<not> armed s1"
    using served_step [OF s1(1)] Cons.prems by auto
  then show ?case using Cons.IH [OF s1(2)] by simp
qed simp

lemma child_never_accepts:
  assumes "run s (evs @ AcceptDone (Some InChild) # evs') = Some t"
  shows "\<not> listening t \<and> \<not> accepting t"
proof -
  obtain s1 where "run s1 (AcceptDone (Some InChild) # evs') = Some t"
    using assms run_append by blast
  then obtain s2 where "step s1 (AcceptDone (Some InChild)) = Some s2" "run s2 evs' = Some t"
    by (auto split: option.splits)
  then show ?thesis using served_never_accepts [of s2 evs' t] child_step [of s1 s2] by blast
qed

text \<open>Dead children are at most those that exited since the last signal.\<close>

lemma zombies_bounded:
  "run s evs = Some t \<Longrightarrow> zombies t \<le> zombies s + count_list evs ChildExited"
proof (induction evs arbitrary: s)
  case (Cons ev evs)
  from Cons.prems obtain s1 where s1: "step s ev = Some s1" "run s1 evs = Some t"
    by (auto split: option.splits)
  show ?case using Cons.IH [OF s1(2)] zombie_step [OF s1(1)] by (auto split: if_splits)
qed simp

lemma zombies_reaped:
  assumes "run s (SigChld # evs) = Some t" and "listening s"
  shows "zombies t \<le> count_list evs ChildExited"
proof -
  from assms(1) obtain s1 where s1: "step s SigChld = Some s1" "run s1 evs = Some t"
    by (auto split: option.splits)
  show ?thesis using zombies_bounded [OF s1(2)] reaps [OF s1(1) assms(2)] by simp
qed

end

section \<open>The port argument\<close>

text \<open>
  \<^verbatim>\<open>short port = atoi(argv[1])\<close> cuts the number to 16 signed bits, and the endpoint takes it as
  an \<^verbatim>\<open>unsigned short\<close> again: the two conversions compose to the value modulo 65536.
\<close>

definition short_of_int :: "int \<Rightarrow> 16 word" where
  "short_of_int v = word_of_int v"

definition listen_port :: "string \<Rightarrow> nat" where
  "listen_port arg = unat (short_of_int (atoi arg))"

lemma listen_port_dec:
  assumes "n < 2 ^ 31"
  shows "listen_port (dec_nat n) = n mod 65536"
  using assms
  by (simp add: listen_port_def short_of_int_def atoi_dec_nat unsigned_of_nat take_bit_nat_def)

text \<open>What a server's \<^verbatim>\<open>main\<close> comes to: a usage message, an exception's message, or serving a port.\<close>

datatype main_outcome =
    Usage string int
  | Raised string int
  | Serving nat

end
