(* ===== verification/Socks_Server.thy ===== *)
theory Socks_Server
  imports Socks_Relay Fork_Server
begin

text \<open>
  The server process of \<^verbatim>\<open>nctu_np_project4/socks_server.cpp\<close>: class \<^verbatim>\<open>SockServer\<close> with its accept
  loop (one forked child per connection, which starts a \<^verbatim>\<open>SockSession\<close>), the reaping of
  children on \<^verbatim>\<open>SIGCHLD\<close>, and \<^verbatim>\<open>main\<close>.
\<close>

record sock_server =
  ssv_acceptor_open :: bool
  ssv_accepting :: bool
  ssv_socket_open :: bool
  ssv_signal_armed :: bool
  ssv_session :: bool
  ssv_zombies :: nat

text \<open>The constructor arms the signal wait and starts the first accept.\<close>

definition sock_server_wait_for_signal :: "sock_server \<Rightarrow> sock_server" where
  "sock_server_wait_for_signal s = s\<lparr>ssv_signal_armed := True\<rparr>"

definition sock_server_do_accept :: "sock_server \<Rightarrow> sock_server" where
  "sock_server_do_accept s = s\<lparr>ssv_accepting := True\<rparr>"

definition sock_server_init :: sock_server where
  "sock_server_init =
     sock_server_do_accept (sock_server_wait_for_signal
       \<lparr>ssv_acceptor_open = True, ssv_accepting = False, ssv_socket_open = False,
        ssv_signal_armed = False, ssv_session = False, ssv_zombies = 0\<rparr>)"

text \<open>
  The handler of the signal wait.  \<^verbatim>\<open>waitpid(-1, ..., WNOHANG) > 0\<close> in a loop removes every dead
  child.
\<close>

definition sock_server_on_signal :: "sock_server \<Rightarrow> sock_server" where
  "sock_server_on_signal s =
     (let s = s\<lparr>ssv_signal_armed := False\<rparr>
      in if ssv_acceptor_open s
         then sock_server_wait_for_signal (s\<lparr>ssv_zombies := 0\<rparr>)
         else s)"

text \<open>
  The handler of the accept.  The child closes the acceptor, cancels the signal wait and moves
  the socket into a new session; the parent (also when \<^verbatim>\<open>fork\<close> failed, since only 0 is tested)
  closes its copy and accepts again.
\<close>

definition sock_server_on_accept :: "fork_result option \<Rightarrow> sock_server \<Rightarrow> sock_server" where
  "sock_server_on_accept r s =
     (let s = s\<lparr>ssv_accepting := False\<rparr>
      in case r of
           Some InChild \<Rightarrow>
             s\<lparr>ssv_acceptor_open := False, ssv_signal_armed := False,
               ssv_socket_open := True, ssv_session := True\<rparr>
         | Some _ \<Rightarrow> sock_server_do_accept (s\<lparr>ssv_socket_open := False\<rparr>)
         | None \<Rightarrow> sock_server_do_accept s)"

fun sock_server_step :: "sock_server \<Rightarrow> server_event \<Rightarrow> sock_server option" where
  "sock_server_step s (AcceptDone r) =
     (if ssv_accepting s then Some (sock_server_on_accept r s) else None)"
| "sock_server_step s ChildExited = Some (s\<lparr>ssv_zombies := ssv_zombies s + 1\<rparr>)"
| "sock_server_step s SigChld =
     (if ssv_signal_armed s then Some (sock_server_on_signal s) else None)"

fun sock_server_run :: "sock_server \<Rightarrow> server_event list \<Rightarrow> sock_server option" where
  "sock_server_run s [] = Some s"
| "sock_server_run s (ev # evs) =
     (case sock_server_step s ev of None \<Rightarrow> None | Some t \<Rightarrow> sock_server_run t evs)"

lemmas sock_server_defs =
  sock_server_on_accept_def sock_server_on_signal_def sock_server_do_accept_def
  sock_server_wait_for_signal_def Let_def

interpretation ssv: forking_server sock_server_step ssv_acceptor_open ssv_accepting
  ssv_signal_armed ssv_zombies
proof (unfold_locales, goal_cases)
  case (1 s ev t)
  then show ?case
    by (cases ev) (auto simp: sock_server_defs split: option.splits fork_result.splits if_splits)
next
  case (2 s t)
  then show ?case by (auto simp: sock_server_defs split: if_splits)
next
  case (3 s ev t)
  then show ?case by (cases ev) auto
next
  case (4 s r)
  then show ?case by simp
next
  case (5 s r)
  then show ?case by simp
next
  case (6 s t)
  then show ?case by (auto simp: sock_server_defs split: if_splits)
next
  case (7 s ev t)
  then show ?case
    by (cases ev) (auto simp: sock_server_defs split: option.splits fork_result.splits if_splits)
qed

lemma sock_server_run_eq: "ssv.run s evs = sock_server_run s evs"
  by (induction evs arbitrary: s) (auto split: option.splits)

section \<open>main\<close>

text \<open>
  \<^verbatim>\<open>main\<close>: the outcome for an argument vector.  \<open>bind_error\<close> is the message of the exception the
  acceptor's constructor throws when the port cannot be bound.
\<close>

definition socks_main :: "string list \<Rightarrow> (nat \<Rightarrow> string option) \<Rightarrow> main_outcome" where
  "socks_main argv bind_error =
     (if length argv \<noteq> 2 then Usage (''Usage:'' @ argv ! 0 @ '' [port]'' @ [NL]) 1
      else
        (let port = listen_port (argv ! 1)
         in case bind_error port of
              Some what \<Rightarrow> Raised (''Exception: '' @ what @ [NL]) 0
            | None \<Rightarrow> Serving port))"

text \<open>
  C39.  The listening process survives: over any sequence of accepts, accept errors, failed
  forks and child exits it keeps an accept and the signal wait in flight, a child process
  never accepts, and each delivered \<^verbatim>\<open>SIGCHLD\<close> leaves no dead child behind.
\<close>

theorem socks_server_keeps_accepting:
  assumes "sock_server_run sock_server_init evs = Some t"
  shows "(AcceptDone (Some InChild) \<notin> set evs \<longrightarrow>
            ssv_acceptor_open t \<and> ssv_accepting t \<and> ssv_signal_armed t)
    \<and> (AcceptDone (Some InChild) \<in> set evs \<longrightarrow> \<not> ssv_acceptor_open t \<and> \<not> ssv_accepting t)
    \<and> (\<forall>before after. evs = before @ SigChld # after \<and> AcceptDone (Some InChild) \<notin> set evs \<longrightarrow>
            ssv_zombies t \<le> count_list after ChildExited)"
proof (intro conjI impI allI)
  have run: "ssv.run sock_server_init evs = Some t"
    using assms by (simp add: sock_server_run_eq)
  have init: "ssv_acceptor_open sock_server_init" "ssv_accepting sock_server_init"
    "ssv_signal_armed sock_server_init"
    by (simp_all add: sock_server_init_def sock_server_defs)
  {
    assume "AcceptDone (Some InChild) \<notin> set evs"
    with run init have "ssv_acceptor_open t \<and> ssv_accepting t \<and> ssv_signal_armed t"
      by (intro ssv.parent_keeps_accepting)
    then show "ssv_acceptor_open t" "ssv_accepting t" "ssv_signal_armed t" by simp_all
  next
    assume "AcceptDone (Some InChild) \<in> set evs"
    then obtain before after where "evs = before @ AcceptDone (Some InChild) # after"
      by (meson split_list)
    with run have "\<not> ssv_acceptor_open t \<and> \<not> ssv_accepting t"
      using ssv.child_never_accepts by blast
    then show "\<not> ssv_acceptor_open t" "\<not> ssv_accepting t" by simp_all
  next
    fix before after
    assume h: "evs = before @ SigChld # after \<and> AcceptDone (Some InChild) \<notin> set evs"
    then have "\<exists>s. ssv.run sock_server_init before = Some s \<and> ssv.run s (SigChld # after) = Some t"
      using ssv.run_append run by metis
    then show "ssv_zombies t \<le> count_list after ChildExited"
      using ssv.parent_keeps_accepting init h ssv.zombies_reaped by (metis Un_iff set_append)
  }
qed

theorem socks_server_keeps_accepting_witness:
  "\<exists>t. sock_server_run sock_server_init
        [AcceptDone (Some InParent), ChildExited, AcceptDone None, SigChld] = Some t
     \<and> ssv_accepting t \<and> ssv_zombies t = 0"
proof -
  let ?evs = "[AcceptDone (Some InParent), ChildExited, AcceptDone None, SigChld]"
  obtain t where run: "sock_server_run sock_server_init ?evs = Some t"
    by (simp add: sock_server_init_def sock_server_defs)
  from socks_server_keeps_accepting [OF run] have "ssv_accepting t" "ssv_zombies t \<le> 0"
    by (auto dest: spec [of _ "[AcceptDone (Some InParent), ChildExited, AcceptDone None]"])
  with run show ?thesis by auto
qed

text \<open>
   A port given in decimal is listened on as written whenever it is a valid port, although
  it passes through a signed \<^verbatim>\<open>short\<close>; a larger number silently wraps around modulo 65536.
\<close>

theorem socks_main_port:
  assumes "n < 2 ^ 31" and "bind_error (n mod 65536) = None"
  shows "socks_main [prog, dec_nat n] bind_error = Serving (n mod 65536)
    \<and> (n < 65536 \<longrightarrow> socks_main [prog, dec_nat n] bind_error = Serving n)"
proof -
  have "socks_main [prog, dec_nat n] bind_error = Serving (n mod 65536)"
    using assms by (simp add: socks_main_def listen_port_dec)
  then show ?thesis by simp
qed

theorem socks_main_port_witness:
  "socks_main [''./socks_server'', ''40000''] (\<lambda>_. None) = Serving 40000"
proof -
  have "dec_nat 40000 = ''40000''" by (simp add: dec_nat.simps)
  then show ?thesis using socks_main_port [of 40000 "\<lambda>_. None" "''./socks_server''"] by simp
qed

end
