(* ===== verification/Side_By_Side.thy ===== *)
theory Side_By_Side
  imports NP_Prelude
begin

text \<open>
  Several sessions of one process that write to one stream, each on its own events.  The locale
  \<open>side_by_side\<close> takes the step of a session, which yields its next state and the text it prints, and
  shows once that the sessions keep apart whatever the order of the events.
\<close>

text \<open>What belongs to one session.\<close>

definition events_at :: "nat \<Rightarrow> (nat \<times> 'e) list \<Rightarrow> 'e list" where
  "events_at i evs = map snd (filter (\<lambda>(j, _). j = i) evs)"

definition scripts_of :: "nat \<Rightarrow> (nat \<times> string) list \<Rightarrow> string" where
  "scripts_of i scripts = concat (map snd (filter (\<lambda>(j, _). j = i) scripts))"

lemma events_at_simps [simp]:
  "events_at i [] = []" "events_at i ((j, e) # evs) = (if j = i then e # events_at i evs else events_at i evs)"
  by (simp_all add: events_at_def)

lemma scripts_of_simps [simp]:
  "scripts_of i [] = []" "scripts_of i (scs @ [(j, t)]) = scripts_of i scs @ (if j = i then t else [])"
  by (simp_all add: scripts_of_def)

lemma map_ebind_iff:
  "map_option (\<lambda>r. ebind r (\<lambda>p. Inr (f p))) x = Some (Inl e) \<longleftrightarrow> x = Some (Inl e)"
  "map_option (\<lambda>r. ebind r (\<lambda>p. Inr (f p))) x = Some (Inr y) \<longleftrightarrow> (\<exists>p. x = Some (Inr p) \<and> y = f p)"
proof -
  have "ebind r (\<lambda>p. Inr (f p)) = Inl e \<longleftrightarrow> r = Inl e" "ebind r (\<lambda>p. Inr (f p)) = Inr y \<longleftrightarrow> (\<exists>p. r = Inr p \<and> y = f p)" for r
    by (cases r; auto)+
  then show "map_option (\<lambda>r. ebind r (\<lambda>p. Inr (f p))) x = Some (Inl e) \<longleftrightarrow> x = Some (Inl e)"
    "map_option (\<lambda>r. ebind r (\<lambda>p. Inr (f p))) x = Some (Inr y) \<longleftrightarrow> (\<exists>p. x = Some (Inr p) \<and> y = f p)"
    by (cases x; simp)+
qed

text \<open>A step is not possible (\<^const>\<open>None\<close>), throws out of the process, or succeeds.\<close>

locale side_by_side =
  fixes step :: "'e \<Rightarrow> 's \<Rightarrow> ('s \<times> string) result option"
begin

fun alone :: "'e list \<Rightarrow> 's \<Rightarrow> ('s \<times> string) result option" where
  "alone [] s = Some (Inr (s, []))"
| "alone (e # es) s =
     (case step e s of
        None \<Rightarrow> None
      | Some (Inl x) \<Rightarrow> Some (Inl x)
      | Some (Inr (s, t)) \<Rightarrow> map_option (\<lambda>r. ebind r (\<lambda>(s, u). Inr (s, t @ u))) (alone es s))"

definition one_of :: "nat \<times> 'e \<Rightarrow> 's list \<times> (nat \<times> string) list \<Rightarrow> ('s list \<times> (nat \<times> string) list) result option" where
  "one_of ev p =
     (case (ev, p) of ((i, e), (ss, out)) \<Rightarrow>
        if i < length ss
        then map_option (\<lambda>r. ebind r (\<lambda>(s, t). Inr (ss[i := s], out @ [(i, t)]))) (step e (ss ! i))
        else None)"

fun together ::
  "(nat \<times> 'e) list \<Rightarrow> 's list \<times> (nat \<times> string) list \<Rightarrow> ('s list \<times> (nat \<times> string) list) result option" where
  "together [] p = Some (Inr p)"
| "together (ev # evs) p =
     (case one_of ev p of
        None \<Rightarrow> None
      | Some (Inl x) \<Rightarrow> Some (Inl x)
      | Some (Inr p) \<Rightarrow> together evs p)"

lemma together_apart:
  assumes "together evs (ss, out) = Some (Inr (ss', out'))" and "i < length ss"
  shows "length ss' = length ss \<and>
    (\<exists>t. alone (events_at i evs) (ss ! i) = Some (Inr (ss' ! i, t)) \<and> scripts_of i out' = scripts_of i out @ t)"
  using assms
proof (induction evs arbitrary: ss out)
  case (Cons ev evs)
  obtain j e where ev: "ev = (j, e)" by (cases ev)
  obtain s t where j: "j < length ss" and st: "step e (ss ! j) = Some (Inr (s, t))"
    and rest: "together evs (ss[j := s], out @ [(j, t)]) = Some (Inr (ss', out'))"
    using Cons.prems(1) ev by (auto simp: one_of_def split: option.splits sum.splits if_splits)
  have "i < length (ss[j := s])" using Cons.prems(2) by simp
  from Cons.IH [OF rest this] show ?case using ev st j Cons.prems(2) by (cases "j = i") auto
qed simp

text \<open>An exception of one session ends the process.\<close>

lemma together_thrown:
  assumes "together evs p = Some (Inr (ss, out))" and "i < length ss" and "step e (ss ! i) = Some (Inl x)"
  shows "together (evs @ (i, e) # evs') p = Some (Inl x)"
  using assms
proof (induction evs arbitrary: p)
  case Nil
  then show ?case by (simp add: one_of_def)
next
  case (Cons ev evs)
  then show ?case by (auto split: option.splits sum.splits)
qed

end

end
