(* ===== verification/Web_Console.thy ===== *)
theory Web_Console
  imports C_Strings
begin

text \<open>
  The console side of a remote shell session, class \<^verbatim>\<open>NpShellRun\<close> of
  \<^verbatim>\<open>nctu_np_project4/hw4.cpp\<close> (the same class is in \<^verbatim>\<open>nctu_np_project3/console.cpp\<close>): it reads
  the shell's output, escapes it for HTML (\<^verbatim>\<open>encode\<close>), writes it to the page as a script
  (\<^verbatim>\<open>write_to_console\<close>), and sends the next line of the batch file whenever a prompt arrives.
\<close>

section \<open>Characters with a prefix code\<close>

text \<open>
  An escaping maps each character to a piece of text from which one decoding step recovers the
  character and what follows.  Then the escaping of whole strings can be undone.
\<close>

locale char_code =
  fixes enc :: "char \<Rightarrow> string"
    and dec :: "string \<Rightarrow> (char \<times> string) option"
  assumes dec_enc: "dec (enc c @ s) = Some (c, s)"
    and dec_Nil: "dec [] = None"
begin

fun dec_all :: "nat \<Rightarrow> string \<Rightarrow> string option" where
  "dec_all 0 s = (if s = [] then Some [] else None)"
| "dec_all (Suc n) s =
     (if s = [] then Some []
      else case dec s of None \<Rightarrow> None | Some (c, r) \<Rightarrow> map_option ((#) c) (dec_all n r))"

lemma enc_nonempty: "enc c \<noteq> []"
proof
  assume "enc c = []"
  then have "dec [] = Some (c, [])" using dec_enc [of c "[]"] by simp
  then show False using dec_Nil by simp
qed

lemma dec_all_enc: "length s \<le> n \<Longrightarrow> dec_all n (concat (map enc s)) = Some s"
proof (induction n arbitrary: s)
  case (Suc n)
  then show ?case
    by (cases s) (simp_all add: enc_nonempty dec_enc)
qed simp

lemma concat_enc_inject:
  assumes "concat (map enc s) = concat (map enc t)"
  shows "s = t"
proof -
  let ?n = "max (length s) (length t)"
  have "dec_all ?n (concat (map enc s)) = Some s" by (rule dec_all_enc) simp
  moreover have "dec_all ?n (concat (map enc t)) = Some t" by (rule dec_all_enc) simp
  ultimately show ?thesis using assms by (metis option.inject)
qed

end

section \<open>encode\<close>

definition DQ :: char where "DQ = CHR 0x22"
definition SQ :: char where "SQ = CHR 0x27"

definition entity :: "char \<Rightarrow> string" where
  "entity c =
     (if c = CHR ''&'' then ''&amp;''
      else if c = DQ then ''&quot;''
      else if c = SQ then ''&apos;''
      else if c = CHR ''<'' then ''&lt;''
      else if c = CHR ''>'' then ''&gt;''
      else [c])"

fun encode_loop :: "string \<Rightarrow> string \<Rightarrow> string" where
  "encode_loop buffer [] = buffer"
| "encode_loop buffer (c # data) = encode_loop (buffer @ entity c) data"

definition encode :: "string \<Rightarrow> string" where
  "encode data = encode_loop [] data"

text \<open>The decoding a browser applies to these entities, as the specification.\<close>

definition entity_decode :: "string \<Rightarrow> (char \<times> string) option" where
  "entity_decode s =
     (if take 5 s = ''&amp;'' then Some (CHR ''&'', drop 5 s)
      else if take 6 s = ''&quot;'' then Some (DQ, drop 6 s)
      else if take 6 s = ''&apos;'' then Some (SQ, drop 6 s)
      else if take 4 s = ''&lt;'' then Some (CHR ''<'', drop 4 s)
      else if take 4 s = ''&gt;'' then Some (CHR ''>'', drop 4 s)
      else case s of [] \<Rightarrow> None | c # r \<Rightarrow> Some (c, r))"

lemma encode_loop_eq: "encode_loop b s = b @ concat (map entity s)"
  by (induction b s rule: encode_loop.induct) simp_all

lemma encode_eq: "encode s = concat (map entity s)"
  by (simp add: encode_def encode_loop_eq)

interpretation html: char_code entity entity_decode
  by unfold_locales (auto simp: entity_def entity_decode_def DQ_def SQ_def)

definition special_chars :: "char set" where
  "special_chars = {CHR ''<'', CHR ''>'', DQ, SQ}"

lemma entity_no_special: "c \<in> set (entity d) \<Longrightarrow> c \<notin> special_chars"
  by (auto simp: entity_def special_chars_def DQ_def SQ_def split: if_splits)

lemma encode_no_special: "c \<in> set (encode s) \<Longrightarrow> c \<notin> special_chars"
  using entity_no_special by (auto simp: encode_eq)

lemma percent_in_encode: "CHR ''%'' \<in> set (encode s) \<longleftrightarrow> CHR ''%'' \<in> set s"
proof -
  have "CHR ''%'' \<in> set (entity c) \<longleftrightarrow> c = CHR ''%''" for c
    by (auto simp: entity_def DQ_def SQ_def)
  then show ?thesis by (auto simp: encode_eq)
qed

text \<open>Escaping loses nothing: decoding the entities gives the text back.\<close>

lemma encode_roundtrip: "html.dec_all (length s) (encode s) = Some s"
  by (simp add: encode_eq html.dec_all_enc)

section \<open>write\_to\_console\<close>

text \<open>
  The two replacement loops search from the start each time.  They end because the replacement
  holds no further occurrence.
\<close>

definition replace_at :: "string \<Rightarrow> nat \<Rightarrow> string \<Rightarrow> string" where
  "replace_at s pos r = take pos s @ r @ drop (Suc pos) s"

lemma find_char_split:
  "find_char c s = Some p \<Longrightarrow> \<exists>u v. s = u @ c # v \<and> c \<notin> set u \<and> length u = p"
proof (induction s arbitrary: p)
  case (Cons d s)
  show ?case
  proof (cases "d = c")
    case True
    then show ?thesis using Cons.prems by (intro exI [of _ "[]"] exI [of _ s]) auto
  next
    case False
    then obtain q where q: "find_char c s = Some q" "p = Suc q" using Cons.prems by auto
    from Cons.IH [OF q(1)] obtain u v where "s = u @ c # v" "c \<notin> set u" "length u = q" by blast
    then show ?thesis using False q(2) by (intro exI [of _ "d # u"] exI [of _ v]) auto
  qed
qed simp

lemma replace_at_split: "length u = p \<Longrightarrow> replace_at (u @ c # v) p r = u @ r @ v"
  by (auto simp: replace_at_def)

lemma count_replace_at:
  assumes "find_char c s = Some p" and "c \<notin> set r"
  shows "count_list (replace_at s p r) c < count_list s c"
proof -
  from find_char_split [OF assms(1)] obtain u v
    where s: "s = u @ c # v" "c \<notin> set u" "length u = p" by blast
  have "count_list r c = 0" using assms(2) by (simp add: count_list_0_iff)
  then show ?thesis using s by (simp add: replace_at_split)
qed

function newline_loop :: "string \<Rightarrow> string" where
  "newline_loop s =
     (case find_char NL s of None \<Rightarrow> s | Some pos \<Rightarrow> newline_loop (replace_at s pos ''&NewLine;''))"
  by pat_completeness auto
termination
  by (relation "measure (\<lambda>s. count_list s NL)") (auto intro!: count_replace_at simp: NL_def)

function return_loop :: "string \<Rightarrow> string" where
  "return_loop s =
     (case find_char CR s of None \<Rightarrow> s | Some pos \<Rightarrow> return_loop (replace_at s pos []))"
  by pat_completeness auto
termination
  by (relation "measure (\<lambda>s. count_list s CR)") (auto intro!: count_replace_at)

declare newline_loop.simps [simp del] return_loop.simps [simp del]

definition console_text :: "string \<Rightarrow> string" where
  "console_text response = return_loop (newline_loop response)"

definition write_to_console :: "string \<Rightarrow> string \<Rightarrow> string" where
  "write_to_console ident response =
     ''<script>document.getElementById('' @ [SQ] @ ident @ [SQ] @ '').innerHTML += '' @ [DQ]
     @ console_text response @ [DQ] @ '';</script>'' @ [NL]"

text \<open>The loops are the one-pass replacements.\<close>

definition subst_char :: "char \<Rightarrow> string \<Rightarrow> string \<Rightarrow> string" where
  "subst_char c r s = concat (map (\<lambda>d. if d = c then r else [d]) s)"

lemma subst_char_absent: "c \<notin> set s \<Longrightarrow> subst_char c r s = s"
  by (induction s) (auto simp: subst_char_def)

lemma subst_char_append: "subst_char c r (s @ t) = subst_char c r s @ subst_char c r t"
  by (simp add: subst_char_def)

lemma subst_char_replace:
  assumes "find_char c s = Some p" and "c \<notin> set r"
  shows "subst_char c r (replace_at s p r) = subst_char c r s"
proof -
  from find_char_split [OF assms(1)] obtain u v
    where s: "s = u @ c # v" "c \<notin> set u" "length u = p" by blast
  have "subst_char c r (c # v) = r @ subst_char c r v" by (simp add: subst_char_def)
  then show ?thesis
    using s assms(2) by (simp add: replace_at_split subst_char_append subst_char_absent)
qed

lemma newline_loop_eq: "newline_loop s = subst_char NL ''&NewLine;'' s"
proof (induction s rule: newline_loop.induct)
  case (1 s)
  show ?case
  proof (cases "find_char NL s")
    case None
    then have "NL \<notin> set s" by (simp add: find_char_None_iff)
    with None show ?thesis by (simp add: newline_loop.simps [of s] subst_char_absent)
  next
    case (Some p)
    then show ?thesis
      using "1.IH" [OF Some] subst_char_replace [OF Some, of "''&NewLine;''"]
      by (simp add: newline_loop.simps [of s] NL_def)
  qed
qed

lemma return_loop_eq: "return_loop s = subst_char CR [] s"
proof (induction s rule: return_loop.induct)
  case (1 s)
  show ?case
  proof (cases "find_char CR s")
    case None
    then have "CR \<notin> set s" by (simp add: find_char_None_iff)
    with None show ?thesis by (simp add: return_loop.simps [of s] subst_char_absent)
  next
    case (Some p)
    then show ?thesis
      using "1.IH" [OF Some] subst_char_replace [OF Some, of "[]"]
      by (simp add: return_loop.simps [of s])
  qed
qed

lemma set_subst_char: "set (subst_char c r s) \<subseteq> (set s - {c}) \<union> set r"
  by (auto simp: subst_char_def)

lemma set_console_text: "set (console_text s) \<subseteq> (set s - {NL, CR}) \<union> set ''&NewLine;''"
proof -
  have "set (console_text s) \<subseteq> set (newline_loop s) - {CR}"
    using set_subst_char [of CR "[]" "newline_loop s"]
    by (simp only: console_text_def return_loop_eq list.set(1) Un_empty_right)
  also have "\<dots> \<subseteq> (set s - {NL} \<union> set ''&NewLine;'') - {CR}"
    unfolding newline_loop_eq by (rule Diff_mono [OF set_subst_char subset_refl])
  also have "\<dots> \<subseteq> (set s - {NL, CR}) \<union> set ''&NewLine;''" by blast
  finally show ?thesis .
qed

text \<open>
  What a browser shows for the script's text: the entities of \<^const>\<open>encode\<close> and the line break
  written as \<^verbatim>\<open>&NewLine;\<close>.
\<close>

definition page_entity :: "char \<Rightarrow> string" where
  "page_entity c = (if c = NL then ''&NewLine;'' else entity c)"

definition page_decode :: "string \<Rightarrow> (char \<times> string) option" where
  "page_decode s = (if take 9 s = ''&NewLine;'' then Some (NL, drop 9 s) else entity_decode s)"

interpretation page: char_code page_entity page_decode
proof (unfold_locales, goal_cases)
  case (1 c s)
  show ?case
  proof (cases "c = NL")
    case False
    then show ?thesis
      using html.dec_enc [of c s]
      by (auto simp: page_entity_def page_decode_def entity_def DQ_def SQ_def)
  qed (simp add: page_entity_def page_decode_def)
qed (simp add: page_decode_def entity_decode_def)

lemma subst_char_concat: "subst_char c r (concat ws) = concat (map (subst_char c r) ws)"
  by (induction ws) (simp_all add: subst_char_def)

lemma console_text_encode:
  "console_text (encode s) = concat (map page_entity (filter (\<lambda>c. c \<noteq> CR) s))"
proof -
  have "subst_char CR [] (subst_char NL ''&NewLine;'' (entity c))
      = (if c = CR then [] else page_entity c)" for c
    by (auto simp: entity_def page_entity_def subst_char_def NL_def CR_def DQ_def SQ_def)
  then have "console_text (encode s) = concat (map (\<lambda>c. if c = CR then [] else page_entity c) s)"
    by (simp add: console_text_def newline_loop_eq return_loop_eq encode_eq subst_char_concat comp_def)
  also have "\<dots> = concat (map page_entity (filter (\<lambda>c. c \<noteq> CR) s))"
    by (induction s) simp_all
  finally show ?thesis .
qed

lemma console_text_safe:
  assumes "c \<in> set (console_text (encode response))"
  shows "c \<notin> {NL, CR} \<union> special_chars"
proof -
  from assms set_console_text have "c \<in> set (encode response) - {NL, CR} \<or> c \<in> set ''&NewLine;''"
    by blast
  then show ?thesis
    using encode_no_special [of c response]
    by (auto simp: special_chars_def NL_def CR_def DQ_def SQ_def)
qed

text \<open>
  The browser evaluates the JavaScript string literal (\<open>js\<close>) and shows its value as HTML
  (\<open>html\<close>).  Both are outside the program.  What is used of them: a literal of printable
  characters without quotation marks and backslashes is its own value; an HTML text is read from
  the left, each of the named references of \<^const>\<open>page_entity\<close> as its character, and a printable
  character other than the ampersand and the angle bracket as itself.
\<close>

definition BSL :: char where "BSL = CHR 0x5C"

definition printable :: "char \<Rightarrow> bool" where
  "printable c \<longleftrightarrow> c = CHR 0x09 \<or> (0x20 \<le> (of_char c :: nat) \<and> of_char c \<le> (0x7E :: nat))"

definition references :: "char list" where
  "references = [CHR ''&'', DQ, SQ, CHR ''<'', CHR ''>'', NL]"

definition plain_text :: "string \<Rightarrow> bool" where
  "plain_text t \<longleftrightarrow> list_all (\<lambda>c. printable c \<and> c \<notin> {DQ, SQ, BSL}) t"

lemma page_entity_plain:
  assumes "printable c \<or> c = NL" and "c \<noteq> BSL"
  shows "plain_text (page_entity c)"
proof -
  have "plain_text ''&NewLine;''" "plain_text ''&amp;''" "plain_text ''&quot;''"
    "plain_text ''&apos;''" "plain_text ''&lt;''" "plain_text ''&gt;''" by code_simp+
  then show ?thesis
    using assms by (simp add: page_entity_def entity_def) (auto simp: plain_text_def)
qed

lemma page_text_plain:
  "list_all (\<lambda>c. (printable c \<or> c = NL) \<and> c \<noteq> BSL) s \<Longrightarrow> plain_text (concat (map page_entity s))"
proof (induction s)
  case (Cons c s)
  then show ?case using page_entity_plain [of c] by (simp add: plain_text_def)
qed (simp add: plain_text_def)

lemma shown_text:
  assumes "\<And>c t. c \<in> set references \<Longrightarrow> html (page_entity c @ t) = c # html t"
    and "\<And>c t. printable c \<Longrightarrow> c \<noteq> CHR ''&'' \<Longrightarrow> c \<noteq> CHR ''<'' \<Longrightarrow> html (c # t) = c # html t"
    and "html [] = []" and "list_all (\<lambda>c. (printable c \<or> c = NL) \<and> c \<noteq> BSL) s"
  shows "html (concat (map page_entity s)) = s"
  using assms(4)
proof (induction s)
  case (Cons c s)
  show ?case
  proof (cases "c \<in> set references")
    case False
    then have "page_entity c = [c]" "printable c" "c \<noteq> CHR ''&''" "c \<noteq> CHR ''<''"
      using Cons.prems by (auto simp: references_def page_entity_def entity_def)
    then show ?thesis using assms(2) Cons by simp
  qed (use assms(1) Cons in simp)
qed (simp add: assms(3))


text \<open>A browser that has the laws: literals with a backslash are left out.\<close>

definition demo_js :: "string \<Rightarrow> string option" where
  "demo_js t = (if BSL \<in> set t \<or> DQ \<in> set t then None else Some t)"

lemma page_decode_shorter:
  assumes "page_decode s = Some (c, r)"
  shows "length r < length s"
proof (cases s)
  case Nil
  then show ?thesis using assms by (simp add: page.dec_Nil)
next
  case (Cons d s')
  have "r \<in> {drop 9 s, drop 5 s, drop 6 s, drop 4 s, s'}"
    using assms [unfolded page_decode_def entity_decode_def Cons list.case] unfolding Cons
    by (auto simp only: insert_iff option.inject prod.inject split: if_split_asm)
  then show ?thesis using Cons by auto
qed

function demo_html :: "string \<Rightarrow> string" where
  "demo_html s = (case page_decode s of None \<Rightarrow> [] | Some (c, r) \<Rightarrow> c # demo_html r)"
  by pat_completeness auto
termination
proof (relation "measure length", goal_cases)
  case (2 s p c r)
  then have "page_decode s = Some (c, r)" by simp
  then show ?case using page_decode_shorter by simp
qed simp

declare demo_html.simps [simp del]

lemma page_decode_plain:
  "c \<noteq> CHR ''&'' \<Longrightarrow> page_decode (c # t) = Some (c, t)"
  by (simp add: page_decode_def entity_decode_def)


text \<open>
   A backslash is not escaped: shell output that ends in one leaves the closing quote of
  the script string escaped, so the string literal is not terminated where the code means it.
\<close>

theorem console_backslash_unescaped:
  assumes "CR \<notin> set s" and "NL \<notin> set s"
  shows "\<exists>front. write_to_console ident (encode (s @ [CHR 0x5C]))
      = front @ [CHR 0x5C, DQ] @ '';</script>'' @ [NL]"
proof -
  have "encode (s @ [CHR 0x5C]) = encode s @ [CHR 0x5C]"
    by (simp add: encode_eq entity_def DQ_def SQ_def)
  moreover have "CR \<notin> set (encode s)" "NL \<notin> set (encode s)"
    using assms by (auto simp: encode_eq entity_def NL_def CR_def split: if_splits)
  ultimately have "console_text (encode (s @ [CHR 0x5C])) = encode s @ [CHR 0x5C]"
    by (simp add: console_text_def newline_loop_eq return_loop_eq subst_char_append
        subst_char_absent NL_def CR_def)
  then show ?thesis by (simp add: write_to_console_def)
qed

theorem console_backslash_unescaped_witness:
  "\<exists>front. write_to_console ''h0'' (encode (''C:'' @ [CHR 0x5C]))
      = front @ [CHR 0x5C, DQ] @ '';</script>'' @ [NL]"
  by (rule console_backslash_unescaped) (simp_all add: CR_def NL_def)

section \<open>Sessions paced by the prompt\<close>

text \<open>
  The contract of a console session, whatever page it writes to with \<open>wtc\<close>: an output of the
  shell goes to the page; when it holds a prompt and a line is left, the line goes to the shell
  and to the page.
\<close>

definition is_prompt :: "string \<Rightarrow> bool" where
  "is_prompt r \<longleftrightarrow> CHR ''%'' \<in> set r"

definition send_lines :: "string list \<Rightarrow> string" where
  "send_lines ls = concat (map (\<lambda>l. l @ [NL]) ls)"

text \<open>The transcript the page gets for one output of the shell, given the line sent in answer.\<close>

definition transcript :: "(string \<Rightarrow> string) \<Rightarrow> string \<Rightarrow> string option \<Rightarrow> string" where
  "transcript wtc response sent =
     wtc (encode response)
     @ (case sent of None \<Rightarrow> [] | Some l \<Rightarrow> wtc (encode l) @ wtc '' &NewLine;'')"

fun transcripts :: "(string \<Rightarrow> string) \<Rightarrow> string list \<Rightarrow> string list \<Rightarrow> string" where
  "transcripts wtc cmds [] = []"
| "transcripts wtc cmds (r # rs) =
     (if is_prompt r \<and> cmds \<noteq> []
      then transcript wtc r (Some (hd cmds)) @ transcripts wtc (tl cmds) rs
      else transcript wtc r None @ transcripts wtc cmds rs)"

locale paced_session =
  fixes on_read :: "string option \<Rightarrow> 's \<Rightarrow> 's"
    and reading :: "'s \<Rightarrow> bool"
    and commands :: "'s \<Rightarrow> string list"
    and sent :: "'s \<Rightarrow> string"
    and shown :: "'s \<Rightarrow> string"
    and wtc :: "'s \<Rightarrow> string \<Rightarrow> string"
  assumes on_read_reading: "reading s \<Longrightarrow> reading (on_read (Some r) s)"
    and on_read_wtc: "wtc (on_read (Some r) s) = wtc s"
    and on_read_prompt: "is_prompt r \<Longrightarrow> commands s \<noteq> [] \<Longrightarrow>
          commands (on_read (Some r) s) = tl (commands s)
        \<and> sent (on_read (Some r) s) = sent s @ hd (commands s) @ [NL]
        \<and> shown (on_read (Some r) s) = shown s @ transcript (wtc s) r (Some (hd (commands s)))"
    and on_read_other: "\<not> (is_prompt r \<and> commands s \<noteq> []) \<Longrightarrow>
          commands (on_read (Some r) s) = commands s
        \<and> sent (on_read (Some r) s) = sent s
        \<and> shown (on_read (Some r) s) = shown s @ transcript (wtc s) r None"
begin

fun feed :: "'s \<Rightarrow> string option list \<Rightarrow> 's option" where
  "feed s [] = Some s"
| "feed s (e # es) = (if reading s then feed (on_read e s) es else None)"

lemma feed_responses:
  assumes "reading s"
  shows "\<exists>t. feed s (map Some rs) = Some t \<and> reading t
    \<and> sent t = sent s @ send_lines (take (length (filter is_prompt rs)) (commands s))
    \<and> commands t = drop (length (filter is_prompt rs)) (commands s)
    \<and> shown t = shown s @ transcripts (wtc s) (commands s) rs"
  using assms
proof (induction rs arbitrary: s)
  case Nil
  then show ?case by (simp add: send_lines_def)
next
  case (Cons r rs)
  let ?s = "on_read (Some r) s"
  have "reading ?s" using Cons.prems by (rule on_read_reading)
  note ih = Cons.IH [OF this]
  show ?case
  proof (cases "is_prompt r \<and> commands s \<noteq> []")
    case True
    then obtain c cs where "commands s = c # cs" by (cases "commands s") auto
    with True ih Cons.prems on_read_prompt [of r s] show ?thesis
      by (simp add: on_read_wtc send_lines_def)
  next
    case False
    with ih Cons.prems on_read_other [of r s] show ?thesis
      by (auto simp: on_read_wtc send_lines_def)
  qed
qed

end

section \<open>NpShellRun\<close>

text \<open>
  The session: the lines still to send, whether a read is in flight, what was written to the
  shell and to the page.
\<close>

record shell_run =
  sr_id :: string
  sr_command :: "string list"
  sr_reading :: bool
  sr_sock :: string
  sr_cout :: string

text \<open>\<^verbatim>\<open>start\<close> reads the batch file (\<^const>\<open>None\<close> when it cannot be opened) and starts reading.\<close>

definition shell_run_start :: "string \<Rightarrow> string option \<Rightarrow> shell_run" where
  "shell_run_start ident file =
     \<lparr>sr_id = ident,
      sr_command = (case file of None \<Rightarrow> [] | Some body \<Rightarrow> getlines body),
      sr_reading = True, sr_sock = [], sr_cout = []\<rparr>"

text \<open>The handler of the read in \<^verbatim>\<open>do_read\<close>; \<^const>\<open>None\<close> is an error, after which nothing is read.\<close>

definition shell_run_on_read :: "string option \<Rightarrow> shell_run \<Rightarrow> shell_run" where
  "shell_run_on_read rd s =
     (case rd of
        None \<Rightarrow> s\<lparr>sr_reading := False\<rparr>
      | Some response \<Rightarrow>
          (let response = encode response;
               s = s\<lparr>sr_cout := sr_cout s @ write_to_console (sr_id s) response\<rparr>
           in if 0 < length (sr_command s) \<and> find_char (CHR ''%'') response \<noteq> None
              then (let line = sr_command s ! 0; console_line = encode line
                    in s\<lparr>sr_cout := sr_cout s @ write_to_console (sr_id s) console_line
                                   @ write_to_console (sr_id s) '' &NewLine;'',
                         sr_sock := sr_sock s @ line @ [NL],
                         sr_command := tl (sr_command s)\<rparr>)
              else s))"

definition shell_run_step :: "shell_run \<Rightarrow> string option \<Rightarrow> shell_run option" where
  "shell_run_step s rd = (if sr_reading s then Some (shell_run_on_read rd s) else None)"

fun shell_run_all :: "shell_run \<Rightarrow> string option list \<Rightarrow> shell_run option" where
  "shell_run_all s [] = Some s"
| "shell_run_all s (e # es) = (case shell_run_step s e of None \<Rightarrow> None | Some t \<Rightarrow> shell_run_all t es)"

lemma shell_run_on_read_Some:
  "shell_run_on_read (Some r) s =
     (if is_prompt r \<and> sr_command s \<noteq> []
      then s\<lparr>sr_cout := sr_cout s @ transcript (write_to_console (sr_id s)) r (Some (hd (sr_command s))),
             sr_sock := sr_sock s @ hd (sr_command s) @ [NL], sr_command := tl (sr_command s)\<rparr>
      else s\<lparr>sr_cout := sr_cout s @ transcript (write_to_console (sr_id s)) r None\<rparr>)"
  by (cases "sr_command s")
    (auto simp: shell_run_on_read_def Let_def is_prompt_def find_char_None_iff percent_in_encode transcript_def)

interpretation run: paced_session shell_run_on_read sr_reading sr_command sr_sock sr_cout
  "\<lambda>s. write_to_console (sr_id s)"
  by unfold_locales (simp_all add: shell_run_on_read_Some)

lemma run_feed_eq: "run.feed s es = shell_run_all s es"
  by (induction es arbitrary: s) (auto simp: shell_run_step_def)

text \<open>
  Prompt pacing: over any sequence of shell outputs, the session has sent the batch
  file's lines in order, one per output that holds a prompt and none otherwise, keeps the
  rest, and has written to the page the escaped outputs interleaved with the lines sent.
\<close>

theorem shell_run_paces_commands:
  "\<exists>t. shell_run_all (shell_run_start ident (Some body)) (map Some rs) = Some t
    \<and> sr_reading t
    \<and> sr_sock t = send_lines (take (length (filter is_prompt rs)) (getlines body))
    \<and> sr_command t = drop (length (filter is_prompt rs)) (getlines body)
    \<and> sr_cout t = transcripts (write_to_console ident) (getlines body) rs"
  using run.feed_responses [of "shell_run_start ident (Some body)" rs]
  by (auto simp: shell_run_start_def run_feed_eq)

end
