(* ===== verification/Console_Page.thy ===== *)
theory Console_Page
  imports Web_Console
begin

text \<open>
  The CGI program that serves the console page: \<^verbatim>\<open>main\<close> of \<^verbatim>\<open>nctu_np_project4/hw4.cpp\<close> and of
  \<^verbatim>\<open>nctu_np_project3/console.cpp\<close>.  It parses the query string with a regular expression,
  prints the page with one column per requested host, and starts one session per complete
  host/port/file triple.
\<close>

section \<open>Parsing the query string\<close>

text \<open>
  \<^verbatim>\<open>map[k]\<close> reads the empty string at an absent key; inserting it is not observable here.
\<close>

type_synonym query = "string \<rightharpoonup> string"

definition qget :: "query \<Rightarrow> string \<Rightarrow> string" where
  "qget q k = (case q k of None \<Rightarrow> [] | Some v \<Rightarrow> v)"

text \<open>
  The \<^verbatim>\<open>regex_search\<close> loop: find the leftmost match of a key character, a key index, \<^verbatim>\<open>=\<close> and the
  longest run of value characters; store it; go on behind the match.  The two programs differ
  in the character classes of the key.
\<close>

definition value_char :: "char \<Rightarrow> bool" where
  "value_char c \<longleftrightarrow> is_digit c \<or> c = CHR ''.'' \<or> 97 \<le> (of_char c :: nat) \<and> (of_char c :: nat) \<le> 122"

lemma length_dropWhile_less [termination_simp]: "length (dropWhile P xs) < Suc (length xs)"
  by (simp add: le_imp_less_Suc length_dropWhile_le)

lemma length_dropWhile_less2 [termination_simp]: "length (dropWhile P xs) < Suc (Suc (Suc (length xs)))"
  by (simp add: le_imp_less_Suc length_dropWhile_le less_SucI)

fun query_scan :: "(char \<Rightarrow> bool) \<Rightarrow> (char \<Rightarrow> bool) \<Rightarrow> string \<Rightarrow> query \<Rightarrow> query" where
  "query_scan k1 k2 (c1 # c2 # c3 # rest) q =
     (if k1 c1 \<and> k2 c2 \<and> c3 = CHR ''=''
      then query_scan k1 k2 (dropWhile value_char rest) (q([c1, c2] \<mapsto> takeWhile value_char rest))
      else query_scan k1 k2 (c2 # c3 # rest) q)"
| "query_scan k1 k2 s q = q"

definition key1_p4 :: "char \<Rightarrow> bool" where "key1_p4 c \<longleftrightarrow> c \<in> set ''sfhp''"
definition key2_p4 :: "char \<Rightarrow> bool" where "key2_p4 c \<longleftrightarrow> is_digit c \<or> c \<in> set ''ph''"
definition key1_p3 :: "char \<Rightarrow> bool" where "key1_p3 c \<longleftrightarrow> c \<in> set ''fhp''"

definition parse_query_p4 :: "string \<Rightarrow> query" where
  "parse_query_p4 s = query_scan key1_p4 key2_p4 s Map.empty"

definition parse_query_p3 :: "string \<Rightarrow> query" where
  "parse_query_p3 s = query_scan key1_p3 is_digit s Map.empty"

text \<open>The form's encoding of its fields, as the browser sends it: \<^verbatim>\<open>key=value&key=value\<close>.\<close>

definition form_field :: "string \<times> string \<Rightarrow> string" where
  "form_field kv = fst kv @ CHR ''='' # snd kv"

definition form_query :: "(string \<times> string) list \<Rightarrow> string" where
  "form_query kvs = join_with (CHR ''&'') (map form_field kvs)"

definition wf_field :: "(char \<Rightarrow> bool) \<Rightarrow> (char \<Rightarrow> bool) \<Rightarrow> string \<times> string \<Rightarrow> bool" where
  "wf_field k1 k2 kv \<longleftrightarrow> (\<exists>a b. fst kv = [a, b] \<and> k1 a \<and> k2 b) \<and> (\<forall>c\<in>set (snd kv). value_char c)"

lemma query_scan_skip: "\<not> k1 c \<Longrightarrow> query_scan k1 k2 (c # s) q = query_scan k1 k2 s q"
proof (cases s)
  case (Cons d t)
  then show "\<not> k1 c \<Longrightarrow> ?thesis" by (cases t) simp_all
qed simp

lemma amp_not_value: "\<not> value_char (CHR ''&'')"
  by (simp add: value_char_def is_digit_def)

lemma query_scan_field:
  assumes "wf_field k1 k2 kv"
  shows "query_scan k1 k2 (form_field kv) q = q(fst kv \<mapsto> snd kv)"
    and "\<not> k1 (CHR ''&'') \<Longrightarrow> query_scan k1 k2 (form_field kv @ CHR ''&'' # s) q
           = query_scan k1 k2 s (q(fst kv \<mapsto> snd kv))"
proof -
  obtain a b where kv: "fst kv = [a, b]" "k1 a" "k2 b" "\<forall>c\<in>set (snd kv). value_char c"
    using assms by (auto simp: wf_field_def)
  show "query_scan k1 k2 (form_field kv) q = q(fst kv \<mapsto> snd kv)"
    using kv by (simp add: form_field_def takeWhile_all dropWhile_all)
  have "takeWhile value_char (snd kv @ CHR ''&'' # s) = snd kv"
    "dropWhile value_char (snd kv @ CHR ''&'' # s) = CHR ''&'' # s"
    using kv(4) amp_not_value by simp_all
  then show "\<not> k1 (CHR ''&'') \<Longrightarrow> query_scan k1 k2 (form_field kv @ CHR ''&'' # s) q
           = query_scan k1 k2 s (q(fst kv \<mapsto> snd kv))"
    using kv by (simp add: form_field_def query_scan_skip)
qed

lemma query_scan_form:
  assumes "\<forall>kv\<in>set kvs. wf_field k1 k2 kv" and "\<not> k1 (CHR ''&'')"
  shows "query_scan k1 k2 (form_query kvs) q = q ++ map_of (rev kvs)"
  using assms(1)
proof (induction kvs arbitrary: q)
  case Nil
  then show ?case by (simp add: form_query_def)
next
  case (Cons kv kvs)
  have step: "q(fst kv \<mapsto> snd kv) ++ map_of (rev kvs) = q ++ map_of (rev (kv # kvs))"
    by (cases kv) (auto simp: map_add_def fun_eq_iff split: option.splits)
  show ?case
  proof (cases kvs)
    case Nil
    then have "form_query (kv # kvs) = form_field kv" by (simp add: form_query_def)
    then show ?thesis
      using Cons.prems query_scan_field(1) [of k1 k2 kv q] Nil
      by (simp add: map_add_def fun_eq_iff)
  next
    case (Cons kv' kvs')
    then have "form_query (kv # kvs) = form_field kv @ CHR ''&'' # form_query kvs"
      by (simp add: form_query_def)
    then show ?thesis
      using Cons.IH Cons.prems assms(2) step by (simp add: query_scan_field)
  qed
qed

text \<open>
   Round trip of the panel's form: for any list of fields with the keys the page uses and
  values of digits, dots and lower-case letters, parsing the query string yields exactly these
  fields, the last one winning for a repeated key.
\<close>

theorem parse_query_form:
  assumes "\<forall>kv\<in>set kvs. wf_field key1_p4 key2_p4 kv"
  shows "parse_query_p4 (form_query kvs) = map_of (rev kvs)"
  using query_scan_form [OF assms, of Map.empty]
  by (simp add: parse_query_p4_def key1_p4_def)

theorem parse_query_form_witness:
  "qget (parse_query_p4 (form_query [(''h0'', ''nplinux1.cs''), (''p0'', ''7000''), (''sh'', ''140.113.1.2'')])) ''sh''
     = ''140.113.1.2''"
proof -
  have "\<forall>kv\<in>set [(''h0'', ''nplinux1.cs''), (''p0'', ''7000''), (''sh'', ''140.113.1.2'')].
      wf_field key1_p4 key2_p4 kv"
    by (simp add: wf_field_def key1_p4_def key2_p4_def value_char_def is_digit_def)
  from parse_query_form [OF this] show ?thesis by (simp add: qget_def)
qed

section \<open>The page\<close>

record host_info =
  hi_id :: string
  hi_host :: string
  hi_port :: string
  hi_file :: string

definition key_h :: "nat \<Rightarrow> string" where "key_h i = ''h'' @ to_string (int i)"
definition key_p :: "nat \<Rightarrow> string" where "key_p i = ''p'' @ to_string (int i)"
definition key_f :: "nat \<Rightarrow> string" where "key_f i = ''f'' @ to_string (int i)"

definition console_head :: string where
  \<open>console_head =
     ''Content-type: text/html'' @ [NL] @ [NL] @ ''<!DOCTYPE html>'' @ [NL]
     @ ''<html lang="en"> '' @ [NL] @ ''<head> '' @ [NL] @ ''<meta charset="UTF-8" /> '' @ [NL]
     @ ''<title>NP Project 3 Console</title> '' @ [NL] @ ''<link '' @ [NL] @ ''rel="stylesheet" ''
     @ [NL] @ ''href="https://stackpath.bootstrapcdn.com/bootstrap/4.1.3/css/bootstrap.min.css" ''
     @ [NL]
     @ ''integrity="sha384-MCw98/SFnGE8fJT3GXwEOngsV7Zt27NXFoaoApmYm81iuXoPkFOJwJ8ERdknLPMO" ''
     @ [NL] @ ''crossorigin="anonymous" '' @ [NL] @ ''/> '' @ [NL] @ ''<link '' @ [NL]
     @ ''href="https://fonts.googleapis.com/css?family=Source+Code+Pro" '' @ [NL]
     @ ''rel="stylesheet" '' @ [NL] @ ''/> '' @ [NL] @ ''<link '' @ [NL] @ ''rel="icon" '' @ [NL]
     @ ''type="image/png" '' @ [NL]
     @ ''href="https://cdn0.iconfinder.com/data/icons/small-n-flat/24/678068-terminal-512.png" ''
     @ [NL] @ ''/> '' @ [NL] @ ''<style> '' @ [NL] @ ''  * { '' @ [NL]
     @ ''    font-family: 'Source Code Pro', monospace; '' @ [NL]
     @ ''    font-size: 1rem !important; '' @ [NL] @ ''  } '' @ [NL] @ ''  body { '' @ [NL]
     @ ''    background-color: #212529; '' @ [NL] @ ''  } '' @ [NL] @ ''  pre { '' @ [NL]
     @ ''    color: #cccccc; '' @ [NL] @ ''  } '' @ [NL] @ ''  b { '' @ [NL]
     @ ''    color: #ffffff; '' @ [NL] @ ''  } '' @ [NL] @ ''</style> '' @ [NL] @ ''</head> ''
     @ [NL] @ ''<body><table class="table table-dark table-bordered"><thead><tr>''\<close>

definition header_cell :: "query \<Rightarrow> nat \<Rightarrow> string" where
  \<open>header_cell query i =
     (if qget query (key_h i) \<noteq> []
      then if qget query (key_p i) \<noteq> [] \<and> qget query (key_f i) \<noteq> []
           then ''<th scope="col">'' @ qget query (key_h i) @ '':'' @ qget query (key_p i) @ ''</th>'' @ [NL]
           else ''<th scope="col">'' @ ''LOSS [PORT] or [FILE]'' @ ''</th>'' @ [NL]
      else [])\<close>

definition console_mid :: string where
  \<open>console_mid = ''</tr></thead><tbody><tr>''\<close>

definition body_cell :: "query \<Rightarrow> nat \<Rightarrow> string" where
  \<open>body_cell query i =
     (if qget query (key_h i) \<noteq> []
      then ''<td><pre id='' @ key_h i @ '' class="mb-0"></pre></td>'' @ [NL] else [])\<close>

definition console_tail :: string where
  \<open>console_tail = ''</tr></tbody></table></body></html>''\<close>

definition console_page :: "query \<Rightarrow> string" where
  "console_page query =
     console_head @ concat (map (header_cell query) [0..<5])
     @ console_mid @ concat (map (body_cell query) [0..<5]) @ console_tail"

definition session_info :: "query \<Rightarrow> nat \<Rightarrow> host_info list" where
  "session_info query i =
     (if qget query (key_h i) \<noteq> [] \<and> qget query (key_p i) \<noteq> [] \<and> qget query (key_f i) \<noteq> []
      then [\<lparr>hi_id = key_h i, hi_host = qget query (key_h i), hi_port = qget query (key_p i),
             hi_file = qget query (key_f i)\<rparr>]
      else [])"

text \<open>
  \<^verbatim>\<open>main\<close> up to \<^verbatim>\<open>ioservice.run()\<close>: the text printed and the sessions started, each with the
  proxy's host and port.  \<^verbatim>\<open>string queryString = getenv(...)\<close> of an unset variable builds a
  string from a null pointer.
\<close>

definition hw4_main :: "string option \<Rightarrow> (string \<times> (host_info \<times> string \<times> string) list) result" where
  "hw4_main query_env =
     (case query_env of
        None \<Rightarrow> Inl NullDeref
      | Some queryString \<Rightarrow>
          (let query = parse_query_p4 queryString
           in Inr (console_page query,
                   map (\<lambda>info. (info, qget query ''sh'', qget query ''sp''))
                       (concat (map (session_info query) [0..<5])))))"

text \<open>Project 3's \<^verbatim>\<open>main\<close> differs in the regular expression and starts direct sessions.\<close>

definition console3_main :: "string option \<Rightarrow> (string \<times> host_info list) result" where
  "console3_main query_env =
     (case query_env of
        None \<Rightarrow> Inl NullDeref
      | Some queryString \<Rightarrow>
          (let query = parse_query_p3 queryString
           in Inr (console_page query, concat (map (session_info query) [0..<5]))))"

lemma key_h_inject [simp]: "key_h i = key_h j \<longleftrightarrow> i = j"
  by (simp add: key_h_def to_string_def)

lemma session_info_ids: "map hi_id (concat (map (session_info q) is)) =
    map key_h (filter (\<lambda>i. qget q (key_h i) \<noteq> [] \<and> qget q (key_p i) \<noteq> [] \<and> qget q (key_f i) \<noteq> []) is)"
  by (induction "is") (simp_all add: session_info_def)

lemma in_session_info:
  "info \<in> set (concat (map (session_info q) is)) \<longleftrightarrow>
     (\<exists>i\<in>set is. info = \<lparr>hi_id = key_h i, hi_host = qget q (key_h i), hi_port = qget q (key_p i),
        hi_file = qget q (key_f i)\<rparr>
      \<and> hi_host info \<noteq> [] \<and> hi_port info \<noteq> [] \<and> hi_file info \<noteq> [])"
  by (auto simp: session_info_def)

lemma concat_map_infix: "x \<in> set xs \<Longrightarrow> \<exists>u v. concat (map f xs) = u @ f x @ v"
  by (metis append.assoc concat.simps(2) concat_append list.simps(9) map_append split_list)

lemma console_page_cells:
  assumes "i < 5"
  shows "\<exists>u v. console_page q = u @ body_cell q i @ v"
    and "\<exists>u v. console_page q = u @ header_cell q i @ v"
proof -
  have i: "i \<in> set [0..<5]" using assms by simp
  obtain u v where "concat (map (body_cell q) [0..<5]) = u @ body_cell q i @ v"
    using concat_map_infix [OF i] by blast
  then show "\<exists>u v. console_page q = u @ body_cell q i @ v"
    unfolding console_page_def by (metis append.assoc)
  obtain u v where "concat (map (header_cell q) [0..<5]) = u @ header_cell q i @ v"
    using concat_map_infix [OF i] by blast
  then show "\<exists>u v. console_page q = u @ header_cell q i @ v"
    unfolding console_page_def by (metis append.assoc)
qed

lemma started_session:
  assumes "(info, sh, sp) \<in> set (map (\<lambda>info. (info, a, b)) (concat (map (session_info q) [0..<5])))"
  shows "\<exists>i<5. (qget q (key_h i) \<noteq> [] \<and> qget q (key_p i) \<noteq> [] \<and> qget q (key_f i) \<noteq> [])
    \<and> info = \<lparr>hi_id = key_h i, hi_host = qget q (key_h i), hi_port = qget q (key_p i),
        hi_file = qget q (key_f i)\<rparr> \<and> sh = a \<and> sp = b"
proof -
  from assms have "info \<in> set (concat (map (session_info q) [0..<5]))" and ab: "sh = a" "sp = b"
    by auto
  then obtain i where i: "i \<in> set [0..<5]"
    and e: "info = \<lparr>hi_id = key_h i, hi_host = qget q (key_h i), hi_port = qget q (key_p i),
      hi_file = qget q (key_f i)\<rparr>"
    and ne: "hi_host info \<noteq> []" "hi_port info \<noteq> []" "hi_file info \<noteq> []"
    using in_session_info [THEN iffD1] by blast
  from i have "i < 5" by simp
  with e ne ab show ?thesis by auto
qed

lemma session_column:
  assumes "i < 5" and "qget q (key_h i) \<noteq> [] \<and> qget q (key_p i) \<noteq> [] \<and> qget q (key_f i) \<noteq> []"
  shows "\<exists>u v. console_page q = u @ ''<td><pre id='' @ key_h i @ v"
    and "\<exists>u v. console_page q = u @ qget q (key_h i) @ '':'' @ qget q (key_p i) @ ''</th>'' @ v"
proof -
  obtain u v where b: "console_page q = u @ body_cell q i @ v"
    using console_page_cells(1) [OF assms(1)] by blast
  then have "\<exists>v. console_page q = u @ ''<td><pre id='' @ key_h i @ v"
    using assms(2) by (simp add: body_cell_def)
  then show "\<exists>u v. console_page q = u @ ''<td><pre id='' @ key_h i @ v" by blast
  obtain u' v' where h: "console_page q = u' @ header_cell q i @ v'"
    using console_page_cells(2) [OF assms(1)] by blast
  then have "\<exists>v. console_page q = (u' @ ''<th scope='' @ [DQ] @ ''col'' @ [DQ] @ ''>'')
      @ qget q (key_h i) @ '':'' @ qget q (key_p i) @ ''</th>'' @ v"
    using assms(2) by (simp add: header_cell_def DQ_def)
  then show "\<exists>u v. console_page q = u @ qget q (key_h i) @ '':'' @ qget q (key_p i) @ ''</th>'' @ v"
    by blast
qed

lemma session_ids:
  assumes "sessions = map (\<lambda>info. (info, a, b)) (concat (map (session_info q) [0..<5]))"
  shows "map (hi_id \<circ> fst) sessions = map key_h (filter (\<lambda>i. qget q (key_h i) \<noteq> []
      \<and> qget q (key_p i) \<noteq> [] \<and> qget q (key_f i) \<noteq> []) [0..<5])"
  unfolding assms using session_info_ids [of q "[0..<5]"]
  by (simp add: comp_def del: upt_rec_numeral)

text \<open>
   The page and the sessions agree: exactly the complete triples get a session, at most
  five of them and with distinct element names, and for every session the page holds the element
  its scripts write to and a header with its host and port.
\<close>

theorem console_sessions_have_columns:
  assumes "hw4_main (Some qs) = Inr (page, sessions)"
  shows "length sessions \<le> 5 \<and> distinct (map (hi_id \<circ> fst) sessions)
    \<and> (\<forall>i<5. (\<exists>info sh sp. (info, sh, sp) \<in> set sessions \<and> hi_id info = key_h i) \<longleftrightarrow>
         (let q = parse_query_p4 qs
          in qget q (key_h i) \<noteq> [] \<and> qget q (key_p i) \<noteq> [] \<and> qget q (key_f i) \<noteq> []))
    \<and> (\<forall>info sh sp. (info, sh, sp) \<in> set sessions \<longrightarrow>
         sh = qget (parse_query_p4 qs) ''sh'' \<and> sp = qget (parse_query_p4 qs) ''sp''
         \<and> (\<exists>u v. page = u @ ''<td><pre id='' @ hi_id info @ v)
         \<and> (\<exists>u v. page = u @ hi_host info @ '':'' @ hi_port info @ ''</th>'' @ v))"
proof -
  let ?q = "parse_query_p4 qs"
  let ?ok = "\<lambda>i. qget ?q (key_h i) \<noteq> [] \<and> qget ?q (key_p i) \<noteq> [] \<and> qget ?q (key_f i) \<noteq> []"
  have page: "page = console_page ?q" and sess: "sessions = map (\<lambda>info. (info, qget ?q ''sh'',
      qget ?q ''sp'')) (concat (map (session_info ?q) [0..<5]))"
    using assms by (simp_all add: hw4_main_def Let_def del: upt.simps upt_rec_numeral)
  note ids = session_ids [OF sess]
  have "length (map (hi_id \<circ> fst) sessions) \<le> length [0..<5::nat]"
    unfolding ids length_map by (rule length_filter_le)
  then have len: "length sessions \<le> 5" by simp
  have dist: "distinct (map (hi_id \<circ> fst) sessions)"
    unfolding ids by (simp add: distinct_map inj_on_def del: upt_rec_numeral)
  have iff: "(\<exists>info sh sp. (info, sh, sp) \<in> set sessions \<and> hi_id info = key_h i) \<longleftrightarrow> ?ok i"
    if "i < 5" for i
  proof -
    have "(\<exists>info sh sp. (info, sh, sp) \<in> set sessions \<and> hi_id info = key_h i)
        \<longleftrightarrow> key_h i \<in> set (map (hi_id \<circ> fst) sessions)" by force
    also have "\<dots> \<longleftrightarrow> ?ok i"
      unfolding ids using that by (auto simp del: upt_rec_numeral)
    finally show ?thesis .
  qed
  have cols: "sh = qget ?q ''sh'' \<and> sp = qget ?q ''sp''
      \<and> (\<exists>u v. page = u @ ''<td><pre id='' @ hi_id info @ v)
      \<and> (\<exists>u v. page = u @ hi_host info @ '':'' @ hi_port info @ ''</th>'' @ v)"
    if mem: "(info, sh, sp) \<in> set sessions" for info sh sp
    using started_session [OF mem [unfolded sess]] session_column unfolding page by fastforce
  show ?thesis using len dist iff cols by (simp add: Let_def)
qed

theorem console_sessions_have_columns_witness:
  "\<exists>page sessions. hw4_main (Some ''h0=nplinux1&p0=7000&f0=t1.txt&sh=socks&sp=1080'') = Inr (page, sessions)
     \<and> length sessions \<le> 5 \<and> (\<exists>info sh sp. (info, sh, sp) \<in> set sessions \<and> hi_id info = key_h 0)"
proof -
  let ?s = "''h0=nplinux1&p0=7000&f0=t1.txt&sh=socks&sp=1080''"
  obtain page sessions where run: "hw4_main (Some ?s) = Inr (page, sessions)"
    by (simp add: hw4_main_def Let_def)
  have "(qget (parse_query_p4 ?s) (key_h 0), qget (parse_query_p4 ?s) (key_p 0),
      qget (parse_query_p4 ?s) (key_f 0)) = (''nplinux1'', ''7000'', ''t1.txt'')" by code_simp
  with console_sessions_have_columns [OF run] run show ?thesis
    by (auto simp: Let_def)
qed

end
