(* ===== verification/Socks_Client.thy ===== *)
theory Socks_Client
  imports Socks_Relay Console_Page "HOL-Library.Signed_Division"
begin

text \<open>
  The SOCKS4 client of the console, class \<^verbatim>\<open>NpShellConnect\<close> of \<^verbatim>\<open>nctu_np_project4/hw4.cpp\<close>: it
  builds the nine-byte request, goes through the proxy when one is given and directly otherwise,
  and starts the shell session when the proxy's reply carries code 90.
\<close>

section \<open>The request\<close>

text \<open>
  \<open>ip\<close> are the four bytes of the resolved address.  The port is the \<^verbatim>\<open>atoi\<close> of its text; C's
  division and remainder truncate towards zero, and the results are cut to a \<^verbatim>\<open>char\<close>.
\<close>

definition char_of_int :: "int \<Rightarrow> byte" where
  "char_of_int v = word_of_int v"

definition sock_req :: "string \<Rightarrow> byte list \<Rightarrow> byte list" where
  "sock_req port ip =
     [4, 1, char_of_int (atoi port sdiv 256), char_of_int (atoi port smod 256),
      ip ! 0, ip ! 1, ip ! 2, ip ! 3, 0]"

section \<open>The connection\<close>

datatype connect_phase =
    NotStarted | ProxyResolving | ProxyConnecting | ProxySending | ProxyReply
  | DirectResolving | DirectConnecting | ShellStarted | Stopped

record np_connect =
  nc_host_info :: host_info
  nc_socks4_host :: string
  nc_socks4_port :: string
  nc_sock_req :: "byte list"
  nc_reply :: "byte list"
  nc_phase :: connect_phase
  nc_cout :: string
  nc_cerr :: string

definition np_connect_init :: "host_info \<Rightarrow> string \<Rightarrow> string \<Rightarrow> byte list \<Rightarrow> np_connect" where
  "np_connect_init info host port buf =
     \<lparr>nc_host_info = info, nc_socks4_host = host, nc_socks4_port = port, nc_sock_req = [],
      nc_reply = buf, nc_phase = NotStarted, nc_cout = [], nc_cerr = []\<rparr>"

text \<open>
  \<^verbatim>\<open>send_sock_request\<close> first resolves the shell's host synchronously, which throws when it fails
  (\<open>resolved\<close> is the address or the exception's message); \<^verbatim>\<open>main\<close> catches that.
\<close>

definition send_sock_request :: "string + byte list \<Rightarrow> np_connect \<Rightarrow> np_connect result" where
  "send_sock_request resolved s =
     (case resolved of
        Inl what \<Rightarrow> Inl (Thrown what)
      | Inr ip \<Rightarrow>
          (let s = s\<lparr>nc_sock_req := sock_req (hi_port (nc_host_info s)) ip\<rparr>
           in if nc_socks4_host s \<noteq> [] \<and> nc_socks4_port s \<noteq> []
              then Inr (s\<lparr>nc_phase := ProxyResolving\<rparr>)
              else Inr (s\<lparr>nc_phase := DirectResolving\<rparr>)))"

text \<open>Completions: \<^const>\<open>None\<close> is success, \<^const>\<open>Some\<close> an error message; the reply's read yields bytes.\<close>

datatype connect_event =
    EvResolved "string option"
  | EvConnected "string option"
  | EvRequestSent "string option"
  | EvReply "byte list option"

definition report_error :: "string \<Rightarrow> np_connect \<Rightarrow> np_connect" where
  "report_error msg s = s\<lparr>nc_phase := Stopped, nc_cout := nc_cout s @ ''ERROR: '' @ msg @ [NL]\<rparr>"

text \<open>\<^verbatim>\<open>get_sock_reply\<close>: a session starts on code 90 and nothing at all happens otherwise.\<close>

definition get_sock_reply_done :: "byte list option \<Rightarrow> np_connect \<Rightarrow> np_connect" where
  "get_sock_reply_done rd s =
     (case rd of
        Some bs \<Rightarrow>
          (let s = s\<lparr>nc_reply := fill_buffer (nc_reply s) bs\<rparr>
           in if nc_reply s ! 1 = 90 then s\<lparr>nc_phase := ShellStarted\<rparr> else s\<lparr>nc_phase := Stopped\<rparr>)
      | None \<Rightarrow> s\<lparr>nc_phase := Stopped\<rparr>)"

fun np_connect_step :: "np_connect \<Rightarrow> connect_event \<Rightarrow> np_connect option" where
  "np_connect_step s (EvResolved ec) =
     (case nc_phase s of
        ProxyResolving \<Rightarrow>
          Some (case ec of None \<Rightarrow> s\<lparr>nc_phase := ProxyConnecting\<rparr> | Some msg \<Rightarrow> report_error msg s)
      | DirectResolving \<Rightarrow>
          Some (case ec of None \<Rightarrow> s\<lparr>nc_phase := DirectConnecting\<rparr> | Some msg \<Rightarrow> report_error msg s)
      | _ \<Rightarrow> None)"
| "np_connect_step s (EvConnected ec) =
     (case nc_phase s of
        ProxyConnecting \<Rightarrow>
          Some (case ec of None \<Rightarrow> s\<lparr>nc_phase := ProxySending\<rparr> | Some msg \<Rightarrow> report_error msg s)
      | DirectConnecting \<Rightarrow>
          Some (case ec of None \<Rightarrow> s\<lparr>nc_phase := ShellStarted\<rparr> | Some msg \<Rightarrow> report_error msg s)
      | _ \<Rightarrow> None)"
| "np_connect_step s (EvRequestSent ec) =
     (if nc_phase s = ProxySending
      then Some (case ec of
                   None \<Rightarrow> s\<lparr>nc_phase := ProxyReply\<rparr>
                 | Some msg \<Rightarrow> s\<lparr>nc_phase := Stopped, nc_cerr := nc_cerr s @ ''Accept error: '' @ msg @ [NL]\<rparr>)
      else None)"
| "np_connect_step s (EvReply rd) =
     (if nc_phase s = ProxyReply then Some (get_sock_reply_done rd s) else None)"

fun np_connect_run :: "np_connect \<Rightarrow> connect_event list \<Rightarrow> np_connect option" where
  "np_connect_run s [] = Some s"
| "np_connect_run s (e # es) = (case np_connect_step s e of None \<Rightarrow> None | Some t \<Rightarrow> np_connect_run t es)"

section \<open>Client and server together\<close>

lemma sdiv_smod_256: "(int n) sdiv 256 = int (n div 256)" "(int n) smod 256 = int (n mod 256)"
  by (cases "n = 0"; simp add: signed_divide_int_def signed_modulo_int_def zdiv_int zmod_int)+

lemma sock_req_port:
  assumes "p < 65536"
  shows "sock_req (dec_nat p) ip = [4, 1, of_nat (p div 256), of_nat (p mod 256), ip ! 0, ip ! 1, ip ! 2, ip ! 3, 0]"
  using assms by (simp add: sock_req_def atoi_dec_nat sdiv_smod_256 char_of_int_def)

lemma sock_req_decodes:
  assumes "p < 65536"
  shows "request_port (sock_req (dec_nat p) ip) = p"
proof -
  have "p div 256 < 256" using assms by (simp add: less_mult_imp_div_less)
  then show ?thesis by (simp add: sock_req_port [OF assms] request_port_def)
qed

lemma sock_req_ip: "request_ip (sock_req port [a, b, c, d]) = request_ip [0, 0, 0, 0, a, b, c, d]"
  by (simp add: request_ip_def sock_req_def)

lemma length_sock_req [simp]: "length (sock_req port ip) = 9"
  by (simp add: sock_req_def)

lemma tokens_dotted:
  "tokens (\<lambda>x. x = CHR ''.'') (join_with (CHR ''.'') (map dec_byte bs)) = map dec_byte bs"
  by (rule tokens_join_with) (auto simp: dec_byte_def is_digit_def dest!: dec_nat_digits)

lemma dec_byte_0 [simp]: "dec_byte 0 = ''0''"
  by (simp add: dec_byte_def dec_nat.simps)

lemma dotted_eq_zero_iff:
  "join_with (CHR ''.'') (map dec_byte [a, b, c, d]) = ''0.0.0.0'' \<longleftrightarrow> [a, b, c, d] = [0, 0, 0, 0]"
proof
  assume "join_with (CHR ''.'') (map dec_byte [a, b, c, d]) = ''0.0.0.0''"
  also have "\<dots> = join_with (CHR ''.'') (map dec_byte [0, 0, 0, 0])" by simp
  finally have "map dec_byte [a, b, c, d] = map dec_byte [0, 0, 0, 0]"
    by (metis tokens_dotted)
  then show "[a, b, c, d] = [0, 0, 0, 0]" by (simp only: list.map list.inject) (simp add: dec_byte_def word_unat_eq_iff)
qed simp

text \<open>
  C31. Client and server agree on the wire format: for every valid port and address, what the
  server's \<^verbatim>\<open>parse_request\<close> reads from the client's request is a CONNECT to that port and that
  dotted address, whatever the rest of the server's buffer held.
\<close>

theorem client_request_decoded:
  assumes "p < 65536"
  shows "let m = parse_request (fill_buffer buf (sock_req (dec_nat p) [a, b, c, d])) m0
    in mget m ''CD'' = ''c'' \<and> mget m ''DST_PORT'' = dec_nat p
       \<and> mget m ''DST_IP'' = join_with (CHR ''.'') (map dec_byte [a, b, c, d])"
proof -
  let ?req = "sock_req (dec_nat p) [a, b, c, d]"
  have eight: "8 \<le> length ?req" by simp
  have len: "8 \<le> length (fill_buffer buf ?req)"
    by (simp add: fill_buffer_def)
  have cd: "fill_buffer buf ?req ! 1 = 1"
    by (simp add: fill_buffer_nth) (simp add: sock_req_def)
  have "request_ip ?req = join_with (CHR ''.'') (map dec_byte [a, b, c, d])"
    by (simp add: sock_req_ip) (simp add: request_ip_def)
  then show ?thesis
    using cd fill_buffer_request_port [OF eight, of buf] fill_buffer_request_ip [OF eight, of buf]
    by (simp add: Let_def parse_request_CD parse_request_IP [OF len] parse_request_PORT
        sock_req_decodes [OF assms])
qed

theorem client_request_decoded_witness:
  "mget (parse_request (fill_buffer (replicate 1024 0) (sock_req ''7000'' [140, 113, 1, 200])) Map.empty)
     ''DST_PORT'' = ''7000''"
proof -
  have d: "dec_nat 7000 = ''7000''" by (simp add: dec_nat.simps)
  show ?thesis
    using client_request_decoded [of 7000 "replicate 1024 0" 140 113 1 200 Map.empty]
    by (simp add: d Let_def)
qed

text \<open>
  What the relay of an accepted CONNECT goes through until its reply is sent: the results of resolving and
  connecting are an error message or nothing, and the send of the reply is complete.
\<close>

definition relay_start :: "string option \<Rightarrow> string option \<Rightarrow> http_event list" where
  "relay_start resolved connected =
     Resolved resolved #
       (if resolved = None then Connected connected # (if connected = None then [ReplySent (Some 8)] else []) else [])"

text \<open>What the client's read completes with: the bytes that were sent to it, or the end of a closed stream.\<close>

definition read_from :: "sock \<Rightarrow> connect_event" where
  "read_from k = EvReply (if sk_sent k = [] then None else Some (sk_sent k))"

text \<open>What the server answers to a CONNECT, with a well-formed rule file.\<close>

lemma connect_request_outcome:
  assumes "8 \<le> length bs" and "bs ! 1 = 1" and "request_ip bs \<noteq> ''0.0.0.0''"
    and "\<forall>line\<in>set (getlines conf). wf_rule line"
  shows "\<exists>srv' out. on_request (Some conf) srv (Some bs) = Inr (srv', out,
      if \<exists>line\<in>set (getlines conf). permits ''c'' (request_ip bs) line
      then StartConnect (request_ip bs) (dec_nat (request_port bs)) ([0, 90] @ take 6 (drop 2 bs))
      else SendReply ([0, 91] @ take 6 (drop 2 bs)))"
proof -
  let ?info = "parse_request (fill_buffer (ss_request srv) bs) (ss_sock_request srv)"
  have "mget ?info ''CD'' = ''c''"
    using assms(1,2) by (simp add: parse_request_CD fill_buffer_nth)
  moreover have "mget ?info ''DST_IP'' = request_ip bs"
    using assms(1) fill_buffer_request_ip [OF assms(1)]
    by (subst parse_request_IP) (simp_all add: fill_buffer_def)
  ultimately show ?thesis
    using assms(1,3,4) by (auto simp: on_request_bytes Let_def firewall_def firewall_lines_wf)
qed

lemma proxy_run_on_reply:
  assumes "nc_phase s = ProxyResolving"
  shows "2 \<le> length reply \<Longrightarrow>
      \<exists>t. np_connect_run s [EvResolved None, EvConnected None, EvRequestSent None, EvReply (Some reply)] = Some t
        \<and> (nc_phase t = ShellStarted \<longleftrightarrow> reply ! 1 = 90)"
    and "\<exists>t. np_connect_run s [EvResolved None, EvConnected None, EvRequestSent None, EvReply None] = Some t
        \<and> nc_phase t = Stopped"
  using assms by (simp_all add: get_sock_reply_done_def fill_buffer_nth Let_def)

text \<open>A relay answers with its reply once it is connected; otherwise it ends without an answer.\<close>

lemma relay_start_answer:
  assumes "length reply = 8"
  shows "\<exists>h. http_run (http_start fresh_sock ip port reply rbuf wbuf) (relay_start rv cn) = Some h
    \<and> sk_sent (hs_in_socket h) = (if rv = None \<and> cn = None then reply else [])
    \<and> http_shut h = (rv \<noteq> None \<or> cn \<noteq> None)"
  using assms by (cases rv; cases cn)
    (simp_all add: relay_start_def http_start_def http_handler_defs http_shut_def fresh_sock_def)

text \<open>What the proxy decides on the client's request, and the reply it prepares.\<close>

lemma proxy_decides:
  assumes "p < 65536" and "[a, b, c, d] \<noteq> [0, 0, 0, 0]" and "\<forall>line\<in>set (getlines conf). wf_rule line"
  shows "let ip = join_with (CHR ''.'') (map dec_byte [a, b, c, d]);
      ok = (\<exists>line\<in>set (getlines conf). permits ''c'' ip line)
    in \<exists>srv' out reply. on_request (Some conf) srv (Some (sock_req (dec_nat p) [a, b, c, d])) =
        Inr (srv', out, if ok then StartConnect ip (dec_nat p) reply else SendReply reply)
      \<and> length reply = 8 \<and> (reply ! 1 = 90 \<longleftrightarrow> ok)"
proof -
  define ip where "ip = join_with (CHR ''.'') (map dec_byte [a, b, c, d])"
  let ?req = "sock_req (dec_nat p) [a, b, c, d]"
  let ?ok = "\<exists>line\<in>set (getlines conf). permits ''c'' ip line"
  let ?reply = "[0, if ?ok then 90 else 91] @ take 6 (drop 2 ?req)"
  have ip: "request_ip ?req = ip"
    by (simp add: sock_req_ip) (simp add: request_ip_def ip_def)
  have "ip \<noteq> ''0.0.0.0''" using assms(2) dotted_eq_zero_iff [of a b c d] unfolding ip_def by blast
  then have nz: "request_ip ?req \<noteq> ''0.0.0.0''" by (simp only: ip not_False_eq_True)
  have cd: "?req ! 1 = 1" and len: "8 \<le> length ?req" by (simp_all add: sock_req_def)
  obtain srv' out where "on_request (Some conf) srv (Some ?req) = Inr (srv', out,
      if ?ok then StartConnect ip (dec_nat p) ([0, 90] @ take 6 (drop 2 ?req)) else SendReply ([0, 91] @ take 6 (drop 2 ?req)))"
    using connect_request_outcome [OF len cd nz assms(3), of srv] unfolding ip sock_req_decodes [OF assms(1)] by blast
  then have "on_request (Some conf) srv (Some ?req) =
      Inr (srv', out, if ?ok then StartConnect ip (dec_nat p) ?reply else SendReply ?reply)"
    by (cases ?ok) (simp_all only: if_True if_False simp_thms)
  moreover have "length ?reply = 8" using len by simp
  moreover have "?reply ! 1 = 90 \<longleftrightarrow> ?ok" by simp
  ultimately show ?thesis unfolding Let_def ip_def [symmetric] by blast
qed

lemma client_after_refusal:
  assumes "nc_phase s = ProxyResolving" and "length reply = 8" and "reply ! 1 \<noteq> 90"
  shows "\<exists>t. np_connect_run s [EvResolved None, EvConnected None, EvRequestSent None, EvReply (Some reply)] = Some t
    \<and> nc_phase t \<noteq> ShellStarted"
  using proxy_run_on_reply(1) [OF assms(1), of reply] assms(2,3) by auto

text \<open>The client reads what the start of the relay has sent: the reply, or nothing before the end of the stream.\<close>

lemma client_after_relay:
  assumes "nc_phase s = ProxyResolving" and "length reply = 8" and "reply ! 1 = 90"
  shows "\<exists>h t. http_run (http_start fresh_sock ip port reply rbuf wbuf) (relay_start rv cn) = Some h
    \<and> http_shut h = (sk_sent (hs_in_socket h) = [])
    \<and> np_connect_run s [EvResolved None, EvConnected None, EvRequestSent None, read_from (hs_in_socket h)] = Some t
    \<and> (nc_phase t = ShellStarted \<longleftrightarrow> rv = None \<and> cn = None)"
proof -
  have l: "2 \<le> length reply" "reply \<noteq> []" using assms(2) by auto
  obtain h where h: "http_run (http_start fresh_sock ip port reply rbuf wbuf) (relay_start rv cn) = Some h"
    "sk_sent (hs_in_socket h) = (if rv = None \<and> cn = None then reply else [])"
    "http_shut h = (rv \<noteq> None \<or> cn \<noteq> None)"
    using relay_start_answer [OF assms(2), of ip port rbuf wbuf rv cn] by (elim exE conjE)
  then have r: "read_from (hs_in_socket h) = EvReply (if rv = None \<and> cn = None then Some reply else None)"
    unfolding read_from_def using l(2) by simp
  have shut: "http_shut h = (sk_sent (hs_in_socket h) = [])" using h(2,3) l(2) by auto
  obtain t where "np_connect_run s [EvResolved None, EvConnected None, EvRequestSent None, read_from (hs_in_socket h)] = Some t"
    and "nc_phase t = ShellStarted \<longleftrightarrow> rv = None \<and> cn = None"
  proof (cases "rv = None \<and> cn = None")
    case True
    then show ?thesis using that proxy_run_on_reply(1) [OF assms(1) l(1)] assms(3) unfolding r if_P [OF True] by metis
  next
    case False
    then show ?thesis
      using that proxy_run_on_reply(2) [OF assms(1)] unfolding r if_not_P [OF False] by force
  qed
  with h(1) shut show ?thesis by blast
qed


definition demo_host :: host_info where
  "demo_host = \<lparr>hi_id = ''s0'', hi_host = ''nplinux'', hi_port = ''80'', hi_file = ''t1.txt''\<rparr>"

definition demo_client :: np_connect where
  "demo_client = (np_connect_init demo_host ''proxy'' ''1080'' [])
     \<lparr>nc_sock_req := sock_req (dec_nat 80) [140, 113, 1, 2], nc_phase := ProxyResolving\<rparr>"


end
