(* ===== verification/Http_Request.thy ===== *)
theory Http_Request
  imports Fork_Server
begin

text \<open>
  The request parser that \<^verbatim>\<open>http_server.cpp\<close> and the Windows CGI server share: the request and
  \<^verbatim>\<open>Host\<close> lines are cut out of the buffer with \<^verbatim>\<open>find\<close>, \<^verbatim>\<open>substr\<close> and \<^verbatim>\<open>erase\<close> and stored in the
  map of CGI variables.  \<open>erase_to\<close> and \<open>substr_to\<close> follow the library at \<^verbatim>\<open>npos\<close>:
  \<^verbatim>\<open>erase(0, npos + 1)\<close> removes nothing and \<^verbatim>\<open>substr(0, npos)\<close> is the whole string.
\<close>

type_synonym env = "string \<rightharpoonup> string"

definition eget :: "env \<Rightarrow> string \<Rightarrow> string" where
  "eget e k = (case e k of None \<Rightarrow> [] | Some v \<Rightarrow> v)"

lemma eget_simps [simp]: "eget (e(k \<mapsto> v)) k' = (if k' = k then v else eget e k')"
  by (simp add: eget_def)

definition erase_to :: "string \<Rightarrow> nat option \<Rightarrow> string" where
  "erase_to s pos = drop (after_pos pos) s"

section \<open>Parsing\<close>

text \<open>
  The request line.  \<^verbatim>\<open>substr(find("?") + 1, ...)\<close> cannot throw here since the position was found.
\<close>

definition parse_request_line :: "string \<Rightarrow> env \<Rightarrow> env" where
  "parse_request_line req_header e =
     (let pos = find_char (CHR '' '') req_header;
          e = e(''REQUEST_METHOD'' \<mapsto> substr_to req_header pos);
          req_header = erase_to req_header pos;
          pos = find_char (CHR '' '') req_header;
          uri_and_query = substr_to req_header pos;
          e = e(''REQUEST_URI'' \<mapsto> uri_and_query);
          e = (case find_char (CHR ''?'') uri_and_query of
                 Some p \<Rightarrow> e(''QUERY_STRING'' \<mapsto> drop (p + 1) uri_and_query)
               | None \<Rightarrow> e(''QUERY_STRING'' \<mapsto> []));
          req_header = erase_to req_header pos
      in e(''SERVER_PROTOCOL'' \<mapsto> req_header))"

text \<open>
  The host line: the position of the space is looked up in the rest of the whole request and
  used on the line, so it may lie past the line's end, where \<^verbatim>\<open>substr\<close> throws.
\<close>

definition host_value :: "string \<Rightarrow> string result" where
  "host_value req =
     (let req = erase_to req (find_char NL req);
          host_line = substr_to req (find_char NL req)
      in substr_from host_line (after_pos (find_char (CHR '' '') req)))"

text \<open>\<^verbatim>\<open>parseHttpRequest\<close>; the Linux server also cuts the host at its colon.\<close>

definition parseHttpRequest :: "string \<Rightarrow> env \<Rightarrow> env result" where
  "parseHttpRequest req e =
     (let req_header = substr_to req (find_char NL req)
      in ebind (host_value req) (\<lambda>host.
           Inr (parse_request_line req_header
             (e(''HTTP_HOST'' \<mapsto> substr_to host (find_char (CHR '':'') host))))))"

definition parseHttpRequest_win :: "string \<Rightarrow> env \<Rightarrow> env result" where
  "parseHttpRequest_win req e =
     (let req_header = substr_to req (find_char NL req)
      in ebind (host_value req) (\<lambda>host.
           Inr (parse_request_line req_header (e(''HTTP_HOST'' \<mapsto> host)))))"

section \<open>Well-formed requests\<close>

text \<open>
  A request as a browser sends it: method, path, optional query, protocol, the host line and
  whatever follows.  The fields hold none of the separators after them.
\<close>

record http_request =
  rq_method :: string
  rq_path :: string
  rq_query :: "string option"
  rq_protocol :: string
  rq_host :: string
  rq_rest :: string

definition rq_uri :: "http_request \<Rightarrow> string" where
  "rq_uri r = rq_path r @ (case rq_query r of None \<Rightarrow> [] | Some q \<Rightarrow> CHR ''?'' # q)"

definition wf_http_request :: "http_request \<Rightarrow> bool" where
  "wf_http_request r \<longleftrightarrow>
     CHR '' '' \<notin> set (rq_method r) \<and> NL \<notin> set (rq_method r)
   \<and> CHR '' '' \<notin> set (rq_uri r) \<and> NL \<notin> set (rq_uri r) \<and> CHR ''?'' \<notin> set (rq_path r)
   \<and> NL \<notin> set (rq_protocol r)
   \<and> CHR '' '' \<notin> set (rq_host r) \<and> NL \<notin> set (rq_host r)"

definition request_line :: "http_request \<Rightarrow> string" where
  "request_line r = rq_method r @ '' '' @ rq_uri r @ '' '' @ rq_protocol r @ [CR]"

definition http_text :: "http_request \<Rightarrow> string" where
  "http_text r = request_line r @ [NL] @ ''Host: '' @ rq_host r @ [CR] @ [NL] @ rq_rest r"

text \<open>
  The part that has to arrive in the array of 1024 bytes: the request line and the host line.  Of a longer
  request the read leaves the rest in the socket.
\<close>

definition max_length :: nat where
  "max_length = 1024"

definition fill_data :: "string \<Rightarrow> string \<Rightarrow> string" where
  "fill_data data bytes = take max_length bytes @ drop (length (take max_length bytes)) data"

definition http_head :: "http_request \<Rightarrow> string" where
  "http_head r = http_text (r\<lparr>rq_rest := []\<rparr>)"

lemma fill_data_http_text:
  assumes "length (http_head r) \<le> max_length"
  shows "\<exists>rest. fill_data data (http_text r) = http_text (r\<lparr>rq_rest := rest\<rparr>)"
proof -
  have t: "http_text (r\<lparr>rq_rest := x\<rparr>) = http_head r @ x" for x
    by (simp add: http_head_def http_text_def request_line_def rq_uri_def)
  have "http_text r = http_head r @ rq_rest r" using t [of "rq_rest r"] by simp
  then have "take max_length (http_text r) = http_head r @ take (max_length - length (http_head r)) (rq_rest r)"
    using assms by simp
  then show ?thesis by (auto simp: fill_data_def t)
qed

lemma substr_to_append [simp]: "substr_to (s @ t) (Some (length s)) = s"
  by (simp add: substr_to_def)

lemma erase_to_append [simp]: "erase_to (s @ c # t) (Some (length s)) = t"
  by (simp add: erase_to_def after_pos_def)

lemma substr_to_absent [simp]: "c \<notin> set s \<Longrightarrow> substr_to s (find_char c s) = s"
  by (simp add: substr_to_def find_char_None_iff [THEN iffD2])

lemma NL_space [simp]: "NL \<noteq> CHR '' ''" "CR \<noteq> CHR '' ''" "NL \<noteq> CR" "CR \<noteq> NL" "CR \<noteq> CHR '':''"
  by (simp_all add: NL_def CR_def)

lemma parse_request_line_wf:
  assumes "wf_http_request r"
  shows "parse_request_line (request_line r) e =
    e(''REQUEST_METHOD'' \<mapsto> rq_method r, ''REQUEST_URI'' \<mapsto> rq_uri r,
      ''QUERY_STRING'' \<mapsto> (case rq_query r of None \<Rightarrow> [] | Some q \<Rightarrow> q),
      ''SERVER_PROTOCOL'' \<mapsto> rq_protocol r @ [CR])"
proof -
  have m: "CHR '' '' \<notin> set (rq_method r)" "CHR '' '' \<notin> set (rq_uri r)" "CHR ''?'' \<notin> set (rq_path r)"
    using assms by (auto simp: wf_http_request_def)
  show ?thesis
  proof (cases "rq_query r")
    case None
    then have "find_char (CHR ''?'') (rq_uri r) = None"
      using m(3) by (simp add: rq_uri_def find_char_None_iff)
    with m None show ?thesis
      by (simp add: parse_request_line_def request_line_def Let_def)
  next
    case (Some q)
    then have "find_char (CHR ''?'') (rq_uri r) = Some (length (rq_path r))"
        "drop (length (rq_path r) + 1) (rq_uri r) = q"
      using m(3) by (simp_all add: rq_uri_def)
    with m Some show ?thesis
      by (simp add: parse_request_line_def request_line_def Let_def)
  qed
qed

lemma host_value_wf:
  assumes "wf_http_request r"
  shows "host_value (http_text r) = Inr (rq_host r @ [CR])"
proof -
  have r: "NL \<notin> set (request_line r)"
    using assms by (auto simp: request_line_def wf_http_request_def NL_def CR_def)
  have "NL \<notin> set (''Host: '' @ rq_host r @ [CR])"
    using assms by (auto simp: wf_http_request_def NL_def CR_def)
  then have l: "substr_to ((''Host: '' @ rq_host r @ [CR]) @ NL # rq_rest r)
        (find_char NL ((''Host: '' @ rq_host r @ [CR]) @ NL # rq_rest r)) = ''Host: '' @ rq_host r @ [CR]"
    unfolding substr_to_find by (intro takeWhile_append_stop) (auto simp: NL_def)
  have e: "erase_to (http_text r) (find_char NL (http_text r))
      = (''Host: '' @ rq_host r @ [CR]) @ NL # rq_rest r"
    using r by (simp add: http_text_def)
  show ?thesis
    unfolding host_value_def Let_def e l
    by (simp add: substr_from_def after_pos_def)
qed

lemma request_line_of_text:
  assumes "wf_http_request r"
  shows "substr_to (http_text r) (find_char NL (http_text r)) = request_line r"
proof -
  have "NL \<notin> set (request_line r)"
    using assms by (auto simp: request_line_def wf_http_request_def NL_def CR_def)
  then show ?thesis by (simp add: http_text_def)
qed

lemmas parse_wf = parse_request_line_wf host_value_wf request_line_of_text [unfolded substr_to_find]

definition wf_host :: "http_request \<Rightarrow> string" where
  "wf_host r = (if CHR '':'' \<in> set (rq_host r)
     then takeWhile (\<lambda>c. c \<noteq> CHR '':'') (rq_host r) else rq_host r @ [CR])"

lemma parseHttpRequest_eq:
  assumes "wf_http_request r"
  shows "parseHttpRequest (http_text r) e = Inr (e(''HTTP_HOST'' \<mapsto> wf_host r,
      ''REQUEST_METHOD'' \<mapsto> rq_method r, ''REQUEST_URI'' \<mapsto> rq_uri r,
      ''QUERY_STRING'' \<mapsto> (case rq_query r of None \<Rightarrow> [] | Some q \<Rightarrow> q),
      ''SERVER_PROTOCOL'' \<mapsto> rq_protocol r @ [CR]))"
proof -
  have "takeWhile (\<lambda>c. c \<noteq> CHR '':'') (rq_host r @ [CR]) = wf_host r"
    by (auto simp: wf_host_def takeWhile_append takeWhile_all)
  then show ?thesis
    using assms by (simp add: parseHttpRequest_def Let_def parse_wf substr_to_find del: takeWhile_append)
qed

lemma parseHttpRequest_win_eq:
  assumes "wf_http_request r"
  shows "parseHttpRequest_win (http_text r) e = Inr (e(''HTTP_HOST'' \<mapsto> rq_host r @ [CR],
      ''REQUEST_METHOD'' \<mapsto> rq_method r, ''REQUEST_URI'' \<mapsto> rq_uri r,
      ''QUERY_STRING'' \<mapsto> (case rq_query r of None \<Rightarrow> [] | Some q \<Rightarrow> q),
      ''SERVER_PROTOCOL'' \<mapsto> rq_protocol r @ [CR]))"
  using assms by (simp add: parseHttpRequest_win_def Let_def parse_wf substr_to_find)

text \<open>
   A well-formed request is decoded to its fields: method, full URI and query string
  exactly, the host without its port when it carries one.  The protocol keeps the carriage
  return of the line's end, and so does a host without a port.
\<close>

theorem parseHttpRequest_wf:
  assumes "wf_http_request r"
  shows "\<exists>e'. parseHttpRequest (http_text r) e = Inr e'
    \<and> eget e' ''REQUEST_METHOD'' = rq_method r \<and> eget e' ''REQUEST_URI'' = rq_uri r
    \<and> eget e' ''QUERY_STRING'' = (case rq_query r of None \<Rightarrow> [] | Some q \<Rightarrow> q)
    \<and> eget e' ''SERVER_PROTOCOL'' = rq_protocol r @ [CR]
    \<and> eget e' ''HTTP_HOST'' = (if CHR '':'' \<in> set (rq_host r)
          then takeWhile (\<lambda>c. c \<noteq> CHR '':'') (rq_host r) else rq_host r @ [CR])
    \<and> (\<forall>k. k \<notin> {''REQUEST_METHOD'', ''REQUEST_URI'', ''QUERY_STRING'', ''SERVER_PROTOCOL'', ''HTTP_HOST''}
          \<longrightarrow> e' k = e k)"
  using assms by (simp add: parseHttpRequest_eq wf_host_def)

definition demo_http :: http_request where
  "demo_http = \<lparr>rq_method = ''GET'', rq_path = ''/console.cgi'', rq_query = Some ''h0=nplinux1'',
     rq_protocol = ''HTTP/1.1'', rq_host = ''np.cs:7000'', rq_rest = [CR, NL]\<rparr>"

lemma demo_http_short: "length (http_head demo_http) \<le> max_length"
  by (simp add: demo_http_def http_head_def http_text_def request_line_def rq_uri_def max_length_def)

lemma demo_http_wf: "wf_http_request demo_http"
  by (simp add: demo_http_def wf_http_request_def rq_uri_def NL_def)

theorem parseHttpRequest_wf_witness:
  "\<exists>e'. parseHttpRequest (http_text demo_http) Map.empty = Inr e'
    \<and> eget e' ''QUERY_STRING'' = ''h0=nplinux1'' \<and> eget e' ''HTTP_HOST'' = ''np.cs''"
  using parseHttpRequest_wf [OF demo_http_wf, of Map.empty] by (auto simp: demo_http_def)

text \<open>
  A request with no line break is not rejected: the request line itself is taken for the host
  line.
\<close>

lemma host_value_no_NL:
  assumes "NL \<notin> set req"
  shows "host_value req = Inr (case find_char (CHR '' '') req of None \<Rightarrow> req | Some p \<Rightarrow> drop (Suc p) req)"
  using assms find_char_less [of "CHR '' ''" req]
  by (auto simp: host_value_def Let_def erase_to_def after_pos_def substr_from_def
      find_char_None_iff [THEN iffD2] substr_to_def split: option.splits)

text \<open>
   The parser throws exactly when the second line holds no space and a later line does,
  past the length of the second line: the position is looked up in the rest of the request but
  used on the line.
\<close>

theorem parseHttpRequest_throws_iff:
  "(\<exists>what. parseHttpRequest req e = Inl (Thrown what)) \<longleftrightarrow>
     (let rest = erase_to req (find_char NL req)
      in \<exists>p. find_char (CHR '' '') rest = Some p \<and> length (takeWhile (\<lambda>c. c \<noteq> NL) rest) \<le> p)"
  by (auto simp: parseHttpRequest_def host_value_def Let_def substr_from_def substr_to_find
      after_pos_def ebind_def not_le split: option.splits)

end
