(* ===== verification/Http_Server.thy ===== *)
theory Http_Server
  imports Http_Request Socks_Request
begin

text \<open>
  \<^verbatim>\<open>nctu_np_project3/http_server.cpp\<close>: one forked child per connection runs an \<^verbatim>\<open>HttpServer\<close>, which
  parses the request, exports the CGI variables, sends the status line and executes the
  requested file with the socket as standard input and output.
\<close>

section \<open>HttpServer\<close>

record http_server =
  hs_data :: string
  hs_env :: env

text \<open>The constructor; \<open>buf\<close> is what the uninitialised 1024-byte buffer holds.\<close>

definition http_server_init :: "string \<Rightarrow> int \<Rightarrow> string \<Rightarrow> int \<Rightarrow> string \<Rightarrow> http_server" where
  "http_server_init remote_addr remote_port server_addr server_port buf =
     \<lparr>hs_data = buf,
      hs_env = [''REMOTE_ADDR'' \<mapsto> remote_addr, ''REMOTE_PORT'' \<mapsto> to_string remote_port,
                ''SERVER_ADDR'' \<mapsto> server_addr, ''SERVER_PORT'' \<mapsto> to_string server_port]\<rparr>"

text \<open>\<^verbatim>\<open>setEnv\<close>: the variables go through \<^verbatim>\<open>c_str()\<close> into the process environment.\<close>

definition cgi_vars :: "string list" where
  "cgi_vars = [''REQUEST_METHOD'', ''REQUEST_URI'', ''QUERY_STRING'', ''SERVER_PROTOCOL'', ''HTTP_HOST'',
     ''SERVER_ADDR'', ''SERVER_PORT'', ''REMOTE_ADDR'', ''REMOTE_PORT'']"

definition setEnv :: "env \<Rightarrow> env \<Rightarrow> env" where
  "setEnv e environ = foldl (\<lambda>m k. m(k \<mapsto> cstr (eget e k))) environ cgi_vars"

text \<open>
  What the child ends up doing: the bytes it sent and the program it became, with its
  environment; when \<^verbatim>\<open>execlp\<close> fails the error number is printed to the socket.  \<open>exec_errno\<close>
  stands for the system's answer to \<^verbatim>\<open>execlp\<close>: \<^const>\<open>None\<close> is success.
\<close>

datatype cgi_outcome =
    Executed string string env
  | ExecFailed string nat
  | NothingDone
  | Threw string

definition connect_to_url :: "(string \<Rightarrow> nat option) \<Rightarrow> env \<Rightarrow> env \<Rightarrow> cgi_outcome" where
  "connect_to_url exec_errno e environ =
     (let sent = ''HTTP/1.1 200 OK'' @ [CR, NL];
          uri = ''.'' @ substr_to (eget e ''REQUEST_URI'') (find_char (CHR ''?'') (eget e ''REQUEST_URI''))
      in case exec_errno (cstr uri) of
           None \<Rightarrow> Executed sent (cstr uri) environ
         | Some err \<Rightarrow> ExecFailed (sent @ dec_nat err @ [NL]) err)"

text \<open>
  The handler of the read, \<open>bytes\<close> being what has arrived: the whole array is taken as the request, whatever the
  length of the read.  An exception leaves through \<^verbatim>\<open>ioservice.run()\<close>.
\<close>

definition http_server_on_read ::
  "(string \<Rightarrow> nat option) \<Rightarrow> env \<Rightarrow> http_server \<Rightarrow> string option \<Rightarrow> cgi_outcome" where
  "http_server_on_read exec_errno environ s rd =
     (case rd of
        None \<Rightarrow> NothingDone
      | Some bytes \<Rightarrow>
          (let req = fill_data (hs_data s) bytes
           in case parseHttpRequest req (hs_env s) of
                Inl (Thrown what) \<Rightarrow> Threw what
              | Inl _ \<Rightarrow> NothingDone
              | Inr e \<Rightarrow> connect_to_url exec_errno e (setEnv e environ)))"

lemma setEnv_get: "setEnv e environ k = (if k \<in> set cgi_vars then Some (cstr (eget e k)) else environ k)"
  by (auto simp: setEnv_def cgi_vars_def)

lemma parseHttpRequest_no_other_error:
  "parseHttpRequest req e = Inl err \<Longrightarrow> err = Thrown ''out_of_range''"
  by (auto simp: parseHttpRequest_def host_value_def substr_from_def Let_def ebind_def
      split: if_splits sum.splits)

lemma takeWhile_uri:
  "wf_http_request r \<Longrightarrow> takeWhile (\<lambda>c. c \<noteq> CHR ''?'') (rq_uri r) = rq_path r"
  by (auto simp: rq_uri_def wf_http_request_def takeWhile_append takeWhile_all split: option.splits)

text \<open>
  The CGI launch: a well-formed request makes the child execute the requested path below
  the server's directory, with the query string and method in its environment and the
  connection's addresses as recorded; nothing but the status line is sent before it.
\<close>

theorem http_server_runs_cgi:
  assumes "wf_http_request r" and "NUL \<notin> set (http_text r)" and "length (http_head r) \<le> max_length"
    and "exec_errno (CHR ''.'' # rq_path r) = None"
    and "s = http_server_init ra rp sa sp buf"
  shows "\<exists>environ'. http_server_on_read exec_errno environ s (Some (http_text r))
      = Executed (''HTTP/1.1 200 OK'' @ [CR, NL]) (CHR ''.'' # rq_path r) environ'
    \<and> environ' ''QUERY_STRING'' = Some (case rq_query r of None \<Rightarrow> [] | Some q \<Rightarrow> q)
    \<and> environ' ''REQUEST_METHOD'' = Some (rq_method r)
    \<and> environ' ''REQUEST_URI'' = Some (rq_uri r)
    \<and> environ' ''REMOTE_ADDR'' = Some (cstr ra) \<and> environ' ''SERVER_PORT'' = Some (cstr (to_string sp))"
proof -
  obtain rest where full: "fill_data buf (http_text r) = http_text (r\<lparr>rq_rest := rest\<rparr>)"
    using fill_data_http_text [OF assms(3)] by blast
  let ?r = "r\<lparr>rq_rest := rest\<rparr>"
  have wf: "wf_http_request ?r" using assms(1) by (simp add: wf_http_request_def rq_uri_def)
  have nul: "NUL \<notin> set (rq_uri r)" "NUL \<notin> set (rq_method r)" "NUL \<notin> set (rq_path r)"
    "NUL \<notin> set (case rq_query r of None \<Rightarrow> [] | Some q \<Rightarrow> q)"
    using assms(2) by (auto simp: http_text_def request_line_def rq_uri_def split: option.splits)
  then have c: "cstr (rq_uri r) = rq_uri r" "cstr (rq_method r) = rq_method r"
    "cstr (case rq_query r of None \<Rightarrow> [] | Some q \<Rightarrow> q) = (case rq_query r of None \<Rightarrow> [] | Some q \<Rightarrow> q)"
    "cstr (CHR ''.'' # rq_path r) = CHR ''.'' # rq_path r"
    by (auto intro!: cstr_id simp: NUL_def)
  note e = parseHttpRequest_eq [OF wf]
  have uri: "rq_uri ?r = rq_uri r" by (simp add: rq_uri_def)
  show ?thesis
    using assms(4,5) c takeWhile_uri [OF assms(1)]
    by (simp add: http_server_on_read_def full e uri connect_to_url_def substr_to_find setEnv_get
        cgi_vars_def http_server_init_def)
qed

theorem http_server_runs_cgi_witness:
  "\<exists>environ'. http_server_on_read (\<lambda>f. None) Map.empty
      (http_server_init ''140.113.1.1'' 50000 ''140.113.1.2'' 7000 []) (Some (http_text demo_http))
      = Executed (''HTTP/1.1 200 OK'' @ [CR, NL]) ''./console.cgi'' environ'
    \<and> environ' ''QUERY_STRING'' = Some ''h0=nplinux1'' \<and> environ' ''SERVER_PORT'' = Some ''7000''"
proof -
  have nul: "NUL \<notin> set (http_text demo_http)"
    by (simp add: demo_http_def http_text_def request_line_def rq_uri_def NUL_def NL_def CR_def)
  have d: "cstr (to_string 7000) = ''7000''"
    by (simp add: to_string_def dec_nat.simps cstr_def NUL_def)
  show ?thesis
    using http_server_runs_cgi [OF demo_http_wf nul demo_http_short, of "\<lambda>f. None", OF _ refl, of Map.empty] d
    by (fastforce simp: demo_http_def)
qed

text \<open>
   A request that the parser cannot cut ends the child with the exception's message and
  starts no program; every other request is executed or reports the error number of \<^verbatim>\<open>execlp\<close>.
\<close>

theorem http_server_outcome:
  "http_server_on_read exec_errno environ s (Some bytes) =
     (let req = fill_data (hs_data s) bytes
      in case parseHttpRequest req (hs_env s) of
           Inl _ \<Rightarrow> Threw ''out_of_range''
         | Inr e \<Rightarrow>
             (let file = cstr (CHR ''.'' # takeWhile (\<lambda>c. c \<noteq> CHR ''?'') (eget e ''REQUEST_URI''));
                  status = ''HTTP/1.1 200 OK'' @ [CR, NL]
              in case exec_errno file of
                   None \<Rightarrow> Executed status file (\<lambda>k. if k \<in> set cgi_vars then Some (cstr (eget e k)) else environ k)
                 | Some err \<Rightarrow> ExecFailed (status @ dec_nat err @ [NL]) err))"
  using parseHttpRequest_no_other_error
  by (force simp: http_server_on_read_def Let_def connect_to_url_def substr_to_find setEnv_get
      fun_eq_iff split: sum.splits option.splits cxx_error.splits)

section \<open>TcpConnection\<close>

record tcp_connection =
  tc_acceptor_open :: bool
  tc_accepting :: bool
  tc_socket_open :: bool
  tc_signal_armed :: bool
  tc_serving :: bool
  tc_stdio_is_socket :: bool
  tc_zombies :: nat

definition tcp_wait_for_signal :: "tcp_connection \<Rightarrow> tcp_connection" where
  "tcp_wait_for_signal s = s\<lparr>tc_signal_armed := True\<rparr>"

definition tcp_do_accept :: "tcp_connection \<Rightarrow> tcp_connection" where
  "tcp_do_accept s = s\<lparr>tc_accepting := True\<rparr>"

definition tcp_connection_init :: tcp_connection where
  "tcp_connection_init =
     tcp_do_accept (tcp_wait_for_signal
       \<lparr>tc_acceptor_open = True, tc_accepting = False, tc_socket_open = False, tc_signal_armed = False,
        tc_serving = False, tc_stdio_is_socket = False, tc_zombies = 0\<rparr>)"

definition tcp_on_signal :: "tcp_connection \<Rightarrow> tcp_connection" where
  "tcp_on_signal s =
     (let s = s\<lparr>tc_signal_armed := False\<rparr>
      in if tc_acceptor_open s then tcp_wait_for_signal (s\<lparr>tc_zombies := 0\<rparr>) else s)"

definition tcp_on_accept :: "fork_result option \<Rightarrow> tcp_connection \<Rightarrow> tcp_connection" where
  "tcp_on_accept r s =
     (let s = s\<lparr>tc_accepting := False\<rparr>
      in case r of
           Some InChild \<Rightarrow>
             s\<lparr>tc_acceptor_open := False, tc_signal_armed := False, tc_socket_open := True,
               tc_stdio_is_socket := True, tc_serving := True\<rparr>
         | Some _ \<Rightarrow> tcp_do_accept (s\<lparr>tc_socket_open := False\<rparr>)
         | None \<Rightarrow> tcp_do_accept s)"

fun tcp_step :: "tcp_connection \<Rightarrow> server_event \<Rightarrow> tcp_connection option" where
  "tcp_step s (AcceptDone r) = (if tc_accepting s then Some (tcp_on_accept r s) else None)"
| "tcp_step s ChildExited = Some (s\<lparr>tc_zombies := tc_zombies s + 1\<rparr>)"
| "tcp_step s SigChld = (if tc_signal_armed s then Some (tcp_on_signal s) else None)"

lemmas tcp_defs =
  tcp_on_accept_def tcp_on_signal_def tcp_do_accept_def tcp_wait_for_signal_def Let_def

interpretation tcp: forking_server tcp_step tc_acceptor_open tc_accepting tc_signal_armed tc_zombies
proof (unfold_locales, goal_cases)
  case (1 s ev t)
  then show ?case by (cases ev) (auto simp: tcp_defs split: option.splits fork_result.splits if_splits)
next
  case (2 s t)
  then show ?case by (auto simp: tcp_defs split: if_splits)
next
  case (3 s ev t)
  then show ?case by (cases ev) auto
next
  case (6 s t)
  then show ?case by (auto simp: tcp_defs split: if_splits)
next
  case (7 s ev t)
  then show ?case by (cases ev) (auto simp: tcp_defs split: option.splits fork_result.splits if_splits)
qed simp_all

text \<open>
  A process writes a reply on its standard output only when it is a child that owns the
  connection; the parent never serves.
\<close>

fun tcp_run :: "tcp_connection \<Rightarrow> server_event list \<Rightarrow> tcp_connection option" where
  "tcp_run s [] = Some s"
| "tcp_run s (ev # evs) = (case tcp_step s ev of None \<Rightarrow> None | Some t \<Rightarrow> tcp_run t evs)"

lemma tcp_run_eq: "tcp.run s evs = tcp_run s evs"
  by (induction evs arbitrary: s) (auto split: option.splits)

definition tcp_inv :: "tcp_connection \<Rightarrow> bool" where
  "tcp_inv s \<longleftrightarrow> (tc_serving s = (\<not> tc_acceptor_open s)) \<and> tc_serving s = tc_stdio_is_socket s
     \<and> (tc_serving s \<longrightarrow> tc_socket_open s \<and> \<not> tc_accepting s)"

lemma tcp_inv_step: "tcp_step s ev = Some t \<Longrightarrow> tcp_inv s \<Longrightarrow> tcp_inv t"
  by (cases ev) (auto simp: tcp_inv_def tcp_defs split: option.splits fork_result.splits if_splits)

lemma tcp_inv_run: "tcp_run s evs = Some t \<Longrightarrow> tcp_inv s \<Longrightarrow> tcp_inv t"
  by (induction evs arbitrary: s) (auto split: option.splits dest: tcp_inv_step)

text \<open>
   Exactly one process per accepted connection serves it: the listening process keeps
  accepting and never has the socket as its standard output, a child has it and does not accept.
\<close>

theorem tcp_one_server_per_connection:
  assumes "tcp_run tcp_connection_init evs = Some t"
  shows "(tc_serving t \<longleftrightarrow> AcceptDone (Some InChild) \<in> set evs)
    \<and> (tc_serving t \<longrightarrow> tc_stdio_is_socket t \<and> tc_socket_open t \<and> \<not> tc_accepting t)
    \<and> (\<not> tc_serving t \<longrightarrow> \<not> tc_stdio_is_socket t \<and> tc_accepting t \<and> tc_signal_armed t)"
proof -
  have run: "tcp.run tcp_connection_init evs = Some t" using assms by (simp add: tcp_run_eq)
  have init: "tcp_inv tcp_connection_init" "tc_acceptor_open tcp_connection_init"
      "tc_accepting tcp_connection_init" "tc_signal_armed tcp_connection_init"
    by (simp_all add: tcp_inv_def tcp_connection_init_def tcp_defs)
  have inv: "tcp_inv t" using tcp_inv_run [OF assms] init by simp
  show ?thesis
  proof (cases "AcceptDone (Some InChild) \<in> set evs")
    case True
    then obtain before after where "evs = before @ AcceptDone (Some InChild) # after"
      by (meson split_list)
    with run have "\<not> tc_acceptor_open t" using tcp.child_never_accepts by blast
    with inv True show ?thesis by (auto simp: tcp_inv_def)
  next
    case False
    then have "tc_acceptor_open t \<and> tc_accepting t \<and> tc_signal_armed t"
      using tcp.parent_keeps_accepting [OF run] init by blast
    with inv False show ?thesis by (auto simp: tcp_inv_def)
  qed
qed

theorem tcp_one_server_per_connection_witness:
  "\<exists>t. tcp_run tcp_connection_init [AcceptDone None, AcceptDone (Some InParent), AcceptDone (Some InChild)] = Some t
     \<and> tc_serving t \<and> tc_stdio_is_socket t"
proof -
  let ?evs = "[AcceptDone None, AcceptDone (Some InParent), AcceptDone (Some InChild)]"
  obtain t where run: "tcp_run tcp_connection_init ?evs = Some t"
    by (simp add: tcp_connection_init_def tcp_defs)
  with tcp_one_server_per_connection [OF run] show ?thesis by auto
qed

section \<open>main\<close>

definition http_main :: "string list \<Rightarrow> (nat \<Rightarrow> string option) \<Rightarrow> main_outcome" where
  "http_main argv bind_error =
     (if length argv \<noteq> 2 then Usage (''Usage:'' @ argv ! 0 @ '' [port] '' @ [NL]) 1
      else
        (let port = listen_port (argv ! 1)
         in case bind_error port of
              Some what \<Rightarrow> Raised (''Exception: '' @ what @ [NL]) 0
            | None \<Rightarrow> Serving port))"

end
