(* ===== verification/Win_Server.thy ===== *)
theory Win_Server
  imports Http_Request Console_Page Web_Console
begin

text \<open>
  \<^verbatim>\<open>nctu_np_project3/windows_cgi_server/main.cpp\<close>: the single-process server whose \<^verbatim>\<open>panel.cgi\<close> and
  \<^verbatim>\<open>console.cgi\<close> are functions of the server itself.  The page and the sessions' scripts all go
  to the browser's socket.
\<close>

section \<open>The panel\<close>

definition panel_header :: string where
  \<open>panel_header =
     ''<!DOCTYPE html>'' @ ''<html lang = "en">'' @ ''<head>''
     @ ''<title>NP Project 3 Panel</title>'' @ ''<link '' @ ''rel = "stylesheet"''
     @ ''href ="https://stackpath.bootstrapcdn.com/bootstrap/4.1.3/css/bootstrap.min.css"''
     @ ''integrity = "sha384-MCw98/SFnGE8fJT3GXwEOngsV7Zt27NXFoaoApmYm81iuXoPkFOJwJ8ERdknLPMO"''
     @ ''crossorigin = "anonymous"'' @ ''/>'' @ ''<link ''
     @ ''href = "https://fonts.googleapis.com/css?family=Source+Code+Pro"'' @ ''rel = "stylesheet"''
     @ ''/> '' @ ''<link '' @ ''rel = "icon"'' @ ''type = "image/png"''
     @ ''href = "https://cdn4.iconfinder.com/data/icons/iconsimple-setting-time/512/dashboard-512.png"''
     @ ''/> '' @ ''<style> '' @ ''* {'' @ ''font - family: 'Source Code Pro', monospace;'' @ ''}''
     @ ''</style> '' @ ''</head> ''\<close>

definition panel_body :: string where
  \<open>panel_body =
     ''<body class="bg - secondary pt - 5"> '' @ ''<form action = "console.cgi" method = "GET">''
     @ ''<table class = "table mx-auto bg-light" style = "width: inherit">''
     @ ''<thead class = "thead-dark">'' @ ''<tr>'' @ ''<th scope = "col">#</th> ''
     @ ''<th scope = "col">Host</th> '' @ ''<th scope = "col">Port</th> ''
     @ ''<th scope = "col">Input File</th> '' @ ''</tr>'' @ ''</thead>'' @ ''<tbody> ''\<close>

text \<open>One row of the form, with the names of its three fields.\<close>

definition panel_row :: "nat \<Rightarrow> string" where
  \<open>panel_row i =
     ''<tr> '' @ ''<th scope = "row" class = "align - middle">Session '' @ to_string (int (i + 1))
     @ '' </th> '' @ ''<td> '' @ ''<div class = "input-group"> '' @ ''<select name = "h''
     @ to_string (int i) @ ''" class = "custom-select"> ''
     @ ''<option></option><option value = "nplinux1.cs.nctu.edu.tw">nplinux1</option><option value = "nplinux2.cs.nctu.edu.tw">nplinux2</option><option value = "nplinux3.cs.nctu.edu.tw">nplinux3</option><option value = "nplinux4.cs.nctu.edu.tw">nplinux4</option><option value = "nplinux5.cs.nctu.edu.tw">nplinux5</option><option value = "npbsd1.cs.nctu.edu.tw">npbsd1</option><option value = "npbsd2.cs.nctu.edu.tw">npbsd2</option><option value = "npbsd3.cs.nctu.edu.tw">npbsd3</option><option value = "npbsd4.cs.nctu.edu.tw">npbsd4</option><option value = "npbsd5.cs.nctu.edu.tw">npbsd5</option> ''
     @ ''</select>'' @ ''<div class = "input-group-append">''
     @ ''<span class = "input-group-text">.cs.nctu.edu.tw</span> '' @ ''</ div>'' @ ''</div> ''
     @ ''</td> '' @ ''<td> '' @ ''<input name = "p'' @ to_string (int i)
     @ ''" type = "text" class = "form-control" size = "5" /> '' @ ''</td> '' @ ''<td> ''
     @ ''<select name = "f'' @ to_string (int i) @ ''" class = "custom-select"> ''
     @ ''<option></option>''
     @ ''<option value = "t1.txt">t1.txt</option><option value = "t2.txt">t2.txt</option><option value = "t3.txt">t3.txt</option><option value = "t4.txt">t4.txt</option><option value = "t5.txt">t5.txt</option><option value = "t6.txt">t6.txt</option><option value = "t7.txt">t7.txt</option><option value = "t8.txt">t8.txt</option><option value = "t9.txt">t9.txt</option><option value = "t10.txt">t10.txt</option> ''
     @ ''</select> '' @ ''</td>'' @ ''</tr>'' @ ''<tr>''\<close>

definition panel_tail :: string where
  \<open>panel_tail =
     ''<tr> '' @ ''<td colspan = "3"></td>'' @ ''<td>''
     @ ''<button type = "submit" class = "btn btn - info btn - block">Run</button> '' @ ''</td> ''
     @ ''</tr> '' @ ''</tbody> '' @ ''</table> '' @ ''</form> '' @ ''</body> '' @ ''</html> ''\<close>

definition run_panel_cgi :: string where
  "run_panel_cgi = panel_header @ panel_body @ concat (map panel_row [0..<5]) @ panel_tail"

section \<open>The console\<close>

definition win_console_header :: string where
  \<open>win_console_header =
     ''<!DOCTYPE html> '' @ ''<html lang="en"> '' @ ''<head> '' @ ''<meta charset="UTF-8" /> ''
     @ ''<title>NP Project 3 Console</title> '' @ ''<link '' @ ''rel="stylesheet" ''
     @ ''href="https://stackpath.bootstrapcdn.com/bootstrap/4.1.3/css/bootstrap.min.css" ''
     @ ''integrity="sha384-MCw98/SFnGE8fJT3GXwEOngsV7Zt27NXFoaoApmYm81iuXoPkFOJwJ8ERdknLPMO" ''
     @ ''crossorigin="anonymous" '' @ ''/> '' @ ''<link ''
     @ ''href="https://fonts.googleapis.com/css?family=Source+Code+Pro" '' @ ''rel="stylesheet"''
     @ ''/> '' @ ''<link '' @ ''rel="icon" '' @ ''type="image/png" ''
     @ ''href="https://cdn0.iconfinder.com/data/icons/small-n-flat/24/678068-terminal-512.png" ''
     @ ''/> '' @ ''<style> '' @ ''  * {'' @ ''    font-family: 'Source Code Pro', monospace; ''
     @ ''    font-size: 1rem !important; '' @ ''  } '' @ ''  body { ''
     @ ''    background-color: #212529; '' @ ''  } '' @ ''  pre { '' @ ''    color: #cccccc; ''
     @ ''  } '' @ ''  b { '' @ ''    color: #ffffff; '' @ ''  } '' @ ''</style> '' @ ''</head> ''\<close>

definition win_header_cell :: "query \<Rightarrow> nat \<Rightarrow> string" where
  \<open>win_header_cell query i =
     (if qget query (key_h i) \<noteq> []
      then if qget query (key_p i) \<noteq> [] \<and> qget query (key_f i) \<noteq> []
           then ''<th scope="col">'' @ qget query (key_h i) @ '':'' @ qget query (key_p i) @ ''</th>'' @ [NL]
           else ''<th scope="col">'' @ ''LOSS [PORT] or [FILE]'' @ ''</th>'' @ [NL]
      else [])\<close>

definition win_body_cell :: "query \<Rightarrow> nat \<Rightarrow> string" where
  \<open>win_body_cell query i =
     (if qget query (key_h i) \<noteq> []
      then ''<td><pre id='' @ key_h i @ '' class="mb-0"></pre></td>'' @ [NL] else [])\<close>

definition win_console_body :: "query \<Rightarrow> string" where
  \<open>win_console_body query =
     ''<body> '' @ ''<table class="table table-dark table-bordered"> '' @ ''<thead> '' @ ''<tr> ''
     @ concat (map (win_header_cell query) [0..<5])
     @ ''</tr> '' @ ''</thead> '' @ ''<tbody> '' @ ''<tr> ''
     @ concat (map (win_body_cell query) [0..<5])
     @ ''</tr> '' @ ''</tbody> '' @ ''</table> '' @ ''</body> '' @ ''</html> ''\<close>

text \<open>
  \<^verbatim>\<open>run_console_cgi\<close>: what is written to the socket and the sessions started, in this order.
\<close>

definition win_parse_query_string :: "string \<Rightarrow> query" where
  "win_parse_query_string queryString = query_scan key1_p3 is_digit queryString Map.empty"

definition run_console_cgi :: "env \<Rightarrow> string \<times> host_info list" where
  "run_console_cgi e =
     (let query = win_parse_query_string (eget e ''QUERY_STRING'')
      in (win_console_header @ win_console_body query, concat (map (session_info query) [0..<5])))"

section \<open>HttpServer\<close>

record win_http =
  wh_data :: string
  wh_env :: env

definition win_http_init :: "string \<Rightarrow> int \<Rightarrow> string \<Rightarrow> int \<Rightarrow> string \<Rightarrow> win_http" where
  "win_http_init remote_addr remote_port server_addr server_port buf =
     \<lparr>wh_data = buf,
      wh_env = [''REMOTE_ADDR'' \<mapsto> remote_addr, ''REMOTE_PORT'' \<mapsto> to_string remote_port,
                ''SERVER_ADDR'' \<mapsto> server_addr, ''SERVER_PORT'' \<mapsto> to_string server_port]\<rparr>"

text \<open>
  \<^verbatim>\<open>connect_to_url\<close>: the status line and header, then the dispatch on the path.
  \<^verbatim>\<open>buffer("NOT FOUND")\<close> is the array with its terminating NUL.
\<close>

definition win_status :: string where
  "win_status = ''HTTP/1.1 200 OK'' @ [CR, NL] @ ''Content-type: text/html'' @ [CR, NL, CR, NL, NL]"

definition win_connect_to_url :: "env \<Rightarrow> string \<times> host_info list" where
  "win_connect_to_url e =
     (let uri = substr_to (eget e ''REQUEST_URI'') (find_char (CHR ''?'') (eget e ''REQUEST_URI''));
          (reply, sessions) =
            (if uri = ''/panel.cgi'' then (run_panel_cgi, [])
             else if uri = ''/console.cgi'' then run_console_cgi e
             else (''NOT FOUND'' @ [NUL], []))
      in (win_status @ reply, sessions))"

text \<open>The handler of the read; an exception of the parser ends the server.\<close>

definition win_http_on_read :: "win_http \<Rightarrow> string option \<Rightarrow> (string \<times> host_info list) result" where
  "win_http_on_read s rd =
     (case rd of
        None \<Rightarrow> Inr ([], [])
      | Some bytes \<Rightarrow>
          ebind (parseHttpRequest_win (fill_data (wh_data s) bytes) (wh_env s))
            (\<lambda>e. Inr (win_connect_to_url e)))"

section \<open>NpShellConnect and NpShellRun\<close>

record win_run = shell_run +
  wr_log :: string

definition win_write_to_console :: "string \<Rightarrow> string \<Rightarrow> string" where
  "win_write_to_console ident response =
     ''<script>document.getElementById('' @ [SQ] @ ident @ [SQ] @ '').innerHTML += '' @ [DQ]
     @ console_text response @ [DQ] @ '';</script>''"

text \<open>\<open>files\<close> is the server's file system.\<close>

definition win_run_start :: "(string \<Rightarrow> string option) \<Rightarrow> host_info \<Rightarrow> win_run" where
  "win_run_start files info =
     (let lines = (case files (''./test_case/'' @ hi_file info) of None \<Rightarrow> [] | Some body \<Rightarrow> getlines body)
      in \<lparr>sr_id = hi_id info, sr_command = lines, sr_reading = True, sr_sock = [], sr_cout = [],
          wr_log = ''!!!!'' @ [NL] @ hi_file info @ [NL]
            @ (if files (''./test_case/'' @ hi_file info) = None then ''File Open Error'' @ [NL] else [])
            @ send_lines lines\<rparr>)"

definition win_run_on_read :: "string option \<Rightarrow> win_run \<Rightarrow> win_run" where
  "win_run_on_read rd s =
     (case rd of
        None \<Rightarrow> s\<lparr>sr_reading := False\<rparr>
      | Some response \<Rightarrow>
          (let response = encode response;
               s = s\<lparr>sr_cout := sr_cout s @ win_write_to_console (sr_id s) response\<rparr>
           in if length (sr_command s) \<noteq> 0 \<and> find_char (CHR ''%'') response \<noteq> None
              then (let line = sr_command s ! 0; line_console = encode line
                    in s\<lparr>sr_cout := sr_cout s @ win_write_to_console (sr_id s) line_console
                                   @ win_write_to_console (sr_id s) '' &NewLine;'',
                         sr_sock := sr_sock s @ line @ [NL],
                         sr_command := tl (sr_command s)\<rparr>)
              else s))"

datatype win_connect = Resolving host_info | Connecting host_info | Running win_run | Ended string

text \<open>\<^verbatim>\<open>do_connect\<close>: the completions of the resolve and the connect, \<^const>\<open>None\<close> being success.\<close>

fun win_connect_done :: "(string \<Rightarrow> string option) \<Rightarrow> string option \<Rightarrow> win_connect \<Rightarrow> win_connect" where
  "win_connect_done files None (Resolving info) = Connecting info"
| "win_connect_done files None (Connecting info) = Running (win_run_start files info)"
| "win_connect_done files (Some msg) (Resolving info) = Ended (''ERROR: '' @ msg @ [NL])"
| "win_connect_done files (Some msg) (Connecting info) = Ended (''ERROR: '' @ msg @ [NL])"
| "win_connect_done files ec c = c"

section \<open>The accept loop\<close>

text \<open>The server handles a connection (or an accept error) and accepts again, in one process.\<close>

record win_tcp =
  wt_accepting :: bool
  wt_served :: nat
  wt_cerr :: string

definition win_tcp_init :: win_tcp where
  "win_tcp_init = \<lparr>wt_accepting = True, wt_served = 0, wt_cerr = []\<rparr>"

definition win_tcp_on_accept :: "string option \<Rightarrow> win_tcp \<Rightarrow> win_tcp" where
  "win_tcp_on_accept ec s =
     (let s = s\<lparr>wt_accepting := False\<rparr>
      in case ec of
           None \<Rightarrow> s\<lparr>wt_served := wt_served s + 1, wt_accepting := True\<rparr>
         | Some msg \<Rightarrow> s\<lparr>wt_cerr := wt_cerr s @ ''Accept error: '' @ msg @ [NL], wt_accepting := True\<rparr>)"

section \<open>The panel and the console agree\<close>

text \<open>The fields the panel's form submits, in the order of the page.\<close>

definition panel_fields :: "(nat \<Rightarrow> string) \<Rightarrow> (nat \<Rightarrow> string) \<Rightarrow> (nat \<Rightarrow> string) \<Rightarrow> (string \<times> string) list" where
  "panel_fields host port file =
     concat (map (\<lambda>i. [(key_h i, host i), (key_p i, port i), (key_f i, file i)]) [0..<5])"

lemma keys_distinct [simp]:
  "key_h i \<noteq> key_p j" "key_h i \<noteq> key_f j" "key_p i \<noteq> key_f j" "key_p i \<noteq> key_h j"
  "key_f i \<noteq> key_h j" "key_f i \<noteq> key_p j"
  by (simp_all add: key_h_def key_p_def key_f_def)

lemma keys_inject [simp]: "key_p i = key_p j \<longleftrightarrow> i = j" "key_f i = key_f j \<longleftrightarrow> i = j"
  by (simp_all add: key_p_def key_f_def to_string_def)

lemma map_of_triples:
  assumes "distinct is"
  shows "map_of (rev (concat (map (\<lambda>i. [(key_h i, host i), (key_p i, port i), (key_f i, file i)]) is))) k =
    map_of (concat (map (\<lambda>i. [(key_h i, host i), (key_p i, port i), (key_f i, file i)]) is)) k"
    (is "map_of (rev ?kvs) k = _")
proof -
  have "distinct (map fst ?kvs)"
    using assms by (induction "is") (auto simp: image_iff)
  then have "map_of (rev ?kvs) = map_of ?kvs"
    by (intro map_of_inject_set [THEN iffD2]) (simp_all add: rev_map [symmetric] del: rev_concat)
  then show ?thesis by simp
qed

lemma map_of_triples_get:
  assumes "i \<in> set is"
  shows "map_of (concat (map (\<lambda>i. [(key_h i, host i), (key_p i, port i), (key_f i, file i)]) is)) (key_h i) = Some (host i)"
    and "map_of (concat (map (\<lambda>i. [(key_h i, host i), (key_p i, port i), (key_f i, file i)]) is)) (key_p i) = Some (port i)"
    and "map_of (concat (map (\<lambda>i. [(key_h i, host i), (key_p i, port i), (key_f i, file i)]) is)) (key_f i) = Some (file i)"
  using assms by (induction "is") auto

lemma panel_fields_parsed:
  assumes "\<forall>i<5. (\<forall>c\<in>set (host i @ port i @ file i). value_char c)" and "j < 5"
  shows "qget (win_parse_query_string (form_query (panel_fields host port file))) (key_h j) = host j"
    and "qget (win_parse_query_string (form_query (panel_fields host port file))) (key_p j) = port j"
    and "qget (win_parse_query_string (form_query (panel_fields host port file))) (key_f j) = file j"
proof -
  have digit: "to_string (int i) = [digit_char i] \<and> is_digit (digit_char i)" if "i < 5" for i
    using that by (simp add: to_string_def dec_nat.simps)
  have "\<forall>kv\<in>set (panel_fields host port file). wf_field key1_p3 is_digit kv"
    using assms(1) digit
    by (auto simp: panel_fields_def wf_field_def key_h_def key_p_def key_f_def key1_p3_def
        simp del: upt_rec_numeral)
  then have parse: "win_parse_query_string (form_query (panel_fields host port file))
      = map_of (rev (panel_fields host port file))"
    using query_scan_form [of "panel_fields host port file" key1_p3 is_digit Map.empty]
    by (simp add: win_parse_query_string_def key1_p3_def)
  have j: "j \<in> set [0..<5]" and d: "distinct [0..<5::nat]" using assms(2) by simp_all
  show "qget (win_parse_query_string (form_query (panel_fields host port file))) (key_h j) = host j"
    and "qget (win_parse_query_string (form_query (panel_fields host port file))) (key_p j) = port j"
    and "qget (win_parse_query_string (form_query (panel_fields host port file))) (key_f j) = file j"
    unfolding parse qget_def unfolding panel_fields_def map_of_triples [OF d] map_of_triples_get [OF j]
    by simp_all
qed

lemma panel_names:
  assumes "i < 5"
  shows "\<exists>u v. run_panel_cgi = u @ panel_row i @ v"
proof -
  have "i \<in> set [0..<5]" using assms by simp
  from concat_map_infix [OF this, of panel_row] show ?thesis
    unfolding run_panel_cgi_def by (metis append.assoc)
qed

lemma win_uri_path:
  "wf_http_request r \<Longrightarrow> takeWhile (\<lambda>c. c \<noteq> CHR ''?'') (rq_uri r) = rq_path r"
  by (auto simp: rq_uri_def wf_http_request_def takeWhile_append takeWhile_all split: option.splits)

lemma win_http_on_read_wf:
  assumes "wf_http_request r" and "length (http_head r) \<le> max_length"
  shows "\<exists>e. win_http_on_read s (Some (http_text r)) = Inr (win_connect_to_url e)
    \<and> eget e ''REQUEST_URI'' = rq_uri r
    \<and> eget e ''QUERY_STRING'' = (case rq_query r of None \<Rightarrow> [] | Some q \<Rightarrow> q)"
proof -
  obtain rest where full: "fill_data (wh_data s) (http_text r) = http_text (r\<lparr>rq_rest := rest\<rparr>)"
    using fill_data_http_text [OF assms(2)] by blast
  let ?r = "r\<lparr>rq_rest := rest\<rparr>"
  have wf: "wf_http_request ?r" using assms(1) by (simp add: wf_http_request_def rq_uri_def)
  have uri: "rq_uri ?r = rq_uri r" by (simp add: rq_uri_def)
  show ?thesis
    unfolding win_http_on_read_def option.case full parseHttpRequest_win_eq [OF wf] uri ebind_Inr
    by (rule exI, rule conjI, rule refl) (simp add: eget_def)
qed

lemma concat_map_if: "concat (map (\<lambda>i. if P i then [f i] else []) is) = map f (filter P is)"
  by (induction "is") simp_all

text \<open>The sessions of the form's rows.\<close>

lemma panel_sessions:
  assumes "\<forall>i<5. (\<forall>c\<in>set (host i @ port i @ file i). value_char c)"
  shows "concat (map (session_info (win_parse_query_string (form_query (panel_fields host port file)))) [0..<5]) =
      map (\<lambda>i. \<lparr>hi_id = key_h i, hi_host = host i, hi_port = port i, hi_file = file i\<rparr>)
        (filter (\<lambda>i. host i \<noteq> [] \<and> port i \<noteq> [] \<and> file i \<noteq> []) [0..<5])"
proof -
  have "session_info (win_parse_query_string (form_query (panel_fields host port file))) i =
      (if host i \<noteq> [] \<and> port i \<noteq> [] \<and> file i \<noteq> []
       then [\<lparr>hi_id = key_h i, hi_host = host i, hi_port = port i, hi_file = file i\<rparr>] else [])"
    if "i \<in> set [0..<5]" for i
    using that by (simp add: session_info_def panel_fields_parsed [OF assms(1)])
  then have "concat (map (session_info (win_parse_query_string (form_query (panel_fields host port file)))) [0..<5])
      = concat (map (\<lambda>i. if host i \<noteq> [] \<and> port i \<noteq> [] \<and> file i \<noteq> []
          then [\<lparr>hi_id = key_h i, hi_host = host i, hi_port = port i, hi_file = file i\<rparr>] else []) [0..<5])"
    by (intro arg_cong [where f = concat] map_cong refl) blast
  also have "\<dots> = map (\<lambda>i. \<lparr>hi_id = key_h i, hi_host = host i, hi_port = port i, hi_file = file i\<rparr>)
        (filter (\<lambda>i. host i \<noteq> [] \<and> port i \<noteq> [] \<and> file i \<noteq> []) [0..<5])"
    by (rule concat_map_if)
  finally show ?thesis .
qed

text \<open>
  Panel and console agree: submitting the panel's form with any five hosts, ports and files
  of digits, dots and lower-case letters starts exactly the sessions of the rows filled in
  completely, in order, each with the values of its row.
\<close>

theorem win_panel_submits_sessions:
  assumes "\<forall>i<5. (\<forall>c\<in>set (host i @ port i @ file i). value_char c)"
    and "wf_http_request r" and "length (http_head r) \<le> max_length" and "rq_path r = ''/console.cgi''"
    and "rq_query r = Some (form_query (panel_fields host port file))"
  shows "\<exists>page. win_http_on_read s (Some (http_text r)) = Inr (win_status @ page,
      map (\<lambda>i. \<lparr>hi_id = key_h i, hi_host = host i, hi_port = port i, hi_file = file i\<rparr>)
        (filter (\<lambda>i. host i \<noteq> [] \<and> port i \<noteq> [] \<and> file i \<noteq> []) [0..<5]))"
proof -
  obtain e where e: "win_http_on_read s (Some (http_text r)) = Inr (win_connect_to_url e)"
    "eget e ''REQUEST_URI'' = rq_uri r" "eget e ''QUERY_STRING'' = form_query (panel_fields host port file)"
    using win_http_on_read_wf [OF assms(2,3)] assms(5) by force
  show ?thesis
    using panel_sessions [OF assms(1)] e assms(4) win_uri_path [OF assms(2)]
    by (simp add: win_connect_to_url_def run_console_cgi_def substr_to_find Let_def del: upt_rec_numeral)
qed

definition demo_row :: "string \<Rightarrow> nat \<Rightarrow> string" where
  "demo_row v i = (if i = 0 then v else [])"

definition demo_submit :: http_request where
  "demo_submit = demo_http\<lparr>rq_query :=
     Some (form_query (panel_fields (demo_row ''np1.cs'') (demo_row ''7000'') (demo_row ''t1.txt'')))\<rparr>"

lemma demo_query:
  "form_query (panel_fields (demo_row ''np1.cs'') (demo_row ''7000'') (demo_row ''t1.txt''))
    = ''h0=np1.cs&p0=7000&f0=t1.txt&h1=&p1=&f1=&h2=&p2=&f2=&h3=&p3=&f3=&h4=&p4=&f4=''"
proof -
  have u: "[0..<5] = [0, 1, 2, 3, 4 :: nat]" by code_simp
  show ?thesis
    by (simp add: u panel_fields_def form_query_def form_field_def key_h_def key_p_def key_f_def
        to_string_def dec_nat.simps demo_row_def)
qed

lemma demo_submit_wf: "wf_http_request demo_submit" "length (http_head demo_submit) \<le> max_length"
  using demo_http_wf
  by (simp_all add: demo_submit_def wf_http_request_def rq_uri_def demo_query demo_http_def NL_def
      http_head_def http_text_def request_line_def max_length_def)

theorem win_panel_submits_sessions_witness:
  "\<exists>page. win_http_on_read (win_http_init [] 0 [] 0 []) (Some (http_text demo_submit)) = Inr (win_status @ page,
      [\<lparr>hi_id = ''h0'', hi_host = ''np1.cs'', hi_port = ''7000'', hi_file = ''t1.txt''\<rparr>])"
proof -
  let ?row = demo_row
  have u: "[0..<5] = [0, 1, 2, 3, 4 :: nat]" by code_simp
  have v: "\<forall>i<5::nat. (\<forall>c\<in>set (?row ''np1.cs'' i @ ?row ''7000'' i @ ?row ''t1.txt'' i). value_char c)"
    by (auto simp: value_char_def is_digit_def demo_row_def)
  have f: "map (\<lambda>i. \<lparr>hi_id = key_h i, hi_host = ?row ''np1.cs'' i, hi_port = ?row ''7000'' i,
        hi_file = ?row ''t1.txt'' i\<rparr>)
      (filter (\<lambda>i. ?row ''np1.cs'' i \<noteq> [] \<and> ?row ''7000'' i \<noteq> [] \<and> ?row ''t1.txt'' i \<noteq> []) [0..<5])
      = [\<lparr>hi_id = ''h0'', hi_host = ''np1.cs'', hi_port = ''7000'', hi_file = ''t1.txt''\<rparr>]"
    by (simp add: u demo_row_def key_h_def to_string_def dec_nat.simps)
  have "rq_path demo_submit = ''/console.cgi''" "rq_query demo_submit =
      Some (form_query (panel_fields (?row ''np1.cs'') (?row ''7000'') (?row ''t1.txt'')))"
    by (simp_all add: demo_submit_def demo_http_def)
  from win_panel_submits_sessions [OF v demo_submit_wf this, of "win_http_init [] 0 [] 0 []"]
  show ?thesis unfolding f .
qed

text \<open>
   Dispatch: the path of a well-formed request alone decides; \<^verbatim>\<open>/panel.cgi\<close> answers the form,
  \<^verbatim>\<open>/console.cgi\<close> the console, and anything else \<^verbatim>\<open>NOT FOUND\<close> and its NUL, with no session.
\<close>

theorem win_dispatch:
  assumes "wf_http_request r" and "length (http_head r) \<le> max_length" and "rq_path r \<noteq> ''/console.cgi''"
  shows "win_http_on_read s (Some (http_text r)) = Inr (win_status @
      (if rq_path r = ''/panel.cgi'' then run_panel_cgi else ''NOT FOUND'' @ [NUL]), [])"
proof -
  obtain e where e: "win_http_on_read s (Some (http_text r)) = Inr (win_connect_to_url e)"
    "eget e ''REQUEST_URI'' = rq_uri r"
    using win_http_on_read_wf [OF assms(1,2)] by force
  then show ?thesis
    using assms(3) win_uri_path [OF assms(1)]
    by (simp add: win_connect_to_url_def substr_to_find Let_def)
qed

theorem win_dispatch_witness:
  "win_http_on_read (win_http_init [] 0 [] 0 [])
       (Some (http_text (demo_http\<lparr>rq_path := ''/x'', rq_query := None\<rparr>)))
     = Inr (win_status @ ''NOT FOUND'' @ [NUL], [])"
proof -
  have "wf_http_request (demo_http\<lparr>rq_path := ''/x'', rq_query := None\<rparr>)"
    by (simp add: demo_http_def wf_http_request_def rq_uri_def NL_def)
  moreover have "length (http_head (demo_http\<lparr>rq_path := ''/x'', rq_query := None\<rparr>)) \<le> max_length"
    by (simp add: demo_http_def http_head_def http_text_def request_line_def rq_uri_def max_length_def)
  ultimately show ?thesis using win_dispatch [of "demo_http\<lparr>rq_path := ''/x'', rq_query := None\<rparr>"] by simp
qed

section \<open>Sessions on the shared socket\<close>

lemma win_run_on_read_Some:
  "win_run_on_read (Some r) s =
     (if is_prompt r \<and> sr_command s \<noteq> []
      then s\<lparr>sr_cout := sr_cout s @ transcript (win_write_to_console (sr_id s)) r (Some (hd (sr_command s))),
             sr_sock := sr_sock s @ hd (sr_command s) @ [NL], sr_command := tl (sr_command s)\<rparr>
      else s\<lparr>sr_cout := sr_cout s @ transcript (win_write_to_console (sr_id s)) r None\<rparr>)"
  by (cases "sr_command s")
    (auto simp: win_run_on_read_def Let_def is_prompt_def find_char_None_iff percent_in_encode transcript_def)

interpretation wrun: paced_session win_run_on_read sr_reading sr_command sr_sock sr_cout
  "\<lambda>s. win_write_to_console (sr_id s)"
  by unfold_locales (simp_all add: win_run_on_read_Some)

fun win_run_all :: "win_run \<Rightarrow> string option list \<Rightarrow> win_run option" where
  "win_run_all s [] = Some s"
| "win_run_all s (e # es) = (if sr_reading s then win_run_all (win_run_on_read e s) es else None)"

lemma wrun_feed_eq: "wrun.feed s es = win_run_all s es"
  by (induction es arbitrary: s) auto

text \<open>
   A session of the Windows server whose resolve and connect succeed sends the batch file's
  lines one per prompt and writes each shell output to the browser exactly once, escaped.
\<close>

theorem win_session_paces_commands:
  assumes "files (''./test_case/'' @ hi_file info) = Some body"
  shows "\<exists>s t. win_connect_done files None (win_connect_done files None (Resolving info)) = Running s
    \<and> win_run_all s (map Some rs) = Some t \<and> sr_reading t
    \<and> sr_sock t = send_lines (take (length (filter is_prompt rs)) (getlines body))
    \<and> sr_command t = drop (length (filter is_prompt rs)) (getlines body)
    \<and> sr_cout t = transcripts (win_write_to_console (hi_id info)) (getlines body) rs"
  using wrun.feed_responses [of "win_run_start files info" rs] assms
  by (auto simp: win_run_start_def wrun_feed_eq Let_def)

theorem win_session_paces_commands_witness:
  "\<exists>s t. win_connect_done (\<lambda>f. Some (''ls'' @ [NL])) None (win_connect_done (\<lambda>f. Some (''ls'' @ [NL])) None
        (Resolving \<lparr>hi_id = ''h0'', hi_host = ''np'', hi_port = ''7000'', hi_file = ''t1.txt''\<rparr>)) = Running s
    \<and> win_run_all s (map Some [''% '', ''a.txt'', ''% '']) = Some t
    \<and> sr_sock t = ''ls'' @ [NL] \<and> sr_command t = []"
proof -
  have "getlines (''ls'' @ [NL]) = [''ls'']" by code_simp
  then show ?thesis
    using win_session_paces_commands [of "\<lambda>f. Some (''ls'' @ [NL])"
        "\<lparr>hi_id = ''h0'', hi_host = ''np'', hi_port = ''7000'', hi_file = ''t1.txt''\<rparr>" "''ls'' @ [NL]"
        "[''% '', ''a.txt'', ''% '']"]
    by (auto simp: is_prompt_def send_lines_def simp del: win_run_all.simps)
qed

end
