(* ===== verification/Console_Process.thy ===== *)
theory Console_Process
  imports Side_By_Side Web_Console Socks_Client Http_Server Win_Server
begin

text \<open>
  The console as a process: what the HTTP server's child becomes when it executes
  \<^verbatim>\<open>nctu_np_project4/hw4.cpp\<close> or \<^verbatim>\<open>nctu_np_project3/console.cpp\<close>, from the query string in its environment to
  the sessions side by side in \<^verbatim>\<open>ioservice.run()\<close>, which print to one standard output.
\<close>

section \<open>The direct client of project 3\<close>

text \<open>
  \<^verbatim>\<open>NpShellConnect\<close> of \<^verbatim>\<open>console.cpp\<close> has no proxy: it resolves and connects, and starts the shell's session.  Of the
  record it uses the host, the phase and the output.
\<close>

definition direct_start :: "host_info \<Rightarrow> np_connect" where
  "direct_start info = (np_connect_init info [] [] [])\<lparr>nc_phase := DirectResolving\<rparr>"

fun direct_step :: "np_connect \<Rightarrow> connect_event \<Rightarrow> np_connect option" where
  "direct_step s (EvResolved ec) =
     (if nc_phase s = DirectResolving
      then Some (case ec of None \<Rightarrow> s\<lparr>nc_phase := DirectConnecting\<rparr> | Some msg \<Rightarrow> report_error msg s) else None)"
| "direct_step s (EvConnected ec) =
     (if nc_phase s = DirectConnecting
      then Some (case ec of None \<Rightarrow> s\<lparr>nc_phase := ShellStarted\<rparr> | Some msg \<Rightarrow> report_error msg s) else None)"
| "direct_step s _ = None"

lemma direct_step_eq:
  "nc_phase s \<in> {DirectResolving, DirectConnecting, ShellStarted, Stopped} \<Longrightarrow> np_connect_step s ev = direct_step s ev"
  by (cases "(s, ev)" rule: direct_step.cases) auto

section \<open>A session from its connection on\<close>

datatype cgi_session = Linking np_connect | Talking shell_run

text \<open>
  A completed handler of the connection, or the completed read of a session that runs.  \<open>err\<close> is the message of the
  exception when the \<^verbatim>\<open>boost::asio::write\<close> to the shell fails; it leaves \<^verbatim>\<open>ioservice.run()\<close> and \<^verbatim>\<open>main\<close>.
\<close>

datatype cgi_event = LinkEv connect_event | ReadEv "string option" "string option"

definition start_session :: "(string \<Rightarrow> string option) \<Rightarrow> host_info \<Rightarrow> shell_run" where
  "start_session files info = shell_run_start (hi_id info) (files (''test_case/'' @ hi_file info))"

definition after_link :: "(string \<Rightarrow> string option) \<Rightarrow> np_connect \<Rightarrow> cgi_session" where
  "after_link files n =
     (if nc_phase n = ShellStarted then Talking (start_session files (nc_host_info n)) else Linking n)"

definition session_event ::
  "(string \<Rightarrow> string option) \<Rightarrow> cgi_event \<Rightarrow> cgi_session \<Rightarrow> (cgi_session \<times> string) result option" where
  "session_event files ev s =
     (case (s, ev) of
        (Linking n, LinkEv e) \<Rightarrow>
          map_option (\<lambda>n'. Inr (after_link files n', drop (length (nc_cout n)) (nc_cout n'))) (np_connect_step n e)
      | (Talking r, ReadEv rd err) \<Rightarrow>
          if sr_reading r then
            (let r' = shell_run_on_read rd r
             in case err of
                  Some what \<Rightarrow>
                    if sr_sock r' \<noteq> sr_sock r then Some (Inl (Thrown what))
                    else Some (Inr (Talking r', drop (length (sr_cout r)) (sr_cout r')))
                | None \<Rightarrow> Some (Inr (Talking r', drop (length (sr_cout r)) (sr_cout r'))))
          else None
      | _ \<Rightarrow> None)"

section \<open>The process\<close>

text \<open>
  The sessions that \<^verbatim>\<open>main\<close> has started, what they have printed behind the page, each with its session,
  and what went to the standard error.
\<close>

record cgi =
  cg_page :: string
  cg_sessions :: "cgi_session list"
  cg_out :: "(nat \<times> string) list"
  cg_cerr :: string

text \<open>
  The loop of \<^verbatim>\<open>main\<close> over the sessions; \<open>resolve\<close> answers the synchronous resolution of the shell's
  address, whose exception \<^verbatim>\<open>main\<close> catches, and \<open>buf\<close> is the uninitialised reply buffer.
\<close>

fun start_links ::
  "(string \<Rightarrow> string \<Rightarrow> string + byte list) \<Rightarrow> byte list \<Rightarrow> (host_info \<times> string \<times> string) list \<Rightarrow>
     (cgi_session list \<times> string) result" where
  "start_links resolve buf [] = Inr ([], [])"
| "start_links resolve buf ((info, sh, sp) # infos) =
     (case send_sock_request (resolve (hi_host info) (hi_port info)) (np_connect_init info sh sp buf) of
        Inl (Thrown what) \<Rightarrow>
          ebind (start_links resolve buf infos) (\<lambda>(ss, cerr). Inr (ss, ''Exception: '' @ what @ [NL] @ cerr))
      | Inl e \<Rightarrow> Inl e
      | Inr n \<Rightarrow> ebind (start_links resolve buf infos) (\<lambda>(ss, cerr). Inr (Linking n # ss, cerr)))"

definition hw4_process ::
  "(string \<Rightarrow> string \<Rightarrow> string + byte list) \<Rightarrow> byte list \<Rightarrow> string option \<Rightarrow> cgi result" where
  "hw4_process resolve buf query_env =
     ebind (hw4_main query_env) (\<lambda>(page, infos).
     ebind (start_links resolve buf infos) (\<lambda>(ss, cerr).
       Inr \<lparr>cg_page = page, cg_sessions = ss, cg_out = [], cg_cerr = cerr\<rparr>))"

definition console3_process :: "string option \<Rightarrow> cgi result" where
  "console3_process query_env =
     ebind (console3_main query_env) (\<lambda>(page, infos).
       Inr \<lparr>cg_page = page, cg_sessions = map (Linking \<circ> direct_start) infos, cg_out = [], cg_cerr = []\<rparr>)"

text \<open>\<^verbatim>\<open>ioservice.run()\<close>: the events of all sessions, in any order.\<close>

definition cgi_step :: "(string \<Rightarrow> string option) \<Rightarrow> nat \<times> cgi_event \<Rightarrow> cgi \<Rightarrow> cgi result option" where
  "cgi_step files ev p =
     (case ev of (i, e) \<Rightarrow>
        if i < length (cg_sessions p) then
          (case session_event files e (cg_sessions p ! i) of
             None \<Rightarrow> None
           | Some (Inl x) \<Rightarrow> Some (Inl x)
           | Some (Inr (s, t)) \<Rightarrow>
               Some (Inr (p\<lparr>cg_sessions := (cg_sessions p)[i := s], cg_out := cg_out p @ [(i, t)]\<rparr>)))
        else None)"

fun cgi_run :: "(string \<Rightarrow> string option) \<Rightarrow> (nat \<times> cgi_event) list \<Rightarrow> cgi \<Rightarrow> cgi result option" where
  "cgi_run files [] p = Some (Inr p)"
| "cgi_run files (ev # evs) p =
     (case cgi_step files ev p of
        None \<Rightarrow> None
      | Some (Inl x) \<Rightarrow> Some (Inl x)
      | Some (Inr p) \<Rightarrow> cgi_run files evs p)"

interpretation cgi: side_by_side "session_event files" for files .

lemma cgi_step_eq:
  "map_option (\<lambda>r. ebind r (\<lambda>p. Inr (cg_sessions p, cg_out p))) (cgi_step files ev p) =
     cgi.one_of files ev (cg_sessions p, cg_out p)"
  by (cases ev) (auto simp: cgi_step_def cgi.one_of_def split: option.split sum.split)

lemma cgi_run_eq:
  "map_option (\<lambda>r. ebind r (\<lambda>p. Inr (cg_sessions p, cg_out p))) (cgi_run files evs p) =
     cgi.together files evs (cg_sessions p, cg_out p)"
proof (induction evs arbitrary: p)
  case (Cons ev evs)
  then show ?case by (auto simp: cgi_step_eq [symmetric] split: option.split sum.split)
qed simp

section \<open>A session alone\<close>

text \<open>A connection that ends with a shell started has printed nothing, and takes no further event.\<close>

lemma np_connect_step_started:
  "np_connect_step n e = Some n' \<Longrightarrow> nc_phase n' = ShellStarted \<Longrightarrow>
     nc_cout n' = nc_cout n \<and> nc_host_info n' = nc_host_info n"
  by (cases e; cases "nc_phase n")
    (auto simp: report_error_def get_sock_reply_done_def Let_def split: option.splits if_splits)

lemma np_connect_step_info: "np_connect_step n e = Some n' \<Longrightarrow> nc_host_info n' = nc_host_info n"
  by (cases e; cases "nc_phase n")
    (auto simp: report_error_def get_sock_reply_done_def Let_def split: option.splits if_splits)

lemma np_connect_step_live:
  "np_connect_step n e = Some n' \<Longrightarrow> nc_phase n' \<noteq> Stopped \<Longrightarrow> nc_cout n' = nc_cout n"
  by (cases e; cases "nc_phase n")
    (auto simp: report_error_def get_sock_reply_done_def Let_def split: option.splits if_splits)

lemma np_connect_over:
  "nc_phase n = ShellStarted \<or> nc_phase n = Stopped \<Longrightarrow> np_connect_step n e = None"
  by (cases e) auto

lemma alone_append:
  assumes "cgi.alone files es s = Some (Inr (s1, t))" and "cgi.alone files fs s1 = Some (Inr (s2, u))"
  shows "cgi.alone files (es @ fs) s = Some (Inr (s2, t @ u))"
  using assms(1)
proof (induction es arbitrary: s t)
  case (Cons e es)
  then show ?case by (auto split: option.splits sum.splits)
qed (use assms(2) in simp)

lemma session_event_link:
  "np_connect_step n e = Some m \<Longrightarrow>
     session_event files (LinkEv e) (Linking n) = Some (Inr (after_link files m, drop (length (nc_cout n)) (nc_cout m)))"
  by (simp add: session_event_def)

lemma session_event_read:
  "sr_reading r \<Longrightarrow> session_event files (ReadEv rd None) (Talking r) =
     Some (Inr (Talking (shell_run_on_read rd r), drop (length (sr_cout r)) (sr_cout (shell_run_on_read rd r))))"
  by (simp add: session_event_def Let_def)

lemma links_alone:
  assumes "np_connect_run n les = Some n'" and "nc_phase n' = ShellStarted" and "nc_phase n \<noteq> ShellStarted"
  shows "cgi.alone files (map LinkEv les) (Linking n) = Some (Inr (Talking (start_session files (nc_host_info n)), []))"
  using assms
proof (induction les arbitrary: n)
  case (Cons e les)
  then obtain m where m: "np_connect_step n e = Some m" and rest: "np_connect_run m les = Some n'"
    by (auto split: option.splits)
  have info: "nc_host_info m = nc_host_info n" by (rule np_connect_step_info [OF m])
  show ?case
  proof (cases "nc_phase m = ShellStarted")
    case True
    then have "les = []" using rest np_connect_over [of m] by (cases les) auto
    then show ?thesis using True info np_connect_step_started [OF m True]
      by (simp add: session_event_link [OF m] after_link_def)
  next
    case False
    moreover have "nc_phase m \<noteq> Stopped"
      using rest Cons.prems(2) np_connect_over [of m] by (cases les) auto
    ultimately show ?thesis
      using Cons.IH [OF rest Cons.prems(2) False] False info np_connect_step_live [OF m]
      by (simp add: session_event_link [OF m] after_link_def)
  qed
qed simp

lemma run_grows: "sr_cout (shell_run_on_read rd s) = sr_cout s @ drop (length (sr_cout s)) (sr_cout (shell_run_on_read rd s))"
  by (cases rd) (auto simp: shell_run_on_read_def Let_def)

lemma reads_alone:
  assumes "shell_run_all r (map Some rs) = Some r'"
  shows "\<exists>t. cgi.alone files (map (\<lambda>x. ReadEv (Some x) None) rs) (Talking r) = Some (Inr (Talking r', t))
    \<and> sr_cout r' = sr_cout r @ t"
  using assms
proof (induction rs arbitrary: r)
  case (Cons x rs)
  then have r: "sr_reading r" and rest: "shell_run_all (shell_run_on_read (Some x) r) (map Some rs) = Some r'"
    by (auto simp: shell_run_step_def split: if_splits option.splits)
  let ?r1 = "shell_run_on_read (Some x) r"
  obtain t where t: "cgi.alone files (map (\<lambda>x. ReadEv (Some x) None) rs) (Talking ?r1) = Some (Inr (Talking r', t))"
    "sr_cout r' = sr_cout ?r1 @ t" using Cons.IH [OF rest] by blast
  then show ?case using run_grows [of "Some x" r] by (simp add: session_event_read [OF r])
qed simp

section \<open>Every session of the process\<close>

text \<open>What a session of either console does, whatever the others do.\<close>

lemma session_paced:
  assumes "cg_out p = []" and "cgi_run files evs p = Some (Inr p')"
    and "i < length (cg_sessions p)" and "cg_sessions p ! i = Linking n"
    and "events_at i evs = map LinkEv les @ map (\<lambda>r. ReadEv (Some r) None) rs"
    and "np_connect_run n les = Some n'" and "nc_phase n' = ShellStarted" and "nc_phase n \<noteq> ShellStarted"
    and "files (''test_case/'' @ hi_file (nc_host_info n)) = Some body"
  shows "\<exists>r. cg_sessions p' ! i = Talking r
    \<and> sr_sock r = send_lines (take (length (filter is_prompt rs)) (getlines body))
    \<and> scripts_of i (cg_out p') = transcripts (write_to_console (hi_id (nc_host_info n))) (getlines body) rs
    \<and> cg_page p' = cg_page p"
proof -
  note out = assms(1)
  have page: "cg_page p' = cg_page p" using assms(2)
  proof (induction evs arbitrary: p)
    case (Cons ev evs)
    then obtain p1 where s: "cgi_step files ev p = Some (Inr p1)" and "cg_page p' = cg_page p1"
      by (auto split: option.splits sum.splits)
    moreover have "cg_page p1 = cg_page p" using s
      by (auto simp: cgi_step_def split: prod.splits if_splits option.splits sum.splits)
    ultimately show ?case by simp
  qed simp
  have "cgi.together files evs (cg_sessions p, cg_out p) = Some (Inr (cg_sessions p', cg_out p'))"
    using assms(2) unfolding cgi_run_eq [symmetric] map_ebind_iff by blast
  from cgi.together_apart [OF this assms(3)] obtain t where
    alone: "cgi.alone files (events_at i evs) (Linking n) = Some (Inr (cg_sessions p' ! i, t))"
    and t: "scripts_of i (cg_out p') = t" using out assms(4) by auto
  let ?r = "start_session files (nc_host_info n)"
  obtain r where r: "shell_run_all ?r (map Some rs) = Some r"
    "sr_sock r = send_lines (take (length (filter is_prompt rs)) (getlines body))"
    "sr_cout r = transcripts (write_to_console (hi_id (nc_host_info n))) (getlines body) rs"
    using run.feed_responses [of ?r rs] assms(9)
    by (auto simp: start_session_def shell_run_start_def run_feed_eq)
  obtain u where u: "cgi.alone files (map (\<lambda>x. ReadEv (Some x) None) rs) (Talking ?r) = Some (Inr (Talking r, u))"
    "sr_cout r = sr_cout ?r @ u" using reads_alone [OF r(1)] by blast
  have "sr_cout ?r = []" by (simp add: start_session_def shell_run_start_def)
  with alone_append [OF links_alone [OF assms(6-8)] u(1)] alone u(2) r t page show ?thesis
    unfolding assms(5) by auto
qed

text \<open>The same holds for the process of project 3, whose connections are direct.\<close>

fun direct_run :: "np_connect \<Rightarrow> connect_event list \<Rightarrow> np_connect option" where
  "direct_run s [] = Some s"
| "direct_run s (ev # evs) = Option.bind (direct_step s ev) (\<lambda>s. direct_run s evs)"

lemma direct_step_phase: "direct_step s ev = Some s' \<Longrightarrow> nc_phase s' \<in> {DirectConnecting, ShellStarted, Stopped}"
  by (cases "(s, ev)" rule: direct_step.cases) (auto simp: report_error_def split: if_splits option.splits)

lemma direct_run_eq:
  "nc_phase s \<in> {DirectResolving, DirectConnecting, ShellStarted, Stopped} \<Longrightarrow> direct_run s evs = Some s' \<Longrightarrow>
     np_connect_run s evs = Some s'"
proof (induction evs arbitrary: s)
  case (Cons ev evs)
  then obtain t where t: "direct_step s ev = Some t" "direct_run t evs = Some s'" by (auto simp: bind_eq_Some_conv)
  then show ?case using Cons.IH [OF _ t(2)] direct_step_phase [OF t(1)] direct_step_eq [OF Cons.prems(1)] by auto
qed simp

lemma console3_paces_every_session:
  assumes "console3_process (Some q) = Inr p" and "cgi_run files evs p = Some (Inr p')" and "i < length (cg_sessions p)"
  shows "\<exists>info. cg_sessions p ! i = Linking (direct_start info)
    \<and> (\<forall>les rs n' body. events_at i evs = map LinkEv les @ map (\<lambda>r. ReadEv (Some r) None) rs
        \<and> direct_run (direct_start info) les = Some n' \<and> nc_phase n' = ShellStarted
        \<and> files (''test_case/'' @ hi_file info) = Some body \<longrightarrow>
          (\<exists>r. cg_sessions p' ! i = Talking r
            \<and> sr_sock r = send_lines (take (length (filter is_prompt rs)) (getlines body))
            \<and> scripts_of i (cg_out p') = transcripts (write_to_console (hi_id info)) (getlines body) rs))"
proof -
  obtain page infos where "console3_main (Some q) = Inr (page, infos)"
    using assms(1) by (cases "console3_main (Some q)") (auto simp: console3_process_def)
  then have p: "cg_out p = []" "cg_sessions p = map (Linking \<circ> direct_start) infos"
    using assms(1) by (auto simp: console3_process_def)
  let ?info = "infos ! i"
  have n: "cg_sessions p ! i = Linking (direct_start ?info)" using assms(3) p(2) by simp
  have d: "nc_phase (direct_start ?info) = DirectResolving" "nc_host_info (direct_start ?info) = ?info"
    by (simp_all add: direct_start_def np_connect_init_def)
  have "\<exists>r. cg_sessions p' ! i = Talking r
      \<and> sr_sock r = send_lines (take (length (filter is_prompt rs)) (getlines body))
      \<and> scripts_of i (cg_out p') = transcripts (write_to_console (hi_id ?info)) (getlines body) rs"
    if "events_at i evs = map LinkEv les @ map (\<lambda>r. ReadEv (Some r) None) rs"
      and "direct_run (direct_start ?info) les = Some n'" and "nc_phase n' = ShellStarted"
      and "files (''test_case/'' @ hi_file ?info) = Some body" for les rs n' body
    using session_paced [OF p(1) assms(2,3) n that(1) direct_run_eq [OF _ that(2)] that(3), of body] that(4) d by auto
  then show ?thesis using n by blast
qed

text \<open>
  C36. Whatever the order in which the sessions' handlers complete, a session whose connection comes about sends to its
  shell one line of its own file per prompt it reads, in order, and what the browser gets from it, taken out of
  the common output, are exactly the scripts for the output of its shell and the lines it sent.\<close>

theorem console_paces_every_session:
  assumes "hw4_process resolve buf (Some q) = Inr p" and "cgi_run files evs p = Some (Inr p')"
    and "i < length (cg_sessions p)" and "cg_sessions p ! i = Linking n"
    and "events_at i evs = map LinkEv les @ map (\<lambda>r. ReadEv (Some r) None) rs"
    and "np_connect_run n les = Some n'" and "nc_phase n' = ShellStarted" and "nc_phase n \<noteq> ShellStarted"
    and "files (''test_case/'' @ hi_file (nc_host_info n)) = Some body"
  shows "\<exists>r. cg_sessions p' ! i = Talking r
    \<and> sr_sock r = send_lines (take (length (filter is_prompt rs)) (getlines body))
    \<and> scripts_of i (cg_out p') = transcripts (write_to_console (hi_id (nc_host_info n))) (getlines body) rs
    \<and> cg_page p' = cg_page p"
proof -
  have "cg_out p = []" using assms(1) by (auto simp: hw4_process_def)
  then show ?thesis by (rule session_paced [OF _ assms(2-9)])
qed

theorem console_paces_every_session_witness:
  "\<exists>p p' r. hw4_process (\<lambda>_ _. Inr [140, 113, 1, 2]) [] (Some ''h0=np&p0=7000&f0=t'') = Inr p
    \<and> cgi_run (\<lambda>_. Some (''ls'' @ [NL])) [(0, LinkEv (EvResolved None)), (0, LinkEv (EvConnected None)), (0, ReadEv (Some ''% '') None)] p
        = Some (Inr p')
    \<and> cg_sessions p' ! 0 = Talking r \<and> sr_sock r = ''ls'' @ [NL]"
proof -
  let ?p = "hw4_process (\<lambda>_ _. Inr [140, 113, 1, 2]) [] (Some ''h0=np&p0=7000&f0=t'')"
  let ?files = "\<lambda>_. Some (''ls'' @ [NL]) :: string option"
  let ?evs = "[(0, LinkEv (EvResolved None)), (0, LinkEv (EvConnected None)), (0, ReadEv (Some ''% '') None)] :: (nat \<times> cgi_event) list"
  let ?info = "\<lparr>hi_id = ''h0'', hi_host = ''np'', hi_port = ''7000'', hi_file = ''t''\<rparr>"
  let ?n = "(np_connect_init ?info [] [] [])\<lparr>nc_sock_req := sock_req ''7000'' [140, 113, 1, 2], nc_phase := DirectResolving\<rparr>"
  let ?n' = "?n\<lparr>nc_phase := ShellStarted\<rparr>"
  have "map_option cg_sessions (case ?p of Inr p \<Rightarrow> Some p | _ \<Rightarrow> None) = Some [Linking ?n]" by code_simp
  then obtain p where p: "?p = Inr p" "cg_sessions p = [Linking ?n]" by (cases ?p) auto
  have "cgi_run ?files ?evs p \<noteq> None \<and> (\<forall>x. cgi_run ?files ?evs p \<noteq> Some (Inl x))"
    by (simp add: cgi_step_def session_event_def p(2) after_link_def start_session_def shell_run_start_def np_connect_init_def Let_def)
  then obtain p' where p': "cgi_run ?files ?evs p = Some (Inr p')" by (metis not_Some_eq old.sum.exhaust)
  have gl: "getlines (''ls'' @ [NL]) = [''ls'']" "filter is_prompt [''% ''] = [''% '']" by code_simp+
  have "i = 0 \<Longrightarrow> cg_sessions p ! i = Linking ?n" "0 < length (cg_sessions p)" for i using p(2) by simp_all
  moreover have "events_at 0 ?evs = map LinkEv [EvResolved None, EvConnected None] @ map (\<lambda>r. ReadEv (Some r) None) [''% '']"
    "np_connect_run ?n [EvResolved None, EvConnected None] = Some ?n'" "nc_phase ?n' = ShellStarted" "nc_phase ?n \<noteq> ShellStarted"
    by (simp_all add: np_connect_init_def)
  ultimately obtain r where "cg_sessions p' ! 0 = Talking r" "sr_sock r = send_lines (take (length (filter is_prompt [''% ''])) (getlines (''ls'' @ [NL])))"
    using console_paces_every_session [OF p(1) p', of 0 ?n "[EvResolved None, EvConnected None]" "[''% '']" ?n' "''ls'' @ [NL]"] by blast
  then show ?thesis using p(1) p' unfolding gl by (auto simp: send_lines_def)
qed

section \<open>From the form to the sessions\<close>

lemma start_links_sessions:
  assumes "\<forall>(info, sh, sp)\<in>set infos. \<exists>ip. resolve (hi_host info) (hi_port info) = Inr ip"
  shows "\<exists>ns. start_links resolve buf infos = Inr (map Linking ns, [])
    \<and> map (\<lambda>n. (nc_host_info n, nc_socks4_host n, nc_socks4_port n)) ns = infos
    \<and> (\<forall>n\<in>set ns. nc_phase n = (if nc_socks4_host n \<noteq> [] \<and> nc_socks4_port n \<noteq> [] then ProxyResolving else DirectResolving))"
  using assms
proof (induction infos)
  case (Cons x infos)
  obtain info sh sp where x: "x = (info, sh, sp)" by (cases x)
  then obtain ip where ip: "resolve (hi_host info) (hi_port info) = Inr ip" using Cons.prems by auto
  obtain ns where ns: "start_links resolve buf infos = Inr (map Linking ns, [])"
    "map (\<lambda>n. (nc_host_info n, nc_socks4_host n, nc_socks4_port n)) ns = infos"
    "\<forall>n\<in>set ns. nc_phase n = (if nc_socks4_host n \<noteq> [] \<and> nc_socks4_port n \<noteq> [] then ProxyResolving else DirectResolving)"
    using Cons by auto
  let ?n = "(np_connect_init info sh sp buf)\<lparr>nc_sock_req := sock_req (hi_port info) ip,
      nc_phase := (if sh \<noteq> [] \<and> sp \<noteq> [] then ProxyResolving else DirectResolving)\<rparr>"
  have "send_sock_request (Inr ip) (np_connect_init info sh sp buf) = Inr ?n"
    by (simp add: send_sock_request_def np_connect_init_def Let_def)
  then show ?case using ns x ip by (intro exI [of _ "?n # ns"]) (simp add: np_connect_init_def)
qed simp

definition proxy_fields :: "string \<Rightarrow> string \<Rightarrow> (string \<times> string) list" where
  "proxy_fields sh sp = [(''sh'', sh), (''sp'', sp)]"

lemma form_parsed:
  assumes "\<forall>i<5. \<forall>c\<in>set (host i @ port i @ file i). value_char c" and "\<forall>c\<in>set (sh @ sp). value_char c" and "j < 5"
  defines "q \<equiv> parse_query_p4 (form_query (panel_fields host port file @ proxy_fields sh sp))"
  shows "qget q (key_h j) = host j" "qget q (key_p j) = port j" "qget q (key_f j) = file j"
    and "qget q ''sh'' = sh" "qget q ''sp'' = sp"
proof -
  have digit: "to_string (int i) = [digit_char i] \<and> is_digit (digit_char i)" if "i < 5" for i
    using that by (simp add: to_string_def dec_nat.simps)
  have "\<forall>kv\<in>set (panel_fields host port file @ proxy_fields sh sp). wf_field key1_p4 key2_p4 kv"
    using assms(1,2) digit
    by (auto simp: panel_fields_def proxy_fields_def wf_field_def key_h_def key_p_def key_f_def key1_p4_def key2_p4_def
        simp del: upt_rec_numeral)
  then have q: "q = map_of (rev (panel_fields host port file @ proxy_fields sh sp))"
    unfolding q_def by (rule parse_query_form)
  have j: "j \<in> set [0..<5]" and d: "distinct [0..<5::nat]" using assms(3) by simp_all
  have k: "key_h j \<noteq> ''sh''" "key_h j \<noteq> ''sp''" "key_p j \<noteq> ''sh''" "key_p j \<noteq> ''sp''" "key_f j \<noteq> ''sh''" "key_f j \<noteq> ''sp''"
    by (simp_all add: key_h_def key_p_def key_f_def)
  show "qget q (key_h j) = host j" "qget q (key_p j) = port j" "qget q (key_f j) = file j"
    unfolding q qget_def rev_append map_of_append map_add_def
    unfolding panel_fields_def map_of_triples [OF d] map_of_triples_get [OF j] using k by (simp_all add: proxy_fields_def)
  show "qget q ''sh'' = sh" "qget q ''sp'' = sp"
    unfolding q by (simp_all add: qget_def proxy_fields_def map_add_def)
qed

text \<open>\<^verbatim>\<open>main\<close> of project 4 starts one session per row, each through the proxy when one is given.\<close>

lemma hw4_sessions_of_form:
  assumes "\<forall>i<5. \<forall>c\<in>set (host i @ port i @ file i). value_char c" and "\<forall>c\<in>set (sh @ sp). value_char c"
    and "\<And>h p. \<exists>ip. resolve h p = Inr ip"
  shows "\<exists>p ns. hw4_process resolve rbuf (Some (form_query (panel_fields host port file @ proxy_fields sh sp))) = Inr p
    \<and> cg_sessions p = map Linking ns \<and> cg_cerr p = []
    \<and> map (\<lambda>n. (nc_host_info n, nc_socks4_host n, nc_socks4_port n)) ns =
        map (\<lambda>i. (\<lparr>hi_id = key_h i, hi_host = host i, hi_port = port i, hi_file = file i\<rparr>, sh, sp))
          (filter (\<lambda>i. host i \<noteq> [] \<and> port i \<noteq> [] \<and> file i \<noteq> []) [0..<5])
    \<and> (\<forall>n\<in>set ns. nc_phase n = (if sh \<noteq> [] \<and> sp \<noteq> [] then ProxyResolving else DirectResolving))"
proof -
  let ?q = "parse_query_p4 (form_query (panel_fields host port file @ proxy_fields sh sp))"
  let ?row = "\<lambda>i. \<lparr>hi_id = key_h i, hi_host = host i, hi_port = port i, hi_file = file i\<rparr>"
  let ?full = "\<lambda>i. host i \<noteq> [] \<and> port i \<noteq> [] \<and> file i \<noteq> []"
  let ?infos = "map (\<lambda>i. (?row i, sh, sp)) (filter ?full [0..<5])"
  have info: "session_info ?q i = (if ?full i then [?row i] else [])" if "i \<in> set [0..<5]" for i
    using that by (simp add: session_info_def form_parsed [OF assms(1,2)])
  have "concat (map (session_info ?q) [0..<5]) = concat (map (\<lambda>i. if ?full i then [?row i] else []) [0..<5])"
    by (intro arg_cong [where f = concat] map_cong refl) (rule info)
  also have "\<dots> = map ?row (filter ?full [0..<5])" by (rule concat_map_if)
  finally have "hw4_main (Some (form_query (panel_fields host port file @ proxy_fields sh sp))) = Inr (console_page ?q, ?infos)"
    using form_parsed(4,5) [OF assms(1,2), of 0] by (simp add: hw4_main_def Let_def comp_def del: upt_rec_numeral)
  moreover obtain ns where ns: "start_links resolve rbuf ?infos = Inr (map Linking ns, [])"
    "map (\<lambda>n. (nc_host_info n, nc_socks4_host n, nc_socks4_port n)) ns = ?infos"
    "\<forall>n\<in>set ns. nc_phase n = (if nc_socks4_host n \<noteq> [] \<and> nc_socks4_port n \<noteq> [] then ProxyResolving else DirectResolving)"
    using start_links_sessions [of ?infos resolve rbuf] assms(3) by blast
  moreover have "nc_socks4_host n = sh \<and> nc_socks4_port n = sp" if "n \<in> set ns" for n
  proof -
    have "(nc_host_info n, nc_socks4_host n, nc_socks4_port n) \<in> set ?infos" using that ns(2) by (metis (no_types, lifting) imageI list.set_map)
    then show ?thesis by auto
  qed
  ultimately show ?thesis
    by (intro exI [of _ "\<lparr>cg_page = console_page ?q, cg_sessions = map Linking ns, cg_out = [], cg_cerr = []\<rparr>"] exI [of _ ns])
      (simp add: hw4_process_def)
qed

text \<open>
  C28. From the form to the sessions of project 3: a request for \<^verbatim>\<open>/console.cgi\<close> with the form's fields, whose
  request and host lines arrive with its first read, within the server's array of 1024 bytes, makes the child of \<^verbatim>\<open>http_server\<close> execute
  \<^verbatim>\<open>./console.cgi\<close>, with an environment from which \<^verbatim>\<open>main\<close> of \<^verbatim>\<open>console.cpp\<close> starts exactly one connection per row
  that is filled in, in order and with the values of its row.\<close>

theorem form_starts_console_sessions:
  assumes "\<forall>i<5. \<forall>c\<in>set (host i @ port i @ file i). value_char c"
    and "wf_http_request r" and "NUL \<notin> set (http_text r)" and "length (http_head r) \<le> max_length"
    and "rq_path r = ''/console.cgi''" and "rq_query r = Some (form_query (panel_fields host port file))"
    and "exec_errno ''./console.cgi'' = None"
  shows "\<exists>environ' p. http_server_on_read exec_errno environ (http_server_init ra rp sa spt buf) (Some (http_text r))
      = Executed (''HTTP/1.1 200 OK'' @ [CR, NL]) ''./console.cgi'' environ'
    \<and> console3_process (environ' ''QUERY_STRING'') = Inr p
    \<and> cg_sessions p = map (\<lambda>i. Linking (direct_start \<lparr>hi_id = key_h i, hi_host = host i, hi_port = port i, hi_file = file i\<rparr>))
        (filter (\<lambda>i. host i \<noteq> [] \<and> port i \<noteq> [] \<and> file i \<noteq> []) [0..<5])"
proof -
  have ex: "exec_errno (CHR ''.'' # rq_path r) = None" using assms(5,7) by simp
  obtain environ' where env: "http_server_on_read exec_errno environ (http_server_init ra rp sa spt buf) (Some (http_text r))
      = Executed (''HTTP/1.1 200 OK'' @ [CR, NL]) ''./console.cgi'' environ'"
    "environ' ''QUERY_STRING'' = Some (form_query (panel_fields host port file))"
    using http_server_runs_cgi [OF assms(2-4), of exec_errno, OF ex refl, of environ ra rp sa spt buf] assms(5,6) by auto
  have "parse_query_p3 t = win_parse_query_string t" for t by (simp add: parse_query_p3_def win_parse_query_string_def)
  then show ?thesis
    using env panel_sessions [OF assms(1)] by (simp add: console3_process_def console3_main_def Let_def comp_def del: upt_rec_numeral)
qed

theorem form_starts_console_sessions_witness:
  "\<exists>environ' p. http_server_on_read (\<lambda>_. None) Map.empty (http_server_init ''140.113.1.1'' 50000 ''140.113.1.2'' 7000 [])
      (Some (http_text demo_submit)) = Executed (''HTTP/1.1 200 OK'' @ [CR, NL]) ''./console.cgi'' environ'
    \<and> console3_process (environ' ''QUERY_STRING'') = Inr p
    \<and> cg_sessions p = [Linking (direct_start \<lparr>hi_id = ''h0'', hi_host = ''np1.cs'', hi_port = ''7000'', hi_file = ''t1.txt''\<rparr>)]"
proof -
  let ?row = demo_row
  have u: "[0..<5] = [0, 1, 2, 3, 4 :: nat]" by code_simp
  have v: "\<forall>i<5::nat. \<forall>c\<in>set (?row ''np1.cs'' i @ ?row ''7000'' i @ ?row ''t1.txt'' i). value_char c"
    by (auto simp: value_char_def is_digit_def demo_row_def)
  have nul: "NUL \<notin> set (http_text demo_submit)"
    by (simp add: demo_submit_def demo_query demo_http_def http_text_def request_line_def rq_uri_def NUL_def NL_def CR_def)
  have f: "map (\<lambda>i. Linking (direct_start \<lparr>hi_id = key_h i, hi_host = ?row ''np1.cs'' i, hi_port = ?row ''7000'' i, hi_file = ?row ''t1.txt'' i\<rparr>))
      (filter (\<lambda>i. ?row ''np1.cs'' i \<noteq> [] \<and> ?row ''7000'' i \<noteq> [] \<and> ?row ''t1.txt'' i \<noteq> []) [0..<5])
      = [Linking (direct_start \<lparr>hi_id = ''h0'', hi_host = ''np1.cs'', hi_port = ''7000'', hi_file = ''t1.txt''\<rparr>)]"
    by (simp add: u demo_row_def key_h_def to_string_def dec_nat.simps)
  have p: "rq_path demo_submit = ''/console.cgi''" "rq_query demo_submit =
      Some (form_query (panel_fields (?row ''np1.cs'') (?row ''7000'') (?row ''t1.txt'')))"
    by (simp_all add: demo_submit_def demo_http_def)
  note run = form_starts_console_sessions [OF v demo_submit_wf(1) nul demo_submit_wf(2) p, of "\<lambda>_. None", OF refl]
  show ?thesis using run [of Map.empty "''140.113.1.1''" 50000 "''140.113.1.2''" 7000 "[]"] unfolding f .
qed

end
