(* ===== verification/Win_Sessions.thy ===== *)
theory Win_Sessions
  imports Win_Server Fork_Server Side_By_Side
begin

text \<open>
  What the sessions of one console page share on the Windows server: the socket of the browser, to
  which all of them write their scripts, and the one thread of \<^verbatim>\<open>ioservice.run()\<close>, whose exceptions
  end the whole server.
\<close>

section \<open>Sessions side by side\<close>

text \<open>
  The sessions of a page that have connected, in the order \<^verbatim>\<open>run_console_cgi\<close> starts them, and the scripts written to the
  browser, each with its session.  An event is the completed read of a session; \<open>err\<close> is the message of
  the exception when a \<^verbatim>\<open>boost::asio::write\<close> of the handler fails, which it has no handler for.
\<close>

record win_page =
  wp_sessions :: "win_run list"
  wp_scripts :: "(nat \<times> string) list"

type_synonym win_event = "nat \<times> string option \<times> string option"

definition win_page_init :: "(string \<Rightarrow> string option) \<Rightarrow> host_info list \<Rightarrow> win_page" where
  "win_page_init files infos = \<lparr>wp_sessions = map (win_run_start files) infos, wp_scripts = []\<rparr>"

definition win_session_event :: "string option \<times> string option \<Rightarrow> win_run \<Rightarrow> (win_run \<times> string) result option" where
  "win_session_event ev s =
     (case ev of (rd, err) \<Rightarrow>
        if sr_reading s then
          (case (rd, err) of
             (Some _, Some what) \<Rightarrow> Some (Inl (Thrown what))
           | _ \<Rightarrow>
               (let s' = win_run_on_read rd s in Some (Inr (s', drop (length (sr_cout s)) (sr_cout s')))))
        else None)"

definition win_page_event :: "win_event \<Rightarrow> win_page \<Rightarrow> win_page result option" where
  "win_page_event ev p =
     (case ev of (i, ev) \<Rightarrow>
        if i < length (wp_sessions p) then
          (case win_session_event ev (wp_sessions p ! i) of
             None \<Rightarrow> None
           | Some (Inl e) \<Rightarrow> Some (Inl e)
           | Some (Inr (s, t)) \<Rightarrow>
               Some (Inr (p\<lparr>wp_sessions := (wp_sessions p)[i := s], wp_scripts := wp_scripts p @ [(i, t)]\<rparr>)))
        else None)"

fun win_page_run :: "win_event list \<Rightarrow> win_page \<Rightarrow> win_page result option" where
  "win_page_run [] p = Some (Inr p)"
| "win_page_run (ev # evs) p =
     (case win_page_event ev p of
        None \<Rightarrow> None
      | Some (Inl e) \<Rightarrow> Some (Inl e)
      | Some (Inr p) \<Rightarrow> win_page_run evs p)"

interpretation win: side_by_side win_session_event .

lemma win_page_event_eq:
  "map_option (\<lambda>r. ebind r (\<lambda>p. Inr (wp_sessions p, wp_scripts p))) (win_page_event ev p) =
     win.one_of ev (wp_sessions p, wp_scripts p)"
  by (cases ev) (auto simp: win_page_event_def win.one_of_def split: option.split sum.split)

lemma win_page_run_eq:
  "map_option (\<lambda>r. ebind r (\<lambda>p. Inr (wp_sessions p, wp_scripts p))) (win_page_run evs p) =
     win.together evs (wp_sessions p, wp_scripts p)"
proof (induction evs arbitrary: p)
  case (Cons ev evs)
  then show ?case by (auto simp: win_page_event_eq [symmetric] split: option.split sum.split)
qed simp

lemma win_run_grows: "sr_cout (win_run_on_read rd s) = sr_cout s @ drop (length (sr_cout s)) (sr_cout (win_run_on_read rd s))"
  by (cases rd) (simp add: win_run_on_read_def, simp add: win_run_on_read_Some)

lemma win_alone:
  "win.alone es s = Some (Inr (s', t)) \<Longrightarrow> win_run_all s (map fst es) = Some s' \<and> sr_cout s' = sr_cout s @ t"
proof (induction es arbitrary: s t)
  case (Cons e es)
  obtain rd err where e: "e = (rd, err)" by (cases e)
  obtain s1 u v where s1: "win_session_event (rd, err) s = Some (Inr (s1, u))"
    and rest: "win.alone es s1 = Some (Inr (s', v))" and t: "t = u @ v"
    using Cons.prems e by (auto split: option.splits sum.splits)
  have "sr_reading s" "s1 = win_run_on_read rd s" "u = drop (length (sr_cout s)) (sr_cout s1)"
    using s1 by (auto simp: win_session_event_def Let_def split: if_splits option.splits)
  then show ?case using Cons.IH [OF rest] e t win_run_grows [of rd s] by simp
qed simp

definition events_of :: "nat \<Rightarrow> win_event list \<Rightarrow> string option list" where
  "events_of i evs = map fst (events_at i evs)"

definition outputs_of :: "nat \<Rightarrow> win_event list \<Rightarrow> string list" where
  "outputs_of i evs = List.map_filter id (events_of i evs)"

text \<open>One session over its reads: outputs of its shell, and at most one end of them.\<close>

lemma win_run_all_paces:
  assumes "win_run_all s es = Some t" and "sr_reading s"
  shows "sr_sock t = sr_sock s @ send_lines (take (length (filter is_prompt (List.map_filter id es))) (sr_command s))
    \<and> sr_command t = drop (length (filter is_prompt (List.map_filter id es))) (sr_command s)
    \<and> sr_cout t = sr_cout s @ transcripts (win_write_to_console (sr_id s)) (sr_command s) (List.map_filter id es)"
  using assms
proof (induction es arbitrary: s)
  case Nil
  then show ?case by (simp add: send_lines_def map_filter_simps)
next
  case (Cons e es)
  show ?case
  proof (cases e)
    case None
    then have "win_run_all (s\<lparr>sr_reading := False\<rparr>) es = Some t"
      using Cons.prems by (simp add: win_run_on_read_def)
    then have "es = []" "t = s\<lparr>sr_reading := False\<rparr>" by (cases es; simp)+
    then show ?thesis using None by (simp add: send_lines_def map_filter_simps)
  next
    case (Some r)
    let ?s = "win_run_on_read (Some r) s"
    have "win_run_all ?s es = Some t" "sr_reading ?s"
      using Cons.prems Some wrun.on_read_reading by simp_all
    note ih = Cons.IH [OF this]
    show ?thesis
    proof (cases "is_prompt r \<and> sr_command s \<noteq> []")
      case True
      then obtain c cs where "sr_command s = c # cs" by (cases "sr_command s") auto
      with ih True Some show ?thesis by (simp add: win_run_on_read_Some send_lines_def map_filter_simps)
    next
      case False
      with ih Some show ?thesis
        by (auto simp: win_run_on_read_Some send_lines_def map_filter_simps)
    qed
  qed
qed

text \<open>
  C38. In whatever order the reads of a page's sessions complete, each session has sent to its shell one line of its
  own batch file per output that held a prompt, in order, keeps the rest, and the scripts the
  browser gets from it, taken out of the mixture on the shared socket, are exactly those for the
  escaped outputs of its own shell, each followed by the escaped line sent in answer.\<close>

theorem win_page_paces_every_session:
  assumes "win_page_run evs (win_page_init files infos) = Some (Inr p)" and "i < length infos"
    and "files (''./test_case/'' @ hi_file (infos ! i)) = Some body"
  shows "sr_sock (wp_sessions p ! i)
        = send_lines (take (length (filter is_prompt (outputs_of i evs))) (getlines body))
    \<and> sr_command (wp_sessions p ! i) = drop (length (filter is_prompt (outputs_of i evs))) (getlines body)
    \<and> scripts_of i (wp_scripts p)
        = transcripts (win_write_to_console (hi_id (infos ! i))) (getlines body) (outputs_of i evs)"
proof -
  let ?p0 = "win_page_init files infos" and ?s = "win_run_start files (infos ! i)"
  have "win.together evs (wp_sessions ?p0, wp_scripts ?p0) = Some (Inr (wp_sessions p, wp_scripts p))"
    using win_page_run_eq [of evs ?p0] assms(1) by simp
  from win.together_apart [OF this, of i] obtain t where
    "win.alone (events_at i evs) ?s = Some (Inr (wp_sessions p ! i, t))" and t: "scripts_of i (wp_scripts p) = t"
    using assms(2) by (auto simp: win_page_init_def)
  from win_alone [OF this(1)] have "win_run_all ?s (events_of i evs) = Some (wp_sessions p ! i)"
    and "sr_cout (wp_sessions p ! i) = sr_cout ?s @ t" by (simp_all add: events_of_def)
  with win_run_all_paces [OF this(1)] t show ?thesis
    using assms(3) by (simp add: win_run_start_def Let_def outputs_of_def)
qed

definition demo_infos :: "host_info list" where
  "demo_infos = [\<lparr>hi_id = ''s0'', hi_host = ''a'', hi_port = ''1'', hi_file = ''t''\<rparr>,
     \<lparr>hi_id = ''s1'', hi_host = ''b'', hi_port = ''2'', hi_file = ''u''\<rparr>]"

definition demo_cases :: "string \<Rightarrow> string option" where
  "demo_cases f = Some (''ls'' @ [NL])"

theorem win_page_paces_every_session_witness:
  "\<exists>p. win_page_run [(1, Some ''% '', None), (0, Some ''% '', None), (1, None, None), (0, Some ''x'', None)]
      (win_page_init demo_cases demo_infos) = Some (Inr p)
    \<and> sr_sock (wp_sessions p ! 0) = ''ls'' @ [NL] \<and> sr_command (wp_sessions p ! 0) = []
    \<and> scripts_of 0 (wp_scripts p) = transcripts (win_write_to_console ''s0'') [''ls''] [''% '', ''x'']"
proof -
  let ?evs = "[(1, Some ''% '', None), (0, Some ''% '', None), (1, None, None), (0, Some ''x'', None)] :: win_event list"
  let ?r = "win_page_run ?evs (win_page_init demo_cases demo_infos)"
  have "case ?r of Some (Inr _) \<Rightarrow> True | _ \<Rightarrow> False" by code_simp
  then obtain p where p: "?r = Some (Inr p)" by (auto split: option.split_asm sum.split_asm)
  have "outputs_of 0 ?evs = [''% '', ''x'']" "0 < length demo_infos" "getlines (''ls'' @ [NL]) = [''ls'']"
    "filter is_prompt [''% '', ''x''] = [''% '']" "hi_id (demo_infos ! 0) = ''s0''" by code_simp+
  with win_page_paces_every_session [OF p, of 0 "''ls'' @ [NL]"] p show ?thesis
    by (simp add: demo_cases_def send_lines_def)
qed

section \<open>main\<close>

text \<open>
  \<^verbatim>\<open>main\<close>, with the exception that the constructor of the acceptor or a handler throws, if one does.
\<close>

definition win_main :: "string list \<Rightarrow> (nat \<Rightarrow> string option) \<Rightarrow> string option \<Rightarrow> main_outcome" where
  "win_main argv bind_error thrown =
     (if length argv \<noteq> 2 then Usage (''Usage:'' @ argv ! 0 @ '' [port] '' @ [NL]) 1
      else
        (let port = listen_port (argv ! 1)
         in case bind_error port of
              Some what \<Rightarrow> Raised (''Exceptionxxxx: '' @ what @ [NL]) 0
            | None \<Rightarrow>
                (case thrown of
                   Some what \<Rightarrow> Raised (''Exceptionxxxx: '' @ what @ [NL]) 0
                 | None \<Rightarrow> Serving port)))"

text \<open>The exception a run of a page ends with.\<close>

definition thrown_by :: "win_page result option \<Rightarrow> string option" where
  "thrown_by r = (case r of Some (Inl (Thrown what)) \<Rightarrow> Some what | _ \<Rightarrow> None)"

text \<open>
  A browser that is gone ends the server: the first shell output that cannot be written to it any
  more throws out of the handler and out of \<^verbatim>\<open>ioservice.run()\<close>, so \<^verbatim>\<open>main\<close> reports the exception and
  ends, with the pages of all other browsers.\<close>

theorem closed_browser_ends_server:
  assumes "win_page_run evs p = Some (Inr p')" and "i < length (wp_sessions p')" and "sr_reading (wp_sessions p' ! i)"
  shows "win_main [prog, port] (\<lambda>_. None) (thrown_by (win_page_run (evs @ (i, Some r, Some what) # evs') p))
    = Raised (''Exceptionxxxx: '' @ what @ [NL]) 0"
proof -
  have "win.together evs (wp_sessions p, wp_scripts p) = Some (Inr (wp_sessions p', wp_scripts p'))"
    using win_page_run_eq [of evs p] assms(1) by simp
  moreover have "win_session_event (Some r, Some what) (wp_sessions p' ! i) = Some (Inl (Thrown what))"
    using assms(3) by (simp add: win_session_event_def)
  ultimately have "win.together (evs @ (i, Some r, Some what) # evs') (wp_sessions p, wp_scripts p) = Some (Inl (Thrown what))"
    using assms(2) win.together_thrown by blast
  then have "win_page_run (evs @ (i, Some r, Some what) # evs') p = Some (Inl (Thrown what))"
    unfolding win_page_run_eq [symmetric] map_ebind_iff .
  then show ?thesis by (simp add: win_main_def thrown_by_def)
qed

theorem closed_browser_ends_server_witness:
  "win_main [''cgi.exe'', ''7000''] (\<lambda>_. None)
      (thrown_by (win_page_run [(0, Some ''% '', Some ''broken pipe''), (1, Some ''% '', None)]
        (win_page_init demo_cases demo_infos)))
    = Raised (''Exceptionxxxx: broken pipe'' @ [NL]) 0"
proof -
  have "win_page_run [] (win_page_init demo_cases demo_infos) = Some (Inr (win_page_init demo_cases demo_infos))"
    "0 < length (wp_sessions (win_page_init demo_cases demo_infos))"
    "sr_reading (wp_sessions (win_page_init demo_cases demo_infos) ! 0)"
    by (simp_all add: win_page_init_def demo_infos_def win_run_start_def Let_def)
  from closed_browser_ends_server [OF this] show ?thesis by simp
qed

end
