(* ===== verification/Cgi_Samples.thy ===== *)
theory Cgi_Samples
  imports C_Strings
begin

text \<open>
  The sample programs of \<^verbatim>\<open>nctu_np_project3/cgi\<close>: what they write, as functions of the working
  directory and the environment the HTTP server gives them.
\<close>

definition hello_cgi :: string where
  "hello_cgi = ''Content-type: text/html'' @ [NL, NL] @ ''<h1>Hello</h1>'' @ [NL]"

text \<open>\<^verbatim>\<open>welcome\<close> writes its header and leaves the page to a command of the system's shell.\<close>

definition welcome_cgi :: "(string \<Rightarrow> string) \<Rightarrow> string" where
  "welcome_cgi sh = ''Content-type: text/plain'' @ [NL, NL] @ sh ''figlet Welcome | cowsay -n''"

definition printenv_cgi :: "string \<Rightarrow> string list \<Rightarrow> string" where
  "printenv_cgi cwd envp =
     ''Content-type: text/html'' @ [NL, NL] @
     ''<b>Current Working Directory</b>'' @ [NL] @
     ''<pre>'' @ cwd @ ''</pre>'' @ [NL] @
     ''<b>Environment Variables</b>'' @ [NL] @
     ''<pre>'' @ [NL] @ concat (map (\<lambda>v. v @ [NL]) envp) @ ''</pre>'' @ [NL]"

lemma split_at_lines:
  "\<forall>v\<in>set ws. NL \<notin> set v \<Longrightarrow> split_at (\<lambda>c. c = NL) (concat (map (\<lambda>v. v @ [NL]) ws) @ s) = ws @ split_at (\<lambda>c. c = NL) s"
proof (induction ws)
  case (Cons w ws)
  have "split_at (\<lambda>c. c = NL) (w @ NL # (concat (map (\<lambda>v. v @ [NL]) ws) @ s))
      = w # split_at (\<lambda>c. c = NL) (concat (map (\<lambda>v. v @ [NL]) ws) @ s)"
    using Cons.prems by (intro split_at_append_sep) auto
  then show ?case using Cons by simp
qed simp

text \<open>
  The environment can be read off the page: its lines from the seventh on are the variables, in their
  order, as long as no value holds a line feed; nothing in them is escaped.
\<close>

theorem printenv_page_lines:
  assumes "NL \<notin> set cwd" and "\<forall>v\<in>set envp. NL \<notin> set v"
  shows "take (length envp) (drop 6 (split_at (\<lambda>c. c = NL) (printenv_cgi cwd envp))) = envp"
proof -
  let ?ls = "[''Content-type: text/html'', [], ''<b>Current Working Directory</b>'', ''<pre>'' @ cwd @ ''</pre>'',
      ''<b>Environment Variables</b>'', ''<pre>''] @ envp"
  have "printenv_cgi cwd envp = concat (map (\<lambda>v. v @ [NL]) ?ls) @ ''</pre>'' @ [NL]"
    by (simp add: printenv_cgi_def)
  moreover have "\<forall>v\<in>set ?ls. NL \<notin> set v" using assms by (auto simp: NL_def)
  ultimately have "split_at (\<lambda>c. c = NL) (printenv_cgi cwd envp) = ?ls @ split_at (\<lambda>c. c = NL) (''</pre>'' @ [NL])"
    by (simp only: split_at_lines)
  then show ?thesis by simp
qed

theorem printenv_page_lines_witness:
  "take 2 (drop 6 (split_at (\<lambda>c. c = NL) (printenv_cgi ''/www'' [''A=1'', ''B=<b>'']))) = [''A=1'', ''B=<b>'']"
  using printenv_page_lines [of "''/www''" "[''A=1'', ''B=<b>'']"] by (simp add: NL_def numeral_2_eq_2)

end
