(* ===== verification/Text_Filters.thy ===== *)
theory Text_Filters
  imports C_Strings
begin

text \<open>
  The text filters the shells run: \<^verbatim>\<open>removetag\<close>, \<^verbatim>\<open>delayedremovetag\<close>, \<^verbatim>\<open>number\<close> and
  \<^verbatim>\<open>removetag0\<close>, in the C versions of project 2 (\<^verbatim>\<open>final/command/source_code\<close>) and the C++
  versions of project 3 (\<^verbatim>\<open>command\<close>).  The C programs keep \<^verbatim>\<open>fgetc\<close>'s result in a \<^verbatim>\<open>char\<close>, so the
  byte 0xFF ends their input.
\<close>

section \<open>Arguments\<close>

record filter_run =
  fr_stdout :: string
  fr_stderr :: string
  fr_status :: int

text \<open>
  The C programs read a file that may be the null pointer, and take the usage message's name
  from \<^verbatim>\<open>argv[1]\<close>.
\<close>

definition c_main ::
  "(string \<Rightarrow> string \<times> string) \<Rightarrow> string list \<Rightarrow> string \<Rightarrow> (string \<Rightarrow> string option) \<Rightarrow> filter_run result" where
  "c_main body argv stdin files =
     (if length argv = 1 then
        Inr \<lparr>fr_stdout = fst (body stdin), fr_stderr = snd (body stdin), fr_status = 0\<rparr>
      else if length argv = 2 then
        (case files (argv ! 1) of
           None \<Rightarrow> Inl NullDeref
         | Some text \<Rightarrow> Inr \<lparr>fr_stdout = fst (body text), fr_stderr = snd (body text), fr_status = 0\<rparr>)
      else Inr \<lparr>fr_stdout = [], fr_stderr = ''Usage:'' @ argv ! 1 @ '' <file>'' @ [NL], fr_status = 1\<rparr>)"

definition cxx_main ::
  "(string \<Rightarrow> string) \<Rightarrow> string list \<Rightarrow> string \<Rightarrow> (string \<Rightarrow> string option) \<Rightarrow> filter_run" where
  "cxx_main body argv stdin files =
     (if length argv = 2 then
        (case files (argv ! 1) of
           None \<Rightarrow> \<lparr>fr_stdout = [], fr_stderr = ''Unable to open file '' @ [CHR 0x22] @ argv ! 1 @ [CHR 0x22, NL],
                    fr_status = 1\<rparr>
         | Some text \<Rightarrow> \<lparr>fr_stdout = body text, fr_stderr = [], fr_status = 0\<rparr>)
      else if 2 < length argv then
        \<lparr>fr_stdout = [], fr_stderr = ''Usage: '' @ argv ! 0 @ '' '' @ ''[file]'' @ [NL], fr_status = 1\<rparr>
      else \<lparr>fr_stdout = body stdin, fr_stderr = [], fr_status = 0\<rparr>)"

section \<open>removetag\<close>

fun removetag_c :: "bool \<Rightarrow> string \<Rightarrow> string" where
  "removetag_c inTag [] = []"
| "removetag_c inTag (c # s) =
     (if c = CHR 0xFF then []
      else if c = CHR ''<'' then removetag_c True s
      else if c = CHR ''>'' then removetag_c False s
      else if \<not> inTag then c # removetag_c inTag s
      else removetag_c inTag s)"

fun removetag_cxx :: "bool \<Rightarrow> string \<Rightarrow> string" where
  "removetag_cxx in_tag [] = []"
| "removetag_cxx in_tag (c # s) =
     (if c = CHR ''<'' then removetag_cxx True s
      else if c = CHR ''>'' then removetag_cxx False s
      else if \<not> in_tag then c # removetag_cxx in_tag s
      else removetag_cxx in_tag s)"

text \<open>\<^verbatim>\<open>delayedremovetag\<close> flushes and sleeps after each line break it writes.\<close>

datatype delayed = Put char | FlushAndSleep nat

fun delayedremovetag :: "bool \<Rightarrow> string \<Rightarrow> delayed list" where
  "delayedremovetag in_tag [] = []"
| "delayedremovetag in_tag (c # s) =
     (if c = CHR ''<'' then delayedremovetag True s
      else if c = CHR ''>'' then delayedremovetag False s
      else if \<not> in_tag then
        Put c # (if c = NL then [FlushAndSleep 1] else []) @ delayedremovetag in_tag s
      else delayedremovetag in_tag s)"

definition removetag_c_main :: "string list \<Rightarrow> string \<Rightarrow> (string \<Rightarrow> string option) \<Rightarrow> filter_run result" where
  "removetag_c_main = c_main (\<lambda>t. (removetag_c False t, []))"

definition removetag_cxx_main :: "string list \<Rightarrow> string \<Rightarrow> (string \<Rightarrow> string option) \<Rightarrow> filter_run" where
  "removetag_cxx_main = cxx_main (removetag_cxx False)"

text \<open>The specification: a document is text and tags, and the tags go.\<close>

datatype piece = Text string | Tag string

fun render :: "piece \<Rightarrow> string" where
  "render (Text s) = s"
| "render (Tag s) = CHR ''<'' # s @ ''>''"

fun plain_text :: "piece \<Rightarrow> string" where
  "plain_text (Text s) = s"
| "plain_text (Tag s) = []"

definition wf_piece :: "piece \<Rightarrow> bool" where
  "wf_piece p \<longleftrightarrow> (case p of
       Text s \<Rightarrow> list_all (\<lambda>c. c \<noteq> CHR ''<'' \<and> c \<noteq> CHR ''>'') s
     | Tag s \<Rightarrow> list_all (\<lambda>c. c \<noteq> CHR ''>'') s)"

lemma removetag_cxx_text:
  "list_all (\<lambda>c. c \<noteq> CHR ''<'' \<and> c \<noteq> CHR ''>'') s \<Longrightarrow> removetag_cxx False (s @ t) = s @ removetag_cxx False t"
  by (induction s) auto

lemma removetag_cxx_tag:
  "list_all (\<lambda>c. c \<noteq> CHR ''>'') s \<Longrightarrow> removetag_cxx True (s @ CHR ''>'' # t) = removetag_cxx False t"
  by (induction s) auto

lemma removetag_cxx_pieces:
  "list_all wf_piece ps \<Longrightarrow> removetag_cxx False (concat (map render ps)) = concat (map plain_text ps)"
proof (induction ps)
  case (Cons p ps)
  then show ?case by (cases p) (auto simp: wf_piece_def removetag_cxx_text removetag_cxx_tag)
qed simp

lemma removetag_c_cut: "removetag_c t s = removetag_cxx t (takeWhile (\<lambda>c. c \<noteq> CHR 0xFF) s)"
  by (induction s arbitrary: t) auto

fun puts :: "delayed list \<Rightarrow> string" where
  "puts [] = []"
| "puts (Put c # es) = c # puts es"
| "puts (FlushAndSleep n # es) = puts es"

lemma puts_delayed: "puts (delayedremovetag t s) = removetag_cxx t s"
  by (induction s arbitrary: t) auto

lemma sleeps_delayed: "count_list (delayedremovetag t s) (FlushAndSleep 1) = count_list (removetag_cxx t s) NL"
  by (induction s arbitrary: t) auto

text \<open>
   \<^verbatim>\<open>removetag\<close> keeps exactly the text outside the tags: on a document of text and tags, the
  C++ program and the delayed one write the text pieces in order, the delayed one sleeping once
  per line break written, and the C program does the same up to the first byte 0xFF.
\<close>

theorem removetag_removes_tags:
  assumes "list_all wf_piece ps"
  shows "fr_stdout (removetag_cxx_main [prog] (concat (map render ps)) files) = concat (map plain_text ps)
    \<and> puts (delayedremovetag False (concat (map render ps))) = concat (map plain_text ps)
    \<and> count_list (delayedremovetag False (concat (map render ps))) (FlushAndSleep 1)
        = count_list (concat (map plain_text ps)) NL
    \<and> (\<exists>r. removetag_c_main [prog] (concat (map render ps) @ CHR 0xFF # rest) files = Inr r
         \<and> fr_stdout r = removetag_cxx False (takeWhile (\<lambda>c. c \<noteq> CHR 0xFF) (concat (map render ps))))"
  using removetag_cxx_pieces [OF assms]
  by (simp add: removetag_cxx_main_def cxx_main_def removetag_c_main_def c_main_def puts_delayed
      sleeps_delayed [unfolded One_nat_def] removetag_c_cut takeWhile_append takeWhile_all)

theorem removetag_removes_tags_witness:
  "fr_stdout (removetag_cxx_main [''removetag''] ''<b>hi</b> there'' (\<lambda>_. None)) = ''hi there''"
proof -
  have "list_all wf_piece [Tag ''b'', Text ''hi'', Tag ''/b'', Text '' there'']" by (simp add: wf_piece_def)
  from removetag_removes_tags [OF this] show ?thesis by simp
qed

section \<open>number\<close>

text \<open>\<^verbatim>\<open>%4d\<close> and \<^verbatim>\<open>setw(4)\<close>: the number right-aligned in four columns, wider if need be.\<close>

definition pad4 :: "nat \<Rightarrow> string" where
  "pad4 n = replicate (4 - length (dec_nat n)) (CHR '' '') @ dec_nat n"

text \<open>
  The C version: the line so far in \<open>str\<close>, written with \<^verbatim>\<open>%s\<close>; a last line without a line break
  is written with three blanks in front of its number.
\<close>

fun number_c :: "nat \<Rightarrow> string \<Rightarrow> string \<Rightarrow> string" where
  "number_c counter str [] =
     (if cstr str \<noteq> [] then ''   '' @ dec_nat counter @ '' '' @ str @ [NL] else [])"
| "number_c counter str (c # s) =
     (if c = CHR 0xFF then (if cstr str \<noteq> [] then ''   '' @ dec_nat counter @ '' '' @ str @ [NL] else [])
      else if c = NL then pad4 counter @ '' '' @ cstr (str @ [c]) @ number_c (counter + 1) [] s
      else number_c counter (str @ [c]) s)"

fun number_lines :: "nat \<Rightarrow> string list \<Rightarrow> string" where
  "number_lines line_count [] = []"
| "number_lines line_count (l # ls) =
     pad4 (line_count + 1) @ '' '' @ l @ [NL] @ number_lines (line_count + 1) ls"

definition number_cxx :: "string \<Rightarrow> string" where
  "number_cxx s = number_lines 0 (getlines s)"

definition number_c_main :: "string list \<Rightarrow> string \<Rightarrow> (string \<Rightarrow> string option) \<Rightarrow> filter_run result" where
  "number_c_main argv stdin files =
     (if 2 < length argv then Inr \<lparr>fr_stdout = [], fr_stderr = ''Usage'', fr_status = 1\<rparr>
      else c_main (\<lambda>t. (number_c 1 [] t, [])) argv stdin files)"

definition number_cxx_main :: "string list \<Rightarrow> string \<Rightarrow> (string \<Rightarrow> string option) \<Rightarrow> filter_run" where
  "number_cxx_main = cxx_main number_cxx"

definition clean_line :: "string \<Rightarrow> bool" where
  "clean_line l \<longleftrightarrow> list_all (\<lambda>c. c \<noteq> NL \<and> c \<noteq> NUL \<and> c \<noteq> CHR 0xFF) l"

lemma number_c_line:
  "clean_line l \<Longrightarrow> clean_line str \<Longrightarrow>
     number_c n str (l @ NL # s) = pad4 n @ '' '' @ str @ l @ [NL] @ number_c (n + 1) [] s"
proof (induction l arbitrary: str)
  case Nil
  then have "NUL \<notin> set (str @ [NL])" by (auto simp: clean_line_def list_all_iff NL_def NUL_def)
  then have "cstr (str @ [NL]) = str @ [NL]" by (rule cstr_id)
  then show ?case by (simp add: NL_def)
next
  case (Cons c l)
  then have "clean_line (str @ [c])" "clean_line l" "c \<noteq> NL" "c \<noteq> CHR 0xFF" by (auto simp: clean_line_def)
  then show ?case using Cons.IH [of "str @ [c]"] by simp
qed

lemma number_c_partial:
  "clean_line l \<Longrightarrow> clean_line str \<Longrightarrow> str @ l \<noteq> [] \<Longrightarrow>
     number_c n str l = ''   '' @ dec_nat n @ '' '' @ str @ l @ [NL]"
proof (induction l arbitrary: str)
  case Nil
  then have "NUL \<notin> set str" by (auto simp: clean_line_def list_all_iff)
  then show ?case using Nil by simp
next
  case (Cons c l)
  then have "clean_line (str @ [c])" "clean_line l" "c \<noteq> NL" "c \<noteq> CHR 0xFF" by (auto simp: clean_line_def)
  then show ?case using Cons.IH [of "str @ [c]"] by simp
qed

lemma number_c_lines:
  "list_all clean_line ls \<Longrightarrow>
     number_c (n + 1) [] (concat (map (\<lambda>l. l @ [NL]) ls) @ s) = number_lines n ls @ number_c (n + 1 + length ls) [] s"
proof (induction ls arbitrary: n)
  case (Cons l ls)
  then show ?case
    using number_c_line [of l "[]" "n + 1" "concat (map (\<lambda>l. l @ [NL]) ls) @ s"] Cons.IH [of "n + 1"]
    by (simp add: clean_line_def)
qed simp

text \<open>
   The two versions of \<^verbatim>\<open>number\<close> agree on complete lines: on any text of lines free of NUL
  and 0xFF they write the lines numbered from 1 in four columns; a last line without its line
  break gets three blanks in the C version, which misaligns it from the tenth line on.
\<close>

theorem number_versions:
  assumes "list_all clean_line ls" and "clean_line l" and "l \<noteq> []"
  shows "number_c 1 [] (concat (map (\<lambda>l. l @ [NL]) ls)) = number_cxx (concat (map (\<lambda>l. l @ [NL]) ls))
    \<and> number_cxx (concat (map (\<lambda>l. l @ [NL]) ls)) = number_lines 0 ls
    \<and> number_c 1 [] (concat (map (\<lambda>l. l @ [NL]) ls) @ l)
        = number_lines 0 ls @ ''   '' @ dec_nat (length ls + 1) @ '' '' @ l @ [NL]"
proof -
  have nl: "\<forall>l\<in>set ls. NL \<notin> set l" using assms(1) by (auto simp: clean_line_def list_all_iff)
  then have "number_cxx (concat (map (\<lambda>l. l @ [NL]) ls)) = number_lines 0 ls"
    by (simp add: number_cxx_def getlines_unlines)
  moreover have "number_c (0 + 1) [] (concat (map (\<lambda>l. l @ [NL]) ls) @ []) = number_lines 0 ls"
    using number_c_lines [OF assms(1), of 0 "[]"] by (simp add: cstr_def)
  moreover have "number_c (0 + 1) [] (concat (map (\<lambda>l. l @ [NL]) ls) @ l)
        = number_lines 0 ls @ ''   '' @ dec_nat (length ls + 1) @ '' '' @ l @ [NL]"
    using number_c_lines [OF assms(1), of 0 l] number_c_partial [OF assms(2), of "[]"] assms(3)
    by (simp add: clean_line_def)
  ultimately show ?thesis by simp
qed

theorem number_versions_witness:
  "number_c 1 [] (''a'' @ [NL] @ ''b'') = ''   1 a'' @ [NL] @ ''   2 b'' @ [NL]"
proof -
  have p: "pad4 1 = ''   1''" "dec_nat 2 = ''2''" by (simp_all add: pad4_def dec_nat.simps numeral_3_eq_3)
  show ?thesis
    using number_versions [of "[''a'']" "''b''"] p by (simp add: clean_line_def NL_def NUL_def numeral_2_eq_2)
qed

section \<open>removetag0\<close>

text \<open>
  \<^verbatim>\<open>removetag0\<close> collects the bytes of a tag in \<^verbatim>\<open>TagMsg[1024]\<close> and reports it, when it holds
  anything but letters and slashes, at the next byte outside a tag.
\<close>

definition isalpha :: "char \<Rightarrow> bool" where
  "isalpha c \<longleftrightarrow> (let n = (of_char c :: nat) in 65 \<le> n \<and> n \<le> 90 \<or> 97 \<le> n \<and> n \<le> 122)"

fun removetag0 :: "bool \<Rightarrow> bool \<Rightarrow> string \<Rightarrow> string \<Rightarrow> (string \<times> string) result" where
  "removetag0 inTag errTag msg [] = Inr ([], [])"
| "removetag0 inTag errTag msg (c # s) =
     (if c = CHR 0xFF then Inr ([], [])
      else if c = CHR ''<'' then removetag0 True errTag msg s
      else if c = CHR ''>'' then removetag0 False errTag msg s
      else if inTag then
        (if 1024 \<le> length msg then Inl BufferOverflow
         else removetag0 inTag (errTag \<or> \<not> isalpha c \<and> c \<noteq> CHR ''/'') (msg @ [c]) s)
      else if errTag then
        (if 1024 \<le> length msg then Inl BufferOverflow
         else ebind (removetag0 inTag False [] s) (\<lambda>(out, err).
                Inr (c # out, ''Error: illegal tag '' @ [CHR 0x22] @ cstr msg @ [CHR 0x22, NL] @ err)))
      else ebind (removetag0 inTag errTag [] s) (\<lambda>(out, err). Inr (c # out, err)))"

definition illegal_tag :: "string \<Rightarrow> bool" where
  "illegal_tag t \<longleftrightarrow> list_ex (\<lambda>c. \<not> isalpha c \<and> c \<noteq> CHR ''/'') t"

definition tag_text :: "string \<Rightarrow> bool" where
  "tag_text t \<longleftrightarrow> list_all (\<lambda>c. c \<noteq> CHR ''<'' \<and> c \<noteq> CHR ''>'' \<and> c \<noteq> CHR 0xFF \<and> c \<noteq> NUL) t"

lemma removetag0_tag:
  "tag_text t \<Longrightarrow> length msg + length t \<le> 1024 \<Longrightarrow>
     removetag0 True e msg (t @ CHR ''>'' # s) = removetag0 False (e \<or> illegal_tag t) (msg @ t) s"
proof (induction t arbitrary: e msg)
  case (Cons c t)
  then show ?case by (auto simp: tag_text_def illegal_tag_def)
qed (simp add: illegal_tag_def)

lemma removetag0_text:
  "tag_text x \<Longrightarrow>
     removetag0 False False [] (x @ s) = ebind (removetag0 False False [] s) (\<lambda>(out, err). Inr (x @ out, err))"
proof (induction x)
  case Nil
  then show ?case by (cases "removetag0 False False [] s") auto
next
  case (Cons c x)
  then show ?case by (cases "removetag0 False False [] s") (auto simp: tag_text_def)
qed

text \<open>
   \<^verbatim>\<open>removetag0\<close> removes a tag of fewer than 1024 bytes between two texts and reports it
  exactly when it is illegal; but it reports it only when text follows, so an illegal tag at the
  end of the input goes unreported.
\<close>

theorem removetag0_reports:
  assumes "tag_text before" and "tag_text t" and "length t < 1024" and "tag_text (c # after)"
  shows "removetag0 False False [] (before @ CHR ''<'' # t @ CHR ''>'' # c # after) = Inr (before @ c # after,
      if illegal_tag t then ''Error: illegal tag '' @ [CHR 0x22] @ t @ [CHR 0x22, NL] else [])
    \<and> removetag0 False False [] (before @ CHR ''<'' # t @ ''>'') = Inr (before, [])"
proof -
  have after: "removetag0 False False [] after = Inr (after, [])"
    using removetag0_text [of after "[]"] assms(4) by (simp add: tag_text_def)
  have t: "removetag0 True False [] (t @ CHR ''>'' # s) = removetag0 False (illegal_tag t) t s" for s
    using removetag0_tag [OF assms(2), of "[]" False s] assms(3) by simp
  have "cstr t = t" using assms(2) by (intro cstr_id) (auto simp: tag_text_def list_all_iff)
  then have "removetag0 False (illegal_tag t) t (c # after) = Inr (c # after,
      if illegal_tag t then ''Error: illegal tag '' @ [CHR 0x22] @ t @ [CHR 0x22, NL] else [])"
    using assms(3,4) after by (auto simp: tag_text_def)
  then show ?thesis
    using removetag0_text [OF assms(1)] t by simp
qed

theorem removetag0_reports_witness:
  "removetag0 False False [] ''a<b1>c'' = Inr (''ac'', ''Error: illegal tag '' @ [CHR 0x22] @ ''b1'' @ [CHR 0x22, NL])"
proof -
  have t: "tag_text ''a''" "tag_text ''b1''" "tag_text ''c''" "illegal_tag ''b1''" by code_simp+
  show ?thesis using removetag0_reports [OF t(1,2) _ t(3)] t(4) by simp
qed

end
