(* ===== verification/Posix.thy ===== *)
theory Posix
  imports C_Strings
begin

text \<open>
  The system calls on file descriptors the shells use: a descriptor table with the lowest-free
  rule of \<^verbatim>\<open>open\<close> and \<^verbatim>\<open>pipe\<close>, \<^verbatim>\<open>close\<close> and \<^verbatim>\<open>dup2\<close>.  A table maps a descriptor to the open file it
  refers to; the ends of a pipe carry the number of the pipe, and every pipe gets a new number.
  The limit on the number of descriptors is not modelled.  The locale \<open>descriptors\<close> is the
  interface; the table as a list interprets it.
\<close>

section \<open>Open files\<close>

datatype ofile = Inherited nat | PipeR nat | PipeW nat | Opened string

text \<open>What a file is to the processes that read it: the writers that keep it from ending.\<close>

section \<open>The interface\<close>

locale descriptors =
  fixes get :: "'t \<Rightarrow> nat \<Rightarrow> ofile option"
    and close :: "nat \<Rightarrow> 't \<Rightarrow> 't"
    and dup2 :: "nat \<Rightarrow> nat \<Rightarrow> 't \<Rightarrow> 't"
    and alloc :: "ofile \<Rightarrow> 't \<Rightarrow> nat \<times> 't"
  assumes get_close: "get (close fd t) g = (if g = fd then None else get t g)"
    and get_dup2: "get (dup2 fd fd' t) g = (if g = fd' \<and> get t fd \<noteq> None then get t fd else get t g)"
    and alloc_free: "get t (fst (alloc f t)) = None"
    and get_alloc: "get (snd (alloc f t)) g = (if g = fst (alloc f t) then Some f else get t g)"
    and alloc_least: "g < fst (alloc f t) \<Longrightarrow> get t g \<noteq> None"
begin

text \<open>A descriptor that was in use is never handed out again while it is open.\<close>

lemma alloc_fresh: "get t g \<noteq> None \<Longrightarrow> fst (alloc f t) \<noteq> g"
  using alloc_free by metis

definition refers :: "'t \<Rightarrow> ofile \<Rightarrow> bool" where
  "refers t f \<longleftrightarrow> (\<exists>fd. get t fd = Some f)"

lemma refers_close: "refers (close fd t) f \<longleftrightarrow> (\<exists>g. g \<noteq> fd \<and> get t g = Some f)"
  by (auto simp: refers_def get_close)

lemma refers_dup2: "refers (dup2 fd fd' t) f \<Longrightarrow> refers t f"
  by (auto simp: refers_def get_dup2 split: if_splits)

lemma refers_alloc: "refers (snd (alloc f t)) g \<longleftrightarrow> g = f \<or> refers t g"
proof
  assume "refers (snd (alloc f t)) g"
  then show "g = f \<or> refers t g" by (auto simp: refers_def get_alloc split: if_splits)
next
  assume "g = f \<or> refers t g"
  then show "refers (snd (alloc f t)) g"
  proof
    assume "g = f"
    then have "get (snd (alloc f t)) (fst (alloc f t)) = Some g" by (simp add: get_alloc)
    then show ?thesis by (auto simp: refers_def)
  next
    assume "refers t g"
    then obtain fd where fd: "get t fd = Some g" by (auto simp: refers_def)
    then have "fst (alloc f t) \<noteq> fd" by (intro alloc_fresh) simp
    with fd have "get (snd (alloc f t)) fd = Some g" by (simp add: get_alloc)
    then show ?thesis by (auto simp: refers_def)
  qed
qed

text \<open>The redirection idiom of a child: standard input and output become the given files.\<close>

lemma redirected:
  assumes "get t a = Some f" and "get t b = Some g" and "b \<noteq> 0"
  shows "get (dup2 b 1 (dup2 a 0 t)) 0 = Some f" and "get (dup2 b 1 (dup2 a 0 t)) 1 = Some g"
  using assms by (simp_all add: get_dup2)

end

section \<open>The descriptor table\<close>

type_synonym fdtable = "ofile option list"

definition fd_get :: "fdtable \<Rightarrow> nat \<Rightarrow> ofile option" where
  "fd_get t fd = (if fd < length t then t ! fd else None)"

definition sys_close :: "nat \<Rightarrow> fdtable \<Rightarrow> fdtable" where
  "sys_close fd t = t[fd := None]"

definition fd_install :: "nat \<Rightarrow> ofile \<Rightarrow> fdtable \<Rightarrow> fdtable" where
  "fd_install fd f t = (t @ replicate (Suc fd - length t) None)[fd := Some f]"

definition sys_dup2 :: "nat \<Rightarrow> nat \<Rightarrow> fdtable \<Rightarrow> fdtable" where
  "sys_dup2 fd fd' t = (case fd_get t fd of None \<Rightarrow> t | Some f \<Rightarrow> fd_install fd' f t)"

definition lowest_fd :: "fdtable \<Rightarrow> nat" where
  "lowest_fd t = length (takeWhile (\<lambda>f. f \<noteq> None) t)"

definition fd_alloc :: "ofile \<Rightarrow> fdtable \<Rightarrow> nat \<times> fdtable" where
  "fd_alloc f t = (lowest_fd t, fd_install (lowest_fd t) f t)"

lemma fd_get_install: "fd_get (fd_install fd f t) g = (if g = fd then Some f else fd_get t g)"
  by (auto simp: fd_get_def fd_install_def nth_append nth_list_update)

lemma fd_get_lowest: "fd_get t (lowest_fd t) = None"
  unfolding fd_get_def lowest_fd_def
  using nth_length_takeWhile [of "\<lambda>f. f \<noteq> None" t] by auto

lemma fd_get_below_lowest: "g < lowest_fd t \<Longrightarrow> fd_get t g \<noteq> None"
proof -
  assume g: "g < lowest_fd t"
  then have "takeWhile (\<lambda>f. f \<noteq> None) t ! g \<in> set (takeWhile (\<lambda>f. f \<noteq> None) t)"
    by (simp add: lowest_fd_def)
  then have "takeWhile (\<lambda>f. f \<noteq> None) t ! g \<noteq> None" by (rule set_takeWhileD [THEN conjunct2])
  then show "fd_get t g \<noteq> None"
    using g length_takeWhile_le [of "\<lambda>f. f \<noteq> None" t]
    by (simp add: fd_get_def takeWhile_nth lowest_fd_def)
qed

interpretation fd: descriptors fd_get sys_close sys_dup2 fd_alloc
proof (unfold_locales, goal_cases)
  case (1 fd t g)
  then show ?case by (auto simp: fd_get_def sys_close_def nth_list_update)
next
  case (2 fd fd' t g)
  then show ?case by (auto simp: sys_dup2_def fd_get_install split: option.splits)
next
  case (3 t f)
  then show ?case by (simp add: fd_alloc_def fd_get_lowest)
next
  case (4 f t g)
  then show ?case by (simp add: fd_alloc_def fd_get_install)
next
  case (5 g f t)
  then show ?case by (simp add: fd_alloc_def fd_get_below_lowest)
qed

declare fd.get_close [simp] fd.get_dup2 [simp] fd.get_alloc [simp]

section \<open>The kernel state of a process\<close>

record kernel =
  k_fds :: fdtable
  k_next :: nat

text \<open>\<^verbatim>\<open>pipe(p)\<close> returns \<open>p[0]\<close> and \<open>p[1]\<close>.\<close>

definition sys_pipe :: "'a kernel_scheme \<Rightarrow> nat \<times> nat \<times> 'a kernel_scheme" where
  "sys_pipe k =
     (let n = k_next k; (r, t) = fd_alloc (PipeR n) (k_fds k); (w, t) = fd_alloc (PipeW n) t
      in (r, w, k\<lparr>k_fds := t, k_next := Suc n\<rparr>))"

definition close_fd :: "nat \<Rightarrow> 'a kernel_scheme \<Rightarrow> 'a kernel_scheme" where
  "close_fd fd k = k\<lparr>k_fds := sys_close fd (k_fds k)\<rparr>"

text \<open>What \<^verbatim>\<open>pipe\<close> does to the table, as one fact.\<close>

lemma sys_pipeE:
  assumes "sys_pipe k = (r, w, k')"
  obtains t where "k' = k\<lparr>k_fds := t, k_next := Suc (k_next k)\<rparr>"
    and "r \<noteq> w" and "fd_get (k_fds k) r = None" and "fd_get (k_fds k) w = None"
    and "\<And>g. fd_get t g = (if g = w then Some (PipeW (k_next k))
                           else if g = r then Some (PipeR (k_next k)) else fd_get (k_fds k) g)"
    and "\<And>g. g < r \<Longrightarrow> fd_get (k_fds k) g \<noteq> None"
proof -
  obtain r1 t1 where a: "fd_alloc (PipeR (k_next k)) (k_fds k) = (r1, t1)" by (cases "fd_alloc (PipeR (k_next k)) (k_fds k)")
  obtain w1 t2 where b: "fd_alloc (PipeW (k_next k)) t1 = (w1, t2)" by (cases "fd_alloc (PipeW (k_next k)) t1")
  have p: "r = r1" "w = w1" "k' = k\<lparr>k_fds := t2, k_next := Suc (k_next k)\<rparr>"
    using assms a b by (simp_all add: sys_pipe_def Let_def)
  have r1: "fd_get (k_fds k) r1 = None" "fd_get t1 g = (if g = r1 then Some (PipeR (k_next k)) else fd_get (k_fds k) g)" for g
    using a fd.alloc_free [of "k_fds k" "PipeR (k_next k)"] fd.get_alloc [of "PipeR (k_next k)" "k_fds k"] by auto
  have w1: "fd_get t1 w1 = None" "fd_get t2 g = (if g = w1 then Some (PipeW (k_next k)) else fd_get t1 g)" for g
    using b fd.alloc_free [of t1 "PipeW (k_next k)"] fd.get_alloc [of "PipeW (k_next k)" t1] by auto
  have least: "fd_get (k_fds k) g \<noteq> None" if "g < r1" for g
    using that a fd.alloc_least [of g "PipeR (k_next k)" "k_fds k"] by auto
  have "r1 \<noteq> w1" "fd_get (k_fds k) w1 = None" using r1(2) [of w1] w1(1) by (auto split: if_splits)
  then show thesis using that [of t2] p r1 w1 least by auto
qed

section \<open>The environment\<close>

type_synonym environ = "string \<rightharpoonup> string"

text \<open>\<^verbatim>\<open>setenv(name, value, 1)\<close> refuses an empty name and one with an equals sign.\<close>

definition sys_setenv :: "string \<Rightarrow> string \<Rightarrow> environ \<Rightarrow> environ" where
  "sys_setenv name value e = (if name = [] \<or> CHR ''='' \<in> set name then e else e(name \<mapsto> value))"

text \<open>
  The rest of the operating system, as the programs see it: whether \<^verbatim>\<open>execvp\<close> finds a program to
  run in an environment, whether a path exists, and whether a file can be opened for writing.
\<close>

record os =
  os_exec :: "environ \<Rightarrow> string list \<Rightarrow> bool"
  os_access :: "string \<Rightarrow> bool"
  os_open :: "string \<Rightarrow> bool"

section \<open>Children\<close>

text \<open>
  A forked child as it is when it calls \<^verbatim>\<open>execvp\<close>: its arguments, its descriptors, the file it
  truncated, and what becomes of it.  \<open>FallsThrough\<close> is a child whose \<^verbatim>\<open>execvp\<close> failed although
  the file exists: it returns into the shell's own code.  \<open>Crashes\<close> is a buffer overflow in it.
\<close>

datatype child_end = Executes | UnknownCommand string | FallsThrough | Crashes

record child =
  ch_argv :: "string list"
  ch_fds :: fdtable
  ch_trunc :: "string option"
  ch_end :: child_end

end
