(* ===== verification/Shell_P1.thy ===== *)
theory Shell_P1
  imports Posix
begin

text \<open>
  The shell of \<^verbatim>\<open>nctu_np_project1/npshell.cpp\<close>: pipes, numbered pipes \<^verbatim>\<open>|N\<close> and \<^verbatim>\<open>!N\<close>, output
  redirection and the built-in commands, over the descriptor table of \<^theory_text>\<open>Posix\<close>.  One call of
  \<open>shell_line\<close> is one turn of the main loop.
\<close>

section \<open>State\<close>

text \<open>\<^verbatim>\<open>struct Number_pipe\<close>: \<open>p[0]\<close> and \<open>p[1]\<close> are the two ends.\<close>

record number_pipe =
  rest_line :: int
  np_r :: nat
  np_w :: nat

definition PipeDead :: "number_pipe \<Rightarrow> bool" where
  "PipeDead t \<longleftrightarrow> rest_line t = 0"

text \<open>
  What a shell does, in order.  \<open>Send\<close> is a message written to the socket of a user, which only the
  single-process server of project 2 does.
\<close>

datatype event =
    Prompt
  | Output string
  | Send nat string
  | CreateFile string
  | Spawn child
  | WaitAll
  | Exit

text \<open>
  The variables of \<^verbatim>\<open>main\<close>.  \<open>redirection_file_name\<close> is the uninitialised array of 100 bytes,
  whose content is that of the previous turn.
\<close>

record npshell = kernel +
  sh_env :: environ
  num_pipe_vec :: "number_pipe list"
  num_pipe_in_flag :: bool
  num_pipe_out_flag :: bool
  shock_pipe_out_flag :: bool
  write_file_flag :: bool
  line_end_with_pipe :: bool
  redirection_file_name :: string
  sh_log :: "event list"
  sh_exited :: bool

definition npshell_init :: "fdtable \<Rightarrow> nat \<Rightarrow> environ \<Rightarrow> string \<Rightarrow> npshell" where
  "npshell_init fds n e buf =
     \<lparr>k_fds = fds, k_next = n, sh_env = sys_setenv ''PATH'' ''bin:.'' e, num_pipe_vec = [],
      num_pipe_in_flag = False, num_pipe_out_flag = False, shock_pipe_out_flag = False,
      write_file_flag = False, line_end_with_pipe = False, redirection_file_name = buf,
      sh_log = [], sh_exited = False\<rparr>"

definition sh_event :: "event \<Rightarrow> 'a npshell_scheme \<Rightarrow> 'a npshell_scheme" where
  "sh_event e s = s\<lparr>sh_log := sh_log s @ [e]\<rparr>"

section \<open>Parsing a line\<close>

text \<open>Every command that is not blank counts the numbered pipes down.\<close>

definition decrease_line_count :: "'a npshell_scheme \<Rightarrow> 'a npshell_scheme" where
  "decrease_line_count s =
     (let v = map (\<lambda>t. t\<lparr>rest_line := rest_line t - 1\<rparr>) (num_pipe_vec s)
      in s\<lparr>num_pipe_vec := v,
           num_pipe_in_flag := num_pipe_in_flag s \<or> list_ex (\<lambda>t. rest_line t = 0) v\<rparr>)"

text \<open>
  A word starts an operator when its first character does; nothing checks the rest of it.
\<close>

definition is_op :: "string \<Rightarrow> bool" where
  "is_op w \<longleftrightarrow> (case w of [] \<Rightarrow> False | c # _ \<Rightarrow> c = CHR ''>'' \<or> c = CHR ''|'' \<or> c = CHR ''!'')"

text \<open>\<^verbatim>\<open>strncpy(redirection_file_name, tok, strlen(tok))\<close> copies no terminating NUL.\<close>

definition set_redirection :: "string \<Rightarrow> 'a npshell_scheme \<Rightarrow> 'a npshell_scheme result" where
  "set_redirection f s =
     (if 100 < length f then Inl BufferOverflow
      else
        (let buf = f @ drop (length f) (redirection_file_name s)
         in if NUL \<notin> set buf then Inl BufferOverflow
            else Inr (sh_event (CreateFile (cstr buf))
                   (s\<lparr>write_file_flag := True, redirection_file_name := buf\<rparr>))))"

text \<open>
  \<^verbatim>\<open>|N\<close> and \<^verbatim>\<open>!N\<close>: the pipe that already has \<open>N\<close> lines left, or a new one.  \<^verbatim>\<open>strtok\<close> of an
  operator without a number is the null pointer.
\<close>

definition number_pipe_out :: "char \<Rightarrow> string \<Rightarrow> 'a npshell_scheme \<Rightarrow> (nat \<times> 'a npshell_scheme) result" where
  "number_pipe_out d w s =
     (case strtok_first (\<lambda>c. c = d) w of
        None \<Rightarrow> Inl NullDeref
      | Some digits \<Rightarrow>
          (let n = atoi digits
           in case List.find (\<lambda>t. rest_line t = n) (num_pipe_vec s) of
                Some t \<Rightarrow> Inr (np_w t, s)
              | None \<Rightarrow>
                  (let (r, w, s) = sys_pipe s
                   in Inr (w, s\<lparr>num_pipe_vec := num_pipe_vec s @ [\<lparr>rest_line = n, np_r = r, np_w = w\<rparr>]\<rparr>))))"

text \<open>
  One operator \<open>w\<close> with the words \<open>rest\<close> behind it: the words left, the output descriptor and the
  state.
\<close>

definition parse_op ::
  "string \<Rightarrow> string list \<Rightarrow> nat \<Rightarrow> npshell \<Rightarrow> (string list \<times> nat \<times> npshell) result" where
  "parse_op w rest out s =
     (if w = ''|'' then Inr (rest, out, s)
      else if w = ''>'' then
        (case rest of
           [] \<Rightarrow> Inl NullDeref
         | f # rest \<Rightarrow> ebind (set_redirection f s) (\<lambda>s. Inr (rest, out, s)))
      else if hd w = CHR ''!'' then
        ebind (number_pipe_out (CHR ''!'') w (s\<lparr>line_end_with_pipe := True\<rparr>))
          (\<lambda>(out, s). Inr (rest, out, s\<lparr>shock_pipe_out_flag := True\<rparr>))
      else
        ebind (number_pipe_out (CHR ''|'') w (s\<lparr>line_end_with_pipe := True\<rparr>))
          (\<lambda>(out, s). Inr (rest, out, s\<lparr>num_pipe_out_flag := True\<rparr>)))"

lemma parse_op_length: "parse_op w rest out s = Inr (rest', out', s') \<Longrightarrow> length rest' \<le> length rest"
  by (auto simp: parse_op_def split: if_splits list.splits prod.splits)

text \<open>
  Combining the words to processes.  A row of \<^verbatim>\<open>process\<close> has ten entries, the last one for the
  null pointer, and there are 5000 rows.  The result is the processes, the output descriptor of
  the last numbered pipe, and the state.
\<close>

function combine ::
  "string list \<Rightarrow> string list list \<Rightarrow> nat \<Rightarrow> npshell \<Rightarrow> (string list list \<times> nat \<times> npshell) result" where
  "combine toks procs out s =
     (if toks = [] then Inr (procs, out, s)
      else
        (let words = takeWhile (\<lambda>w. \<not> is_op w) toks; rest = dropWhile (\<lambda>w. \<not> is_op w) toks
         in if 9 < length words \<or> 5000 \<le> length procs then Inl BufferOverflow
            else case rest of
              [] \<Rightarrow> Inr (procs @ [words], out, s)
            | w # rest \<Rightarrow>
                (case parse_op w rest out s of
                   Inl e \<Rightarrow> Inl e
                 | Inr (rest, out, s) \<Rightarrow> combine rest (procs @ [words]) out s)))"
  by pat_completeness auto
termination
  by (relation "measure (\<lambda>(toks, _). length toks)")
    (auto dest!: length_dropWhile_Cons [OF sym] parse_op_length)

declare combine.simps [simp del]

section \<open>Children\<close>

text \<open>
  \<^verbatim>\<open>checkFileInPATH\<close>: whether the file exists in a directory of \<^verbatim>\<open>PATH\<close>, with its two buffers of
  200 bytes.
\<close>

fun check_dirs :: "os \<Rightarrow> string \<Rightarrow> string list \<Rightarrow> bool result" where
  "check_dirs sys file [] = Inr False"
| "check_dirs sys file (d # ds) =
     (let real_path = d @ ''/'' @ file
      in if 200 \<le> length real_path then Inl BufferOverflow
         else if os_access sys real_path then Inr True
         else check_dirs sys file ds)"

definition checkFileInPATH :: "os \<Rightarrow> environ \<Rightarrow> string \<Rightarrow> bool result" where
  "checkFileInPATH sys e file =
     (case e ''PATH'' of
        None \<Rightarrow> Inl NullDeref
      | Some path \<Rightarrow>
          if 200 \<le> length path then Inl BufferOverflow
          else check_dirs sys file (tokens (\<lambda>c. c = CHR '':'') path))"

text \<open>
  The end of a child's code: \<^verbatim>\<open>execvp\<close>, and after its failure the message, built in a buffer of
  100 bytes.  A child whose file exists goes on.
\<close>

definition unknown_command :: "string \<Rightarrow> string" where
  "unknown_command file = ''Unknown command: ['' @ file @ ''].'' @ [NL]"

definition exec_child :: "os \<Rightarrow> environ \<Rightarrow> string list \<Rightarrow> child_end" where
  "exec_child sys e argv =
     (if os_exec sys e argv then Executes
      else case checkFileInPATH sys e (hd argv) of
        Inl _ \<Rightarrow> Crashes
      | Inr True \<Rightarrow> FallsThrough
      | Inr False \<Rightarrow>
          if 100 \<le> length (unknown_command (hd argv)) then Crashes
          else UnknownCommand (unknown_command (hd argv)))"

definition spawn :: "os \<Rightarrow> string list \<Rightarrow> fdtable \<Rightarrow> string option \<Rightarrow> 'a npshell_scheme \<Rightarrow> 'a npshell_scheme" where
  "spawn sys argv t trunc s =
     sh_event (Spawn \<lparr>ch_argv = argv, ch_fds = t, ch_trunc = trunc, ch_end = exec_child sys (sh_env s) argv\<rparr>) s"

section \<open>Executing a process\<close>

definition close_0_rest_line_pipe_out :: "'a npshell_scheme \<Rightarrow> 'a npshell_scheme" where
  "close_0_rest_line_pipe_out s =
     s\<lparr>k_fds := fold (\<lambda>t. if rest_line t = 0 then sys_close (np_w t) else id) (num_pipe_vec s) (k_fds s)\<rparr>"

definition close_0_rest_line_pipe_in :: "'a npshell_scheme \<Rightarrow> 'a npshell_scheme" where
  "close_0_rest_line_pipe_in s =
     s\<lparr>k_fds := fold (\<lambda>t. if rest_line t = 0 then sys_close (np_r t) else id) (num_pipe_vec s) (k_fds s)\<rparr>"

text \<open>In the parent: close and forget the pipes that have been read.\<close>

definition drop_dead_pipes :: "'a npshell_scheme \<Rightarrow> 'a npshell_scheme" where
  "drop_dead_pipes s =
     (if num_pipe_in_flag s
      then (close_0_rest_line_pipe_in s)
             \<lparr>num_pipe_vec := filter (\<lambda>t. \<not> PipeDead t) (num_pipe_vec s), num_pipe_in_flag := False\<rparr>
      else s)"

text \<open>In a child: standard input is the first numbered pipe with no line left.\<close>

definition dup_num_pipe_in :: "'a npshell_scheme \<Rightarrow> fdtable \<Rightarrow> fdtable" where
  "dup_num_pipe_in s t =
     (case List.find (\<lambda>t. rest_line t = 0) (num_pipe_vec s) of
        None \<Rightarrow> t
      | Some np \<Rightarrow> sys_dup2 (np_r np) 0 t)"

definition child_stdin :: "nat \<Rightarrow> npshell \<Rightarrow> fdtable \<Rightarrow> fdtable" where
  "child_stdin fd_in s t = (if num_pipe_in_flag s then dup_num_pipe_in s t else sys_dup2 fd_in 0 t)"

text \<open>
  The children's descriptors in the three branches of the execution loop: redirected to the file
  \<open>name\<close>, into the numbered pipe at \<open>pipe_out\<close>, and in a pipeline with the pipe \<open>p0\<close>, \<open>p1\<close>.
\<close>

definition redirect_fds :: "os \<Rightarrow> string \<Rightarrow> nat \<Rightarrow> npshell \<Rightarrow> fdtable" where
  "redirect_fds sys name fd_in s =
     (if os_open sys name
      then (let (fd, t) = fd_alloc (Opened name) (k_fds s) in sys_dup2 fd 1 (child_stdin fd_in s t))
      else child_stdin fd_in s (k_fds s))"

definition numbered_fds :: "nat \<Rightarrow> nat \<Rightarrow> npshell \<Rightarrow> fdtable" where
  "numbered_fds fd_in pipe_out s =
     (let t = child_stdin fd_in s (k_fds s);
          t = (if shock_pipe_out_flag s then sys_dup2 pipe_out 2 t else t)
      in sys_dup2 pipe_out 1 t)"

definition pipeline_fds :: "bool \<Rightarrow> nat \<Rightarrow> nat \<Rightarrow> nat \<Rightarrow> npshell \<Rightarrow> fdtable" where
  "pipeline_fds is_last p0 p1 fd_in s =
     (let t = (if num_pipe_in_flag s then dup_num_pipe_in s (k_fds s) else sys_dup2 fd_in 0 (k_fds s));
          t = sys_close p0 t
      in if \<not> is_last then sys_dup2 p1 1 t else t)"

definition single_fds :: "npshell \<Rightarrow> fdtable" where
  "single_fds s = (if num_pipe_in_flag s then dup_num_pipe_in s (k_fds s) else k_fds s)"

text \<open>The three branches, with the number of processes \<open>n\<close>.\<close>

definition exec_redirect :: "os \<Rightarrow> nat \<Rightarrow> string list \<Rightarrow> nat \<Rightarrow> npshell \<Rightarrow> npshell" where
  "exec_redirect sys n argv fd_in s =
     (let s = close_0_rest_line_pipe_out s;
          name = cstr (redirection_file_name s);
          s = spawn sys argv (redirect_fds sys name fd_in s) (if os_open sys name then Some name else None) s;
          s = (if n \<noteq> 1 then close_fd fd_in s else s)
      in (drop_dead_pipes s)\<lparr>write_file_flag := False\<rparr>)"

definition exec_numbered :: "os \<Rightarrow> nat \<Rightarrow> string list \<Rightarrow> nat \<Rightarrow> nat \<Rightarrow> npshell \<Rightarrow> npshell" where
  "exec_numbered sys n argv fd_in pipe_out s =
     (let s = close_0_rest_line_pipe_out s;
          s = spawn sys argv (numbered_fds fd_in pipe_out s) None s;
          s = (if n \<noteq> 1 then close_fd fd_in s else s)
      in (drop_dead_pipes s)\<lparr>num_pipe_out_flag := False\<rparr>)"

text \<open>The result is the read end for the next process and the state.\<close>

definition exec_normal :: "os \<Rightarrow> nat \<Rightarrow> nat \<Rightarrow> string list \<Rightarrow> nat \<Rightarrow> npshell \<Rightarrow> nat \<times> npshell" where
  "exec_normal sys n prc argv fd_in s =
     (if n \<noteq> 1 then
        (let (p0, p1, s) = sys_pipe s;
             s = close_0_rest_line_pipe_out s;
             s = spawn sys argv (pipeline_fds (prc = n - 1) p0 p1 fd_in s) None s;
             s = close_fd p1 s;
             s = (if prc = n - 1 then close_fd p0 s else s)
         in (p0, drop_dead_pipes s))
      else
        (let s = close_0_rest_line_pipe_out s;
             s = spawn sys argv (single_fds s) None s
         in (fd_in, drop_dead_pipes s)))"

section \<open>The loop\<close>

definition printenv :: "string list \<Rightarrow> npshell \<Rightarrow> npshell" where
  "printenv args s =
     (case args of
        [] \<Rightarrow> s
      | a # _ \<Rightarrow> (case sh_env s a of None \<Rightarrow> s | Some v \<Rightarrow> sh_event (Output (v @ [NL])) s))"

definition setenv_builtin :: "string list \<Rightarrow> 'a npshell_scheme \<Rightarrow> 'a npshell_scheme" where
  "setenv_builtin args s =
     (case args of a # b # _ \<Rightarrow> s\<lparr>sh_env := sys_setenv a b (sh_env s)\<rparr> | _ \<Rightarrow> s)"

definition is_builtin :: "string \<Rightarrow> bool" where
  "is_builtin c \<longleftrightarrow> c \<in> {''printenv'', ''setenv'', ''exit''}"

fun exec_loop ::
  "os \<Rightarrow> nat \<Rightarrow> nat \<Rightarrow> string list list \<Rightarrow> nat \<Rightarrow> nat \<Rightarrow> npshell \<Rightarrow> npshell result" where
  "exec_loop sys n prc [] fd_in pipe_out s = Inr s"
| "exec_loop sys n prc ([] # procs) fd_in pipe_out s = Inl NullDeref"
| "exec_loop sys n prc ((c # args) # procs) fd_in pipe_out s =
     (if c = ''printenv'' then exec_loop sys n (prc + 1) procs fd_in pipe_out (printenv args s)
      else if c = ''setenv'' then exec_loop sys n (prc + 1) procs fd_in pipe_out (setenv_builtin args s)
      else if c = ''exit'' then Inr (sh_event Exit (s\<lparr>sh_exited := True\<rparr>))
      else if write_file_flag s \<and> prc = n - 1 then
        exec_loop sys n (prc + 1) procs fd_in pipe_out (exec_redirect sys n (c # args) fd_in s)
      else if (shock_pipe_out_flag s \<or> num_pipe_out_flag s) \<and> prc = n - 1 then
        exec_loop sys n (prc + 1) procs fd_in pipe_out (exec_numbered sys n (c # args) fd_in pipe_out s)
      else
        (let (fd_in, s) = exec_normal sys n prc (c # args) fd_in s
         in exec_loop sys n (prc + 1) procs fd_in pipe_out s))"

text \<open>
  One turn: the prompt, the line \<open>raw\<close> as \<^verbatim>\<open>fgets\<close> stored it (with its line break, cut by
  \<^verbatim>\<open>line[strlen(line)-1] = 0\<close>), the parser, the loop, and the wait.
\<close>

definition shell_line :: "os \<Rightarrow> string \<Rightarrow> npshell \<Rightarrow> npshell result" where
  "shell_line sys raw s =
     (let s = sh_event Prompt (s\<lparr>line_end_with_pipe := False\<rparr>);
          line = cstr raw
      in if line = [] then Inl OutOfRange
         else
           (let toks = tokens (\<lambda>c. c = CHR '' '') (butlast line);
                s = (if toks \<noteq> [] \<and> num_pipe_vec s \<noteq> [] then decrease_line_count s else s)
            in ebind (combine toks [] 1 s) (\<lambda>(procs, out, s).
                 ebind (exec_loop sys (length procs) 0 procs 0 out s) (\<lambda>s.
                   Inr (if sh_exited s \<or> line_end_with_pipe s then s else sh_event WaitAll s)))))"

fun run_lines :: "os \<Rightarrow> string list \<Rightarrow> npshell \<Rightarrow> npshell result" where
  "run_lines sys [] s = Inr s"
| "run_lines sys (raw # raws) s =
     (if sh_exited s then Inr s else ebind (shell_line sys raw s) (run_lines sys raws))"

end
