(* ===== verification/Shell_P1_Pipes.thy ===== *)
theory Shell_P1_Pipes
  imports Shell_P1
begin

text \<open>
  The numbered pipes of the project 1 shell: the invariant that ties the vector of pipes to the
  descriptor table, its preservation by a whole turn of the main loop, and the delivery of a
  numbered pipe to the line it was meant for.
\<close>

section \<open>The parent's descriptors after a process\<close>

lemma fold_close:
  "fd_get (fold (\<lambda>t. if rest_line t = 0 then sys_close (f t) else id) v tbl) g =
     (if \<exists>t\<in>set v. rest_line t = 0 \<and> f t = g then None else fd_get tbl g)"
  by (induction v arbitrary: tbl) auto

lemma close_out_sel [simp]:
  "k_next (close_0_rest_line_pipe_out s) = k_next s"
  "sh_env (close_0_rest_line_pipe_out s) = sh_env s"
  "num_pipe_vec (close_0_rest_line_pipe_out s) = num_pipe_vec s"
  "num_pipe_in_flag (close_0_rest_line_pipe_out s) = num_pipe_in_flag s"
  "num_pipe_out_flag (close_0_rest_line_pipe_out s) = num_pipe_out_flag s"
  "shock_pipe_out_flag (close_0_rest_line_pipe_out s) = shock_pipe_out_flag s"
  "write_file_flag (close_0_rest_line_pipe_out s) = write_file_flag s"
  "line_end_with_pipe (close_0_rest_line_pipe_out s) = line_end_with_pipe s"
  "redirection_file_name (close_0_rest_line_pipe_out s) = redirection_file_name s"
  "sh_log (close_0_rest_line_pipe_out s) = sh_log s"
  "sh_exited (close_0_rest_line_pipe_out s) = sh_exited s"
  by (simp_all add: close_0_rest_line_pipe_out_def)

definition dead_w :: "npshell \<Rightarrow> nat \<Rightarrow> bool" where
  "dead_w s g \<longleftrightarrow> (\<exists>t\<in>set (num_pipe_vec s). rest_line t = 0 \<and> np_w t = g)"

definition dead_r :: "npshell \<Rightarrow> nat \<Rightarrow> bool" where
  "dead_r s g \<longleftrightarrow> (\<exists>t\<in>set (num_pipe_vec s). rest_line t = 0 \<and> np_r t = g)"

lemma close_out_fds [simp]:
  "fd_get (k_fds (close_0_rest_line_pipe_out s)) g = (if dead_w s g then None else fd_get (k_fds s) g)"
  by (simp add: close_0_rest_line_pipe_out_def fold_close dead_w_def)

lemma drop_dead_fds [simp]:
  "fd_get (k_fds (drop_dead_pipes s)) g =
     (if num_pipe_in_flag s \<and> dead_r s g then None else fd_get (k_fds s) g)"
  by (auto simp: drop_dead_pipes_def close_0_rest_line_pipe_in_def fold_close dead_r_def)

lemma drop_dead_sel [simp]:
  "k_next (drop_dead_pipes s) = k_next s"
  "sh_env (drop_dead_pipes s) = sh_env s"
  "num_pipe_vec (drop_dead_pipes s) =
     (if num_pipe_in_flag s then filter (\<lambda>t. rest_line t \<noteq> 0) (num_pipe_vec s) else num_pipe_vec s)"
  "num_pipe_in_flag (drop_dead_pipes s) = False"
  "num_pipe_out_flag (drop_dead_pipes s) = num_pipe_out_flag s"
  "shock_pipe_out_flag (drop_dead_pipes s) = shock_pipe_out_flag s"
  "write_file_flag (drop_dead_pipes s) = write_file_flag s"
  "line_end_with_pipe (drop_dead_pipes s) = line_end_with_pipe s"
  "sh_log (drop_dead_pipes s) = sh_log s"
  "sh_exited (drop_dead_pipes s) = sh_exited s"
  by (simp_all add: drop_dead_pipes_def close_0_rest_line_pipe_in_def PipeDead_def)

lemma spawn_sel [simp]:
  "k_fds (spawn sys argv t tr s) = k_fds s"
  "k_next (spawn sys argv t tr s) = k_next s"
  "sh_env (spawn sys argv t tr s) = sh_env s"
  "num_pipe_vec (spawn sys argv t tr s) = num_pipe_vec s"
  "num_pipe_in_flag (spawn sys argv t tr s) = num_pipe_in_flag s"
  "num_pipe_out_flag (spawn sys argv t tr s) = num_pipe_out_flag s"
  "shock_pipe_out_flag (spawn sys argv t tr s) = shock_pipe_out_flag s"
  "write_file_flag (spawn sys argv t tr s) = write_file_flag s"
  "line_end_with_pipe (spawn sys argv t tr s) = line_end_with_pipe s"
  "sh_exited (spawn sys argv t tr s) = sh_exited s"
  "sh_log (spawn sys argv t tr s) = sh_log s
     @ [Spawn \<lparr>ch_argv = argv, ch_fds = t, ch_trunc = tr, ch_end = exec_child sys (sh_env s) argv\<rparr>]"
  by (simp_all add: spawn_def sh_event_def)

lemma dead_cong [simp]:
  "dead_r (spawn sys argv t tr s) = dead_r s" "dead_w (spawn sys argv t tr s) = dead_w s"
  "dead_r (close_0_rest_line_pipe_out s) = dead_r s" "dead_w (close_0_rest_line_pipe_out s) = dead_w s"
  "dead_r (close_fd fd s) = dead_r s" "dead_w (close_fd fd s) = dead_w s"
  "dead_r (s\<lparr>k_fds := tt, k_next := m\<rparr>) = dead_r s" "dead_w (s\<lparr>k_fds := tt, k_next := m\<rparr>) = dead_w s"
  by (simp_all add: dead_r_def dead_w_def fun_eq_iff close_fd_def)

lemma close_fd_sel [simp]:
  "fd_get (k_fds (close_fd fd s)) g = (if g = fd then None else fd_get (k_fds s) g)"
  "k_next (close_fd fd s) = k_next s"
  "sh_env (close_fd fd s) = sh_env (s :: npshell)"
  "num_pipe_vec (close_fd fd s) = num_pipe_vec s"
  "num_pipe_in_flag (close_fd fd s) = num_pipe_in_flag s"
  "num_pipe_out_flag (close_fd fd s) = num_pipe_out_flag s"
  "shock_pipe_out_flag (close_fd fd s) = shock_pipe_out_flag s"
  "write_file_flag (close_fd fd s) = write_file_flag s"
  "line_end_with_pipe (close_fd fd s) = line_end_with_pipe s"
  "sh_log (close_fd fd s) = sh_log s"
  "sh_exited (close_fd fd s) = sh_exited s"
  by (simp_all add: close_fd_def)

text \<open>The last process of a line that ends in a file or a numbered pipe.\<close>

lemma exec_redirect_parent:
  "fd_get (k_fds (exec_redirect sys n argv fd_in s)) g =
     (if dead_w s g \<or> n \<noteq> 1 \<and> g = fd_in \<or> num_pipe_in_flag s \<and> dead_r s g then None
      else fd_get (k_fds s) g)"
  "k_next (exec_redirect sys n argv fd_in s) = k_next s"
  "sh_env (exec_redirect sys n argv fd_in s) = sh_env s"
  "num_pipe_in_flag (exec_redirect sys n argv fd_in s) = False"
  "num_pipe_vec (exec_redirect sys n argv fd_in s) =
     (if num_pipe_in_flag s then filter (\<lambda>t. rest_line t \<noteq> 0) (num_pipe_vec s) else num_pipe_vec s)"
  by (auto simp: exec_redirect_def Let_def)

lemma exec_numbered_parent:
  "fd_get (k_fds (exec_numbered sys n argv fd_in out s)) g =
     (if dead_w s g \<or> n \<noteq> 1 \<and> g = fd_in \<or> num_pipe_in_flag s \<and> dead_r s g then None
      else fd_get (k_fds s) g)"
  "k_next (exec_numbered sys n argv fd_in out s) = k_next s"
  "sh_env (exec_numbered sys n argv fd_in out s) = sh_env s"
  "num_pipe_in_flag (exec_numbered sys n argv fd_in out s) = False"
  "num_pipe_vec (exec_numbered sys n argv fd_in out s) =
     (if num_pipe_in_flag s then filter (\<lambda>t. rest_line t \<noteq> 0) (num_pipe_vec s) else num_pipe_vec s)"
  by (auto simp: exec_numbered_def Let_def)

text \<open>The other processes: one alone, and one in a pipeline with the fresh pipe \<open>p0\<close>, \<open>p1\<close>.\<close>

lemma exec_normal_single:
  "fst (exec_normal sys 1 prc argv fd_in s) = fd_in"
  "fd_get (k_fds (snd (exec_normal sys 1 prc argv fd_in s))) g =
     (if dead_w s g \<or> num_pipe_in_flag s \<and> dead_r s g then None else fd_get (k_fds s) g)"
  "k_next (snd (exec_normal sys 1 prc argv fd_in s)) = k_next s"
  "num_pipe_in_flag (snd (exec_normal sys 1 prc argv fd_in s)) = False"
  "num_pipe_vec (snd (exec_normal sys 1 prc argv fd_in s)) =
     (if num_pipe_in_flag s then filter (\<lambda>t. rest_line t \<noteq> 0) (num_pipe_vec s) else num_pipe_vec s)"
  by (auto simp: exec_normal_def Let_def)

lemma exec_normal_pipe:
  assumes "n \<noteq> 1" and "sys_pipe s = (p0, p1, s1)"
  shows "fst (exec_normal sys n prc argv fd_in s) = p0"
    and "fd_get (k_fds (snd (exec_normal sys n prc argv fd_in s))) g =
      (if g = p1 \<or> prc = n - 1 \<and> g = p0 \<or> dead_w s g \<or> num_pipe_in_flag s \<and> dead_r s g then None
       else if g = p0 then Some (PipeR (k_next s)) else fd_get (k_fds s) g)"
    and "k_next (snd (exec_normal sys n prc argv fd_in s)) = Suc (k_next s)"
    and "num_pipe_in_flag (snd (exec_normal sys n prc argv fd_in s)) = False"
    and "num_pipe_vec (snd (exec_normal sys n prc argv fd_in s)) =
      (if num_pipe_in_flag s then filter (\<lambda>t. rest_line t \<noteq> 0) (num_pipe_vec s) else num_pipe_vec s)"
  using assms
  by (auto elim!: sys_pipeE simp: exec_normal_def Let_def)

section \<open>The invariant\<close>

text \<open>
  Standard input, output and error are the shell's own; every numbered pipe is open with both
  ends at its two descriptors; no two share a descriptor or the number of lines left; pipe
  numbers are below the next one, and only one descriptor writes to a pipe.
\<close>

definition pipes_wf :: "npshell \<Rightarrow> bool" where
  "pipes_wf s \<longleftrightarrow>
     (\<forall>t\<in>set (num_pipe_vec s). \<exists>i. fd_get (k_fds s) (np_r t) = Some (PipeR i)
        \<and> fd_get (k_fds s) (np_w t) = Some (PipeW i))
   \<and> distinct (map np_r (num_pipe_vec s)) \<and> distinct (map np_w (num_pipe_vec s))
   \<and> distinct (map rest_line (num_pipe_vec s))
   \<and> (\<forall>g i. fd_get (k_fds s) g = Some (PipeR i) \<or> fd_get (k_fds s) g = Some (PipeW i) \<longrightarrow> i < k_next s)
   \<and> (\<forall>g h i. fd_get (k_fds s) g = Some (PipeW i) \<longrightarrow> fd_get (k_fds s) h = Some (PipeW i) \<longrightarrow> g = h)"

definition std_ok :: "npshell \<Rightarrow> bool" where
  "std_ok s \<longleftrightarrow> (\<forall>g<3. \<exists>k. fd_get (k_fds s) g = Some (Inherited k))"

definition shell_wf :: "npshell \<Rightarrow> bool" where
  "shell_wf s \<longleftrightarrow> pipes_wf s \<and> std_ok s"

lemma pipes_wfD:
  assumes "pipes_wf s"
  shows "t \<in> set (num_pipe_vec s) \<Longrightarrow> \<exists>i. fd_get (k_fds s) (np_r t) = Some (PipeR i)
        \<and> fd_get (k_fds s) (np_w t) = Some (PipeW i)"
    and "fd_get (k_fds s) g = Some (PipeR i) \<or> fd_get (k_fds s) g = Some (PipeW i) \<Longrightarrow> i < k_next s"
    and "fd_get (k_fds s) g = Some (PipeW i) \<Longrightarrow> fd_get (k_fds s) h = Some (PipeW i) \<Longrightarrow> g = h"
    and "t \<in> set (num_pipe_vec s) \<Longrightarrow> u \<in> set (num_pipe_vec s) \<Longrightarrow> np_r t = np_r u \<Longrightarrow> t = u"
    and "t \<in> set (num_pipe_vec s) \<Longrightarrow> u \<in> set (num_pipe_vec s) \<Longrightarrow> np_w t = np_w u \<Longrightarrow> t = u"
    and "t \<in> set (num_pipe_vec s) \<Longrightarrow> u \<in> set (num_pipe_vec s) \<Longrightarrow> rest_line t = rest_line u \<Longrightarrow> t = u"
  using assms unfolding pipes_wf_def distinct_map inj_on_def by blast+

text \<open>
  A step of the loop keeps the pipes that have lines left and drops the others: the conditions
  are on the new table \<open>f\<close>, as the lemmas above give it.
\<close>

lemma pipes_wf_step:
  assumes "pipes_wf s"
    and table: "\<And>g x. fd_get (k_fds s') g = Some x \<Longrightarrow>
      fd_get (k_fds s) g = Some x \<or> x = PipeR (k_next s) \<and> k_next s < k_next s'"
    and next': "k_next s \<le> k_next s'"
    and kept: "\<And>t. t \<in> set (num_pipe_vec s') \<Longrightarrow> fd_get (k_fds s') (np_r t) = fd_get (k_fds s) (np_r t)
      \<and> fd_get (k_fds s') (np_w t) = fd_get (k_fds s) (np_w t)"
    and vec: "num_pipe_vec s' = num_pipe_vec s \<or> num_pipe_vec s' = filter (\<lambda>t. rest_line t \<noteq> 0) (num_pipe_vec s)"
  shows "pipes_wf s'"
proof -
  have sub: "t \<in> set (num_pipe_vec s') \<Longrightarrow> t \<in> set (num_pipe_vec s)" for t using vec by auto
  have "distinct (map np_r (num_pipe_vec s'))" "distinct (map np_w (num_pipe_vec s'))"
    "distinct (map rest_line (num_pipe_vec s'))"
    using vec assms(1) by (auto simp: pipes_wf_def distinct_map inj_on_def)
  moreover have "i < k_next s'" if "fd_get (k_fds s') g = Some (PipeR i) \<or> fd_get (k_fds s') g = Some (PipeW i)" for g i
    using that table next' pipes_wfD(2) [OF assms(1), of g i] by fastforce
  moreover have "g = h" if "fd_get (k_fds s') g = Some (PipeW i)" "fd_get (k_fds s') h = Some (PipeW i)" for g h i
    using that table pipes_wfD(3) [OF assms(1), of g i h] by blast
  ultimately show ?thesis
    using kept sub pipes_wfD(1) [OF assms(1)] unfolding pipes_wf_def by fastforce
qed

section \<open>Running the processes of a line\<close>

definition dead_flagged :: "npshell \<Rightarrow> bool" where
  "dead_flagged s \<longleftrightarrow> (\<forall>t\<in>set (num_pipe_vec s). rest_line t = 0 \<longrightarrow> num_pipe_in_flag s)"

definition fd_in_ok :: "npshell \<Rightarrow> nat \<Rightarrow> bool" where
  "fd_in_ok s fd \<longleftrightarrow> fd = 0 \<or> 2 < fd \<and> (\<forall>t\<in>set (num_pipe_vec s). np_r t \<noteq> fd \<and> np_w t \<noteq> fd)"

definition no_new_writer :: "npshell \<Rightarrow> npshell \<Rightarrow> bool" where
  "no_new_writer s s' \<longleftrightarrow>
     (\<forall>g i. fd_get (k_fds s') g = Some (PipeW i) \<longrightarrow> fd_get (k_fds s) g = Some (PipeW i))"

lemma no_new_writer_refl [simp]: "no_new_writer s s"
  by (simp add: no_new_writer_def)

lemma no_new_writer_trans: "no_new_writer s t \<Longrightarrow> no_new_writer t u \<Longrightarrow> no_new_writer s u"
  by (simp add: no_new_writer_def)

lemma no_new_writer_same: "k_fds s' = k_fds s \<Longrightarrow> no_new_writer s s'" "k_fds s' = k_fds s \<Longrightarrow> no_new_writer s' t = no_new_writer s t"
  by (simp_all add: no_new_writer_def)

text \<open>What running processes leaves alone: the pipes with lines left, the standard files and
  who writes to a pipe.\<close>

definition frame :: "npshell \<Rightarrow> npshell \<Rightarrow> bool" where
  "frame s s' \<longleftrightarrow>
     (\<forall>t\<in>set (num_pipe_vec s). rest_line t \<noteq> 0 \<longrightarrow> t \<in> set (num_pipe_vec s')
        \<and> fd_get (k_fds s') (np_r t) = fd_get (k_fds s) (np_r t)
        \<and> fd_get (k_fds s') (np_w t) = fd_get (k_fds s) (np_w t))
   \<and> set (num_pipe_vec s') \<subseteq> set (num_pipe_vec s)
   \<and> fd_get (k_fds s') 1 = fd_get (k_fds s) 1 \<and> fd_get (k_fds s') 2 = fd_get (k_fds s) 2
   \<and> (fd_get (k_fds s') 0 = None \<or> fd_get (k_fds s') 0 = fd_get (k_fds s) 0)
   \<and> no_new_writer s s'"

lemma frame_refl: "frame s s"
  by (simp add: frame_def)

lemma frame_trans: "frame s t \<Longrightarrow> frame t u \<Longrightarrow> frame s u"
  unfolding frame_def by (intro conjI; (metis subset_iff no_new_writer_trans)?)

text \<open>
  The common part of the three branches: a table in which some descriptors are closed, and a
  read end of the newest pipe may be open.
\<close>

lemma step_frame:
  assumes wf: "pipes_wf s" "std_ok s" "dead_flagged s" and fd: "fd_in_ok s fd_in"
    and table: "\<And>g. fd_get (k_fds s') g =
      (if g = p1 \<and> fresh \<or> c \<and> g = p0 \<or> dead_w s g \<or> num_pipe_in_flag s \<and> dead_r s g \<or> b \<and> g = fd_in then None
       else if fresh \<and> g = p0 then Some (PipeR (k_next s)) else fd_get (k_fds s) g)"
    and new: "fresh \<Longrightarrow> fd_get (k_fds s) p0 = None \<and> fd_get (k_fds s) p1 = None"
    and cf: "c \<Longrightarrow> fresh"
    and vec: "num_pipe_vec s' =
      (if num_pipe_in_flag s then filter (\<lambda>t. rest_line t \<noteq> 0) (num_pipe_vec s) else num_pipe_vec s)"
    and next': "k_next s' = (if fresh then Suc (k_next s) else k_next s)"
    and flag: "\<not> num_pipe_in_flag s'"
  shows "pipes_wf s' \<and> dead_flagged s' \<and> frame s s' \<and> (b \<longrightarrow> fd_in \<noteq> 0 \<longrightarrow> std_ok s') \<and> (\<not> b \<longrightarrow> std_ok s')"
proof -
  note D = pipes_wfD [OF wf(1)]
  have std: "\<exists>k. fd_get (k_fds s) g = Some (Inherited k)" if "g < 3" for g
    using wf(2) that by (simp add: std_ok_def)
  have sub: "set (num_pipe_vec s') \<subseteq> {t \<in> set (num_pipe_vec s). rest_line t \<noteq> 0}"
    using vec wf(3) by (auto simp: dead_flagged_def)
  have np_std: "3 \<le> np_r t \<and> 3 \<le> np_w t" if "t \<in> set (num_pipe_vec s)" for t
    using D(1) [OF that] std [of "np_r t"] std [of "np_w t"] by (auto simp: not_less [symmetric])
  have live: "fd_get (k_fds s') (np_r t) = fd_get (k_fds s) (np_r t)
      \<and> fd_get (k_fds s') (np_w t) = fd_get (k_fds s) (np_w t)"
    if t: "t \<in> set (num_pipe_vec s)" "rest_line t \<noteq> 0" for t
  proof -
    obtain i where i: "fd_get (k_fds s) (np_r t) = Some (PipeR i)" "fd_get (k_fds s) (np_w t) = Some (PipeW i)"
      using D(1) [OF t(1)] by blast
    have "\<not> dead_w s (np_r t)" "\<not> dead_r s (np_w t)"
      using D(1) i by (fastforce simp: dead_w_def dead_r_def)+
    moreover have "\<not> dead_w s (np_w t)" "\<not> dead_r s (np_r t)"
      using D(4,5) t by (auto simp: dead_w_def dead_r_def)
    moreover have "np_r t \<noteq> fd_in" "np_w t \<noteq> fd_in" using fd t(1) np_std [OF t(1)] by (auto simp: fd_in_ok_def)
    ultimately show ?thesis using table new cf i by (cases fresh) auto
  qed
  have keep: "fd_get (k_fds s') g = fd_get (k_fds s) g" if "g < 3" "b \<longrightarrow> g \<noteq> fd_in" for g
  proof -
    have "\<not> dead_w s g" "\<not> dead_r s g" using np_std that(1) by (fastforce simp: dead_w_def dead_r_def)+
    then show ?thesis using table [of g] new cf std [OF that(1)] that(2) by (cases fresh) auto
  qed
  have "pipes_wf s'"
  proof (rule pipes_wf_step [OF wf(1)])
    show "fd_get (k_fds s') g = Some x \<Longrightarrow>
        fd_get (k_fds s) g = Some x \<or> x = PipeR (k_next s) \<and> k_next s < k_next s'" for g x
      using table [of g] next' by (auto split: if_splits)
    show "k_next s \<le> k_next s'" using next' by simp
    show "num_pipe_vec s' = num_pipe_vec s \<or> num_pipe_vec s' = filter (\<lambda>t. rest_line t \<noteq> 0) (num_pipe_vec s)"
      using vec by simp
  qed (use sub live in blast)
  moreover have "dead_flagged s'" using sub by (auto simp: dead_flagged_def)
  moreover have "frame s s'"
  proof -
    have "fd_get (k_fds s') g = fd_get (k_fds s) g" if "g = 1 \<or> g = 2" for g
      using keep [of g] fd that by (auto simp: fd_in_ok_def)
    moreover have "fd_get (k_fds s') 0 = None \<or> fd_get (k_fds s') 0 = fd_get (k_fds s) 0"
      using keep [of 0] table [of 0] by (cases "b \<and> fd_in = 0") auto
    moreover have "no_new_writer s s'"
      unfolding no_new_writer_def
    proof (intro allI impI)
      fix g i assume "fd_get (k_fds s') g = Some (PipeW i)"
      then show "fd_get (k_fds s) g = Some (PipeW i)" using table [of g] by (simp split: if_splits)
    qed
    ultimately show ?thesis using live sub vec wf(3) by (auto simp: frame_def dead_flagged_def)
  qed
  moreover have "std_ok s'" if "b \<longrightarrow> fd_in \<noteq> 0"
    using that fd keep std by (auto simp: std_ok_def fd_in_ok_def)
  ultimately show ?thesis by blast
qed

lemma same_core:
  assumes "k_fds s' = k_fds s" and "k_next s' = k_next s" and "num_pipe_vec s' = num_pipe_vec s"
    and "num_pipe_in_flag s' = num_pipe_in_flag s"
  shows "pipes_wf s' = pipes_wf s" and "dead_flagged s' = dead_flagged s" and "std_ok s' = std_ok s"
    and "frame s s'" and "fd_in_ok s' fd = fd_in_ok s fd" and "frame s' t = frame s t"
  using assms
  by (simp_all add: pipes_wf_def dead_flagged_def std_ok_def frame_def fd_in_ok_def no_new_writer_same [OF assms(1)])

lemma builtin_core:
  "k_fds (printenv args s) = k_fds s" "k_next (printenv args s) = k_next s"
  "num_pipe_vec (printenv args s) = num_pipe_vec s"
  "num_pipe_in_flag (printenv args s) = num_pipe_in_flag s"
  "k_fds (setenv_builtin args s) = k_fds s" "k_next (setenv_builtin args s) = k_next s"
  "num_pipe_vec (setenv_builtin args s) = num_pipe_vec s"
  "num_pipe_in_flag (setenv_builtin args s) = num_pipe_in_flag s"
  "k_fds (sh_event e s) = k_fds s" "k_next (sh_event e s) = k_next s"
  "num_pipe_vec (sh_event e s) = num_pipe_vec s"
  "num_pipe_in_flag (sh_event e s) = num_pipe_in_flag s"
  by (simp_all add: printenv_def setenv_builtin_def sh_event_def split: list.splits option.splits)

lemmas builtin_keeps = same_core [OF builtin_core(1-4)] same_core [OF builtin_core(5-8)]
  same_core [OF builtin_core(9-12)]

definition kept :: "npshell \<Rightarrow> npshell \<Rightarrow> bool" where
  "kept s s' \<longleftrightarrow> pipes_wf s' \<and> dead_flagged s' \<and> frame s s'"

lemma exec_redirect_kept:
  assumes "pipes_wf s" "std_ok s" "dead_flagged s" "fd_in_ok s fd_in"
  shows "kept s (exec_redirect sys n argv fd_in s)"
    and "n = 1 \<or> fd_in \<noteq> 0 \<Longrightarrow> std_ok (exec_redirect sys n argv fd_in s)"
proof -
  let ?s = "exec_redirect sys n argv fd_in s"
  have "pipes_wf ?s \<and> dead_flagged ?s \<and> frame s ?s \<and> (n \<noteq> 1 \<longrightarrow> fd_in \<noteq> 0 \<longrightarrow> std_ok ?s) \<and> (\<not> n \<noteq> 1 \<longrightarrow> std_ok ?s)"
    by (rule step_frame [OF assms, of ?s 0 False False 0 "n \<noteq> 1"]) (auto simp: exec_redirect_parent)
  then show "kept s ?s" and "n = 1 \<or> fd_in \<noteq> 0 \<Longrightarrow> std_ok ?s"
    unfolding kept_def by blast+
qed

lemma exec_numbered_kept:
  assumes "pipes_wf s" "std_ok s" "dead_flagged s" "fd_in_ok s fd_in"
  shows "kept s (exec_numbered sys n argv fd_in out s)"
    and "n = 1 \<or> fd_in \<noteq> 0 \<Longrightarrow> std_ok (exec_numbered sys n argv fd_in out s)"
proof -
  let ?s = "exec_numbered sys n argv fd_in out s"
  have "pipes_wf ?s \<and> dead_flagged ?s \<and> frame s ?s \<and> (n \<noteq> 1 \<longrightarrow> fd_in \<noteq> 0 \<longrightarrow> std_ok ?s) \<and> (\<not> n \<noteq> 1 \<longrightarrow> std_ok ?s)"
    by (rule step_frame [OF assms, of ?s 0 False False 0 "n \<noteq> 1"]) (auto simp: exec_numbered_parent)
  then show "kept s ?s" and "n = 1 \<or> fd_in \<noteq> 0 \<Longrightarrow> std_ok ?s"
    unfolding kept_def by blast+
qed

lemma fresh_fd:
  assumes "pipes_wf s" "std_ok s" and "fd_get (k_fds s) p = None"
  shows "2 < p" and "\<And>t. t \<in> set (num_pipe_vec s) \<Longrightarrow> np_r t \<noteq> p \<and> np_w t \<noteq> p"
proof -
  have "\<not> p < 3" using assms(2,3) by (auto simp: std_ok_def)
  then show "2 < p" by simp
  show "\<And>t. t \<in> set (num_pipe_vec s) \<Longrightarrow> np_r t \<noteq> p \<and> np_w t \<noteq> p"
    using pipes_wfD(1) [OF assms(1)] assms(3) by fastforce
qed

lemma exec_normal_kept:
  assumes "pipes_wf s" "std_ok s" "dead_flagged s" "fd_in_ok s fd_in"
    and "exec_normal sys n prc argv fd_in s = (fd', s')"
  shows "kept s s' \<and> std_ok s' \<and> fd_in_ok s' fd' \<and> (n \<noteq> 1 \<longrightarrow> fd' \<noteq> 0) \<and> (n = 1 \<longrightarrow> fd' = fd_in)"
proof (cases "n = 1")
  case True
  then have s': "fd' = fd_in" "s' = snd (exec_normal sys 1 prc argv fd_in s)"
    using assms(5) exec_normal_single(1) [of sys prc argv fd_in s] by auto
  have "pipes_wf s' \<and> dead_flagged s' \<and> frame s s' \<and> std_ok s'"
    using step_frame [OF assms(1-4), of s' 0 False False 0 False] exec_normal_single s' by auto
  then show ?thesis using assms(4) s' True by (auto simp: kept_def fd_in_ok_def frame_def)
next
  case False
  obtain p0 p1 s1 where p: "sys_pipe s = (p0, p1, s1)" by (cases "sys_pipe s")
  then have fresh: "fd_get (k_fds s) p0 = None" "fd_get (k_fds s) p1 = None" by (auto elim: sys_pipeE)
  have s': "fd' = p0" "s' = snd (exec_normal sys n prc argv fd_in s)"
    using assms(5) exec_normal_pipe(1) [OF False p, of sys prc argv fd_in] by auto
  have "pipes_wf s' \<and> dead_flagged s' \<and> frame s s' \<and> std_ok s'"
    using step_frame [OF assms(1-4), of s' p1 True "prc = n - 1" p0 False] fresh
      exec_normal_pipe [OF False p, of sys prc argv fd_in] s' by auto
  then show ?thesis using fresh_fd [OF assms(1,2) fresh(1)] s' False by (auto simp: kept_def fd_in_ok_def frame_def)
qed

lemma kept_trans: "kept s t \<Longrightarrow> kept t u \<Longrightarrow> kept s u"
  by (auto simp: kept_def intro: frame_trans)

text \<open>One iteration of the loop: a built-in, \<^verbatim>\<open>exit\<close>, a last process, or any other.\<close>

lemma exec_loop_ConsE:
  assumes "exec_loop sys n prc (argv # procs) fd_in out s = Inr s'"
  obtains (env) args s1 where "argv \<noteq> []" "is_builtin (hd argv)"
      "s1 = printenv args s \<or> s1 = setenv_builtin args s"
      "exec_loop sys n (prc + 1) procs fd_in out s1 = Inr s'"
  | (exit) "is_builtin (hd argv)" "s' = sh_event Exit (s\<lparr>sh_exited := True\<rparr>)"
  | (last) s1 where "argv \<noteq> []" "\<not> is_builtin (hd argv)"
      "s1 = exec_redirect sys n argv fd_in s \<or> s1 = exec_numbered sys n argv fd_in out s"
      "prc = n - 1" "exec_loop sys n (prc + 1) procs fd_in out s1 = Inr s'"
  | (normal) fd1 s1 where "argv \<noteq> []" "\<not> is_builtin (hd argv)"
      "exec_normal sys n prc argv fd_in s = (fd1, s1)"
      "exec_loop sys n (prc + 1) procs fd1 out s1 = Inr s'"
      "prc = n - 1 \<Longrightarrow> \<not> write_file_flag s \<and> \<not> shock_pipe_out_flag s \<and> \<not> num_pipe_out_flag s"
proof (cases argv)
  case Nil
  then show ?thesis using assms by simp
next
  case (Cons c args)
  consider "c = ''printenv''" | "c = ''setenv''" | "c = ''exit''" | "\<not> is_builtin c"
    by (auto simp: is_builtin_def)
  then show ?thesis
  proof cases
    case 1
    then show ?thesis using assms env [of "printenv args s" args] Cons by (simp add: is_builtin_def)
  next
    case 2
    then show ?thesis using assms env [of "setenv_builtin args s" args] Cons by (simp add: is_builtin_def)
  next
    case 3
    then show ?thesis using assms exit Cons by (simp add: is_builtin_def)
  next
    case 4
    obtain fd1 s1 where n: "exec_normal sys n prc argv fd_in s = (fd1, s1)"
      by (cases "exec_normal sys n prc argv fd_in s")
    show ?thesis
      using assms 4 last [of "exec_redirect sys n argv fd_in s"]
        last [of "exec_numbered sys n argv fd_in out s"] normal [of fd1 s1] n Cons
      by (auto simp: is_builtin_def Let_def split: if_splits)
  qed
qed

text \<open>
  A whole line keeps the invariant; the standard input stays open unless the last process closed
  it.
\<close>

lemma exec_loop_kept:
  assumes "exec_loop sys n prc procs fd_in out s = Inr s'" and "prc + length procs = n"
    and "pipes_wf s" "std_ok s" "dead_flagged s" "fd_in_ok s fd_in"
  shows "kept s s' \<and> (fd_get (k_fds s') 0 \<noteq> None \<longrightarrow> std_ok s')"
  using assms
proof (induction procs arbitrary: prc fd_in s)
  case Nil
  then show ?case by (auto simp: kept_def frame_refl)
next
  case (Cons argv procs)
  note IH = Cons.IH [of "prc + 1"]
  from Cons.prems(1) show ?case
  proof (cases rule: exec_loop_ConsE)
    case (env args s1)
    then have core: "pipes_wf s1 = pipes_wf s" "dead_flagged s1 = dead_flagged s" "std_ok s1 = std_ok s"
      "frame s s1" "fd_in_ok s1 fd_in = fd_in_ok s fd_in"
      using builtin_keeps by auto
    then have "kept s1 s' \<and> (fd_get (k_fds s') 0 \<noteq> None \<longrightarrow> std_ok s')"
      using IH [OF env(4)] Cons.prems by simp
    moreover have "kept s s1" using core Cons.prems by (simp add: kept_def)
    ultimately show ?thesis using kept_trans by blast
  next
    case exit
    note exit = exit(2)
    have core: "pipes_wf s' = pipes_wf s" "dead_flagged s' = dead_flagged s" "std_ok s' = std_ok s" "frame s s'"
      by (rule same_core; simp add: exit sh_event_def)+
    then show ?thesis using Cons.prems by (simp add: kept_def)
  next
    case (last s1)
    note last = last(3-5)
    have "length procs = 0" using Cons.prems(2) last(2) by (cases n) auto
    then have "procs = []" by simp
    then have s': "s' = s1" using last(3) by simp
    have k: "kept s s'"
      using last(1) s' exec_redirect_kept(1) exec_numbered_kept(1) Cons.prems(3-6) by blast
    have "std_ok s'" if "fd_get (k_fds s') 0 \<noteq> None"
      using k that Cons.prems(4) by (auto simp: kept_def frame_def std_ok_def less_Suc_eq numeral_3_eq_3 numeral_2_eq_2)
    with k show ?thesis by blast
  next
    case (normal fd1 s1)
    note normal = normal(3,4)
    have "kept s s1 \<and> std_ok s1 \<and> fd_in_ok s1 fd1"
      using exec_normal_kept [OF Cons.prems(3-6) normal(1)] by blast
    moreover from this have "kept s1 s' \<and> (fd_get (k_fds s') 0 \<noteq> None \<longrightarrow> std_ok s')"
      using IH [OF normal(2)] Cons.prems(2) by (simp add: kept_def)
    ultimately show ?thesis using kept_trans by blast
  qed
qed

section \<open>Parsing a line\<close>

text \<open>Operators with a number name at least one line; the shell does not check this.\<close>

definition op_delim :: "string \<Rightarrow> char" where
  "op_delim w = (if hd w = CHR ''!'' then CHR ''!'' else CHR ''|'')"

definition valid_op :: "string \<Rightarrow> bool" where
  "valid_op w \<longleftrightarrow> is_op w \<and> w \<noteq> ''|'' \<and> w \<noteq> ''>'' \<longrightarrow>
     (case strtok_first (\<lambda>c. c = op_delim w) w of None \<Rightarrow> False | Some d \<Rightarrow> 1 \<le> atoi d)"

definition parsed :: "npshell \<Rightarrow> npshell \<Rightarrow> bool" where
  "parsed s s' \<longleftrightarrow>
     pipes_wf s' \<and> std_ok s'
   \<and> (\<exists>new. num_pipe_vec s' = num_pipe_vec s @ new \<and> (\<forall>t\<in>set new. 1 \<le> rest_line t))
   \<and> num_pipe_in_flag s' = num_pipe_in_flag s \<and> sh_env s' = sh_env s \<and> sh_exited s' = sh_exited s
   \<and> (\<forall>g. fd_get (k_fds s) g \<noteq> None \<longrightarrow> fd_get (k_fds s') g = fd_get (k_fds s) g)"

lemma parsed_refl: "pipes_wf s \<Longrightarrow> std_ok s \<Longrightarrow> parsed s s"
  by (simp add: parsed_def)

lemma parsed_trans: "parsed s t \<Longrightarrow> parsed t u \<Longrightarrow> parsed s u"
  unfolding parsed_def by (elim conjE exE, intro conjI) auto

lemma parsed_same:
  assumes "parsed s t" and "k_fds t' = k_fds t" "k_next t' = k_next t" "num_pipe_vec t' = num_pipe_vec t"
    "num_pipe_in_flag t' = num_pipe_in_flag t" "sh_env t' = sh_env t" "sh_exited t' = sh_exited t"
  shows "parsed s t'"
  using assms unfolding parsed_def pipes_wf_def std_ok_def by simp

lemma set_redirection_parsed:
  "set_redirection f s = Inr s' \<Longrightarrow> pipes_wf s \<Longrightarrow> std_ok s \<Longrightarrow> parsed s s'"
  by (rule parsed_same [OF parsed_refl])
    (auto simp: set_redirection_def Let_def sh_event_def split: if_splits)

text \<open>A new numbered pipe is open at fresh descriptors.\<close>

lemma new_pipe_wf:
  assumes "pipes_wf s" "std_ok s" and "sys_pipe s = (r, w, s1)"
    and "\<forall>t\<in>set (num_pipe_vec s). rest_line t \<noteq> n"
    and "s' = s1\<lparr>num_pipe_vec := num_pipe_vec s @ [\<lparr>rest_line = n, np_r = r, np_w = w\<rparr>]\<rparr>"
  shows "pipes_wf s' \<and> std_ok s' \<and> (\<forall>g. fd_get (k_fds s) g \<noteq> None \<longrightarrow> fd_get (k_fds s') g = fd_get (k_fds s) g)"
proof -
  obtain t where s1: "s1 = s\<lparr>k_fds := t, k_next := Suc (k_next s)\<rparr>" and "r \<noteq> w"
    and free: "fd_get (k_fds s) r = None" "fd_get (k_fds s) w = None"
    and t: "\<And>g. fd_get t g = (if g = w then Some (PipeW (k_next s))
                   else if g = r then Some (PipeR (k_next s)) else fd_get (k_fds s) g)"
    using assms(3) by (rule sys_pipeE) blast
  note D = pipes_wfD [OF assms(1)]
  have old: "fd_get t g = fd_get (k_fds s) g" if "fd_get (k_fds s) g \<noteq> None" for g
    using that free t by auto
  have np: "np_r u \<noteq> r \<and> np_r u \<noteq> w \<and> np_w u \<noteq> r \<and> np_w u \<noteq> w" if "u \<in> set (num_pipe_vec s)" for u
    using D(1) [OF that] free by auto
  have ids: "i < Suc (k_next s)" if "fd_get t g = Some (PipeR i) \<or> fd_get t g = Some (PipeW i)" for g i
    using that D(2) [of g i] by (auto simp: t less_Suc_eq split: if_splits)
  have writer: "g = h" if "fd_get t g = Some (PipeW i)" "fd_get t h = Some (PipeW i)" for g h i
    using that D(3) [of g i h] D(2) [of g i] D(2) [of h i] by (auto simp: t split: if_splits)
  have ends: "\<exists>i. fd_get t (np_r u) = Some (PipeR i) \<and> fd_get t (np_w u) = Some (PipeW i)"
    if "u \<in> set (num_pipe_vec s)" for u
    using D(1) [OF that] np [OF that] by (simp add: t)
  have "pipes_wf s'"
    unfolding pipes_wf_def assms(5) s1
  proof (simp, intro conjI)
    show "\<exists>i. fd_get t r = Some (PipeR i) \<and> fd_get t w = Some (PipeW i)" using \<open>r \<noteq> w\<close> by (simp add: t)
    show "\<forall>u\<in>set (num_pipe_vec s). \<exists>i. fd_get t (np_r u) = Some (PipeR i) \<and> fd_get t (np_w u) = Some (PipeW i)"
      using ends by blast
    show "distinct (map np_r (num_pipe_vec s))" "distinct (map np_w (num_pipe_vec s))"
      "distinct (map rest_line (num_pipe_vec s))"
      using assms(1) by (simp_all add: pipes_wf_def)
    show "r \<notin> np_r ` set (num_pipe_vec s)" "w \<notin> np_w ` set (num_pipe_vec s)" using np by auto
    show "n \<notin> rest_line ` set (num_pipe_vec s)" using assms(4) by auto
    show "\<forall>g i. (fd_get t g = Some (PipeR i) \<longrightarrow> i < Suc (k_next s)) \<and> (fd_get t g = Some (PipeW i) \<longrightarrow> i < Suc (k_next s))"
      using ids by blast
    show "\<forall>g h i. fd_get t g = Some (PipeW i) \<longrightarrow> fd_get t h = Some (PipeW i) \<longrightarrow> g = h"
      using writer by blast
  qed
  moreover have "std_ok s'" using assms(2) old by (fastforce simp: std_ok_def assms(5) s1)
  ultimately show ?thesis using old by (simp add: assms(5) s1)
qed

lemma number_pipe_out_parsed:
  assumes "number_pipe_out d w s = Inr (out, s')" "pipes_wf s" "std_ok s"
    and "case strtok_first (\<lambda>c. c = d) w of None \<Rightarrow> False | Some x \<Rightarrow> 1 \<le> atoi x"
  shows "parsed s s'"
proof -
  obtain x where x: "strtok_first (\<lambda>c. c = d) w = Some x" "1 \<le> atoi x"
    using assms(4) by (auto split: option.splits)
  show ?thesis
  proof (cases "List.find (\<lambda>t. rest_line t = atoi x) (num_pipe_vec s)")
    case None
    obtain r w1 s1 where p: "sys_pipe s = (r, w1, s1)" by (cases "sys_pipe s")
    from p obtain t where s1: "s1 = s\<lparr>k_fds := t, k_next := Suc (k_next s)\<rparr>" by (rule sys_pipeE)
    have s': "s' = s1\<lparr>num_pipe_vec := num_pipe_vec s @ [\<lparr>rest_line = atoi x, np_r = r, np_w = w1\<rparr>]\<rparr>"
      using assms(1) None p by (auto simp: number_pipe_out_def x Let_def s1)
    have "\<forall>t\<in>set (num_pipe_vec s). rest_line t \<noteq> atoi x" using None by (simp add: find_None_iff)
    from new_pipe_wf [OF assms(2,3) p this s'] show ?thesis
      unfolding parsed_def using x(2) by (simp add: s' s1)
  next
    case (Some t)
    then have "s' = s" using assms(1) by (simp add: number_pipe_out_def x Let_def)
    then show ?thesis using assms(2,3) by (simp add: parsed_refl)
  qed
qed

lemma parse_op_parsed:
  assumes "parse_op w rest out s = Inr (rest', out', s')" "pipes_wf s" "std_ok s"
    and "is_op w" "valid_op w" "\<forall>v\<in>set rest. valid_op v"
  shows "parsed s s' \<and> (\<forall>v\<in>set rest'. valid_op v)"
proof -
  let ?s = "s\<lparr>line_end_with_pipe := True\<rparr>"
  have start: "pipes_wf ?s" "std_ok ?s" "parsed s ?s"
    using assms(2,3) by (simp_all add: pipes_wf_def std_ok_def parsed_def)
  consider (pipe) "s' = s" "rest' = rest"
    | (redir) f where "set_redirection f s = Inr s'" "rest = f # rest'"
    | (num) d s1 where "d = op_delim w" "w \<noteq> ''|''" "w \<noteq> ''>''" "rest' = rest"
        "number_pipe_out d w ?s = Inr (out', s1)"
        "s' = s1\<lparr>shock_pipe_out_flag := True\<rparr> \<or> s' = s1\<lparr>num_pipe_out_flag := True\<rparr>"
    using assms(1)
    by (auto simp: parse_op_def op_delim_def split: if_splits list.splits prod.splits)
  then show ?thesis
  proof cases
    case num
    then have "case strtok_first (\<lambda>c. c = d) w of None \<Rightarrow> False | Some x \<Rightarrow> 1 \<le> atoi x"
      using assms(4,5) by (simp add: valid_op_def)
    then have "parsed ?s s1" using number_pipe_out_parsed [OF num(5) start(1,2)] by blast
    then have "parsed s s1" using parsed_trans [OF start(3)] by blast
    then have "parsed s s'" by (rule parsed_same) (use num(6) in auto)
    then show ?thesis using num(4) assms(6) by blast
  qed (use assms set_redirection_parsed parsed_refl in auto)
qed

lemma combine_parsed:
  assumes "combine toks procs out s = Inr (procs', out', s')" "pipes_wf s" "std_ok s"
    and "\<forall>w\<in>set toks. valid_op w"
  shows "parsed s s'"
  using assms
proof (induction toks procs out s rule: combine.induct)
  case (1 toks procs out s)
  let ?words = "takeWhile (\<lambda>w. \<not> is_op w) toks"
  note eq = "1.prems"(1) [unfolded combine.simps [of toks procs out s]]
  show ?case
  proof (cases "dropWhile (\<lambda>w. \<not> is_op w) toks")
    case Nil
    then have "s' = s" using eq by (auto simp only: Let_def list.case split: if_splits)
    then show ?thesis using "1.prems" by (simp add: parsed_refl)
  next
    case (Cons w rest)
    then have toks: "toks \<noteq> []" by auto
    then have ok: "\<not> (9 < length ?words \<or> 5000 \<le> length procs)"
      using eq by (auto simp: Let_def split: if_splits)
    obtain rest1 out1 s1 where op: "parse_op w rest out s = Inr (rest1, out1, s1)"
      and rec: "combine rest1 (procs @ [?words]) out1 s1 = Inr (procs', out', s')"
      using eq toks ok Cons by (auto simp: Let_def split: sum.splits)
    have "is_op w" using dropWhile_hd_not [OF Cons] by simp
    moreover have "valid_op w" "\<forall>w\<in>set rest. valid_op w"
      using "1.prems"(4) set_dropWhileD [of _ "\<lambda>w. \<not> is_op w" toks] Cons by auto
    ultimately have s1: "parsed s s1 \<and> (\<forall>v\<in>set rest1. valid_op v)"
      using parse_op_parsed [OF op "1.prems"(2,3)] by blast
    then have "pipes_wf s1" "std_ok s1" by (simp_all add: parsed_def)
    then have "parsed s1 s'"
      using "1.IH" [OF toks refl refl ok Cons op refl refl] rec s1 by simp
    then show ?thesis using parsed_trans s1 by blast
  qed
qed

section \<open>A turn of the main loop\<close>

definition line_tokens :: "string \<Rightarrow> string list" where
  "line_tokens raw = tokens (\<lambda>c. c = CHR '' '') (butlast (cstr raw))"

definition count_down :: "string \<Rightarrow> npshell \<Rightarrow> npshell" where
  "count_down raw s =
     (let s = sh_event Prompt (s\<lparr>line_end_with_pipe := False\<rparr>)
      in if line_tokens raw \<noteq> [] \<and> num_pipe_vec s \<noteq> [] then decrease_line_count s else s)"

definition shell_inv :: "npshell \<Rightarrow> bool" where
  "shell_inv s \<longleftrightarrow> pipes_wf s \<and> std_ok s \<and> dead_flagged s"

lemma shell_lineE:
  assumes "shell_line sys raw s = Inr s'"
  obtains procs out s1 s2 where "combine (line_tokens raw) [] 1 (count_down raw s) = Inr (procs, out, s1)"
    and "exec_loop sys (length procs) 0 procs 0 out s1 = Inr s2"
    and "s' = s2 \<or> s' = sh_event WaitAll s2"
  using assms
  by (fastforce simp: shell_line_def Let_def line_tokens_def count_down_def split: if_splits prod.splits)

lemma count_down_core:
  "k_fds (count_down raw s) = k_fds s" "k_next (count_down raw s) = k_next s"
  "sh_env (count_down raw s) = sh_env s" "sh_exited (count_down raw s) = sh_exited s"
  "sh_log (count_down raw s) = sh_log s @ [Prompt]"
  "num_pipe_vec (count_down raw s) = (if line_tokens raw = [] then num_pipe_vec s
     else map (\<lambda>t. t\<lparr>rest_line := rest_line t - 1\<rparr>) (num_pipe_vec s))"
  by (auto simp: count_down_def decrease_line_count_def sh_event_def Let_def)

lemma count_down_flag:
  "num_pipe_in_flag (count_down raw s) =
     (num_pipe_in_flag s \<or> line_tokens raw \<noteq> [] \<and> (\<exists>t\<in>set (num_pipe_vec s). rest_line t = 1))"
  by (auto simp: count_down_def decrease_line_count_def sh_event_def Let_def list_ex_iff)

lemma count_down_inv:
  assumes "shell_inv s"
  shows "shell_inv (count_down raw s)"
proof -
  have "distinct (map (\<lambda>t. rest_line t - 1) (num_pipe_vec s))"
    using assms by (simp add: shell_inv_def pipes_wf_def distinct_map inj_on_def)
  then have "pipes_wf (count_down raw s)"
    using assms by (simp add: shell_inv_def pipes_wf_def count_down_core comp_def)
  moreover have "std_ok (count_down raw s)" using assms by (simp add: shell_inv_def std_ok_def count_down_core)
  moreover have "dead_flagged (count_down raw s)"
    using assms by (auto simp: shell_inv_def dead_flagged_def count_down_core count_down_flag)
  ultimately show ?thesis by (simp add: shell_inv_def)
qed

text \<open>The whole line, from the state after counting down.\<close>

lemma shell_line_kept:
  assumes "shell_line sys raw s = Inr s'" and "shell_inv s" and "\<forall>w\<in>set (line_tokens raw). valid_op w"
  shows "pipes_wf s' \<and> dead_flagged s' \<and> (fd_get (k_fds s') 0 \<noteq> None \<longrightarrow> shell_inv s')
    \<and> (\<forall>t\<in>set (num_pipe_vec (count_down raw s)). rest_line t \<noteq> 0 \<longrightarrow> t \<in> set (num_pipe_vec s')
         \<and> fd_get (k_fds s') (np_r t) = fd_get (k_fds s) (np_r t)
         \<and> fd_get (k_fds s') (np_w t) = fd_get (k_fds s) (np_w t))"
proof -
  let ?s0 = "count_down raw s"
  obtain procs out s1 s2 where c: "combine (line_tokens raw) [] 1 ?s0 = Inr (procs, out, s1)"
    and e: "exec_loop sys (length procs) 0 procs 0 out s1 = Inr s2" and s': "s' = s2 \<or> s' = sh_event WaitAll s2"
    using shell_lineE [OF assms(1)] by metis
  have inv: "shell_inv ?s0" using count_down_inv [OF assms(2)] .
  then have p: "parsed ?s0 s1" using combine_parsed [OF c] assms(3) by (simp add: shell_inv_def)
  then obtain new where new: "num_pipe_vec s1 = num_pipe_vec ?s0 @ new" "\<forall>t\<in>set new. 1 \<le> rest_line t"
    by (auto simp: parsed_def)
  have "dead_flagged s1" using inv p new by (fastforce simp: shell_inv_def dead_flagged_def parsed_def)
  then have k: "kept s1 s2 \<and> (fd_get (k_fds s2) 0 \<noteq> None \<longrightarrow> std_ok s2)"
    using exec_loop_kept [OF e] p by (simp add: parsed_def fd_in_ok_def)
  then have fin: "pipes_wf s' \<and> dead_flagged s' \<and> (fd_get (k_fds s') 0 \<noteq> None \<longrightarrow> shell_inv s')"
    using s' builtin_keeps(9-) by (auto simp: kept_def shell_inv_def builtin_core)
  moreover have "t \<in> set (num_pipe_vec s') \<and> fd_get (k_fds s') (np_r t) = fd_get (k_fds s) (np_r t)
         \<and> fd_get (k_fds s') (np_w t) = fd_get (k_fds s) (np_w t)"
    if t: "t \<in> set (num_pipe_vec ?s0)" "rest_line t \<noteq> 0" for t
  proof -
    have "t \<in> set (num_pipe_vec s1)" using t new by simp
    moreover have "fd_get (k_fds s1) (np_r t) = fd_get (k_fds s) (np_r t)"
        "fd_get (k_fds s1) (np_w t) = fd_get (k_fds s) (np_w t)"
      using p pipes_wfD(1) [of ?s0 t] inv t(1) unfolding parsed_def shell_inv_def
      by (metis count_down_core(1) option.distinct(1))+
    ultimately show ?thesis using k t(2) s' by (auto simp: kept_def frame_def builtin_core)
  qed
  ultimately show ?thesis by blast
qed

section \<open>Standard input\<close>

text \<open>
  After a process that is not built in, \<open>fd_in\<close> is a pipe, so nothing closes the shell's
  standard input.
\<close>

lemma exec_loop_std:
  assumes "exec_loop sys n prc procs fd_in out s = Inr s'" and "prc + length procs = n"
    and "pipes_wf s" "std_ok s" "dead_flagged s" "fd_in_ok s fd_in"
    and "n = 1 \<or> fd_in \<noteq> 0 \<or> prc = 0 \<and> procs \<noteq> [] \<and> \<not> is_builtin (hd (hd procs))"
  shows "std_ok s'"
  using assms
proof (induction procs arbitrary: prc fd_in s)
  case Nil
  then show ?case by simp
next
  case (Cons argv procs)
  note IH = Cons.IH [of "prc + 1"]
  from Cons.prems(1) show ?case
  proof (cases rule: exec_loop_ConsE)
    case (env args s1)
    then have "pipes_wf s1 = pipes_wf s" "dead_flagged s1 = dead_flagged s" "std_ok s1 = std_ok s"
      "fd_in_ok s1 fd_in = fd_in_ok s fd_in"
      using builtin_keeps by auto
    then show ?thesis using IH [OF env(4)] Cons.prems env(2) by simp
  next
    case exit
    then show ?thesis using Cons.prems(4) by (simp add: std_ok_def sh_event_def)
  next
    case (last s1)
    have "length procs = 0" using Cons.prems(2) last(4) by (cases n) auto
    moreover have "n = 1 \<or> fd_in \<noteq> 0" using Cons.prems(2,7) last(4) calculation by auto
    ultimately show ?thesis
      using last(3,5) exec_redirect_kept(2) exec_numbered_kept(2) Cons.prems(3-6) by auto
  next
    case (normal fd1 s1)
    have k: "kept s s1 \<and> std_ok s1 \<and> fd_in_ok s1 fd1 \<and> (n \<noteq> 1 \<longrightarrow> fd1 \<noteq> 0)"
      using exec_normal_kept [OF Cons.prems(3-6) normal(3)] by blast
    then show ?thesis using IH [OF normal(4)] Cons.prems(2) by (auto simp: kept_def)
  qed
qed

lemma combine_procs:
  assumes "combine toks procs out s = Inr (procs', out', s')"
  shows "\<exists>more. procs' = procs @ more \<and> (toks = [] \<longleftrightarrow> more = [])
    \<and> (toks \<noteq> [] \<longrightarrow> hd more = takeWhile (\<lambda>w. \<not> is_op w) toks)
    \<and> ((\<forall>w\<in>set toks. \<not> is_op w) \<longrightarrow> length more \<le> 1)"
  using assms
proof (induction toks procs out s rule: combine.induct)
  case (1 toks procs out s)
  let ?words = "takeWhile (\<lambda>w. \<not> is_op w) toks"
  note eq = "1.prems" [unfolded combine.simps [of toks procs out s]]
  show ?case
  proof (cases "dropWhile (\<lambda>w. \<not> is_op w) toks")
    case Nil
    show ?thesis
    proof (cases "toks = []")
      case True
      then have "procs' = procs" using eq by simp
      then show ?thesis using True by simp
    next
      case False
      then have "procs' = procs @ [?words]" using eq Nil by (auto simp: Let_def split: if_splits)
      then show ?thesis using False by simp
    qed
  next
    case (Cons w rest)
    then have toks: "toks \<noteq> []" by auto
    then have ok: "\<not> (9 < length ?words \<or> 5000 \<le> length procs)"
      using eq by (auto simp: Let_def split: if_splits)
    obtain rest1 out1 s1 where op: "parse_op w rest out s = Inr (rest1, out1, s1)"
      and rec: "combine rest1 (procs @ [?words]) out1 s1 = Inr (procs', out', s')"
      using eq toks ok Cons by (auto simp: Let_def split: sum.splits)
    have "is_op w" "w \<in> set toks"
      using dropWhile_hd_not [OF Cons] set_dropWhileD [of w "\<lambda>w. \<not> is_op w" toks] Cons by auto
    moreover obtain more where "procs' = (procs @ [?words]) @ more"
      using "1.IH" [OF toks refl refl ok Cons op refl refl] rec by blast
    ultimately show ?thesis using toks by auto
  qed
qed

text \<open>A line that cannot close the shell's standard input.\<close>

definition keeps_stdin :: "string \<Rightarrow> bool" where
  "keeps_stdin raw \<longleftrightarrow> line_tokens raw = [] \<or> \<not> is_builtin (hd (line_tokens raw))
     \<or> list_all (\<lambda>w. \<not> is_op w) (line_tokens raw)"

definition valid_line :: "string \<Rightarrow> bool" where
  "valid_line raw \<longleftrightarrow> list_all valid_op (line_tokens raw)"

lemma shell_line_inv:
  assumes "shell_line sys raw s = Inr s'" and "shell_inv s" and "valid_line raw" and "keeps_stdin raw"
  shows "shell_inv s'"
proof -
  let ?s0 = "count_down raw s"
  obtain procs out s1 s2 where c: "combine (line_tokens raw) [] 1 ?s0 = Inr (procs, out, s1)"
    and e: "exec_loop sys (length procs) 0 procs 0 out s1 = Inr s2" and s': "s' = s2 \<or> s' = sh_event WaitAll s2"
    using shell_lineE [OF assms(1)] by metis
  have valid: "\<forall>w\<in>set (line_tokens raw). valid_op w" using assms(3) by (simp add: valid_line_def list_all_iff)
  have inv: "shell_inv ?s0" using count_down_inv [OF assms(2)] .
  then have p: "parsed ?s0 s1" using combine_parsed [OF c] valid by (simp add: shell_inv_def)
  then have wf: "pipes_wf s1" "std_ok s1" "dead_flagged s1"
    using inv by (fastforce simp: shell_inv_def dead_flagged_def parsed_def)+
  have "std_ok s2"
  proof (cases "procs = []")
    case True
    then show ?thesis using e wf(2) by simp
  next
    case False
    then have t: "line_tokens raw \<noteq> []" "hd procs = takeWhile (\<lambda>w. \<not> is_op w) (line_tokens raw)"
      "(\<forall>w\<in>set (line_tokens raw). \<not> is_op w) \<longrightarrow> length procs = 1"
      using combine_procs [OF c] by (auto simp: le_Suc_eq)
    have "hd procs \<noteq> []" using e False by (cases procs; cases "hd procs") auto
    then have "\<not> is_builtin (hd (line_tokens raw)) \<longrightarrow> \<not> is_builtin (hd (hd procs))"
      using t(1,2) by (cases "line_tokens raw") (auto split: if_splits)
    then have "length procs = 1 \<or> (0::nat) \<noteq> 0 \<or> (0::nat) = 0 \<and> procs \<noteq> [] \<and> \<not> is_builtin (hd (hd procs))"
      using assms(4) t False by (auto simp: keeps_stdin_def list_all_iff)
    then show ?thesis using exec_loop_std [OF e _ wf, of] by (simp add: fd_in_ok_def)
  qed
  then have "std_ok s'" using s' builtin_keeps by auto
  then show ?thesis using shell_line_kept [OF assms(1,2) valid] by (simp add: shell_inv_def)
qed

end
