(* ===== verification/Shell_P1_Lines.thy ===== *)
theory Shell_P1_Lines
  imports Shell_P1_Pipes
begin

text \<open>
  What one line of the project 1 shell makes its children see: the delivery of numbered pipes,
  the wiring of a pipeline, and the properties of the shell as a whole.
\<close>

section \<open>The log\<close>

lemma exec_log:
  "sh_log (exec_redirect sys n argv fd_in s) = sh_log s @ [Spawn
     \<lparr>ch_argv = argv, ch_fds = redirect_fds sys (cstr (redirection_file_name s)) fd_in (close_0_rest_line_pipe_out s),
      ch_trunc = (if os_open sys (cstr (redirection_file_name s)) then Some (cstr (redirection_file_name s)) else None),
      ch_end = exec_child sys (sh_env s) argv\<rparr>]"
  "sh_log (exec_numbered sys n argv fd_in out s) = sh_log s @ [Spawn
     \<lparr>ch_argv = argv, ch_fds = numbered_fds fd_in out (close_0_rest_line_pipe_out s), ch_trunc = None,
      ch_end = exec_child sys (sh_env s) argv\<rparr>]"
  "sh_log (snd (exec_normal sys 1 prc argv fd_in s)) = sh_log s @ [Spawn
     \<lparr>ch_argv = argv, ch_fds = single_fds (close_0_rest_line_pipe_out s), ch_trunc = None,
      ch_end = exec_child sys (sh_env s) argv\<rparr>]"
  by (auto simp: exec_redirect_def exec_numbered_def exec_normal_def Let_def)

lemma exec_normal_log:
  assumes "n \<noteq> 1" and "sys_pipe s = (p0, p1, s1)"
  shows "sh_log (snd (exec_normal sys n prc argv fd_in s)) = sh_log s @ [Spawn
     \<lparr>ch_argv = argv, ch_fds = pipeline_fds (prc = n - 1) p0 p1 fd_in (close_0_rest_line_pipe_out s1),
      ch_trunc = None, ch_end = exec_child sys (sh_env s) argv\<rparr>]"
  using assms by (auto elim!: sys_pipeE simp: exec_normal_def Let_def)

lemma exec_normal_log_ex:
  "\<exists>e. sh_log (snd (exec_normal sys n prc argv fd_in s)) = sh_log s @ [e]"
proof (cases "n = 1")
  case True
  then show ?thesis using exec_log(3) [of sys prc argv fd_in s] by auto
next
  case False
  then show ?thesis by (cases "sys_pipe s") (auto simp: exec_normal_log)
qed

lemma builtin_log:
  "\<exists>post. sh_log (printenv args s) = sh_log s @ post" "sh_log (setenv_builtin args s) = sh_log s"
  by (auto simp: printenv_def setenv_builtin_def sh_event_def split: list.splits option.splits)

lemma exec_loop_log:
  "exec_loop sys n prc procs fd_in out s = Inr s' \<Longrightarrow> \<exists>post. sh_log s' = sh_log s @ post"
proof (induction procs arbitrary: prc fd_in s)
  case (Cons argv procs)
  from Cons.prems show ?case
  proof (cases rule: exec_loop_ConsE)
    case (env args s1)
    then show ?thesis using Cons.IH [OF env(4)] builtin_log [of args s] by auto
  next
    case (last s1)
    then show ?thesis using Cons.IH [OF last(5)] by (auto simp: exec_log)
  next
    case (normal fd1 s1)
    then have "\<exists>e. sh_log s1 = sh_log s @ [e]" using exec_normal_log_ex [of sys n prc argv fd_in s] by simp
    then show ?thesis using Cons.IH [OF normal(4)] by auto
  qed (simp add: sh_event_def)
qed simp

definition is_create :: "event \<Rightarrow> bool" where
  "is_create e \<longleftrightarrow> (case e of CreateFile f \<Rightarrow> True | _ \<Rightarrow> False)"

lemma parse_op_log:
  assumes "parse_op w rest out s = Inr (rest', out', s')"
  shows "\<exists>pre. sh_log s' = sh_log s @ pre \<and> list_all is_create pre"
proof -
  have n: "number_pipe_out d w s = Inr (out1, s1) \<Longrightarrow> sh_log s1 = sh_log s" for d w s out1 s1
    by (auto elim!: sys_pipeE simp: number_pipe_out_def Let_def split: option.splits prod.splits)
  show ?thesis
    using assms
    by (auto simp: parse_op_def set_redirection_def sh_event_def Let_def is_create_def
        split: if_splits list.splits prod.splits dest!: n)
qed

lemma combine_log:
  assumes "combine toks procs out s = Inr (procs', out', s')"
  shows "\<exists>pre. sh_log s' = sh_log s @ pre \<and> list_all is_create pre"
  using assms
proof (induction toks procs out s rule: combine.induct)
  case (1 toks procs out s)
  note eq = "1.prems" [unfolded combine.simps [of toks procs out s]]
  show ?case
  proof (cases "toks = [] \<or> s' = s")
    case True
    then have "s' = s" using eq by auto
    then show ?thesis by simp
  next
    case False
    then have ok: "\<not> (9 < length (takeWhile (\<lambda>w. \<not> is_op w) toks) \<or> 5000 \<le> length procs)" and toks: "toks \<noteq> []"
      using eq by (auto simp: Let_def split: if_splits)
    then obtain w rest where rest: "dropWhile (\<lambda>w. \<not> is_op w) toks = w # rest"
      using eq False by (cases "dropWhile (\<lambda>w. \<not> is_op w) toks") (auto simp: Let_def)
    then obtain rest1 out1 s1 where op: "parse_op w rest out s = Inr (rest1, out1, s1)"
      and rec: "combine rest1 (procs @ [takeWhile (\<lambda>w. \<not> is_op w) toks]) out1 s1 = Inr (procs', out', s')"
      using eq toks ok by (auto simp: Let_def split: sum.splits)
    obtain pre where "sh_log s' = sh_log s1 @ pre" "list_all is_create pre"
      using "1.IH" [OF toks refl refl ok rest op refl refl] rec by blast
    moreover obtain pre1 where "sh_log s1 = sh_log s @ pre1" "list_all is_create pre1"
      using parse_op_log [OF op] by blast
    ultimately show ?thesis by auto
  qed
qed

section \<open>What a child refers to\<close>

lemma dup_num_refers: "fd.refers (dup_num_pipe_in s t) f \<Longrightarrow> fd.refers t f"
  by (auto simp: dup_num_pipe_in_def split: option.splits dest: fd.refers_dup2)

lemma child_stdin_refers: "fd.refers (child_stdin fd_in s t) f \<Longrightarrow> fd.refers t f"
  by (auto simp: child_stdin_def split: if_splits dest: fd.refers_dup2 dup_num_refers)

lemma child_refers:
  "fd.refers (numbered_fds fd_in out s) f \<Longrightarrow> fd.refers (k_fds s) f"
  "fd.refers (pipeline_fds l p0 p1 fd_in s) f \<Longrightarrow> fd.refers (k_fds s) f"
  "fd.refers (single_fds s) f \<Longrightarrow> fd.refers (k_fds s) f"
  "fd.refers (redirect_fds sys name fd_in s) f \<Longrightarrow> f = Opened name \<or> fd.refers (k_fds s) f"
proof -
  show "fd.refers (numbered_fds fd_in out s) f \<Longrightarrow> fd.refers (k_fds s) f"
    by (auto simp: numbered_fds_def Let_def split: if_splits dest!: fd.refers_dup2 child_stdin_refers)
  have c: "fd.refers (sys_close p t) f \<Longrightarrow> fd.refers t f" for p t by (auto simp: fd.refers_def split: if_splits)
  show "fd.refers (pipeline_fds l p0 p1 fd_in s) f \<Longrightarrow> fd.refers (k_fds s) f"
    by (auto simp: pipeline_fds_def Let_def split: if_splits dest!: fd.refers_dup2 c dup_num_refers)
  show "fd.refers (single_fds s) f \<Longrightarrow> fd.refers (k_fds s) f"
    by (auto simp: single_fds_def split: if_splits dest: dup_num_refers)
  have a: "fd_alloc g t = (fd, t') \<Longrightarrow> fd.refers t' f \<Longrightarrow> f = g \<or> fd.refers t f" for g t fd t'
    using fd.refers_alloc [of g t f] by simp
  show "fd.refers (redirect_fds sys name fd_in s) f \<Longrightarrow> f = Opened name \<or> fd.refers (k_fds s) f"
    by (auto simp: redirect_fds_def Let_def split: if_splits prod.splits
        dest!: fd.refers_dup2 child_stdin_refers a)
qed

text \<open>The input of a child that is to read a numbered pipe.\<close>

lemma dup_num_stdin:
  assumes "distinct (map rest_line (num_pipe_vec s))" and "t \<in> set (num_pipe_vec s)" and "rest_line t = 0"
    and "fd_get tbl (np_r t) = Some f"
  shows "fd_get (dup_num_pipe_in s tbl) 0 = Some f"
proof -
  obtain u where u: "List.find (\<lambda>t. rest_line t = 0) (num_pipe_vec s) = Some u"
    using assms(2,3) by (cases "List.find (\<lambda>t. rest_line t = 0) (num_pipe_vec s)") (auto simp: find_None_iff)
  then have "u \<in> set (num_pipe_vec s)" "rest_line u = 0" by (auto simp: find_Some_iff)
  then have "u = t" using assms(1-3) by (simp add: distinct_map inj_on_def)
  then show ?thesis using u assms(4) by (simp add: dup_num_pipe_in_def)
qed

section \<open>Delivery of a numbered pipe\<close>

definition reads_only :: "nat \<Rightarrow> fdtable \<Rightarrow> bool" where
  "reads_only i tbl \<longleftrightarrow> fd_get tbl 0 = Some (PipeR i) \<and> \<not> fd.refers tbl (PipeW i)"

lemma child_reads_only:
  assumes "distinct (map rest_line (num_pipe_vec s))" and "t \<in> set (num_pipe_vec s)" and "rest_line t = 0"
    and "num_pipe_in_flag s" and "fd_get (k_fds s) (np_r t) = Some (PipeR i)" and "\<not> fd.refers (k_fds s) (PipeW i)"
  shows "reads_only i (numbered_fds fd_in out s)" and "reads_only i (redirect_fds sys name fd_in s)"
    and "reads_only i (single_fds s)" and "p0 \<noteq> 0 \<Longrightarrow> reads_only i (pipeline_fds l p0 p1 fd_in s)"
proof -
  have 0: "fd_get (dup_num_pipe_in s tbl) 0 = Some (PipeR i)" if "fd_get tbl (np_r t) = Some (PipeR i)" for tbl
    using dup_num_stdin [OF assms(1-3) that] .
  show "reads_only i (numbered_fds fd_in out s)"
    using 0 [OF assms(5)] assms(4,6) child_refers(1)
    by (auto simp: reads_only_def numbered_fds_def child_stdin_def Let_def)
  show "reads_only i (single_fds s)"
    using 0 [OF assms(5)] assms(4,6) child_refers(3) by (auto simp: reads_only_def single_fds_def)
  show "reads_only i (pipeline_fds l p0 p1 fd_in s)" if "p0 \<noteq> 0"
    using 0 [OF assms(5)] assms(4,6) child_refers(2) [of l p0 p1 fd_in s "PipeW i"] that
    by (auto simp: reads_only_def pipeline_fds_def Let_def)
  obtain fd tbl where alloc: "fd_alloc (Opened name) (k_fds s) = (fd, tbl)"
    by (cases "fd_alloc (Opened name) (k_fds s)")
  then have "fd_get tbl (np_r t) = Some (PipeR i)"
    using fd.get_alloc [of "Opened name" "k_fds s" "np_r t"] assms(5)
      fd.alloc_fresh [of "k_fds s" "np_r t" "Opened name"] by auto
  then show "reads_only i (redirect_fds sys name fd_in s)"
    using 0 assms(4-6) child_refers(4) [of sys name fd_in s "PipeW i"] alloc
    by (auto simp: reads_only_def redirect_fds_def child_stdin_def Let_def)
qed

lemma first_child_reads:
  assumes "exec_loop sys n 0 (argv # procs) 0 out s = Inr s'" and "\<not> is_builtin (hd argv)"
    and "n = Suc (length procs)" and inv: "pipes_wf s" "std_ok s" "dead_flagged s"
    and t: "t \<in> set (num_pipe_vec s)" "rest_line t = 0"
    and i: "fd_get (k_fds s) (np_r t) = Some (PipeR i)" "fd_get (k_fds s) (np_w t) = Some (PipeW i)"
  shows "\<exists>ch post. sh_log s' = sh_log s @ Spawn ch # post \<and> ch_argv ch = argv \<and> reads_only i (ch_fds ch)
    \<and> t \<notin> set (num_pipe_vec s') \<and> \<not> fd.refers (k_fds s') (PipeW i)"
proof -
  let ?s = "close_0_rest_line_pipe_out s"
  note D = pipes_wfD [OF inv(1)]
  have flag: "num_pipe_in_flag s" using inv(3) t by (auto simp: dead_flagged_def)
  have distinct: "distinct (map rest_line (num_pipe_vec s))" using inv(1) by (simp add: pipes_wf_def)
  have dead: "dead_w s (np_w t)" "\<not> dead_w s (np_r t)" using t D(1) i(1) by (fastforce simp: dead_w_def)+
  have gone: "\<not> fd.refers (k_fds ?s) (PipeW i)"
    using D(3) [OF i(2)] dead(1) by (auto simp: fd.refers_def)
  have read: "fd_get (k_fds ?s) (np_r t) = Some (PipeR i)" using dead(2) i(1) by simp
  have child: "reads_only i (numbered_fds 0 out ?s)" "reads_only i (redirect_fds sys name 0 ?s)" "reads_only i (single_fds ?s)"
    for name by (rule child_reads_only [of ?s t]; use distinct t flag read gone in simp)+
  have fin: "t \<notin> set (num_pipe_vec s') \<and> \<not> fd.refers (k_fds s') (PipeW i)"
    if h: "frame s1 s'" "num_pipe_vec s1 = filter (\<lambda>t. rest_line t \<noteq> 0) (num_pipe_vec s)"
      "fd_get (k_fds s1) (np_w t) = None" "no_new_writer s s1" for s1
  proof
    show "t \<notin> set (num_pipe_vec s')" using h(1,2) t(2) by (auto simp: frame_def)
    show "\<not> fd.refers (k_fds s') (PipeW i)"
    proof
      assume "fd.refers (k_fds s') (PipeW i)"
      then obtain g where "fd_get (k_fds s') g = Some (PipeW i)" by (auto simp: fd.refers_def)
      then have g1: "fd_get (k_fds s1) g = Some (PipeW i)" using h(1) by (simp add: frame_def no_new_writer_def)
      then have "fd_get (k_fds s) g = Some (PipeW i)" using h(4) by (simp add: no_new_writer_def)
      then have "g = np_w t" using D(3) [OF i(2)] by simp
      then show False using g1 h(3) by simp
    qed
  qed
  from assms(1) show ?thesis
  proof (cases rule: exec_loop_ConsE)
    case (last s1)
    then have "procs = []" "s' = s1" using assms(3) by (cases procs; simp)+
    moreover have "kept s s1"
      using last(3) exec_redirect_kept(1) exec_numbered_kept(1) inv by (auto simp: fd_in_ok_def)
    moreover have "num_pipe_vec s1 = filter (\<lambda>t. rest_line t \<noteq> 0) (num_pipe_vec s)" "fd_get (k_fds s1) (np_w t) = None"
      using last(3) flag dead by (auto simp: exec_redirect_parent exec_numbered_parent)
    moreover have "\<exists>ch. sh_log s1 = sh_log s @ [Spawn ch] \<and> ch_argv ch = argv \<and> reads_only i (ch_fds ch)"
      using last(3) child by (auto simp: exec_log)
    moreover have "no_new_writer s s1" using calculation(3) by (simp add: kept_def frame_def)
    ultimately show ?thesis using fin [of s1] frame_refl by auto
  next
    case (normal fd1 s1)
    have s1: "s1 = snd (exec_normal sys n 0 argv 0 s)" using normal(3) by simp
    have k: "kept s s1 \<and> std_ok s1 \<and> fd_in_ok s1 fd1" using exec_normal_kept [OF inv _ normal(3)] by (simp add: fd_in_ok_def)
    have loop: "kept s1 s'"
      using exec_loop_kept [OF normal(4)] assms(3) k by (simp add: kept_def)
    have "num_pipe_vec s1 = filter (\<lambda>t. rest_line t \<noteq> 0) (num_pipe_vec s) \<and> fd_get (k_fds s1) (np_w t) = None
      \<and> (\<exists>ch. sh_log s1 = sh_log s @ [Spawn ch] \<and> ch_argv ch = argv \<and> reads_only i (ch_fds ch))"
    proof (cases "n = 1")
      case True
      then show ?thesis using s1 flag dead(1) child(3) exec_log(3) [of sys 0 argv 0 s] exec_normal_single [of sys 0 argv 0 s]
        by simp
    next
      case False
      obtain p0 p1 s2 where p: "sys_pipe s = (p0, p1, s2)" by (cases "sys_pipe s")
      obtain tbl where s2: "s2 = s\<lparr>k_fds := tbl, k_next := Suc (k_next s)\<rparr>" and new: "fd_get (k_fds s) p0 = None" "fd_get (k_fds s) p1 = None"
        and tbl: "\<And>g. fd_get tbl g = (if g = p1 then Some (PipeW (k_next s))
                   else if g = p0 then Some (PipeR (k_next s)) else fd_get (k_fds s) g)"
        using p by (rule sys_pipeE) blast
      have "i < k_next s" using D(2) i(1) by blast
      then have "\<not> fd.refers (k_fds (close_0_rest_line_pipe_out s2)) (PipeW i)"
        using D(3) [OF i(2)] dead(1) by (auto simp: fd.refers_def s2 tbl split: if_splits)
      moreover have "fd_get (k_fds (close_0_rest_line_pipe_out s2)) (np_r t) = Some (PipeR i)"
        using dead(2) i(1) new by (auto simp: s2 tbl)
      moreover have "p0 \<noteq> 0" using fresh_fd(1) [OF inv(1,2) new(1)] by simp
      ultimately have "reads_only i (pipeline_fds (0 = n - 1) p0 p1 0 (close_0_rest_line_pipe_out s2))"
        by (intro child_reads_only(4) [of _ t]) (use distinct t flag in \<open>simp_all add: s2\<close>)
      then show ?thesis
        using s1 flag dead(1) exec_normal_log [OF False p, of sys 0 argv 0] exec_normal_pipe [OF False p, of sys 0 argv 0]
        by simp
    qed
    then obtain ch where ch: "num_pipe_vec s1 = filter (\<lambda>t. rest_line t \<noteq> 0) (num_pipe_vec s)"
        "fd_get (k_fds s1) (np_w t) = None" "sh_log s1 = sh_log s @ [Spawn ch]" "ch_argv ch = argv" "reads_only i (ch_fds ch)"
      by blast
    obtain post where "sh_log s' = sh_log s1 @ post" using exec_loop_log [OF normal(4)] by blast
    moreover have "frame s1 s'" "no_new_writer s s1" using loop k by (simp_all add: kept_def frame_def)
    ultimately show ?thesis using fin [OF _ ch(1,2)] ch(3-5) by auto
  qed (use assms(2) in simp_all)
qed

section \<open>Pipelines\<close>

text \<open>
  The children of a pipeline whose first input is \<open>fin\<close> and whose pipes are numbered from \<open>k\<close>:
  each but the last writes to its own pipe, which the next one reads and no later child can
  write to.
\<close>

fun wired :: "ofile \<Rightarrow> ofile \<Rightarrow> nat \<Rightarrow> string list list \<Rightarrow> child list \<Rightarrow> bool" where
  "wired fin fout k [] [] \<longleftrightarrow> True"
| "wired fin fout k [argv] [ch] \<longleftrightarrow>
     ch_argv ch = argv \<and> fd_get (ch_fds ch) 0 = Some fin \<and> fd_get (ch_fds ch) 1 = Some fout
     \<and> (\<forall>j<k. \<not> fd.refers (ch_fds ch) (PipeW j))"
| "wired fin fout k (argv # argv' # procs) (ch # chs) \<longleftrightarrow>
     ch_argv ch = argv \<and> fd_get (ch_fds ch) 0 = Some fin \<and> fd_get (ch_fds ch) 1 = Some (PipeW k)
     \<and> (\<forall>j<k. \<not> fd.refers (ch_fds ch) (PipeW j))
     \<and> wired (PipeR k) fout (Suc k) (argv' # procs) chs"
| "wired fin fout k procs chs \<longleftrightarrow> False"

text \<open>A shell with no numbered pipes and no flags left over.\<close>

definition plain :: "npshell \<Rightarrow> bool" where
  "plain s \<longleftrightarrow> num_pipe_vec s = [] \<and> \<not> num_pipe_in_flag s \<and> \<not> num_pipe_out_flag s
     \<and> \<not> shock_pipe_out_flag s \<and> \<not> write_file_flag s"

text \<open>The standard files, and no writer: what holds between the processes of a pipeline.\<close>

definition between :: "npshell \<Rightarrow> bool" where
  "between s \<longleftrightarrow> plain s \<and> (\<forall>g<3. fd_get (k_fds s) g = Some (Inherited g))
     \<and> (\<forall>j. \<not> fd.refers (k_fds s) (PipeW j))"

lemma close_out_plain:
  assumes "num_pipe_vec s = []"
  shows "close_0_rest_line_pipe_out s = s" and "\<not> num_pipe_in_flag s \<Longrightarrow> drop_dead_pipes s = s"
  using assms by (simp_all add: close_0_rest_line_pipe_out_def drop_dead_pipes_def)

text \<open>One process of a pipeline of \<open>n\<close>, given the file at \<open>fd_in\<close>.\<close>

lemma pipeline_step:
  assumes "between s" and "n \<noteq> 1" and "fd_get (k_fds s) fd_in = Some fin"
    and "exec_normal sys n prc argv fd_in s = (fd1, s1)"
  shows "between s1" and "k_next s1 = Suc (k_next s)"
    and "\<exists>ch. sh_log s1 = sh_log s @ [Spawn ch] \<and> ch_argv ch = argv \<and> fd_get (ch_fds ch) 0 = Some fin
      \<and> fd_get (ch_fds ch) 1 = Some (if prc = n - 1 then Inherited 1 else PipeW (k_next s))
      \<and> (\<forall>j<k_next s. \<not> fd.refers (ch_fds ch) (PipeW j))"
    and "prc \<noteq> n - 1 \<Longrightarrow> fd_get (k_fds s1) fd1 = Some (PipeR (k_next s))"
    and "\<And>i. (\<exists>g>2. fd_get (k_fds s) g = Some (PipeR i)) \<or> prc \<noteq> n - 1 \<and> i = k_next s
      \<Longrightarrow> \<exists>g>2. fd_get (k_fds s1) g = Some (PipeR i)"
proof -
  obtain p0 p1 s0 where p: "sys_pipe s = (p0, p1, s0)" by (cases "sys_pipe s")
  obtain tbl where s0: "s0 = s\<lparr>k_fds := tbl, k_next := Suc (k_next s)\<rparr>" and "p0 \<noteq> p1"
    and new: "fd_get (k_fds s) p0 = None" "fd_get (k_fds s) p1 = None"
    and tbl: "\<And>g. fd_get tbl g = (if g = p1 then Some (PipeW (k_next s))
               else if g = p0 then Some (PipeR (k_next s)) else fd_get (k_fds s) g)"
    using p by (rule sys_pipeE) blast
  have pl: "num_pipe_vec s = []" "\<not> num_pipe_in_flag s" using assms(1) by (simp_all add: between_def plain_def)
  have std: "fd_get (k_fds s) g = Some (Inherited g)" if "g < 3" for g using assms(1) that by (simp add: between_def)
  have big: "2 < p0" "2 < p1" using new std [of p0] std [of p1] by (cases "p0 < 3"; cases "p1 < 3"; simp)+
  have co: "close_0_rest_line_pipe_out s0 = s0" using pl by (intro close_out_plain) (simp add: s0)
  have out: "fd1 = fst (exec_normal sys n prc argv fd_in s)" "s1 = snd (exec_normal sys n prc argv fd_in s)"
    using assms(4) by simp_all
  note par = exec_normal_pipe [OF assms(2) p, of sys prc argv fd_in, folded out]
  have dead: "\<not> dead_w s g" "\<not> dead_r s g" for g using pl by (simp_all add: dead_w_def dead_r_def)
  have flags: "num_pipe_out_flag s1 = num_pipe_out_flag s" "shock_pipe_out_flag s1 = shock_pipe_out_flag s"
    "write_file_flag s1 = write_file_flag s"
    unfolding out using assms(2) by (auto simp: exec_normal_def p Let_def s0)
  have nw: "\<not> fd.refers (k_fds s) (PipeW j)" for j using assms(1) by (simp add: between_def)
  have "\<not> fd.refers (k_fds s1) (PipeW j)" for j
    using nw [of j] by (auto simp: fd.refers_def par(2) dead pl split: if_splits)
  moreover have "fd_get (k_fds s1) g = Some (Inherited g)" if "g < 3" for g
    using std [OF that] big that by (auto simp: par(2) dead pl)
  ultimately show "between s1"
    using assms(1) par(4,5) pl flags by (simp add: between_def plain_def)
  show "k_next s1 = Suc (k_next s)" using par(3) .
  let ?t = "pipeline_fds (prc = n - 1) p0 p1 fd_in s0"
  have "fd_in \<noteq> p0" "fd_in \<noteq> p1" using assms(3) new by auto
  then have "fd_get ?t 0 = Some fin" "fd_get ?t 1 = Some (if prc = n - 1 then Inherited 1 else PipeW (k_next s))"
    using assms(3) big std [of 1] \<open>p0 \<noteq> p1\<close> pl by (auto simp: pipeline_fds_def Let_def s0 tbl)
  moreover have "\<forall>j<k_next s. \<not> fd.refers ?t (PipeW j)"
  proof (intro allI impI notI)
    fix j assume j: "j < k_next s" "fd.refers ?t (PipeW j)"
    then have "fd.refers tbl (PipeW j)" using child_refers(2) [OF j(2)] by (simp add: s0)
    then show False using j(1) nw [of j] by (auto simp: fd.refers_def tbl split: if_splits)
  qed
  ultimately show "\<exists>ch. sh_log s1 = sh_log s @ [Spawn ch] \<and> ch_argv ch = argv \<and> fd_get (ch_fds ch) 0 = Some fin
      \<and> fd_get (ch_fds ch) 1 = Some (if prc = n - 1 then Inherited 1 else PipeW (k_next s))
      \<and> (\<forall>j<k_next s. \<not> fd.refers (ch_fds ch) (PipeW j))"
    unfolding out exec_normal_log [OF assms(2) p] co by auto
  show "prc \<noteq> n - 1 \<Longrightarrow> fd_get (k_fds s1) fd1 = Some (PipeR (k_next s))"
    using par(1) \<open>p0 \<noteq> p1\<close> by (simp add: par(2) dead pl)
  show "\<exists>g>2. fd_get (k_fds s1) g = Some (PipeR i)"
    if "(\<exists>g>2. fd_get (k_fds s) g = Some (PipeR i)) \<or> prc \<noteq> n - 1 \<and> i = k_next s" for i
    using that
  proof (elim disjE exE conjE)
    fix g assume "2 < g" "fd_get (k_fds s) g = Some (PipeR i)"
    moreover from this have "g \<noteq> p0" "g \<noteq> p1" using new by auto
    ultimately have "fd_get (k_fds s1) g = Some (PipeR i)" by (simp add: par(2) dead pl)
    then show ?thesis using \<open>2 < g\<close> by blast
  next
    assume "prc \<noteq> n - 1" "i = k_next s"
    then have "fd_get (k_fds s1) p0 = Some (PipeR i)" using \<open>p0 \<noteq> p1\<close> by (simp add: par(2) dead pl)
    then show ?thesis using big by blast
  qed
qed

lemma exec_normal_fields:
  "sh_exited (snd (exec_normal sys n prc argv fd_in s)) = sh_exited s"
  "line_end_with_pipe (snd (exec_normal sys n prc argv fd_in s)) = line_end_with_pipe s"
proof -
  obtain p0 p1 s1 where p: "sys_pipe s = (p0, p1, s1)" by (cases "sys_pipe s")
  then obtain t where "s1 = s\<lparr>k_fds := t, k_next := Suc (k_next s)\<rparr>" by (rule sys_pipeE)
  with p show "sh_exited (snd (exec_normal sys n prc argv fd_in s)) = sh_exited s"
    "line_end_with_pipe (snd (exec_normal sys n prc argv fd_in s)) = line_end_with_pipe s"
    by (simp_all add: exec_normal_def Let_def)
qed

definition external :: "string list \<Rightarrow> bool" where
  "external argv \<longleftrightarrow> argv \<noteq> [] \<and> \<not> is_builtin (hd argv)"

lemma pipeline_loop:
  assumes "prc + length procs = n" "n \<noteq> 1" "procs \<noteq> []" "\<forall>p\<in>set procs. external p"
    and "between s" "fd_get (k_fds s) fd_in = Some fin"
  shows "\<exists>s' chs. exec_loop sys n prc procs fd_in out s = Inr s'
    \<and> sh_log s' = sh_log s @ map Spawn chs \<and> wired fin (Inherited 1) (k_next s) procs chs \<and> between s'
    \<and> sh_exited s' = sh_exited s \<and> line_end_with_pipe s' = line_end_with_pipe s
    \<and> (\<forall>i. (\<exists>g>2. fd_get (k_fds s) g = Some (PipeR i)) \<or> k_next s \<le> i \<and> Suc i < k_next s + length procs
          \<longrightarrow> (\<exists>g>2. fd_get (k_fds s') g = Some (PipeR i)))"
  using assms
proof (induction procs arbitrary: prc fd_in s fin)
  case (Cons argv procs)
  obtain fd1 s1 where n: "exec_normal sys n prc argv fd_in s = (fd1, s1)"
    by (cases "exec_normal sys n prc argv fd_in s")
  note st = pipeline_step [OF Cons.prems(5,2,6) n]
  obtain c args where argv: "argv = c # args" "\<not> is_builtin c"
    using Cons.prems(4) by (cases argv) (auto simp: external_def)
  have step: "exec_loop sys n prc (argv # procs) fd_in out s = exec_loop sys n (prc + 1) procs fd1 out s1"
    using argv n Cons.prems(5) by (simp add: is_builtin_def between_def plain_def)
  have same: "sh_exited s1 = sh_exited s \<and> line_end_with_pipe s1 = line_end_with_pipe s"
    using exec_normal_fields [of sys n prc argv fd_in s] n by simp
  obtain ch where ch: "sh_log s1 = sh_log s @ [Spawn ch]" "ch_argv ch = argv" "fd_get (ch_fds ch) 0 = Some fin"
    "fd_get (ch_fds ch) 1 = Some (if prc = n - 1 then Inherited 1 else PipeW (k_next s))"
    "\<forall>j<k_next s. \<not> fd.refers (ch_fds ch) (PipeW j)"
    using st(3) by blast
  show ?case
  proof (cases procs)
    case Nil
    then have "prc = n - 1" using Cons.prems(1) by simp
    then show ?thesis
      using Nil step ch st(1,5) same by (intro exI [of _ s1] exI [of _ "[ch]"]) auto
  next
    case (Cons argv' procs')
    then have last: "prc \<noteq> n - 1" using Cons.prems(1) by simp
    have "prc + 1 + length procs = n" "procs \<noteq> []" "\<forall>p\<in>set procs. external p"
      using Cons.prems(1,4) Cons by simp_all
    from Cons.IH [OF this(1) Cons.prems(2) this(2,3) st(1) st(4) [OF last]]
    obtain s' chs where IH: "exec_loop sys n (prc + 1) procs fd1 out s1 = Inr s'"
      "sh_log s' = sh_log s1 @ map Spawn chs" "wired (PipeR (k_next s)) (Inherited 1) (Suc (k_next s)) procs chs"
      "between s'" "sh_exited s' = sh_exited s1" "line_end_with_pipe s' = line_end_with_pipe s1"
      "\<forall>i. (\<exists>g>2. fd_get (k_fds s1) g = Some (PipeR i)) \<or> Suc (k_next s) \<le> i \<and> Suc i < Suc (k_next s) + length procs
          \<longrightarrow> (\<exists>g>2. fd_get (k_fds s') g = Some (PipeR i))"
      unfolding st(2) by blast
    have "\<exists>g>2. fd_get (k_fds s') g = Some (PipeR i)"
      if h: "(\<exists>g>2. fd_get (k_fds s) g = Some (PipeR i)) \<or> k_next s \<le> i \<and> Suc i < k_next s + length (argv # procs)" for i
      using h IH(7) [rule_format, of i] st(5) [of i] last by (cases "i = k_next s") auto
    moreover have "sh_log s' = sh_log s @ map Spawn (ch # chs)" using IH(2) ch(1) by simp
    moreover have "wired fin (Inherited 1) (k_next s) (argv # procs) (ch # chs)"
      using IH(3) ch last Cons by simp
    ultimately show ?thesis using step IH(1,4,5,6) same by (intro exI [of _ s'] exI [of _ "ch # chs"]) simp
  qed
qed simp

text \<open>The words of a pipeline.\<close>

fun pipe_words :: "string list list \<Rightarrow> string list" where
  "pipe_words [] = []"
| "pipe_words [c] = c"
| "pipe_words (c # d # cs) = c @ ''|'' # pipe_words (d # cs)"

definition wf_command :: "string list \<Rightarrow> bool" where
  "wf_command c \<longleftrightarrow> external c \<and> length c \<le> 9 \<and> list_all (\<lambda>w. \<not> is_op w) c"

lemma combine_pipe_words:
  assumes "\<forall>c\<in>set cmds. wf_command c" and "length procs + length cmds \<le> 5000"
  shows "combine (pipe_words cmds) procs out s = Inr (procs @ cmds, out, s)"
  using assms
proof (induction cmds arbitrary: procs rule: pipe_words.induct)
  case 1
  then show ?case by (simp add: combine.simps)
next
  case (2 c)
  then show ?case
    by (simp add: combine.simps [of c] wf_command_def external_def list_all_iff takeWhile_all dropWhile_all)
next
  case (3 c d cs)
  have op: "is_op ''|''" by (simp add: is_op_def)
  have c: "takeWhile (\<lambda>w. \<not> is_op w) (c @ ''|'' # pipe_words (d # cs)) = c"
    "dropWhile (\<lambda>w. \<not> is_op w) (c @ ''|'' # pipe_words (d # cs)) = ''|'' # pipe_words (d # cs)"
    using "3.prems"(1) op by (auto simp: wf_command_def list_all_iff)
  show ?case
    using 3 c unfolding pipe_words.simps
    by (subst combine.simps) (simp add: parse_op_def wf_command_def)
qed

section \<open>The words of the processes\<close>

lemma combine_rows:
  assumes "combine toks procs out s = Inr (procs', out', s')" and "length procs \<le> 5000"
    and "\<forall>p\<in>set procs. length p \<le> 9 \<and> (\<forall>w\<in>set p. w \<in> W \<and> \<not> is_op w)" and "set toks \<subseteq> W"
  shows "length procs' \<le> 5000 \<and> (\<forall>p\<in>set procs'. length p \<le> 9 \<and> (\<forall>w\<in>set p. w \<in> W \<and> \<not> is_op w))"
  using assms
proof (induction toks procs out s rule: combine.induct)
  case (1 toks procs out s)
  let ?ws = "takeWhile (\<lambda>w. \<not> is_op w) toks"
  note eq = "1.prems"(1) [unfolded combine.simps [of toks procs out s]]
  have ws: "\<forall>w\<in>set ?ws. w \<in> W \<and> \<not> is_op w"
    using "1.prems"(4) by (auto dest: set_takeWhileD)
  show ?case
  proof (cases "toks = []")
    case True
    then show ?thesis using eq "1.prems" by simp
  next
    case toks: False
    then have ok: "\<not> (9 < length ?ws \<or> 5000 \<le> length procs)"
      using eq by (auto simp: Let_def split: if_splits)
    show ?thesis
    proof (cases "dropWhile (\<lambda>w. \<not> is_op w) toks")
      case Nil
      have "procs' = procs @ [?ws]"
        using eq by (simp add: Let_def toks ok Nil del: dropWhile_eq_Nil_conv)
      then show ?thesis using ok ws "1.prems"(3) by auto
    next
      case (Cons w rest)
      then obtain rest1 out1 s1 where op: "parse_op w rest out s = Inr (rest1, out1, s1)"
        and rec: "combine rest1 (procs @ [?ws]) out1 s1 = Inr (procs', out', s')"
        using eq toks ok by (auto simp: Let_def split: sum.splits)
      have "set rest \<subseteq> W"
        using "1.prems"(4) Cons by (metis insert_subset list.simps(15) set_dropWhileD subset_code(1))
      moreover have "set rest1 \<subseteq> set rest"
        using op by (auto simp: parse_op_def split: if_splits list.splits prod.splits)
      ultimately have sub: "set rest1 \<subseteq> W" by blast
      have pre: "length (procs @ [?ws]) \<le> 5000"
        "\<forall>p\<in>set (procs @ [?ws]). length p \<le> 9 \<and> (\<forall>w\<in>set p. w \<in> W \<and> \<not> is_op w)"
        using ok ws "1.prems"(3) by auto
      show ?thesis by (rule "1.IH" [OF toks refl refl ok Cons op refl refl rec pre sub])
    qed
  qed
qed

lemma combine_grows: "combine toks procs out s = Inr (procs', out', s') \<Longrightarrow> toks \<noteq> [] \<Longrightarrow> length procs < length procs'"
proof (induction toks procs out s arbitrary: procs' out' s' rule: combine.induct)
  case (1 toks procs out s)
  let ?ws = "takeWhile (\<lambda>w. \<not> is_op w) toks"
  note eq = "1.prems"(1) [unfolded combine.simps [of toks procs out s]]
  have ok: "\<not> (9 < length ?ws \<or> 5000 \<le> length procs)"
    using eq "1.prems"(2) by (auto simp: Let_def split: if_splits)
  show ?case
  proof (cases "dropWhile (\<lambda>w. \<not> is_op w) toks")
    case Nil
    then show ?thesis using eq "1.prems"(2) ok by (auto simp: Let_def simp del: dropWhile_eq_Nil_conv)
  next
    case (Cons w rest)
    then obtain rest1 out1 s1 where op: "parse_op w rest out s = Inr (rest1, out1, s1)"
      and rec: "combine rest1 (procs @ [?ws]) out1 s1 = Inr (procs', out', s')"
      using eq "1.prems"(2) ok by (auto simp: Let_def split: sum.splits)
    show ?thesis
    proof (cases "rest1 = []")
      case True
      then show ?thesis using rec by (auto simp: combine.simps [of "[]"])
    next
      case False
      then show ?thesis using "1.IH" [OF "1.prems"(2) refl refl ok Cons op refl refl rec] by simp
    qed
  qed
qed

end
