(* ===== verification/Shell_P1_Claims.thy ===== *)
theory Shell_P1_Claims
  imports Shell_P1_Lines
begin

text \<open>
  The properties of the project 1 shell, over whole lines and whole sessions, with the states
  they are tried on.
\<close>

section \<open>A concrete shell\<close>

definition demo_os :: os where
  "demo_os = \<lparr>os_exec = (\<lambda>e argv. True), os_access = (\<lambda>f. False), os_open = (\<lambda>f. True)\<rparr>"

definition demo_shell :: npshell where
  "demo_shell = npshell_init [Some (Inherited 0), Some (Inherited 1), Some (Inherited 2)] 0 Map.empty
     (replicate 100 NUL)"

lemma demo_fds: "fd_get (k_fds demo_shell) g = (if g < 3 then Some (Inherited g) else None)"
  by (auto simp: demo_shell_def npshell_init_def fd_get_def less_Suc_eq numeral_3_eq_3 nth_Cons')

lemma demo_shell_sel [simp]:
  "num_pipe_vec demo_shell = []" "k_next demo_shell = 0" "sh_log demo_shell = []"
  "\<not> num_pipe_in_flag demo_shell" "\<not> num_pipe_out_flag demo_shell" "\<not> shock_pipe_out_flag demo_shell"
  "\<not> write_file_flag demo_shell" "\<not> sh_exited demo_shell" "\<not> line_end_with_pipe demo_shell"
  "redirection_file_name demo_shell = replicate 100 NUL"
  by (simp_all add: demo_shell_def npshell_init_def)

lemma demo_shell_inv: "shell_inv demo_shell"
  by (simp add: shell_inv_def pipes_wf_def std_ok_def dead_flagged_def demo_fds split: if_splits)

lemma demo_shell_between: "between demo_shell"
  by (simp add: between_def plain_def demo_fds fd.refers_def)

section \<open>Pipelines\<close>

text \<open>
  C1.  A pipeline is wired: for two or more commands joined by \<^verbatim>\<open>|\<close>, the shell starts exactly one
  child per command, in order, the first reading the shell's input, each further one reading the
  pipe its predecessor writes, the last writing to the shell's output; no child can write to a
  pipe that an earlier one feeds, and the shell keeps no write end, so every reader sees the end
  of its input.  Then the shell waits.
\<close>

theorem pipeline_wired:
  assumes "line_tokens raw = pipe_words cmds" and "cstr raw \<noteq> []"
    and "2 \<le> length cmds" and "length cmds \<le> 5000" and "\<forall>c\<in>set cmds. wf_command c"
    and "between s" and "\<not> sh_exited s"
  shows "\<exists>s' chs. shell_line sys raw s = Inr s' \<and> between s'
    \<and> sh_log s' = sh_log s @ Prompt # map Spawn chs @ [WaitAll]
    \<and> wired (Inherited 0) (Inherited 1) (k_next s) cmds chs"
proof -
  let ?s = "sh_event Prompt (s\<lparr>line_end_with_pipe := False\<rparr>)"
  have b: "between ?s" using assms(6) by (simp add: between_def plain_def sh_event_def)
  have ext: "\<forall>c\<in>set cmds. external c" using assms(5) by (simp add: wf_command_def)
  have "fd_get (k_fds ?s) 0 = Some (Inherited 0)" using b by (simp add: between_def)
  then obtain s' chs where run: "exec_loop sys (length cmds) 0 cmds 0 1 ?s = Inr s'"
    "sh_log s' = sh_log ?s @ map Spawn chs" "wired (Inherited 0) (Inherited 1) (k_next ?s) cmds chs"
    "between s'" "sh_exited s' = sh_exited ?s" "line_end_with_pipe s' = line_end_with_pipe ?s"
    using pipeline_loop [of 0 cmds "length cmds" ?s 0 "Inherited 0" sys 1] assms(3) ext b by force
  have "num_pipe_vec s = []" using assms(6) by (simp add: between_def plain_def)
  then have "shell_line sys raw s = Inr (sh_event WaitAll s')"
    using combine_pipe_words [OF assms(5), of "[]"] run assms(1,2,4,7)
    by (simp add: shell_line_def Let_def line_tokens_def [symmetric] sh_event_def)
  then show ?thesis
    using run by (intro exI [of _ "sh_event WaitAll s'"] exI [of _ chs])
      (auto simp: between_def plain_def sh_event_def)
qed

theorem pipeline_wired_witness:
  "\<exists>s' chs. shell_line demo_os (''cat f | sort | head'' @ [NL]) demo_shell = Inr s'
    \<and> sh_log s' = Prompt # map Spawn chs @ [WaitAll]
    \<and> wired (Inherited 0) (Inherited 1) 0 [[''cat'', ''f''], [''sort''], [''head'']] chs"
proof -
  have t: "line_tokens (''cat f | sort | head'' @ [NL]) = pipe_words [[''cat'', ''f''], [''sort''], [''head'']]"
    by code_simp
  have c: "cstr (''cat f | sort | head'' @ [NL]) \<noteq> []" by code_simp
  have w: "\<forall>c\<in>set [[''cat'', ''f''], [''sort''], [''head'']]. wf_command c"
    by (simp add: wf_command_def external_def is_builtin_def is_op_def)
  show ?thesis
    using pipeline_wired [OF t c _ _ w demo_shell_between, of demo_os] by auto
qed

text \<open>
   The read ends leak: after a pipeline of \<open>n\<close> commands the shell still holds the read ends
  of the first \<open>n - 1\<close> pipes, for the rest of its life.
\<close>

theorem pipeline_leaks_read_ends:
  assumes "line_tokens raw = pipe_words cmds" and "cstr raw \<noteq> []"
    and "2 \<le> length cmds" and "length cmds \<le> 5000" and "\<forall>c\<in>set cmds. wf_command c"
    and "between s" and "\<not> sh_exited s" and "Suc i < length cmds"
  shows "\<exists>s' g. shell_line sys raw s = Inr s' \<and> 2 < g \<and> fd_get (k_fds s') g = Some (PipeR (k_next s + i))"
proof -
  let ?s = "sh_event Prompt (s\<lparr>line_end_with_pipe := False\<rparr>)"
  have b: "between ?s" using assms(6) by (simp add: between_def plain_def sh_event_def)
  have ext: "\<forall>c\<in>set cmds. external c" using assms(5) by (simp add: wf_command_def)
  have fds: "fd_get (k_fds ?s) 0 = Some (Inherited 0)" using b by (simp add: between_def)
  have n: "0 + length cmds = length cmds" "length cmds \<noteq> 1" "cmds \<noteq> []" using assms(3) by auto
  from pipeline_loop [OF n ext b fds, of sys 1]
  obtain s' where run: "exec_loop sys (length cmds) 0 cmds 0 1 ?s = Inr s'"
    and leak: "\<exists>g>2. fd_get (k_fds s') g = Some (PipeR (k_next ?s + i))"
    and flags: "sh_exited s' = sh_exited ?s" "line_end_with_pipe s' = line_end_with_pipe ?s"
    using assms(8) by force
  have "num_pipe_vec s = []" using assms(6) by (simp add: between_def plain_def)
  then have "shell_line sys raw s = Inr (sh_event WaitAll s')"
    using combine_pipe_words [OF assms(5), of "[]"] run flags assms(1,2,4,7)
    by (simp add: shell_line_def Let_def line_tokens_def [symmetric] sh_event_def)
  with leak show ?thesis by (auto simp: sh_event_def)
qed

theorem pipeline_leaks_read_ends_witness:
  "\<exists>s' g. shell_line demo_os (''ls | cat'' @ [NL]) demo_shell = Inr s' \<and> 2 < g
    \<and> fd_get (k_fds s') g = Some (PipeR 0)"
proof -
  have t: "line_tokens (''ls | cat'' @ [NL]) = pipe_words [[''ls''], [''cat'']]" by code_simp
  have c: "cstr (''ls | cat'' @ [NL]) \<noteq> []" by code_simp
  have w: "\<forall>c\<in>set [[''ls''], [''cat'']]. wf_command c"
    by (simp add: wf_command_def external_def is_builtin_def is_op_def)
  show ?thesis
    using pipeline_leaks_read_ends [OF t c _ _ w demo_shell_between, of 0 demo_os] by simp
qed

section \<open>Numbered pipes\<close>

text \<open>
  C6.  A numbered pipe counts down: every line that is not blank takes one from the lines left
  of each pipe that is not due, and leaves both its ends open and where they were; a blank line
  changes nothing.
\<close>

theorem numbered_pipe_counts_down:
  assumes "shell_line sys raw s = Inr s'" and "shell_inv s" and "valid_line raw"
    and "t \<in> set (num_pipe_vec s)" and "rest_line t \<noteq> 1 \<or> line_tokens raw = []" and "rest_line t \<noteq> 0"
  shows "(if line_tokens raw = [] then t else t\<lparr>rest_line := rest_line t - 1\<rparr>) \<in> set (num_pipe_vec s')
    \<and> fd_get (k_fds s') (np_r t) = fd_get (k_fds s) (np_r t)
    \<and> fd_get (k_fds s') (np_w t) = fd_get (k_fds s) (np_w t)"
proof -
  let ?t = "if line_tokens raw = [] then t else t\<lparr>rest_line := rest_line t - 1\<rparr>"
  have t: "?t \<in> set (num_pipe_vec (count_down raw s))" "rest_line ?t \<noteq> 0"
    using assms(4-6) by (auto simp: count_down_core)
  have np: "np_r ?t = np_r t" "np_w ?t = np_w t" by simp_all
  have "\<forall>w\<in>set (line_tokens raw). valid_op w" using assms(3) by (simp add: valid_line_def list_all_iff)
  then have "?t \<in> set (num_pipe_vec s') \<and> fd_get (k_fds s') (np_r ?t) = fd_get (k_fds s) (np_r ?t)
      \<and> fd_get (k_fds s') (np_w ?t) = fd_get (k_fds s) (np_w ?t)"
    using shell_line_kept [OF assms(1,2)] t by blast
  then show ?thesis unfolding np .
qed

text \<open>
  C5.  A numbered pipe is delivered: the first command of the line it is due on, if it is not
  built in, is the first child started, and reads the pipe; neither this child nor the shell
  holds a write end any more, and the shell forgets the pipe.
\<close>

theorem numbered_pipe_delivered:
  assumes "shell_line sys raw s = Inr s'" and "shell_inv s" and "valid_line raw"
    and "line_tokens raw \<noteq> []" and "\<not> is_builtin (hd (line_tokens raw))"
    and "t \<in> set (num_pipe_vec s)" and "rest_line t = 1" and "fd_get (k_fds s) (np_r t) = Some (PipeR i)"
  shows "\<exists>pre ch post. sh_log s' = sh_log s @ Prompt # pre @ Spawn ch # post \<and> list_all is_create pre
    \<and> ch_argv ch = takeWhile (\<lambda>w. \<not> is_op w) (line_tokens raw)
    \<and> fd_get (ch_fds ch) 0 = Some (PipeR i) \<and> \<not> fd.refers (ch_fds ch) (PipeW i)
    \<and> \<not> fd.refers (k_fds s') (PipeW i) \<and> t\<lparr>rest_line := 0\<rparr> \<notin> set (num_pipe_vec s')"
proof -
  let ?s0 = "count_down raw s" and ?t = "t\<lparr>rest_line := 0\<rparr>"
  obtain procs out s1 s2 where c: "combine (line_tokens raw) [] 1 ?s0 = Inr (procs, out, s1)"
    and e: "exec_loop sys (length procs) 0 procs 0 out s1 = Inr s2" and s': "s' = s2 \<or> s' = sh_event WaitAll s2"
    using shell_lineE [OF assms(1)] by metis
  have valid: "\<forall>w\<in>set (line_tokens raw). valid_op w" using assms(3) by (simp add: valid_line_def list_all_iff)
  have inv: "shell_inv ?s0" using count_down_inv [OF assms(2)] .
  then have p: "parsed ?s0 s1" using combine_parsed [OF c] valid by (simp add: shell_inv_def)
  then have wf: "pipes_wf s1" "std_ok s1" "dead_flagged s1"
    using inv by (fastforce simp: shell_inv_def dead_flagged_def parsed_def)+
  have "t\<lparr>rest_line := rest_line t - 1\<rparr> \<in> set (num_pipe_vec ?s0)"
    using assms(4,6) by (simp add: count_down_core)
  then have "?t \<in> set (num_pipe_vec ?s0)" using assms(7) by simp
  then have t: "?t \<in> set (num_pipe_vec s1)" "rest_line ?t = 0" using p by (auto simp: parsed_def)
  have "fd_get (k_fds s1) (np_r ?t) = Some (PipeR i)"
    using p assms(8) by (simp add: parsed_def count_down_core)
  moreover from this have "fd_get (k_fds s1) (np_w ?t) = Some (PipeW i)"
    using pipes_wfD(1) [OF wf(1) t(1)] by auto
  moreover obtain argv procs' where procs: "procs = argv # procs'" "argv = takeWhile (\<lambda>w. \<not> is_op w) (line_tokens raw)"
    using combine_procs [OF c] assms(4) by (cases procs) auto
  moreover have "argv \<noteq> []" using e procs(1) by (cases argv) auto
  then have "\<not> is_builtin (hd argv)"
    using procs(2) assms(4,5) by (cases "line_tokens raw") (auto split: if_splits)
  ultimately obtain ch post where ch: "sh_log s2 = sh_log s1 @ Spawn ch # post" "ch_argv ch = argv"
    "reads_only i (ch_fds ch)" "?t \<notin> set (num_pipe_vec s2)" "\<not> fd.refers (k_fds s2) (PipeW i)"
    using first_child_reads [OF e [unfolded procs(1)] _ _ wf t] by auto
  obtain pre where "sh_log s1 = sh_log s @ Prompt # pre" "list_all is_create pre"
    using combine_log [OF c] by (auto simp: count_down_core)
  with ch procs(2) s' show ?thesis
    by (intro exI [of _ pre] exI [of _ ch] exI [of _ "if s' = s2 then post else post @ [WaitAll]"])
      (auto simp: reads_only_def sh_event_def)
qed

lemma demo_numbered:
  obtains s1 where "shell_line demo_os (''ls |1'' @ [NL]) demo_shell = Inr s1"
    and "shell_inv s1" and "\<lparr>rest_line = 1, np_r = 3, np_w = 4\<rparr> \<in> set (num_pipe_vec s1)"
    and "fd_get (k_fds s1) 3 = Some (PipeR 0)"
    and "\<exists>s2. shell_line demo_os (''cat'' @ [NL]) s1 = Inr s2"
proof -
  have v: "valid_line (''ls |1'' @ [NL])" "keeps_stdin (''ls |1'' @ [NL])" by code_simp+
  have run: "case shell_line demo_os (''ls |1'' @ [NL]) demo_shell of Inl _ \<Rightarrow> False
      | Inr s1 \<Rightarrow> num_pipe_vec s1 = [\<lparr>rest_line = 1, np_r = 3, np_w = 4\<rparr>] \<and> fd_get (k_fds s1) 3 = Some (PipeR 0)
          \<and> (case shell_line demo_os (''cat'' @ [NL]) s1 of Inl _ \<Rightarrow> False | Inr _ \<Rightarrow> True)"
    by code_simp
  then obtain s1 where s1: "shell_line demo_os (''ls |1'' @ [NL]) demo_shell = Inr s1"
    by (cases "shell_line demo_os (''ls |1'' @ [NL]) demo_shell") simp_all
  have "\<exists>s2. shell_line demo_os (''cat'' @ [NL]) s1 = Inr s2"
    using run unfolding s1 by (cases "shell_line demo_os (''cat'' @ [NL]) s1") simp_all
  then show thesis
    using that [OF s1 shell_line_inv [OF s1 demo_shell_inv v]] run unfolding s1 by simp
qed

theorem numbered_pipe_counts_down_witness:
  "\<exists>s1 s2. shell_line demo_os (''ls |1'' @ [NL]) demo_shell = Inr s1
    \<and> shell_line demo_os [CHR '' '', NL] s1 = Inr s2
    \<and> \<lparr>rest_line = 1, np_r = 3, np_w = 4\<rparr> \<in> set (num_pipe_vec s2) \<and> fd_get (k_fds s2) 3 = Some (PipeR 0)"
proof -
  obtain s1 where s1: "shell_line demo_os (''ls |1'' @ [NL]) demo_shell = Inr s1" "shell_inv s1"
    "\<lparr>rest_line = 1, np_r = 3, np_w = 4\<rparr> \<in> set (num_pipe_vec s1)" "fd_get (k_fds s1) 3 = Some (PipeR 0)"
    by (rule demo_numbered)
  have blank: "line_tokens [CHR '' '', NL] = []" "cstr [CHR '' '', NL] \<noteq> []" by code_simp+
  then obtain s2 where s2: "shell_line demo_os [CHR '' '', NL] s1 = Inr s2"
    by (simp add: shell_line_def Let_def line_tokens_def [symmetric] combine.simps)
  have v: "valid_line [CHR '' '', NL]" using blank by (simp add: valid_line_def)
  show ?thesis
    using numbered_pipe_counts_down [OF s2 s1(2) v s1(3)] s1 s2 blank by auto
qed

theorem numbered_pipe_delivered_witness:
  "\<exists>s1 s2 pre ch post. shell_line demo_os (''ls |1'' @ [NL]) demo_shell = Inr s1
    \<and> shell_line demo_os (''cat'' @ [NL]) s1 = Inr s2
    \<and> sh_log s2 = sh_log s1 @ Prompt # pre @ Spawn ch # post
    \<and> ch_argv ch = [''cat''] \<and> fd_get (ch_fds ch) 0 = Some (PipeR 0)"
proof -
  obtain s1 s2 where s1: "shell_line demo_os (''ls |1'' @ [NL]) demo_shell = Inr s1" "shell_inv s1"
    "\<lparr>rest_line = 1, np_r = 3, np_w = 4\<rparr> \<in> set (num_pipe_vec s1)" "fd_get (k_fds s1) 3 = Some (PipeR 0)"
    and s2: "shell_line demo_os (''cat'' @ [NL]) s1 = Inr s2"
    by (rule demo_numbered) blast
  have t: "line_tokens (''cat'' @ [NL]) = [''cat'']" by code_simp
  have v: "valid_line (''cat'' @ [NL])" "\<not> is_builtin (hd (line_tokens (''cat'' @ [NL])))" by code_simp+
  have "takeWhile (\<lambda>w. \<not> is_op w) [''cat''] = [''cat'']" by (simp add: is_op_def)
  then show ?thesis
    using numbered_pipe_delivered [OF s2 s1(2) v(1) _ v(2) s1(3)] s1(1,4) s2 t by fastforce
qed

lemma number_pipe_dest:
  assumes "number_pipe_out d w s = Inr (out, s')" and "strtok_first (\<lambda>c. c = d) w = Some digits"
    and "pipes_wf s"
  shows "\<exists>t i. t \<in> set (num_pipe_vec s') \<and> rest_line t = atoi digits \<and> np_w t = out
    \<and> fd_get (k_fds s') out = Some (PipeW i)
    \<and> (\<forall>u\<in>set (num_pipe_vec s). rest_line u = atoi digits \<longrightarrow> u = t)"
proof (cases "List.find (\<lambda>t. rest_line t = atoi digits) (num_pipe_vec s)")
  case None
  obtain r w1 s1 where p: "sys_pipe s = (r, w1, s1)" by (cases "sys_pipe s")
  then obtain tbl where s1: "s1 = s\<lparr>k_fds := tbl, k_next := Suc (k_next s)\<rparr>"
    and tbl: "\<And>g. fd_get tbl g = (if g = w1 then Some (PipeW (k_next s))
                 else if g = r then Some (PipeR (k_next s)) else fd_get (k_fds s) g)"
    by (rule sys_pipeE) blast
  have "out = w1" "s' = s1\<lparr>num_pipe_vec := num_pipe_vec s @ [\<lparr>rest_line = atoi digits, np_r = r, np_w = w1\<rparr>]\<rparr>"
    using assms(1,2) None p by (auto simp: number_pipe_out_def Let_def s1)
  then show ?thesis using None by (auto simp: find_None_iff s1 tbl)
next
  case (Some t)
  have "s' = s" "out = np_w t" using Some assms(1,2) by (simp_all add: number_pipe_out_def Let_def)
  then have t: "t \<in> set (num_pipe_vec s)" "rest_line t = atoi digits" "s' = s" "out = np_w t"
    using Some by (auto simp: find_Some_iff)
  moreover obtain i where "fd_get (k_fds s) (np_w t) = Some (PipeW i)" using pipes_wfD(1) [OF assms(3) t(1)] by blast
  moreover have "u = t" if "u \<in> set (num_pipe_vec s)" "rest_line u = atoi digits" for u
    using pipes_wfD(6) [OF assms(3) that(1) t(1)] that(2) t(2) by simp
  ultimately show ?thesis by blast
qed

lemma numbered_child_out:
  assumes "fd_get (k_fds s) out = Some f" and "out \<noteq> 0"
  shows "fd_get (numbered_fds fd_in out s) 1 = Some f"
    and "fd_get (numbered_fds fd_in out s) 2 = (if shock_pipe_out_flag s then Some f else fd_get (k_fds s) 2)"
proof -
  have "fd_get (child_stdin fd_in s (k_fds s)) g = fd_get (k_fds s) g" if "g \<noteq> 0" for g
    using that by (auto simp: child_stdin_def dup_num_pipe_in_def split: option.splits)
  then show "fd_get (numbered_fds fd_in out s) 1 = Some f"
    and "fd_get (numbered_fds fd_in out s) 2 = (if shock_pipe_out_flag s then Some f else fd_get (k_fds s) 2)"
    using assms by (auto simp: numbered_fds_def Let_def)
qed

lemma fresh_std: "pipes_wf s \<Longrightarrow> std_ok s \<Longrightarrow> \<not> dead_w s 2"
proof -
  assume wf: "pipes_wf s" and std: "std_ok s"
  obtain k where "fd_get (k_fds s) 2 = Some (Inherited k)"
    using std [unfolded std_ok_def, rule_format, of 2] by auto
  then show "\<not> dead_w s 2" by (auto simp: dead_w_def dest!: pipes_wfD(1) [OF wf])
qed

lemma number_pipe_out_total:
  assumes "strtok_first (\<lambda>c. c = d) w = Some digits"
  obtains out s' where "number_pipe_out d w s = Inr (out, s')"
    and "write_file_flag s' = write_file_flag s" "sh_log s' = sh_log s" "sh_env s' = sh_env s"
    and "line_end_with_pipe s' = line_end_with_pipe s" "sh_exited s' = sh_exited s"
    and "shock_pipe_out_flag s' = shock_pipe_out_flag s"
proof -
  obtain r w1 s1 where p: "sys_pipe s = (r, w1, s1)" by (cases "sys_pipe s")
  then obtain t where "s1 = s\<lparr>k_fds := t, k_next := Suc (k_next s)\<rparr>" by (rule sys_pipeE)
  with p assms that show ?thesis
    by (cases "List.find (\<lambda>t. rest_line t = atoi digits) (num_pipe_vec s)")
      (auto simp: number_pipe_out_def Let_def)
qed

lemma strtok_number:
  "strtok_first (\<lambda>c. c = CHR ''|'') (CHR ''|'' # dec_nat n) = Some (dec_nat n)"
  "strtok_first (\<lambda>c. c = CHR ''!'') (CHR ''!'' # dec_nat n) = Some (dec_nat n)"
  by (subst strtok_first_def, subst tokens_sep, simp, subst tokens_word,
      auto simp: is_digit_def dest: dec_nat_digits)+

definition number_op :: "bool \<Rightarrow> nat \<Rightarrow> string" where
  "number_op err n = (if err then CHR ''!'' else CHR ''|'') # dec_nat n"

text \<open>The parser on a command with a numbered operator.\<close>

lemma combine_number:
  assumes "wf_command c" and "length procs < 5000"
  obtains out s1 where "number_pipe_out (if err then CHR ''!'' else CHR ''|'') (number_op err n)
        (s\<lparr>line_end_with_pipe := True\<rparr>) = Inr (out, s1)"
    and "combine (c @ [number_op err n]) procs 1 s = Inr (procs @ [c], out,
        if err then s1\<lparr>shock_pipe_out_flag := True\<rparr> else s1\<lparr>num_pipe_out_flag := True\<rparr>)"
    and "write_file_flag s1 = write_file_flag s" "sh_log s1 = sh_log s" "sh_env s1 = sh_env s"
    and "line_end_with_pipe s1" "sh_exited s1 = sh_exited s" "shock_pipe_out_flag s1 = shock_pipe_out_flag s"
proof -
  let ?w = "number_op err n" and ?d = "if err then CHR ''!'' else CHR ''|''"
  let ?s = "s\<lparr>line_end_with_pipe := True\<rparr>"
  have tok: "strtok_first (\<lambda>c. c = ?d) ?w = Some (dec_nat n)"
    using strtok_number [of n] by (simp add: number_op_def)
  obtain out s1 where out: "number_pipe_out ?d ?w ?s = Inr (out, s1)"
    and same: "write_file_flag s1 = write_file_flag ?s" "sh_log s1 = sh_log ?s" "sh_env s1 = sh_env ?s"
      "line_end_with_pipe s1 = line_end_with_pipe ?s" "sh_exited s1 = sh_exited ?s"
      "shock_pipe_out_flag s1 = shock_pipe_out_flag ?s"
    using number_pipe_out_total [OF tok, of ?s] by metis
  have op: "is_op ?w" "?w \<noteq> ''|''" "?w \<noteq> ''>''" "hd ?w = ?d" by (auto simp: number_op_def is_op_def)
  have tk: "takeWhile (\<lambda>w. \<not> is_op w) (c @ [?w]) = c" "dropWhile (\<lambda>w. \<not> is_op w) (c @ [?w]) = [?w]"
    using assms op(1) by (auto simp: wf_command_def list_all_iff)
  have "parse_op ?w [] 1 s = Inr ([], out, if err then s1\<lparr>shock_pipe_out_flag := True\<rparr> else s1\<lparr>num_pipe_out_flag := True\<rparr>)"
    using op out by (auto simp: parse_op_def)
  moreover have "combine [] ps out' s' = Inr (ps, out', s')" for ps out' s' by (simp add: combine.simps)
  ultimately have "combine (c @ [?w]) procs 1 s = Inr (procs @ [c], out,
      if err then s1\<lparr>shock_pipe_out_flag := True\<rparr> else s1\<lparr>num_pipe_out_flag := True\<rparr>)"
    using assms by (subst combine.simps) (simp add: tk wf_command_def)
  then show thesis using that [OF out] same by simp
qed

text \<open>
  The state in which the command of such a line is executed: \<open>s2\<close> keeps the invariant, the
  output descriptor is the write end of the pipe with \<open>n\<close> lines left.
\<close>

lemma number_line_start:
  assumes "shell_inv s" and "line_tokens raw = c @ [number_op err n]" and "wf_command c"
    and "1 \<le> n" and "n < 2 ^ 31"
  obtains out s2 t i where "combine (line_tokens raw) [] 1 (count_down raw s) = Inr ([c], out, s2)"
    and "pipes_wf s2" "std_ok s2" "dead_flagged s2"
    and "t \<in> set (num_pipe_vec s2)" "rest_line t = int n" "np_w t = out" "out \<noteq> 0" "\<not> dead_w s2 out"
    and "fd_get (k_fds s2) out = Some (PipeW i)"
    and "\<forall>u\<in>set (num_pipe_vec (count_down raw s)). rest_line u = int n \<longrightarrow> u = t"
    and "fd_get (k_fds (close_0_rest_line_pipe_out s2)) 2 = fd_get (k_fds s) 2"
    and "write_file_flag s2 = write_file_flag s" "sh_log s2 = sh_log s @ [Prompt]" "sh_env s2 = sh_env s"
    and "line_end_with_pipe s2" "sh_exited s2 = sh_exited s"
    and "shock_pipe_out_flag s2 = (err \<or> shock_pipe_out_flag s)" "err \<or> num_pipe_out_flag s2"
proof -
  let ?cd = "count_down raw s" and ?d = "if err then CHR ''!'' else CHR ''|''"
  let ?s = "?cd\<lparr>line_end_with_pipe := True\<rparr>"
  have cd: "write_file_flag ?cd = write_file_flag s" "shock_pipe_out_flag ?cd = shock_pipe_out_flag s"
    by (auto simp: count_down_def decrease_line_count_def sh_event_def Let_def)
  have wf: "pipes_wf ?s" "std_ok ?s" "dead_flagged ?s"
    using count_down_inv [OF assms(1), of raw]
    by (simp_all add: shell_inv_def pipes_wf_def std_ok_def dead_flagged_def)
  have "length ([] :: string list list) < 5000" by simp
  then obtain out s1 where out: "number_pipe_out ?d (number_op err n) ?s = Inr (out, s1)"
    and comb: "combine (c @ [number_op err n]) [] 1 ?cd = Inr ([] @ [c], out,
        if err then s1\<lparr>shock_pipe_out_flag := True\<rparr> else s1\<lparr>num_pipe_out_flag := True\<rparr>)"
    and same: "write_file_flag s1 = write_file_flag ?cd" "sh_log s1 = sh_log ?cd" "sh_env s1 = sh_env ?cd"
      "line_end_with_pipe s1" "sh_exited s1 = sh_exited ?cd" "shock_pipe_out_flag s1 = shock_pipe_out_flag ?cd"
    by (rule combine_number [OF assms(3), where err = err and n = n and s = ?cd])
  have tok: "strtok_first (\<lambda>c. c = ?d) (number_op err n) = Some (dec_nat n)" "atoi (dec_nat n) = int n"
    using strtok_number [of n] assms(5) by (simp_all add: number_op_def atoi_dec_nat)
  obtain t i where t: "t \<in> set (num_pipe_vec s1)" "rest_line t = int n" "np_w t = out"
    "fd_get (k_fds s1) out = Some (PipeW i)" "\<forall>u\<in>set (num_pipe_vec ?s). rest_line u = int n \<longrightarrow> u = t"
    using number_pipe_dest [OF out tok(1) wf(1)] tok(2) by auto
  let ?s2 = "if err then s1\<lparr>shock_pipe_out_flag := True\<rparr> else s1\<lparr>num_pipe_out_flag := True\<rparr>"
  have par: "parsed ?s s1" using number_pipe_out_parsed [OF out wf(1,2)] tok assms(4) by simp
  have "dead_flagged s1" using par wf(3) by (fastforce simp: parsed_def dead_flagged_def)
  moreover have "pipes_wf s1" and std1: "std_ok s1" using par by (simp_all add: parsed_def)
  ultimately have wf2: "pipes_wf ?s2" "std_ok ?s2" "dead_flagged ?s2"
    by (simp_all add: pipes_wf_def std_ok_def dead_flagged_def)
  have dead: "\<not> dead_w ?s2 out"
    using t pipes_wfD(5) [OF wf2(1)] assms(4) by (fastforce simp: dead_w_def)
  have nz: "out \<noteq> 0"
    using t(4) std1 [unfolded std_ok_def, rule_format, of 0] by (cases "out = 0") auto
  obtain k where "fd_get (k_fds ?s) 2 = Some (Inherited k)"
    using wf(2) [unfolded std_ok_def, rule_format, of 2] by auto
  then have "fd_get (k_fds s1) 2 = fd_get (k_fds s) 2"
    using par by (auto simp: parsed_def count_down_core)
  then have "fd_get (k_fds (close_0_rest_line_pipe_out ?s2)) 2 = fd_get (k_fds s) 2"
    using fresh_std [OF wf2(1,2)] by simp
  then show thesis
    using that [of out ?s2 t i] comb wf2 t dead nz cd same assms(2) by (simp add: count_down_core)
qed

text \<open>
  C7.  The output of \<^verbatim>\<open>command |N\<close> goes to the pipe that has \<open>N\<close> lines left: the one child
  writes to it, the shell keeps it in its list, and if a pipe was due on the same line before,
  it is this one, so both commands' outputs arrive together.
\<close>

theorem numbered_line_output:
  assumes "shell_inv s" and "\<not> write_file_flag s" and "\<not> sh_exited s"
    and "line_tokens raw = c @ [number_op err n]" and "cstr raw \<noteq> []" and "wf_command c"
    and "1 \<le> n" and "n < 2 ^ 31"
  shows "\<exists>s' ch t i. shell_line sys raw s = Inr s' \<and> sh_log s' = sh_log s @ [Prompt, Spawn ch]
    \<and> ch_argv ch = c \<and> fd_get (ch_fds ch) 1 = Some (PipeW i)
    \<and> fd_get (ch_fds ch) 2 = (if err \<or> shock_pipe_out_flag s then Some (PipeW i) else fd_get (k_fds s) 2)
    \<and> t \<in> set (num_pipe_vec s') \<and> rest_line t = int n \<and> fd_get (k_fds s') (np_w t) = Some (PipeW i)
    \<and> (\<forall>u\<in>set (num_pipe_vec s). rest_line u = int n + 1 \<longrightarrow> np_w u = np_w t)"
proof -
  obtain out s2 t i where comb: "combine (line_tokens raw) [] 1 (count_down raw s) = Inr ([c], out, s2)"
    and wf: "pipes_wf s2" "std_ok s2" "dead_flagged s2"
    and t: "t \<in> set (num_pipe_vec s2)" "rest_line t = int n" "np_w t = out"
    and out: "out \<noteq> 0" "\<not> dead_w s2 out" "fd_get (k_fds s2) out = Some (PipeW i)"
    and uniq: "\<forall>u\<in>set (num_pipe_vec (count_down raw s)). rest_line u = int n \<longrightarrow> u = t"
    and err: "fd_get (k_fds (close_0_rest_line_pipe_out s2)) 2 = fd_get (k_fds s) 2"
    and same: "write_file_flag s2 = write_file_flag s" "sh_log s2 = sh_log s @ [Prompt]" "sh_env s2 = sh_env s"
      "line_end_with_pipe s2" "sh_exited s2 = sh_exited s"
      "shock_pipe_out_flag s2 = (err \<or> shock_pipe_out_flag s)" "err \<or> num_pipe_out_flag s2"
    by (rule number_line_start [OF assms(1,4,6,7,8)])
  let ?s3 = "exec_numbered sys 1 c 0 out s2"
  have k: "kept s2 ?s3" using exec_numbered_kept(1) [OF wf, of 0] by (simp add: fd_in_ok_def)
  have "exec_loop sys 1 0 [c] 0 out s2 = Inr ?s3"
    using assms(2,6) same by (cases c) (auto simp: wf_command_def external_def is_builtin_def)
  moreover have "line_end_with_pipe ?s3" using same by (simp add: exec_numbered_def Let_def)
  ultimately have run: "shell_line sys raw s = Inr ?s3"
    using comb assms(5) by (simp add: shell_line_def Let_def line_tokens_def [symmetric] count_down_def)
  have child: "fd_get (numbered_fds 0 out (close_0_rest_line_pipe_out s2)) 1 = Some (PipeW i)"
    "fd_get (numbered_fds 0 out (close_0_rest_line_pipe_out s2)) 2 =
      (if shock_pipe_out_flag s2 then Some (PipeW i) else fd_get (k_fds (close_0_rest_line_pipe_out s2)) 2)"
    using numbered_child_out [of "close_0_rest_line_pipe_out s2" out "PipeW i" 0] out by auto
  have "t \<in> set (num_pipe_vec ?s3)" "fd_get (k_fds ?s3) (np_w t) = Some (PipeW i)"
    using k t out(3) assms(7) by (auto simp: kept_def frame_def)
  moreover have "np_w u = np_w t" if "u \<in> set (num_pipe_vec s)" "rest_line u = int n + 1" for u
  proof -
    have "u\<lparr>rest_line := int n\<rparr> \<in> set (num_pipe_vec (count_down raw s))"
      using that assms(4) by (force simp: count_down_core)
    then show ?thesis using uniq by force
  qed
  ultimately show ?thesis
    using run child err t(2) same(2,6) by (intro exI [of _ ?s3] exI conjI) (rule run, auto simp: exec_log)
qed

theorem numbered_line_output_witness:
  "\<exists>s1 s2 ch t. shell_line demo_os (''ls |2'' @ [NL]) demo_shell = Inr s1
    \<and> shell_line demo_os (''make all !1'' @ [NL]) s1 = Inr s2
    \<and> sh_log s2 = sh_log s1 @ [Prompt, Spawn ch]
    \<and> fd_get (ch_fds ch) 1 = Some (PipeW 0) \<and> fd_get (ch_fds ch) 2 = Some (PipeW 0)
    \<and> t \<in> set (num_pipe_vec s2) \<and> rest_line t = 1 \<and> np_w t = 4"
proof -
  have v: "valid_line (''ls |2'' @ [NL])" "keeps_stdin (''ls |2'' @ [NL])" by code_simp+
  have run: "case shell_line demo_os (''ls |2'' @ [NL]) demo_shell of Inl _ \<Rightarrow> False
      | Inr s1 \<Rightarrow> num_pipe_vec s1 = [\<lparr>rest_line = 2, np_r = 3, np_w = 4\<rparr>] \<and> \<not> write_file_flag s1 \<and> \<not> sh_exited s1"
    by code_simp
  then obtain s1 where s1: "shell_line demo_os (''ls |2'' @ [NL]) demo_shell = Inr s1"
    "num_pipe_vec s1 = [\<lparr>rest_line = 2, np_r = 3, np_w = 4\<rparr>]" "\<not> write_file_flag s1" "\<not> sh_exited s1"
    by (cases "shell_line demo_os (''ls |2'' @ [NL]) demo_shell") simp_all
  have inv: "shell_inv s1" using shell_line_inv [OF s1(1) demo_shell_inv v] .
  have t: "line_tokens (''make all !1'' @ [NL]) = [''make'', ''all''] @ [number_op True 1]"
    by code_simp
  have c: "cstr (''make all !1'' @ [NL]) \<noteq> []" by code_simp
  have w: "wf_command [''make'', ''all'']" by (simp add: wf_command_def external_def is_builtin_def is_op_def)
  obtain s2 ch t i where r: "shell_line demo_os (''make all !1'' @ [NL]) s1 = Inr s2"
      "sh_log s2 = sh_log s1 @ [Prompt, Spawn ch]" "fd_get (ch_fds ch) 1 = Some (PipeW i)"
      "fd_get (ch_fds ch) 2 = Some (PipeW i)" "t \<in> set (num_pipe_vec s2)" "rest_line t = 1"
      "fd_get (k_fds s2) (np_w t) = Some (PipeW i)" "np_w t = 4"
    using numbered_line_output [OF inv s1(3,4) t c w, of demo_os] s1(2) by auto
  have "case shell_line demo_os (''ls |2'' @ [NL]) demo_shell of Inl _ \<Rightarrow> False
      | Inr s1 \<Rightarrow> (case shell_line demo_os (''make all !1'' @ [NL]) s1 of Inl _ \<Rightarrow> False
          | Inr s2 \<Rightarrow> fd_get (k_fds s2) 4 = Some (PipeW 0))"
    by code_simp
  then have "fd_get (k_fds s2) 4 = Some (PipeW 0)" by (simp only: s1(1) r(1) sum.case)
  then have "i = 0" using r(7,8) by simp
  with r s1(1) show ?thesis by blast
qed

section \<open>Sessions\<close>

text \<open>
  C11.  A session keeps the invariant: from a fresh shell, over any lines whose numbered
  operators name at least one line and that do not put a built-in command in front of a
  pipeline, every numbered pipe stays open at both ends at descriptors of its own, no two have
  the same number of lines left, each pipe has one writer in the shell, and the standard files
  stay the shell's.
\<close>

theorem shell_session_invariant:
  assumes "run_lines sys raws s = Inr s'" and "shell_inv s"
    and "list_all (\<lambda>raw. valid_line raw \<and> keeps_stdin raw) raws"
  shows "shell_inv s'"
  using assms
proof (induction raws arbitrary: s)
  case (Cons raw raws)
  show ?case
  proof (cases "sh_exited s")
    case False
    then obtain s1 where "shell_line sys raw s = Inr s1" "run_lines sys raws s1 = Inr s'"
      using Cons.prems(1) by auto
    then show ?thesis using Cons.IH shell_line_inv Cons.prems(2,3) by auto
  qed (use Cons.prems in simp)
qed simp

theorem shell_session_invariant_witness:
  "\<exists>s. run_lines demo_os [''ls |2'' @ [NL], ''setenv A b'' @ [NL], ''cat | sort > f'' @ [NL]] demo_shell = Inr s
    \<and> shell_inv s"
proof -
  let ?raws = "[''ls |2'' @ [NL], ''setenv A b'' @ [NL], ''cat | sort > f'' @ [NL]]"
  have v: "list_all (\<lambda>raw. valid_line raw \<and> keeps_stdin raw) ?raws" by code_simp
  have "case run_lines demo_os ?raws demo_shell of Inl _ \<Rightarrow> False | Inr _ \<Rightarrow> True" by code_simp
  then obtain s where "run_lines demo_os ?raws demo_shell = Inr s"
    by (cases "run_lines demo_os ?raws demo_shell") simp_all
  with shell_session_invariant [OF this demo_shell_inv v] show ?thesis by blast
qed

text \<open>
   A built-in command in front of a command whose output goes to a numbered pipe makes the
  shell close its own standard input.
\<close>

theorem builtin_pipeline_closes_stdin:
  assumes "shell_inv s" and "\<not> write_file_flag s" and "\<not> sh_exited s"
    and "line_tokens raw = [''printenv'', x] @ ''|'' # c @ [number_op err n]" and "cstr raw \<noteq> []"
    and "\<not> is_op x" and "wf_command c"
  shows "\<exists>s'. shell_line sys raw s = Inr s' \<and> fd_get (k_fds s') 0 = None"
proof -
  let ?cd = "count_down raw s"
  have "length [[''printenv'', x]] < 5000" by simp
  then obtain out s1 where "number_pipe_out (if err then CHR ''!'' else CHR ''|'') (number_op err n)
        (?cd\<lparr>line_end_with_pipe := True\<rparr>) = Inr (out, s1)"
    and comb: "combine (c @ [number_op err n]) [[''printenv'', x]] 1 ?cd = Inr ([[''printenv'', x]] @ [c], out,
        if err then s1\<lparr>shock_pipe_out_flag := True\<rparr> else s1\<lparr>num_pipe_out_flag := True\<rparr>)"
    and same: "write_file_flag s1 = write_file_flag ?cd" "sh_log s1 = sh_log ?cd" "sh_env s1 = sh_env ?cd"
      "line_end_with_pipe s1" "sh_exited s1 = sh_exited ?cd" "shock_pipe_out_flag s1 = shock_pipe_out_flag ?cd"
    by (rule combine_number [OF assms(7), where err = err and n = n and s = ?cd])
  have op: "is_op ''|''" "\<not> is_op ''printenv''" by (simp_all add: is_op_def)
  have "combine (line_tokens raw) [] 1 ?cd = combine (c @ [number_op err n]) [[''printenv'', x]] 1 ?cd"
    using op assms(6) unfolding assms(4)
    by (subst combine.simps) (simp add: parse_op_def)
  note comb = this [unfolded comb]
  let ?s2 = "if err then s1\<lparr>shock_pipe_out_flag := True\<rparr> else s1\<lparr>num_pipe_out_flag := True\<rparr>"
  let ?s3 = "printenv [x] ?s2"
  have s3: "write_file_flag ?s3 = write_file_flag s" "shock_pipe_out_flag ?s3 \<or> num_pipe_out_flag ?s3"
    "line_end_with_pipe ?s3"
    using same by (auto simp: printenv_def sh_event_def count_down_def decrease_line_count_def Let_def
        split: option.splits)
  let ?s4 = "exec_numbered sys 2 c 0 out ?s3"
  have "exec_loop sys 2 0 [[''printenv'', x], c] 0 out ?s2 = Inr ?s4"
    using assms(2,7) s3 by (cases c) (auto simp: wf_command_def external_def is_builtin_def)
  moreover have "line_end_with_pipe ?s4" using s3 by (simp add: exec_numbered_def Let_def)
  ultimately have "shell_line sys raw s = Inr ?s4"
    using comb assms(5)
    by (simp add: shell_line_def Let_def line_tokens_def [symmetric] count_down_def numeral_2_eq_2)
  then show ?thesis by (auto simp: exec_numbered_parent)
qed

theorem builtin_pipeline_closes_stdin_witness:
  "\<exists>s. shell_line demo_os (''printenv PATH | cat |1'' @ [NL]) demo_shell = Inr s \<and> fd_get (k_fds s) 0 = None"
proof -
  have t: "line_tokens (''printenv PATH | cat |1'' @ [NL]) = [''printenv'', ''PATH''] @ ''|'' # [''cat''] @ [number_op False 1]"
    by code_simp
  have c: "cstr (''printenv PATH | cat |1'' @ [NL]) \<noteq> []" by code_simp
  have w: "\<not> is_op ''PATH''" "wf_command [''cat'']"
    by (simp_all add: wf_command_def external_def is_builtin_def is_op_def)
  show ?thesis
    using builtin_pipeline_closes_stdin [OF demo_shell_inv _ _ t c w, of demo_os] by simp
qed

section \<open>The array of processes\<close>

text \<open>
  The array \<^verbatim>\<open>process\<close> is well-formed whenever a line parses: at most 5000 rows, each of at most
  nine words, which leaves the tenth entry to the null pointer; the words are words of the line that
  do not begin with an operator character; and there is no row exactly when the line has no word.\<close>

theorem process_array_fits:
  assumes "combine toks [] out s = Inr (procs, out', s')"
  shows "length procs \<le> 5000 \<and> (\<forall>p\<in>set procs. length p \<le> 9 \<and> (\<forall>w\<in>set p. w \<in> set toks \<and> \<not> is_op w))
    \<and> (procs = [] \<longleftrightarrow> toks = [])"
proof -
  have "procs = [] \<longleftrightarrow> toks = []"
    using combine_grows [OF assms] assms by (auto simp: combine.simps [of toks])
  then show ?thesis using combine_rows [OF assms, of "set toks"] by simp
qed

theorem process_array_fits_witness:
  "\<exists>s' out. combine [''cat'', ''f'', ''|'', ''head'', ''|2''] [] 1 demo_shell = Inr ([[''cat'', ''f''], [''head'']], out, s')
    \<and> length [[''cat'', ''f''], [''head'']] \<le> (5000::nat)"
proof -
  have "case combine [''cat'', ''f'', ''|'', ''head'', ''|2''] [] 1 demo_shell of Inl _ \<Rightarrow> False
    | Inr (procs, _) \<Rightarrow> procs = [[''cat'', ''f''], [''head'']]" by code_simp
  then obtain out s' where
    c: "combine [''cat'', ''f'', ''|'', ''head'', ''|2''] [] 1 demo_shell = Inr ([[''cat'', ''f''], [''head'']], out, s')"
    by (cases "combine [''cat'', ''f'', ''|'', ''head'', ''|2''] [] 1 demo_shell") auto
  show ?thesis using process_array_fits [OF c] c by blast
qed

end
