(* ===== verification/Path_Shell.thy ===== *)
theory Path_Shell
  imports Shell_P1_Lines
begin

text \<open>
  The early shell of project 1, \<^verbatim>\<open>nctu_np_project1/server.cpp\<close>.  It parses a line as \<^verbatim>\<open>npshell.cpp\<close>
  does, so \<^const>\<open>combine\<close> is its parser; but it keeps the directories of the search path in an
  array of its own and looks a command up itself, in the parent, before it starts a process.
\<close>

section \<open>The search path\<close>

text \<open>
  \<^verbatim>\<open>PATH_array\<close> points into the static text \<^verbatim>\<open>root\<close>, or into \<^verbatim>\<open>line\<close> after \<^verbatim>\<open>setenv PATH\<close>.  The array
  \<^verbatim>\<open>line\<close> is local to the body of the loop: in the next turn those pointers are dead.
\<close>

datatype path_array = RootDirs "string list" | LineDirs "string list" | DeadDirs

text \<open>
  \<^verbatim>\<open>set_PATH_array\<close>: the first call of \<^verbatim>\<open>strtok\<close> cuts at colons, but the later ones at spaces.
\<close>

definition set_PATH_array :: "string \<Rightarrow> string list" where
  "set_PATH_array path =
     (let s = dropWhile (\<lambda>c. c = CHR '':'') path
      in if s = [] then []
         else takeWhile (\<lambda>c. c \<noteq> CHR '':'') s # tokens (\<lambda>c. c = CHR '' '') (drop 1 (dropWhile (\<lambda>c. c \<noteq> CHR '':'') s)))"

text \<open>
  \<^verbatim>\<open>checkFileInPATH\<close>, with its buffer of 100 bytes.
\<close>

fun find_in_dirs :: "os \<Rightarrow> string \<Rightarrow> string list \<Rightarrow> bool result" where
  "find_in_dirs sys file [] = Inr False"
| "find_in_dirs sys file (d # ds) =
     (let path = d @ ''/'' @ file
      in if 100 \<le> length path then Inl BufferOverflow
         else if os_access sys path then Inr True
         else find_in_dirs sys file ds)"

definition find_command :: "os \<Rightarrow> path_array \<Rightarrow> string \<Rightarrow> bool result" where
  "find_command sys dirs file =
     (case dirs of
        RootDirs ds \<Rightarrow> find_in_dirs sys file ds
      | LineDirs ds \<Rightarrow> find_in_dirs sys file ds
      | DeadDirs \<Rightarrow> Inl DanglingPointer)"

section \<open>State\<close>

text \<open>
  \<open>ps_left\<close> is where \<^verbatim>\<open>strtok\<close> would go on when it is called with the null pointer, which
  \<^verbatim>\<open>setenv PATH\<close> without a value makes it do: behind the digits of the last numbered pipe of the
  line, or at the end of a string.
\<close>

record path_shell =
  ps_sh :: npshell
  ps_dirs :: path_array
  ps_left :: string

definition path_shell_init :: "fdtable \<Rightarrow> nat \<Rightarrow> environ \<Rightarrow> string \<Rightarrow> path_shell" where
  "path_shell_init fds n e buf =
     \<lparr>ps_sh = npshell_init fds n e buf, ps_dirs = RootDirs (set_PATH_array ''bin:.''), ps_left = []\<rparr>"

definition strtok_rest :: "char \<Rightarrow> string \<Rightarrow> string" where
  "strtok_rest d w = drop 1 (dropWhile (\<lambda>c. c \<noteq> d) (dropWhile (\<lambda>c. c = d) w))"

fun strtok_left :: "string list \<Rightarrow> string \<Rightarrow> string" where
  "strtok_left [] left = left"
| "strtok_left (w # ws) left =
     (if w = ''>'' then strtok_left (drop 1 ws) left
      else if is_op w \<and> w \<noteq> ''|'' then strtok_left ws (strtok_rest (if hd w = CHR ''!'' then CHR ''!'' else CHR ''|'') w)
      else strtok_left ws left)"

section \<open>Executing a process\<close>

text \<open>
  A child whose \<^verbatim>\<open>execvp\<close> fails reports nothing, or \<^verbatim>\<open>err\<close> into a numbered pipe, and goes on as a
  second shell.
\<close>

definition path_spawn ::
  "os \<Rightarrow> string list \<Rightarrow> fdtable \<Rightarrow> string option \<Rightarrow> npshell \<Rightarrow> npshell" where
  "path_spawn sys argv t trunc s =
     sh_event (Spawn \<lparr>ch_argv = argv, ch_fds = t, ch_trunc = trunc,
       ch_end = (if os_exec sys (sh_env s) argv then Executes else FallsThrough)\<rparr>) s"

definition path_redirect :: "os \<Rightarrow> nat \<Rightarrow> string list \<Rightarrow> nat \<Rightarrow> npshell \<Rightarrow> npshell" where
  "path_redirect sys n argv fd_in s =
     (let s = close_0_rest_line_pipe_out s;
          name = cstr (redirection_file_name s);
          s = path_spawn sys argv (redirect_fds sys name fd_in s) (if os_open sys name then Some name else None) s;
          s = (if n \<noteq> 1 then close_fd fd_in s else s)
      in (drop_dead_pipes s)\<lparr>write_file_flag := False\<rparr>)"

definition path_numbered :: "os \<Rightarrow> nat \<Rightarrow> string list \<Rightarrow> nat \<Rightarrow> nat \<Rightarrow> npshell \<Rightarrow> npshell" where
  "path_numbered sys n argv fd_in pipe_out s =
     (let s = close_0_rest_line_pipe_out s;
          s = path_spawn sys argv (numbered_fds fd_in pipe_out s) None s;
          s = (if n \<noteq> 1 then close_fd fd_in s else s)
      in (drop_dead_pipes s)\<lparr>num_pipe_out_flag := False\<rparr>)"

definition path_normal :: "os \<Rightarrow> nat \<Rightarrow> nat \<Rightarrow> string list \<Rightarrow> nat \<Rightarrow> npshell \<Rightarrow> nat \<times> npshell" where
  "path_normal sys n prc argv fd_in s =
     (if n \<noteq> 1 then
        (let (p0, p1, s) = sys_pipe s;
             s = close_0_rest_line_pipe_out s;
             s = path_spawn sys argv (pipeline_fds (prc = n - 1) p0 p1 fd_in s) None s;
             s = close_fd p1 s;
             s = (if prc = n - 1 then close_fd p0 s else s)
         in (p0, drop_dead_pipes s))
      else
        (let s = close_0_rest_line_pipe_out s;
             s = path_spawn sys argv (single_fds s) None s
         in (fd_in, drop_dead_pipes s)))"

section \<open>Built-in commands\<close>

text \<open>\<^verbatim>\<open>printenv\<close> of a variable that is not set hands the null pointer to \<^verbatim>\<open>printf\<close>.\<close>

definition path_printenv :: "string list \<Rightarrow> path_shell \<Rightarrow> path_shell result" where
  "path_printenv args s =
     (case args of
        [] \<Rightarrow> Inr s
      | a # _ \<Rightarrow>
          (case sh_env (ps_sh s) a of
             None \<Rightarrow> Inl NullDeref
           | Some v \<Rightarrow> Inr (s\<lparr>ps_sh := sh_event (Output (v @ [NL])) (ps_sh s)\<rparr>)))"

definition path_setenv :: "string list \<Rightarrow> path_shell \<Rightarrow> path_shell result" where
  "path_setenv args s =
     (case args of
        [] \<Rightarrow> Inl NullDeref
      | a # rest \<Rightarrow>
          (let s = s\<lparr>ps_sh := setenv_builtin args (ps_sh s)\<rparr>
           in if a = ''PATH''
              then Inr (s\<lparr>ps_dirs := LineDirs (set_PATH_array (case rest of [] \<Rightarrow> ps_left s | v # _ \<Rightarrow> v)), ps_left := []\<rparr>)
              else Inr s))"

section \<open>The loop\<close>

fun path_loop ::
  "os \<Rightarrow> nat \<Rightarrow> nat \<Rightarrow> string list list \<Rightarrow> nat \<Rightarrow> nat \<Rightarrow> path_shell \<Rightarrow> path_shell result" where
  "path_loop sys n prc [] fd_in out s = Inr s"
| "path_loop sys n prc ([] # procs) fd_in out s = Inl NullDeref"
| "path_loop sys n prc ((c # args) # procs) fd_in out s =
     (if c = ''printenv'' then ebind (path_printenv args s) (path_loop sys n (prc + 1) procs fd_in out)
      else if c = ''setenv'' then ebind (path_setenv args s) (path_loop sys n (prc + 1) procs fd_in out)
      else if c = ''exit'' then Inr (s\<lparr>ps_sh := sh_event Exit ((ps_sh s)\<lparr>sh_exited := True\<rparr>)\<rparr>)
      else ebind (find_command sys (ps_dirs s) c) (\<lambda>found.
        if \<not> found then
          path_loop sys n (prc + 1) procs fd_in out (s\<lparr>ps_sh := sh_event (Output (unknown_command c)) (ps_sh s)\<rparr>)
        else if write_file_flag (ps_sh s) \<and> prc = n - 1 then
          path_loop sys n (prc + 1) procs fd_in out (s\<lparr>ps_sh := path_redirect sys n (c # args) fd_in (ps_sh s)\<rparr>)
        else if (shock_pipe_out_flag (ps_sh s) \<or> num_pipe_out_flag (ps_sh s)) \<and> prc = n - 1 then
          path_loop sys n (prc + 1) procs fd_in out (s\<lparr>ps_sh := path_numbered sys n (c # args) fd_in out (ps_sh s)\<rparr>)
        else
          (let (fd_in, t) = path_normal sys n prc (c # args) fd_in (ps_sh s)
           in path_loop sys n (prc + 1) procs fd_in out (s\<lparr>ps_sh := t\<rparr>))))"

text \<open>
  One turn.  What pointed into the \<^verbatim>\<open>line\<close> of the turn before is dead.
\<close>

definition path_line :: "os \<Rightarrow> string \<Rightarrow> path_shell \<Rightarrow> path_shell result" where
  "path_line sys raw s =
     (let t = sh_event Prompt ((ps_sh s)\<lparr>line_end_with_pipe := False\<rparr>);
          dirs = (case ps_dirs s of LineDirs (d # ds) \<Rightarrow> DeadDirs | _ \<Rightarrow> ps_dirs s);
          line = cstr raw
      in if line = [] then Inl OutOfRange
         else
           (let toks = tokens (\<lambda>c. c = CHR '' '') (butlast line);
                t = (if toks \<noteq> [] \<and> num_pipe_vec t \<noteq> [] then decrease_line_count t else t)
            in ebind (combine toks [] 1 t) (\<lambda>(procs, out, t).
                 ebind (path_loop sys (length procs) 0 procs 0 out
                          \<lparr>ps_sh = t, ps_dirs = dirs, ps_left = strtok_left toks []\<rparr>) (\<lambda>s.
                   Inr (if sh_exited (ps_sh s) \<or> line_end_with_pipe (ps_sh s) then s
                        else s\<lparr>ps_sh := sh_event WaitAll (ps_sh s)\<rparr>)))))"

fun path_lines :: "os \<Rightarrow> string list \<Rightarrow> path_shell \<Rightarrow> path_shell result" where
  "path_lines sys [] s = Inr s"
| "path_lines sys (raw # raws) s =
     (if sh_exited (ps_sh s) then Inr s else ebind (path_line sys raw s) (path_lines sys raws))"

end
