(* ===== verification/Path_Claims.thy ===== *)
theory Path_Claims
  imports Path_Shell Shell_P1_Claims
begin

text \<open>
  The properties of the early shell of project 1: where it agrees with the later one, and what its
  own handling of the search path and of unknown commands does.
\<close>

section \<open>Data for the witnesses\<close>

definition demo_path_os :: os where
  "demo_path_os = \<lparr>os_exec = (\<lambda>e argv. True), os_access = (\<lambda>f. f = ''bin/ls'' \<or> f = ''bin/cat''), os_open = (\<lambda>f. True)\<rparr>"

definition demo_path_shell :: path_shell where
  "demo_path_shell = \<lparr>ps_sh = demo_shell, ps_dirs = RootDirs (set_PATH_array ''bin:.''), ps_left = []\<rparr>"

section \<open>Agreement with the later shell\<close>

lemma path_spawn_executes:
  "os_exec sys (sh_env s) argv \<Longrightarrow> path_spawn sys argv t trunc s = spawn sys argv t trunc s"
  by (simp add: path_spawn_def spawn_def exec_child_def)

lemma path_branches:
  assumes "os_exec sys (sh_env s) argv"
  shows "path_redirect sys n argv fd_in s = exec_redirect sys n argv fd_in s"
    and "path_numbered sys n argv fd_in out s = exec_numbered sys n argv fd_in out s"
    and "path_normal sys n prc argv fd_in s = exec_normal sys n prc argv fd_in s"
proof -
  have e: "sh_env (close_0_rest_line_pipe_out u) = sh_env u" for u :: npshell
    by (simp add: close_0_rest_line_pipe_out_def)
  show "path_redirect sys n argv fd_in s = exec_redirect sys n argv fd_in s"
    and "path_numbered sys n argv fd_in out s = exec_numbered sys n argv fd_in out s"
    using assms by (simp_all add: path_redirect_def exec_redirect_def path_numbered_def exec_numbered_def
        path_spawn_executes e Let_def)
  obtain p0 p1 s1 where p: "sys_pipe s = (p0, p1, s1)" by (cases "sys_pipe s")
  then have "sh_env s1 = sh_env s" by (auto elim: sys_pipeE)
  then show "path_normal sys n prc argv fd_in s = exec_normal sys n prc argv fd_in s"
    using assms p by (simp add: path_normal_def exec_normal_def path_spawn_executes e Let_def)
qed

definition found_external :: "os \<Rightarrow> path_array \<Rightarrow> environ \<Rightarrow> string list \<Rightarrow> bool" where
  "found_external sys dirs e p \<longleftrightarrow> p \<noteq> [] \<and> \<not> is_builtin (hd p) \<and> find_command sys dirs (hd p) = Inr True
     \<and> os_exec sys e p"

lemma exec_normal_env: "sh_env (snd (exec_normal sys n prc argv fd_in s)) = sh_env s"
proof -
  obtain p0 p1 s1 where p: "sys_pipe s = (p0, p1, s1)" by (cases "sys_pipe s")
  then have "sh_env s1 = sh_env s" by (auto elim: sys_pipeE)
  then show ?thesis using p by (simp add: exec_normal_def Let_def)
qed

lemma parse_op_env: "parse_op w rest out s = Inr (rest', out', s') \<Longrightarrow> sh_env s' = sh_env s"
  by (auto simp: parse_op_def set_redirection_def number_pipe_out_def Let_def sh_event_def
      split: if_splits list.splits option.splits prod.splits elim!: sys_pipeE)

lemma combine_env: "combine toks procs out s = Inr (procs', out', s') \<Longrightarrow> sh_env s' = sh_env s"
proof (induction toks procs out s rule: combine.induct)
  case (1 toks procs out s)
  let ?ws = "takeWhile (\<lambda>w. \<not> is_op w) toks"
  note eq = "1.prems" [unfolded combine.simps [of toks procs out s]]
  show ?case
  proof (cases "toks = [] \<or> dropWhile (\<lambda>w. \<not> is_op w) toks = []")
    case True
    then show ?thesis using eq by (auto simp: Let_def split: if_splits simp del: dropWhile_eq_Nil_conv)
  next
    case False
    then obtain w rest where toks: "toks \<noteq> []" and Cons: "dropWhile (\<lambda>w. \<not> is_op w) toks = w # rest"
      by (metis neq_Nil_conv)
    have ok: "\<not> (9 < length ?ws \<or> 5000 \<le> length procs)"
      using eq toks by (auto simp: Let_def split: if_splits)
    obtain rest1 out1 s1 where op: "parse_op w rest out s = Inr (rest1, out1, s1)"
      and rec: "combine rest1 (procs @ [?ws]) out1 s1 = Inr (procs', out', s')"
      using eq toks ok Cons by (auto simp: Let_def split: sum.splits)
    show ?thesis
      using "1.IH" [OF toks refl refl ok Cons op refl refl rec] parse_op_env [OF op] by simp
  qed
qed

lemma path_loop_project1:
  assumes "\<forall>p\<in>set procs. found_external sys (ps_dirs s) (sh_env (ps_sh s)) p"
  shows "path_loop sys n prc procs fd_in out s =
    ebind (exec_loop sys n prc procs fd_in out (ps_sh s)) (\<lambda>t. Inr (s\<lparr>ps_sh := t\<rparr>))"
  using assms
proof (induction procs arbitrary: prc fd_in s)
  case (Cons p procs)
  then obtain c args where p: "p = c # args" by (cases p) (auto simp: found_external_def)
  have c: "c \<noteq> ''printenv''" "c \<noteq> ''setenv''" "c \<noteq> ''exit''" "find_command sys (ps_dirs s) c = Inr True"
    "os_exec sys (sh_env (ps_sh s)) (c # args)"
    using Cons.prems p by (auto simp: found_external_def is_builtin_def)
  have env: "sh_env (exec_redirect sys n (c # args) fd_in (ps_sh s)) = sh_env (ps_sh s)"
    "sh_env (exec_numbered sys n (c # args) fd_in out (ps_sh s)) = sh_env (ps_sh s)"
    "sh_env (snd (exec_normal sys n prc (c # args) fd_in (ps_sh s))) = sh_env (ps_sh s)"
    by (simp_all add: exec_normal_env exec_redirect_parent exec_numbered_parent)
  have IH: "path_loop sys n prc' procs fd_in' out (s\<lparr>ps_sh := u\<rparr>) =
      ebind (exec_loop sys n prc' procs fd_in' out u) (\<lambda>t. Inr (s\<lparr>ps_sh := t\<rparr>))"
    if "sh_env u = sh_env (ps_sh s)" for u prc' fd_in'
    using Cons.IH [of "s\<lparr>ps_sh := u\<rparr>" prc' fd_in'] Cons.prems that by simp
  show ?case using c env by (simp add: p path_branches case_prod_unfold Let_def IH)
qed simp

text \<open>
  C3. The early shell agrees with the later one on everything that is there: a line whose commands are
  all found by both, so that each of them executes, has the same children, descriptors, numbered
  pipes, files and errors in both.\<close>

theorem path_line_is_project1_line:
  assumes "combine (line_tokens raw) [] 1 (count_down raw (ps_sh s)) = Inr (procs, out, t)"
    and "\<forall>p\<in>set procs. found_external sys (ps_dirs s) (sh_env (ps_sh s)) p"
    and "ps_dirs s = RootDirs ds"
  shows "path_line sys raw s = ebind (shell_line sys raw (ps_sh s))
    (\<lambda>t. Inr (s\<lparr>ps_sh := t, ps_left := strtok_left (line_tokens raw) []\<rparr>))"
proof -
  let ?s = "\<lparr>ps_sh = t, ps_dirs = RootDirs ds, ps_left = strtok_left (line_tokens raw) []\<rparr>"
  have "sh_env t = sh_env (ps_sh s)" using combine_env [OF assms(1)] by (simp add: count_down_core)
  then have l: "path_loop sys (length procs) 0 procs 0 out ?s =
      ebind (exec_loop sys (length procs) 0 procs 0 out t) (\<lambda>t. Inr (?s\<lparr>ps_sh := t\<rparr>))"
    using path_loop_project1 [of procs sys ?s] assms(2,3) by simp
  have s: "s\<lparr>ps_sh := u, ps_left := l\<rparr> = \<lparr>ps_sh = u, ps_dirs = RootDirs ds, ps_left = l\<rparr>" for u l
    using assms(3) by (cases s) simp
  show ?thesis
    using assms(1,3) l
    by (cases "exec_loop sys (length procs) 0 procs 0 out t")
      (simp_all add: path_line_def shell_line_def Let_def line_tokens_def [symmetric] count_down_def s)
qed

theorem path_line_is_project1_line_witness:
  "path_line demo_path_os (''ls | cat |2'' @ [NL]) demo_path_shell =
     ebind (shell_line demo_path_os (''ls | cat |2'' @ [NL]) (ps_sh demo_path_shell))
       (\<lambda>t. Inr (demo_path_shell\<lparr>ps_sh := t, ps_left := strtok_left (line_tokens (''ls | cat |2'' @ [NL])) []\<rparr>))"
proof -
  let ?c = "combine (line_tokens (''ls | cat |2'' @ [NL])) [] 1 (count_down (''ls | cat |2'' @ [NL]) (ps_sh demo_path_shell))"
  have "case ?c of Inl _ \<Rightarrow> False | Inr (procs, _) \<Rightarrow> procs = [[''ls''], [''cat'']]" by code_simp
  then obtain out t where c: "?c = Inr ([[''ls''], [''cat'']], out, t)" by (cases ?c) auto
  have f: "find_command demo_path_os (ps_dirs demo_path_shell) ''ls'' = Inr True"
    "find_command demo_path_os (ps_dirs demo_path_shell) ''cat'' = Inr True" by code_simp+
  have "os_exec demo_path_os e p" for e p by (simp add: demo_path_os_def)
  then have p: "\<forall>p\<in>set [[''ls''], [''cat'']]. found_external demo_path_os (ps_dirs demo_path_shell)
      (sh_env (ps_sh demo_path_shell)) p"
    using f by (simp add: found_external_def is_builtin_def)
  show ?thesis by (rule path_line_is_project1_line [OF c p]) (simp add: demo_path_shell_def)
qed

section \<open>Unknown commands\<close>

lemma combine_simple_words:
  "\<forall>w\<in>set ws. \<not> is_op w \<Longrightarrow> ws \<noteq> [] \<Longrightarrow> length ws \<le> 9 \<Longrightarrow> combine ws [] out s = Inr ([ws], out, s)"
  by (simp add: combine.simps [of ws] Let_def takeWhile_eq_all_conv [THEN iffD2] dropWhile_eq_Nil_conv [THEN iffD2])

lemma strtok_left_words: "\<forall>w\<in>set ws. \<not> is_op w \<Longrightarrow> strtok_left ws left = left"
  by (induction ws) (auto simp: is_op_def)

lemma count_down_pending:
  "np \<in> set (num_pipe_vec u) \<Longrightarrow> line_tokens raw \<noteq> [] \<Longrightarrow>
   np\<lparr>rest_line := rest_line np - 1\<rparr> \<in> set (num_pipe_vec (count_down raw u))"
  by (simp add: count_down_core)

definition live_dirs :: "path_array \<Rightarrow> bool" where
  "live_dirs dirs \<longleftrightarrow> (case dirs of RootDirs ds \<Rightarrow> True | LineDirs ds \<Rightarrow> ds = [] | DeadDirs \<Rightarrow> False)"

text \<open>
  What a line of this shell keeps of the numbered pipes, as for the later shell: the branches differ
  from its branches in the log only.
\<close>

lemma path_branch_cores:
  "k_fds (path_redirect sys n argv fd_in s) = k_fds (exec_redirect sys n argv fd_in s)"
  "k_next (path_redirect sys n argv fd_in s) = k_next (exec_redirect sys n argv fd_in s)"
  "num_pipe_vec (path_redirect sys n argv fd_in s) = num_pipe_vec (exec_redirect sys n argv fd_in s)"
  "num_pipe_in_flag (path_redirect sys n argv fd_in s) = num_pipe_in_flag (exec_redirect sys n argv fd_in s)"
  "k_fds (path_numbered sys n argv fd_in out s) = k_fds (exec_numbered sys n argv fd_in out s)"
  "k_next (path_numbered sys n argv fd_in out s) = k_next (exec_numbered sys n argv fd_in out s)"
  "num_pipe_vec (path_numbered sys n argv fd_in out s) = num_pipe_vec (exec_numbered sys n argv fd_in out s)"
  "num_pipe_in_flag (path_numbered sys n argv fd_in out s) = num_pipe_in_flag (exec_numbered sys n argv fd_in out s)"
  by (simp_all add: path_redirect_def exec_redirect_def path_numbered_def exec_numbered_def path_spawn_def spawn_def
      sh_event_def Let_def close_fd_def drop_dead_pipes_def close_0_rest_line_pipe_in_def close_0_rest_line_pipe_out_def)

lemma path_normal_cores:
  "fst (path_normal sys n prc argv fd_in s) = fst (exec_normal sys n prc argv fd_in s)"
  "k_fds (snd (path_normal sys n prc argv fd_in s)) = k_fds (snd (exec_normal sys n prc argv fd_in s))"
  "k_next (snd (path_normal sys n prc argv fd_in s)) = k_next (snd (exec_normal sys n prc argv fd_in s))"
  "num_pipe_vec (snd (path_normal sys n prc argv fd_in s)) = num_pipe_vec (snd (exec_normal sys n prc argv fd_in s))"
  "num_pipe_in_flag (snd (path_normal sys n prc argv fd_in s)) = num_pipe_in_flag (snd (exec_normal sys n prc argv fd_in s))"
  by (simp_all add: path_normal_def exec_normal_def path_spawn_def spawn_def sh_event_def Let_def close_fd_def
      drop_dead_pipes_def close_0_rest_line_pipe_in_def close_0_rest_line_pipe_out_def split: prod.split)

lemma kept_core:
  assumes "kept s u" and "k_fds u' = k_fds u" and "k_next u' = k_next u" and "num_pipe_vec u' = num_pipe_vec u"
    and "num_pipe_in_flag u' = num_pipe_in_flag u"
  shows "kept s u'" and "std_ok u' = std_ok u" and "fd_in_ok u' fd = fd_in_ok u fd"
proof -
  note c = same_core [OF assms(2-5)]
  show "kept s u'" using assms(1) c(1,2) frame_trans [OF _ c(4)] by (simp add: kept_def)
  show "std_ok u' = std_ok u" "fd_in_ok u' fd = fd_in_ok u fd" by (rule c(3), rule c(5))
qed

lemma kept_refl: "pipes_wf s \<Longrightarrow> dead_flagged s \<Longrightarrow> kept s s"
  by (simp add: kept_def frame_refl)

lemma path_builtin_core:
  assumes "path_printenv args s = Inr t \<or> path_setenv args s = Inr t"
  shows "k_fds (ps_sh t) = k_fds (ps_sh s)" and "k_next (ps_sh t) = k_next (ps_sh s)"
    and "num_pipe_vec (ps_sh t) = num_pipe_vec (ps_sh s)" and "num_pipe_in_flag (ps_sh t) = num_pipe_in_flag (ps_sh s)"
  using assms
  by (auto simp: path_printenv_def path_setenv_def Let_def builtin_core split: list.splits option.splits if_splits)

lemma path_loop_ConsE:
  assumes "path_loop sys n prc (argv # procs) fd_in out s = Inr s'"
  obtains (plain) s1 where "k_fds (ps_sh s1) = k_fds (ps_sh s)" "k_next (ps_sh s1) = k_next (ps_sh s)"
      "num_pipe_vec (ps_sh s1) = num_pipe_vec (ps_sh s)" "num_pipe_in_flag (ps_sh s1) = num_pipe_in_flag (ps_sh s)"
      "path_loop sys n (prc + 1) procs fd_in out s1 = Inr s' \<or> s' = s1"
  | (last) t where "t = path_redirect sys n argv fd_in (ps_sh s) \<or> t = path_numbered sys n argv fd_in out (ps_sh s)"
      "prc = n - 1" "path_loop sys n (prc + 1) procs fd_in out (s\<lparr>ps_sh := t\<rparr>) = Inr s'"
  | (normal) fd1 t where "path_normal sys n prc argv fd_in (ps_sh s) = (fd1, t)"
      "path_loop sys n (prc + 1) procs fd1 out (s\<lparr>ps_sh := t\<rparr>) = Inr s'"
proof (cases argv)
  case Nil
  then show ?thesis using assms by simp
next
  case (Cons c args)
  consider "c = ''printenv'' \<or> c = ''setenv''" | "c = ''exit''" | "c \<noteq> ''printenv'' \<and> c \<noteq> ''setenv'' \<and> c \<noteq> ''exit''" by blast
  then show ?thesis
  proof cases
    case 1
    then obtain s1 where "path_printenv args s = Inr s1 \<or> path_setenv args s = Inr s1"
      "path_loop sys n (prc + 1) procs fd_in out s1 = Inr s'"
      using assms Cons by (auto split: if_splits)
    then show ?thesis using plain [of s1] path_builtin_core [of args s s1] by blast
  next
    case 2
    then have "s' = s\<lparr>ps_sh := sh_event Exit ((ps_sh s)\<lparr>sh_exited := True\<rparr>)\<rparr>" using assms Cons by simp
    then show ?thesis using plain [of s'] by (simp add: sh_event_def)
  next
    case 3
    then obtain found where f: "find_command sys (ps_dirs s) c = Inr found" using assms Cons by auto
    obtain fd1 t where n: "path_normal sys n prc argv fd_in (ps_sh s) = (fd1, t)"
      by (cases "path_normal sys n prc argv fd_in (ps_sh s)")
    show ?thesis
    proof (cases found)
      case False
      then show ?thesis using assms 3 f Cons plain [of "s\<lparr>ps_sh := sh_event (Output (unknown_command c)) (ps_sh s)\<rparr>"]
        by (simp add: sh_event_def)
    next
      case True
      then show ?thesis
        using assms 3 f Cons n last [of "path_redirect sys n argv fd_in (ps_sh s)"]
          last [of "path_numbered sys n argv fd_in out (ps_sh s)"] normal [of fd1 t]
        by (auto simp: Let_def split: if_splits)
    qed
  qed
qed

lemma path_loop_kept:
  assumes "path_loop sys n prc procs fd_in out s = Inr s'" and "prc + length procs = n"
    and "pipes_wf (ps_sh s)" "std_ok (ps_sh s)" "dead_flagged (ps_sh s)" "fd_in_ok (ps_sh s) fd_in"
  shows "kept (ps_sh s) (ps_sh s') \<and> (fd_get (k_fds (ps_sh s')) 0 \<noteq> None \<longrightarrow> std_ok (ps_sh s'))"
  using assms
proof (induction procs arbitrary: prc fd_in s)
  case Nil
  then show ?case by (auto simp: kept_refl)
next
  case (Cons argv procs)
  note IH = Cons.IH [of "prc + 1"]
  from Cons.prems(1) show ?case
  proof (cases rule: path_loop_ConsE)
    case (plain s1)
    note c = same_core [OF plain(1-4)] and k = kept_core [OF kept_refl [OF Cons.prems(3,5)] plain(1-4)]
    show ?thesis
    proof (cases "s' = s1")
      case True
      then show ?thesis using k(1) c(3) Cons.prems(4) by simp
    next
      case False
      then have "path_loop sys n (prc + 1) procs fd_in out s1 = Inr s'" using plain(5) by blast
      from IH [OF this] Cons.prems c k(1) show ?thesis by (auto intro: kept_trans)
    qed
  next
    case (last t)
    have "length procs = 0" using Cons.prems(2) last(2) by (cases n) auto
    then have s': "ps_sh s' = t" using last(3) by auto
    have k: "kept (ps_sh s) t"
      using last(1) kept_core(1) [OF exec_redirect_kept(1) [OF Cons.prems(3-6)] path_branch_cores(1-4)]
        kept_core(1) [OF exec_numbered_kept(1) [OF Cons.prems(3-6)] path_branch_cores(5-8)] by blast
    have "std_ok t" if "fd_get (k_fds t) 0 \<noteq> None"
      using k that Cons.prems(4) by (auto simp: kept_def frame_def std_ok_def less_Suc_eq numeral_3_eq_3 numeral_2_eq_2)
    with k s' show ?thesis by simp
  next
    case (normal fd1 t)
    obtain u where u: "exec_normal sys n prc argv fd_in (ps_sh s) = (fd1, u)"
      using path_normal_cores(1) [of sys n prc argv fd_in "ps_sh s"] normal(1)
      by (cases "exec_normal sys n prc argv fd_in (ps_sh s)") simp
    have e: "k_fds t = k_fds u" "k_next t = k_next u" "num_pipe_vec t = num_pipe_vec u" "num_pipe_in_flag t = num_pipe_in_flag u"
      using path_normal_cores(2-5) [of sys n prc argv fd_in "ps_sh s"] normal(1) u by simp_all
    have k: "kept (ps_sh s) u \<and> std_ok u \<and> fd_in_ok u fd1" using exec_normal_kept [OF Cons.prems(3-6) u] by blast
    note t = kept_core [OF conjunct1 [OF k] e]
    have "pipes_wf (ps_sh (s\<lparr>ps_sh := t\<rparr>))" "dead_flagged (ps_sh (s\<lparr>ps_sh := t\<rparr>))" "std_ok (ps_sh (s\<lparr>ps_sh := t\<rparr>))"
      "fd_in_ok (ps_sh (s\<lparr>ps_sh := t\<rparr>)) fd1" using t k by (simp_all add: kept_def)
    then have "kept t (ps_sh s') \<and> (fd_get (k_fds (ps_sh s')) 0 \<noteq> None \<longrightarrow> std_ok (ps_sh s'))"
      using IH [OF normal(2)] Cons.prems(2) by simp
    with t(1) show ?thesis by (blast intro: kept_trans)
  qed
qed

lemma path_lineE:
  assumes "path_line sys raw s = Inr s'"
  obtains procs out t dirs left u where "combine (line_tokens raw) [] 1 (count_down raw (ps_sh s)) = Inr (procs, out, t)"
    and "path_loop sys (length procs) 0 procs 0 out \<lparr>ps_sh = t, ps_dirs = dirs, ps_left = left\<rparr> = Inr u"
    and "ps_sh s' = ps_sh u \<or> ps_sh s' = sh_event WaitAll (ps_sh u)"
proof -
  let ?dirs = "case ps_dirs s of LineDirs (d # ds) \<Rightarrow> DeadDirs | _ \<Rightarrow> ps_dirs s"
  obtain procs out t u where "combine (line_tokens raw) [] 1 (count_down raw (ps_sh s)) = Inr (procs, out, t)"
    and "path_loop sys (length procs) 0 procs 0 out
      \<lparr>ps_sh = t, ps_dirs = ?dirs, ps_left = strtok_left (line_tokens raw) []\<rparr> = Inr u"
    and "s' = (if sh_exited (ps_sh u) \<or> line_end_with_pipe (ps_sh u) then u else u\<lparr>ps_sh := sh_event WaitAll (ps_sh u)\<rparr>)"
    using assms by (auto simp: path_line_def Let_def line_tokens_def count_down_def split: if_split_asm)
  then show thesis using that [of procs out t ?dirs "strtok_left (line_tokens raw) []" u] by (simp split: if_splits)
qed

lemma path_line_kept:
  assumes "path_line sys raw s = Inr s'" and "shell_inv (ps_sh s)" and "valid_line raw"
  shows "(fd_get (k_fds (ps_sh s')) 0 \<noteq> None \<longrightarrow> shell_inv (ps_sh s'))
    \<and> (\<forall>t\<in>set (num_pipe_vec (count_down raw (ps_sh s))). rest_line t \<noteq> 0 \<or> line_tokens raw = [] \<longrightarrow>
         t \<in> set (num_pipe_vec (ps_sh s'))
         \<and> fd_get (k_fds (ps_sh s')) (np_r t) = fd_get (k_fds (ps_sh s)) (np_r t)
         \<and> fd_get (k_fds (ps_sh s')) (np_w t) = fd_get (k_fds (ps_sh s)) (np_w t))"
proof -
  let ?s0 = "count_down raw (ps_sh s)"
  obtain procs out s1 dirs left u where c: "combine (line_tokens raw) [] 1 ?s0 = Inr (procs, out, s1)"
    and e: "path_loop sys (length procs) 0 procs 0 out \<lparr>ps_sh = s1, ps_dirs = dirs, ps_left = left\<rparr> = Inr u"
    and s': "ps_sh s' = ps_sh u \<or> ps_sh s' = sh_event WaitAll (ps_sh u)"
    by (rule path_lineE [OF assms(1)])
  have inv: "shell_inv ?s0" using count_down_inv [OF assms(2)] .
  have core: "k_fds (ps_sh s') = k_fds (ps_sh u)" "k_next (ps_sh s') = k_next (ps_sh u)"
    "num_pipe_vec (ps_sh s') = num_pipe_vec (ps_sh u)" "num_pipe_in_flag (ps_sh s') = num_pipe_in_flag (ps_sh u)"
    using s' by (auto simp: builtin_core)
  show ?thesis
  proof (cases "line_tokens raw = []")
    case True
    then have "ps_sh u = ?s0" using c e by (auto simp: combine.simps [of "[]"])
    with core same_core [OF core] inv show ?thesis by (simp add: shell_inv_def count_down_core)
  next
    case False
    have p: "parsed ?s0 s1" using combine_parsed [OF c] inv assms(3) by (simp add: shell_inv_def valid_line_def list_all_iff)
    then obtain new where new: "num_pipe_vec s1 = num_pipe_vec ?s0 @ new" "\<forall>t\<in>set new. 1 \<le> rest_line t"
      by (auto simp: parsed_def)
    have "dead_flagged s1" using inv p new by (fastforce simp: shell_inv_def dead_flagged_def parsed_def)
    then have k: "kept s1 (ps_sh u) \<and> (fd_get (k_fds (ps_sh u)) 0 \<noteq> None \<longrightarrow> std_ok (ps_sh u))"
      using path_loop_kept [OF e] p by (simp add: parsed_def fd_in_ok_def)
    then have "fd_get (k_fds (ps_sh s')) 0 \<noteq> None \<longrightarrow> shell_inv (ps_sh s')"
      using same_core [OF core] core(1) by (auto simp: kept_def shell_inv_def)
    moreover have "t \<in> set (num_pipe_vec (ps_sh s')) \<and> fd_get (k_fds (ps_sh s')) (np_r t) = fd_get (k_fds (ps_sh s)) (np_r t)
         \<and> fd_get (k_fds (ps_sh s')) (np_w t) = fd_get (k_fds (ps_sh s)) (np_w t)"
      if t: "t \<in> set (num_pipe_vec ?s0)" "rest_line t \<noteq> 0" for t
    proof -
      have "t \<in> set (num_pipe_vec s1)" using t new by simp
      moreover have "fd_get (k_fds s1) (np_r t) = fd_get (k_fds (ps_sh s)) (np_r t)"
          "fd_get (k_fds s1) (np_w t) = fd_get (k_fds (ps_sh s)) (np_w t)"
        using p pipes_wfD(1) [of ?s0 t] inv t(1) unfolding parsed_def shell_inv_def
        by (metis count_down_core(1) option.distinct(1))+
      ultimately show ?thesis using k t(2) core by (auto simp: kept_def frame_def)
    qed
    ultimately show ?thesis using False by blast
  qed
qed

text \<open>Further lines, as long as none of them closes the shell's standard input.\<close>

fun stdin_open :: "os \<Rightarrow> string list \<Rightarrow> path_shell \<Rightarrow> bool" where
  "stdin_open sys [] s = True"
| "stdin_open sys (raw # raws) s =
     (case path_line sys raw s of Inl _ \<Rightarrow> True | Inr t \<Rightarrow> fd_get (k_fds (ps_sh t)) 0 \<noteq> None \<and> stdin_open sys raws t)"

definition commands_in :: "string list \<Rightarrow> int" where
  "commands_in raws = int (length (filter (\<lambda>raw. line_tokens raw \<noteq> []) raws))"

lemma path_exited: "path_lines sys raws s = Inr s' \<Longrightarrow> sh_exited (ps_sh s) \<Longrightarrow> s' = s"
  by (cases raws) simp_all

lemma overdue_pipe_stays:
  assumes "path_lines sys raws s = Inr s'" and "shell_inv (ps_sh s)" and "\<forall>raw\<in>set raws. valid_line raw"
    and "stdin_open sys raws s" and "\<not> sh_exited (ps_sh s')" and "np \<in> set (num_pipe_vec (ps_sh s))" and "rest_line np \<le> 0"
  shows "np\<lparr>rest_line := rest_line np - commands_in raws\<rparr> \<in> set (num_pipe_vec (ps_sh s'))
    \<and> fd_get (k_fds (ps_sh s')) (np_r np) = fd_get (k_fds (ps_sh s)) (np_r np)
    \<and> fd_get (k_fds (ps_sh s')) (np_w np) = fd_get (k_fds (ps_sh s)) (np_w np)"
  using assms
proof (induction raws arbitrary: s np)
  case Nil
  then show ?case by (simp add: commands_in_def)
next
  case (Cons raw raws)
  have run: "\<not> sh_exited (ps_sh s)" using Cons.prems(1,5) path_exited [of sys "raw # raws" s s'] by auto
  then obtain t where t: "path_line sys raw s = Inr t" "path_lines sys raws t = Inr s'"
    using Cons.prems(1) by (cases "path_line sys raw s") simp_all
  let ?np = "np\<lparr>rest_line := rest_line np - (if line_tokens raw = [] then 0 else 1)\<rparr>"
  have v: "valid_line raw" "fd_get (k_fds (ps_sh t)) 0 \<noteq> None" "stdin_open sys raws t"
    using Cons.prems(3,4) t(1) by simp_all
  note k = path_line_kept [OF t(1) Cons.prems(2) v(1)]
  have "?np \<in> set (num_pipe_vec (count_down raw (ps_sh s)))" using Cons.prems(6) by (auto simp: count_down_core)
  then have n: "?np \<in> set (num_pipe_vec (ps_sh t))"
    "fd_get (k_fds (ps_sh t)) (np_r np) = fd_get (k_fds (ps_sh s)) (np_r np)"
    "fd_get (k_fds (ps_sh t)) (np_w np) = fd_get (k_fds (ps_sh s)) (np_w np)"
    using k Cons.prems(7) by fastforce+
  have "rest_line ?np \<le> 0" using Cons.prems(7) by simp
  from Cons.IH [OF t(2) _ _ v(3) Cons.prems(5) n(1) this] k v(2) Cons.prems(3) n(2,3)
  show ?case by (auto simp: commands_in_def algebra_simps split: if_splits)
qed


definition demo_due :: path_shell where
  "demo_due = projr (path_line demo_path_os (''ls |1'' @ [NL]) demo_path_shell)"


text \<open>
  After \<^verbatim>\<open>setenv PATH\<close> with any directory the shell looks commands up through dangling pointers: the
  pieces of the value lie in the line that the next turn reads over, and the first command that is
  not built in goes through them.\<close>

theorem setenv_path_dangles:
  assumes "line_tokens raw = [''setenv'', ''PATH'', v]" and "\<not> is_op v" and "set_PATH_array v \<noteq> []"
    and "line_tokens raw' = w # args" and "\<forall>v\<in>set (w # args). \<not> is_op v" and "length args < 9"
    and "\<not> is_builtin w" and "\<not> sh_exited (ps_sh s)"
  shows "path_lines sys [raw, raw'] s = Inl DanglingPointer"
proof -
  let ?t = "count_down raw (ps_sh s)"
  have op: "\<not> is_op ''setenv''" "\<not> is_op ''PATH''" by (simp_all add: is_op_def)
  have comb: "combine (line_tokens raw) [] 1 ?t = Inr ([line_tokens raw], 1, ?t)"
    using combine_simple_words [of "line_tokens raw" 1 ?t] assms(1,2) op by simp
  have "cstr raw \<noteq> []" using assms(1) by (auto simp: line_tokens_def)
  then have run: "path_line sys raw s = Inr \<lparr>ps_sh = sh_event WaitAll (?t\<lparr>sh_env := sys_setenv ''PATH'' v (sh_env ?t)\<rparr>),
      ps_dirs = LineDirs (set_PATH_array v), ps_left = []\<rparr>" (is "_ = Inr ?s")
    using comb assms(1,8)
    by (simp add: path_line_def Let_def line_tokens_def [symmetric] count_down_def sh_event_def path_setenv_def
        setenv_builtin_def decrease_line_count_def)
  obtain d ds where d: "set_PATH_array v = d # ds" using assms(3) by (cases "set_PATH_array v") simp_all
  have "cstr raw' \<noteq> []" using assms(4) by (auto simp: line_tokens_def)
  moreover have "combine (line_tokens raw') [] 1 (count_down raw' (ps_sh ?s)) = Inr ([w # args], 1, count_down raw' (ps_sh ?s))"
    using combine_simple_words [of "w # args"] assms(4-6) by simp
  ultimately have "path_line sys raw' ?s = Inl DanglingPointer"
    using d assms(4,7)
    by (simp add: path_line_def Let_def line_tokens_def [symmetric] count_down_def is_builtin_def find_command_def)
  then show ?thesis using run assms(8) by (simp add: sh_event_def count_down_core)
qed

theorem setenv_path_dangles_witness:
  "path_lines demo_path_os [''setenv PATH bin'' @ [NL], ''ls'' @ [NL]] demo_path_shell = Inl DanglingPointer"
proof -
  have t: "line_tokens (''setenv PATH bin'' @ [NL]) = [''setenv'', ''PATH'', ''bin'']"
    "line_tokens (''ls'' @ [NL]) = [''ls'']" "set_PATH_array ''bin'' \<noteq> []" by code_simp+
  have o: "\<not> is_op ''bin''" "\<forall>v\<in>set [''ls'']. \<not> is_op v" "\<not> is_builtin ''ls''"
    "\<not> sh_exited (ps_sh demo_path_shell)"
    by (simp_all add: is_op_def is_builtin_def demo_path_shell_def)
  show ?thesis by (rule setenv_path_dangles [OF t(1) o(1) t(3) t(2) o(2) _ o(3,4)]) simp
qed

text \<open>
  The search path is cut at its first colon only, since the later calls of \<^verbatim>\<open>strtok\<close> look for spaces.
\<close>

theorem path_is_cut_once:
  assumes "d \<noteq> []" and "CHR '':'' \<notin> set d" and "rest \<noteq> []" and "CHR '' '' \<notin> set rest"
  shows "set_PATH_array (d @ CHR '':'' # rest) = [d, rest]"
proof -
  have "dropWhile (\<lambda>c. c = CHR '':'') (d @ CHR '':'' # rest) = d @ CHR '':'' # rest"
    using assms(1,2) by (cases d) auto
  moreover have "takeWhile (\<lambda>c. c \<noteq> CHR '':'') (d @ CHR '':'' # rest) = d"
    "dropWhile (\<lambda>c. c \<noteq> CHR '':'') (d @ CHR '':'' # rest) = CHR '':'' # rest"
    using assms(2) by (induction d) auto
  moreover have "tokens (\<lambda>c. c = CHR '' '') rest = [rest]" using assms(3,4) by (intro tokens_word) auto
  ultimately show ?thesis using assms(1) by (simp add: set_PATH_array_def Let_def)
qed

theorem path_is_cut_once_witness: "set_PATH_array ''bin:usr/bin:.'' = [''bin'', ''usr/bin:.'']"
  using path_is_cut_once [of "''bin''" "''usr/bin:.''"] by simp

end
