(* ===== verification/Rwg_Users.thy ===== *)
theory Rwg_Users
  imports C_Strings
begin

text \<open>
  The shared memory of the multi-process remote working ground, \<^verbatim>\<open>nctu_np_project2/final\<close>: the
  \<^verbatim>\<open>User\<close> table of \<^verbatim>\<open>user_3.h\<close> with its message queues and user-pipe records, and the functions
  of \<^verbatim>\<open>npshell_3.h\<close> and \<^verbatim>\<open>np_multi_proc.cpp\<close> that work on it alone.  The code runs each of them
  between \<^verbatim>\<open>sem_wait\<close> and \<^verbatim>\<open>sem_signal\<close> (see \<^theory_text>\<open>Semaphores\<close>), so each is one step here.
\<close>

section \<open>The table\<close>

text \<open>
  \<^verbatim>\<open>typedef struct User\<close>.  Flags are \<^typ>\<open>bool\<close>; \<open>u_msgs\<close> holds the first \<^verbatim>\<open>msg_count\<close> rows of
  \<^verbatim>\<open>broadcast_msg[10][1500]\<close>, and \<open>name_pipe_record\<close> the 31 entries of that array.
\<close>

record user =
  u_valid :: bool
  u_id :: int
  u_pid :: int
  u_sock :: int
  u_addr :: string
  u_name :: string
  u_port :: int
  u_batch_flag :: bool
  u_ignore :: bool
  name_pipe_record :: "bool list"
  u_msgs :: "string list"
  u_receive :: bool

text \<open>
  The shared segment: the table, and the processes that have been sent \<^verbatim>\<open>SIGUSR1\<close>, in order.
  The segment holds 30 users; the code also uses the record of \<^verbatim>\<open>user[30]\<close>, which lies in the
  rest of the segment's last page, so the table has 31 entries.  The loops go over the first 30.
\<close>

record shared =
  shm :: "user list"
  kills :: "int list"

definition slots :: "nat list" where
  "slots = [0..<30]"

definition zero_user :: user where
  "zero_user = \<lparr>u_valid = False, u_id = 0, u_pid = 0, u_sock = 0, u_addr = [], u_name = [],
     u_port = 0, u_batch_flag = False, u_ignore = False, name_pipe_record = replicate 31 False,
     u_msgs = [], u_receive = False\<rparr>"

text \<open>A fresh segment is zero; the server then invalidates and numbers the 30 users.\<close>

definition init_users :: "user list \<Rightarrow> user list" where
  "init_users us = fold (\<lambda>i us. us[i := (us ! i)\<lparr>u_valid := False, u_id := int i + 1\<rparr>]) slots us"

definition fresh_segment :: "user list" where
  "fresh_segment = replicate 31 zero_user"

section \<open>Formats\<close>

text \<open>
  \<^verbatim>\<open>sprintf(buf, text, strlen(text))\<close> takes the text as its format: \<^verbatim>\<open>%%\<close> is a percent sign, and
  any other conversion reads an argument of its own choice.
\<close>

fun c_format :: "string \<Rightarrow> string result" where
  "c_format [] = Inr []"
| "c_format (c # s) =
     (if c \<noteq> CHR ''%'' then ebind (c_format s) (\<lambda>t. Inr (c # t))
      else (case s of
              d # r \<Rightarrow> if d = CHR ''%'' then ebind (c_format r) (\<lambda>t. Inr (d # t)) else Inl FormatString
            | [] \<Rightarrow> Inl FormatString))"

lemma c_format_plain: "CHR ''%'' \<notin> set s \<Longrightarrow> c_format s = Inr s"
  by (induction s) auto

section \<open>Lookups\<close>

definition check_id_exist :: "int \<Rightarrow> user list \<Rightarrow> bool" where
  "check_id_exist n us \<longleftrightarrow> list_ex (\<lambda>i. u_valid (us ! i) \<and> int i = n - 1) slots"

definition check_name_pipe_exist :: "nat \<Rightarrow> nat \<Rightarrow> user list \<Rightarrow> bool" where
  "check_name_pipe_exist sender receiver us \<longleftrightarrow> name_pipe_record (us ! receiver) ! sender"

definition check_name_exist :: "string \<Rightarrow> user list \<Rightarrow> bool" where
  "check_name_exist nm us \<longleftrightarrow> list_ex (\<lambda>i. u_valid (us ! i) \<and> u_name (us ! i) = nm) slots"

lemma check_id_exist_iff:
  "check_id_exist n us \<longleftrightarrow> 1 \<le> n \<and> n \<le> 30 \<and> u_valid (us ! nat (n - 1))"
proof
  assume "check_id_exist n us"
  then obtain i where "i < 30" "u_valid (us ! i)" "int i = n - 1"
    by (auto simp: check_id_exist_def slots_def list_ex_iff)
  moreover from this have "nat (n - 1) = i" by simp
  ultimately show "1 \<le> n \<and> n \<le> 30 \<and> u_valid (us ! nat (n - 1))" by simp
next
  assume "1 \<le> n \<and> n \<le> 30 \<and> u_valid (us ! nat (n - 1))"
  then have "nat (n - 1) \<in> set slots" "u_valid (us ! nat (n - 1))" "int (nat (n - 1)) = n - 1"
    by (auto simp: slots_def)
  then show "check_id_exist n us" unfolding check_id_exist_def list_ex_iff by blast
qed

lemma check_id_existD:
  assumes "check_id_exist n us"
  shows "1 \<le> nat n" and "nat n < 31" and "u_valid (us ! (nat n - 1))" and "int (nat n) = n"
proof -
  have "1 \<le> n" "n \<le> 30" "u_valid (us ! nat (n - 1))" using assms by (simp_all add: check_id_exist_iff)
  moreover from this have "nat (n - 1) = nat n - 1" by linarith
  ultimately show "1 \<le> nat n" "nat n < 31" "u_valid (us ! (nat n - 1))" "int (nat n) = n"
    by simp_all
qed

lemma check_name_exist_iff:
  "check_name_exist nm us \<longleftrightarrow> (\<exists>i<30. u_valid (us ! i) \<and> u_name (us ! i) = nm)"
  by (auto simp: check_name_exist_def slots_def list_ex_iff)

definition set_pipe_record :: "nat \<Rightarrow> nat \<Rightarrow> bool \<Rightarrow> user list \<Rightarrow> user list" where
  "set_pipe_record sender receiver b us =
     us[receiver := (us ! receiver)\<lparr>name_pipe_record := (name_pipe_record (us ! receiver))[sender := b]\<rparr>]"

section \<open>Messages\<close>

text \<open>
  A message for user \<open>i\<close>: the next row of its queue, which has ten rows of 1500 bytes and no
  bounds check, and the signal.
\<close>

definition notify :: "nat \<Rightarrow> string \<Rightarrow> shared \<Rightarrow> shared result" where
  "notify i msg m =
     (let u = shm m ! i
      in if 10 \<le> length (u_msgs u) then Inl BufferOverflow
         else ebind (c_format msg) (\<lambda>row.
           if 1500 \<le> length row then Inl BufferOverflow
           else Inr (m\<lparr>shm := (shm m)[i := u\<lparr>u_msgs := u_msgs u @ [row], u_receive := True\<rparr>],
                       kills := kills m @ [u_pid u]\<rparr>)))"

fun broadcast_loop :: "nat list \<Rightarrow> string \<Rightarrow> shared \<Rightarrow> shared result" where
  "broadcast_loop [] msg m = Inr m"
| "broadcast_loop (i # is) msg m =
     (if u_valid (shm m ! i) then ebind (notify i msg m) (broadcast_loop is msg)
      else broadcast_loop is msg m)"

definition broadcast_msg :: "string \<Rightarrow> shared \<Rightarrow> shared result" where
  "broadcast_msg msg m = broadcast_loop slots msg m"

text \<open>
  The handler of \<^verbatim>\<open>SIGUSR1\<close> in the process \<open>p\<close>: it prints the queue of the first valid user with
  that process and empties it.
\<close>

definition real_broadcast_msg :: "int \<Rightarrow> shared \<Rightarrow> string list \<times> shared" where
  "real_broadcast_msg p m =
     (case List.find (\<lambda>i. u_valid (shm m ! i) \<and> u_pid (shm m ! i) = p) slots of
        None \<Rightarrow> ([], m)
      | Some i \<Rightarrow> (u_msgs (shm m ! i), m\<lparr>shm := (shm m)[i := (shm m ! i)\<lparr>u_msgs := []\<rparr>]\<rparr>))"

section \<open>Coming and going\<close>

text \<open>
  The accept loop of \<^verbatim>\<open>np_multi_proc.cpp\<close>: the first free slot, and its initial values; the socket
  of a failed \<^verbatim>\<open>accept\<close> is -1.  When no slot is free \<^verbatim>\<open>space_ind\<close> is used uninitialised.  \<open>login_child\<close> is the child's assignment.
\<close>

definition login :: "int \<Rightarrow> string \<Rightarrow> int \<Rightarrow> shared \<Rightarrow> (nat \<times> shared) result" where
  "login newsockfd addr port m =
     (case List.find (\<lambda>i. \<not> u_valid (shm m ! i)) slots of
        None \<Rightarrow> Inl OutOfRange
      | Some i \<Rightarrow>
          if 20 \<le> length addr then Inl BufferOverflow
          else Inr (i, m\<lparr>shm := (shm m)[i := (shm m ! i)
                 \<lparr>u_valid := True, u_sock := newsockfd, u_addr := addr, u_name := ''(no name)'',
                  u_port := port, u_batch_flag := False, u_ignore := False, u_receive := False,
                  u_msgs := []\<rparr>]\<rparr>))"

definition login_child :: "nat \<Rightarrow> int \<Rightarrow> shared \<Rightarrow> shared" where
  "login_child i p m = m\<lparr>shm := (shm m)[i := (shm m ! i)\<lparr>u_pid := p\<rparr>]\<rparr>"

definition login_msg :: string where
  "login_msg = ''*** User '' @ [CHR 0x27] @ ''(no name)'' @ [CHR 0x27] @ '' entered from CGILAB/511. ***'' @ [NL]"

text \<open>What \<^verbatim>\<open>broadcast_login_msg\<close> writes: to the socket of every valid user, the new one included.\<close>

definition broadcast_login_msg :: "shared \<Rightarrow> (int \<times> string) list" where
  "broadcast_login_msg m =
     map (\<lambda>i. (u_sock (shm m ! i), login_msg)) (filter (\<lambda>i. u_valid (shm m ! i)) slots)"

text \<open>The sockets the new child closes: those of the other valid users, where \<^verbatim>\<open>close(-1)\<close> fails.\<close>

definition login_closes :: "nat \<Rightarrow> shared \<Rightarrow> nat list" where
  "login_closes ix m =
     map (\<lambda>i. nat (u_sock (shm m ! i)))
       (filter (\<lambda>i. u_valid (shm m ! i) \<and> i \<noteq> ix \<and> 0 \<le> u_sock (shm m ! i)) slots)"

text \<open>The loops of \<^verbatim>\<open>exit\<close>: every record with the user as its sender or its receiver, then the slot.\<close>

definition clear_name_pipes :: "nat \<Rightarrow> user list \<Rightarrow> user list" where
  "clear_name_pipes ix us =
     fold (\<lambda>i us. fold (\<lambda>j us. if i = ix + 1 \<or> j = ix + 1 then set_pipe_record j i False us else us)
            [1..<31] us) [1..<31] us"

definition logout :: "nat \<Rightarrow> shared \<Rightarrow> shared" where
  "logout ix m =
     (let us = clear_name_pipes ix (shm m) in m\<lparr>shm := us[ix := (us ! ix)\<lparr>u_valid := False\<rparr>]\<rparr>)"

text \<open>
  The server's handler of \<^verbatim>\<open>SIGCHLD\<close>: the socket it closes, and the client it reports.  When no
  slot has the process it reports the entry behind the table.
\<close>

definition client_exit :: "int \<Rightarrow> shared \<Rightarrow> int option \<times> string" where
  "client_exit p m =
     (case List.find (\<lambda>i. u_pid (shm m ! i) = p) slots of
        Some i \<Rightarrow> (Some (u_sock (shm m ! i)),
                   ''client['' @ to_string (u_id (shm m ! i)) @ '']'' @ [CHR 0x09] @ ''is disconnect.'' @ [NL])
      | None \<Rightarrow> (None,
                   ''client['' @ to_string (u_id (shm m ! 30)) @ '']'' @ [CHR 0x09] @ ''is disconnect.'' @ [NL]))"

section \<open>Well-formed tables\<close>

text \<open>
  The shape of the table, and what ties its entries together: a recorded user pipe joins two
  users who are logged in.
\<close>

definition table_ok :: "user list \<Rightarrow> bool" where
  "table_ok us \<longleftrightarrow> length us = 31 \<and>
     (\<forall>i<31. length (name_pipe_record (us ! i)) = 31) \<and> (\<forall>i<30. u_id (us ! i) = int i + 1)"

definition pipe_from_to :: "user list \<Rightarrow> nat \<Rightarrow> nat \<Rightarrow> bool" where
  "pipe_from_to us s r \<longleftrightarrow> name_pipe_record (us ! r) ! s"

definition pipes_between_users :: "user list \<Rightarrow> bool" where
  "pipes_between_users us \<longleftrightarrow>
     (\<forall>r<31. \<forall>s<31. pipe_from_to us s r \<longrightarrow>
        1 \<le> r \<and> 1 \<le> s \<and> u_valid (us ! (r - 1)) \<and> u_valid (us ! (s - 1)))"

definition names_distinct :: "user list \<Rightarrow> bool" where
  "names_distinct us \<longleftrightarrow>
     (\<forall>i<30. \<forall>j<30. u_valid (us ! i) \<and> u_valid (us ! j) \<and> u_name (us ! i) = u_name (us ! j)
        \<and> u_name (us ! i) \<noteq> ''(no name)'' \<longrightarrow> i = j)"


section \<open>What a message changes\<close>

text \<open>Everything of a user but the queue.\<close>

definition core :: "user \<Rightarrow> user" where
  "core u = u\<lparr>u_msgs := [], u_receive := False\<rparr>"

lemma core_fields [simp]:
  "u_valid (core u) = u_valid u" "u_id (core u) = u_id u" "u_pid (core u) = u_pid u"
  "u_sock (core u) = u_sock u" "u_name (core u) = u_name u"
  "name_pipe_record (core u) = name_pipe_record u"
  by (simp_all add: core_def)

definition same_core :: "user list \<Rightarrow> user list \<Rightarrow> bool" where
  "same_core us us' \<longleftrightarrow> map core us' = map core us"

lemma same_core_refl [simp, intro]: "same_core us us"
  by (simp add: same_core_def)

lemma same_core_trans: "same_core us us' \<Longrightarrow> same_core us' us'' \<Longrightarrow> same_core us us''"
  by (simp add: same_core_def)

lemma same_core_length: "same_core us us' \<Longrightarrow> length us' = length us"
  unfolding same_core_def by (metis length_map)

lemma same_core_nth: "same_core us us' \<Longrightarrow> i < length us \<Longrightarrow> core (us' ! i) = core (us ! i)"
  using same_core_length [of us us'] unfolding same_core_def by (metis nth_map)

lemma same_core_fields:
  assumes "same_core us us'" and "i < length us"
  shows "u_valid (us' ! i) = u_valid (us ! i)" and "u_id (us' ! i) = u_id (us ! i)"
    and "u_pid (us' ! i) = u_pid (us ! i)" and "u_sock (us' ! i) = u_sock (us ! i)"
    and "u_name (us' ! i) = u_name (us ! i)" and "name_pipe_record (us' ! i) = name_pipe_record (us ! i)"
  using same_core_nth [OF assms] core_fields [of "us' ! i"] core_fields [of "us ! i"] by simp_all

lemma same_core_update: "core v = core (us ! i) \<Longrightarrow> same_core us (us[i := v])"
  by (cases "i < length us")
    (auto simp: same_core_def map_update intro!: nth_equalityI simp: nth_list_update)

lemma notify_same_core: "notify i msg m = Inr m' \<Longrightarrow> same_core (shm m) (shm m')"
  by (auto simp: notify_def Let_def core_def split: if_splits intro!: same_core_update)

lemma broadcast_loop_same_core: "broadcast_loop is msg m = Inr m' \<Longrightarrow> same_core (shm m) (shm m')"
proof (induction "is" msg m rule: broadcast_loop.induct)
  case (2 i "is" msg m)
  then show ?case
    by (auto split: if_splits dest: notify_same_core intro: same_core_trans)
qed simp

lemma broadcast_same_core: "broadcast_msg msg m = Inr m' \<Longrightarrow> same_core (shm m) (shm m')"
  unfolding broadcast_msg_def by (rule broadcast_loop_same_core)

lemma real_broadcast_same_core: "same_core (shm m) (shm (snd (real_broadcast_msg p m)))"
  by (auto simp: real_broadcast_msg_def core_def split: option.splits intro!: same_core_update)

lemma same_core_table_ok: "same_core us us' \<Longrightarrow> table_ok us \<Longrightarrow> table_ok us'"
  by (simp add: table_ok_def same_core_length same_core_fields)

lemma same_core_pipes:
  "same_core us us' \<Longrightarrow> length us = 31 \<Longrightarrow> pipes_between_users us' \<longleftrightarrow> pipes_between_users us"
  by (simp add: pipes_between_users_def pipe_from_to_def same_core_fields)

lemma same_core_names:
  "same_core us us' \<Longrightarrow> length us = 31 \<Longrightarrow> names_distinct us' \<longleftrightarrow> names_distinct us"
  by (simp add: names_distinct_def same_core_fields)

section \<open>What a user pipe changes\<close>

definition other :: "user \<Rightarrow> user" where
  "other u = u\<lparr>name_pipe_record := []\<rparr>"

lemma other_fields [simp]:
  "u_valid (other u) = u_valid u" "u_id (other u) = u_id u" "u_pid (other u) = u_pid u"
  "u_sock (other u) = u_sock u" "u_name (other u) = u_name u" "u_msgs (other u) = u_msgs u"
  by (simp_all add: other_def)

definition same_other :: "user list \<Rightarrow> user list \<Rightarrow> bool" where
  "same_other us us' \<longleftrightarrow> map other us' = map other us"

lemma same_other_refl [simp, intro]: "same_other us us"
  by (simp add: same_other_def)

lemma same_other_trans: "same_other us us' \<Longrightarrow> same_other us' us'' \<Longrightarrow> same_other us us''"
  by (simp add: same_other_def)

lemma same_other_length: "same_other us us' \<Longrightarrow> length us' = length us"
  unfolding same_other_def by (metis length_map)

lemma same_other_nth: "same_other us us' \<Longrightarrow> i < length us \<Longrightarrow> other (us' ! i) = other (us ! i)"
  using same_other_length [of us us'] unfolding same_other_def by (metis nth_map)

lemma same_other_fields:
  assumes "same_other us us'" and "i < length us"
  shows "u_valid (us' ! i) = u_valid (us ! i)" and "u_id (us' ! i) = u_id (us ! i)"
    and "u_pid (us' ! i) = u_pid (us ! i)" and "u_sock (us' ! i) = u_sock (us ! i)"
    and "u_name (us' ! i) = u_name (us ! i)" and "u_msgs (us' ! i) = u_msgs (us ! i)"
  using same_other_nth [OF assms] other_fields [of "us' ! i"] other_fields [of "us ! i"] by simp_all

lemma same_other_names:
  "same_other us us' \<Longrightarrow> length us = 31 \<Longrightarrow> names_distinct us' \<longleftrightarrow> names_distinct us"
  by (simp add: names_distinct_def same_other_fields)

lemma set_pipe_record_same_other: "same_other us (set_pipe_record s r b us)"
  by (cases "r < length us")
    (auto simp: same_other_def set_pipe_record_def other_def map_update nth_list_update intro!: nth_equalityI)

lemma pipe_set_pipe_record:
  assumes "r < length us" and "s < length (name_pipe_record (us ! r))"
  shows "pipe_from_to (set_pipe_record s r b us) s' r' =
    (if s' = s \<and> r' = r then b else pipe_from_to us s' r')"
  using assms by (auto simp: pipe_from_to_def set_pipe_record_def nth_list_update)

lemma set_pipe_record_table_ok: "table_ok us \<Longrightarrow> table_ok (set_pipe_record s r b us)"
  by (cases "r < length us") (auto simp: table_ok_def set_pipe_record_def nth_list_update)

lemma set_pipe_record_pipes:
  assumes "table_ok us" and "pipes_between_users us" and "s < 31" and "r < 31"
    and "b \<Longrightarrow> 1 \<le> r \<and> 1 \<le> s \<and> u_valid (us ! (r - 1)) \<and> u_valid (us ! (s - 1))"
  shows "pipes_between_users (set_pipe_record s r b us)"
proof -
  have l: "r < length us" "s < length (name_pipe_record (us ! r))" "length us = 31"
    using assms by (simp_all add: table_ok_def)
  have v: "u_valid (set_pipe_record s r b us ! i) = u_valid (us ! i)" if "i < 31" for i
    using that same_other_fields(1) [OF set_pipe_record_same_other, of i us s r b] l by simp
  show ?thesis
    unfolding pipes_between_users_def pipe_set_pipe_record [OF l(1,2)]
    using assms(2,5) v by (auto simp: pipes_between_users_def)
qed

text \<open>The two loops of \<^verbatim>\<open>exit\<close> as one fold over the pairs.\<close>

lemma fold_product: "fold (\<lambda>i. fold (g i) js) is a = fold (\<lambda>(i, j). g i j) (List.product is js) a"
  by (induction "is" arbitrary: a) (simp_all add: fold_map comp_def)

lemma clear_pairs:
  fixes c :: "nat \<Rightarrow> nat \<Rightarrow> bool"
  assumes "table_ok us" and "\<forall>p\<in>set ps. fst p < 31 \<and> snd p < 31"
  defines "us' \<equiv> fold (\<lambda>(i, j) us. if c i j then set_pipe_record j i False us else us) ps us"
  shows "table_ok us' \<and> same_other us us' \<and>
    (\<forall>r s. pipe_from_to us' s r \<longleftrightarrow> pipe_from_to us s r \<and> \<not> ((r, s) \<in> set ps \<and> c r s))"
  using assms(1,2) unfolding us'_def
proof (induction ps arbitrary: us)
  case (Cons p ps)
  obtain i j where p: "p = (i, j)" by (cases p)
  define u1 where "u1 = (if c i j then set_pipe_record j i False us else us)"
  have l: "i < length us" "j < length (name_pipe_record (us ! i))"
    using Cons.prems p by (simp_all add: table_ok_def)
  have ok: "table_ok u1" "same_other us u1"
    using Cons.prems(1) by (simp_all add: u1_def set_pipe_record_table_ok set_pipe_record_same_other)
  have pf: "pipe_from_to u1 s r \<longleftrightarrow> pipe_from_to us s r \<and> \<not> (r = i \<and> s = j \<and> c i j)" for r s
    by (auto simp: u1_def pipe_set_pipe_record [OF l])
  have "\<forall>p\<in>set ps. fst p < 31 \<and> snd p < 31" using Cons.prems(2) by simp
  from Cons.IH [OF ok(1) this] show ?case
    using ok(2) same_other_trans by (auto simp: p pf u1_def [symmetric])
qed simp

lemma clear_name_pipes_spec:
  assumes "table_ok us"
  shows "table_ok (clear_name_pipes ix us)" and "same_other us (clear_name_pipes ix us)"
    and "s < 31 \<Longrightarrow> r < 31 \<Longrightarrow> 1 \<le> s \<Longrightarrow> 1 \<le> r \<Longrightarrow>
      pipe_from_to (clear_name_pipes ix us) s r \<longleftrightarrow> pipe_from_to us s r \<and> s \<noteq> ix + 1 \<and> r \<noteq> ix + 1"
    and "pipe_from_to (clear_name_pipes ix us) s r \<Longrightarrow> pipe_from_to us s r"
proof -
  have "\<forall>p\<in>set (List.product [1..<31] [1..<31::nat]). fst p < 31 \<and> snd p < 31" by auto
  note * = clear_pairs [OF assms this, of "\<lambda>i j. i = ix + 1 \<or> j = ix + 1"]
  have eq: "clear_name_pipes ix us =
    fold (\<lambda>(i, j) us. if i = ix + 1 \<or> j = ix + 1 then set_pipe_record j i False us else us)
      (List.product [1..<31] [1..<31]) us"
    unfolding clear_name_pipes_def by (rule fold_product)
  show "table_ok (clear_name_pipes ix us)" "same_other us (clear_name_pipes ix us)"
    using * unfolding eq by blast+
  show "pipe_from_to (clear_name_pipes ix us) s r \<longleftrightarrow> pipe_from_to us s r \<and> s \<noteq> ix + 1 \<and> r \<noteq> ix + 1"
    if "s < 31" "r < 31" "1 \<le> s" "1 \<le> r"
    using * that unfolding eq by auto
  show "pipe_from_to us s r" if "pipe_from_to (clear_name_pipes ix us) s r"
    using * that unfolding eq by blast
qed

section \<open>Broadcasting\<close>

definition queued :: "string \<Rightarrow> user \<Rightarrow> user" where
  "queued row u = (if u_valid u then u\<lparr>u_msgs := u_msgs u @ [row], u_receive := True\<rparr> else u)"

definition queue_full :: "user \<Rightarrow> bool" where
  "queue_full u \<longleftrightarrow> u_valid u \<and> 10 \<le> length (u_msgs u)"

text \<open>The loop over a stretch \<open>mid\<close> of the table.\<close>

lemma broadcast_loop_spec:
  assumes "c_format msg = Inr row" and "length row < 1500"
  shows "broadcast_loop [length pre..<length pre + length mid] msg \<lparr>shm = pre @ mid @ post, kills = ks\<rparr> =
    (if \<exists>u\<in>set mid. queue_full u then Inl BufferOverflow
     else Inr \<lparr>shm = pre @ map (queued row) mid @ post, kills = ks @ map u_pid (filter u_valid mid)\<rparr>)"
proof (induction mid arbitrary: pre ks)
  case (Cons u mid)
  let ?is = "[length (pre @ [queued row u])..<length (pre @ [queued row u]) + length mid]"
  have l: "[length pre..<length pre + length (u # mid)] = length pre # ?is"
    by (subst upt_conv_Cons) simp_all
  consider (full) "queue_full u" | (valid) "u_valid u" "\<not> queue_full u" | (free) "\<not> u_valid u"
    by (auto simp: queue_full_def)
  then show ?case
  proof cases
    case full
    then show ?thesis unfolding l by (simp add: notify_def queue_full_def)
  next
    case valid
    then have "notify (length pre) msg \<lparr>shm = pre @ (u # mid) @ post, kills = ks\<rparr> =
        Inr \<lparr>shm = (pre @ [queued row u]) @ mid @ post, kills = ks @ [u_pid u]\<rparr>"
      using assms by (simp add: notify_def Let_def queue_full_def queued_def)
    then show ?thesis
      using Cons.IH [of "pre @ [queued row u]" "ks @ [u_pid u]"] valid unfolding l by simp
  next
    case free
    then have "queued row u = u" "\<not> queue_full u" by (simp_all add: queued_def queue_full_def)
    with free show ?thesis using Cons.IH [of "pre @ [u]" ks] unfolding l by simp
  qed
qed simp

lemma broadcast_msg_eq:
  assumes "length (shm m) = 31" and "c_format msg = Inr row" and "length row < 1500"
  shows "broadcast_msg msg m =
    (if \<exists>u\<in>set (take 30 (shm m)). queue_full u then Inl BufferOverflow
     else Inr \<lparr>shm = map (queued row) (take 30 (shm m)) @ drop 30 (shm m),
               kills = kills m @ map u_pid (filter u_valid (take 30 (shm m)))\<rparr>)"
proof -
  have "slots = [length []..<length [] + length (take 30 (shm m))]"
    using assms(1) by (simp add: slots_def)
  then show ?thesis
    using broadcast_loop_spec [OF assms(2,3), of "[]" "take 30 (shm m)" "drop 30 (shm m)" "kills m"]
    unfolding broadcast_msg_def by (cases m) simp
qed

lemma take30_nth: "i < 30 \<Longrightarrow> length us = 31 \<Longrightarrow> us ! i \<in> set (take 30 us)"
  using nth_mem [of i "take 30 us"] by simp

lemma broadcast_nth:
  assumes "broadcast_msg msg m = Inr m'" and "length (shm m) = 31"
    and "c_format msg = Inr row" and "length row < 1500" and "i < 30"
  shows "shm m' ! i = queued row (shm m ! i)"
  using assms(1) unfolding broadcast_msg_eq [OF assms(2,3,4)]
  using assms(2,5) by (auto simp: nth_append split: if_splits)

text \<open>Finding the slot of a process.\<close>

lemma find_slot_unique:
  assumes "i < 30" and "P i" and "\<And>j. j < 30 \<Longrightarrow> P j \<Longrightarrow> j = i"
  shows "List.find P slots = Some i"
proof -
  have "List.find P slots \<noteq> None" using assms(1,2) by (auto simp: find_None_iff slots_def)
  then obtain j where j: "List.find P slots = Some j" by auto
  then have "P j" "j < 30" by (auto simp: find_Some_iff slots_def)
  with assms(3) j show ?thesis by simp
qed

lemma find_slot_Some:
  "List.find P slots = Some i \<longleftrightarrow> i < 30 \<and> P i \<and> (\<forall>j<i. \<not> P j)"
  by (auto simp: find_Some_iff slots_def)

lemma find_slot_None: "List.find P slots = None \<longleftrightarrow> (\<forall>i<30. \<not> P i)"
  by (auto simp: find_None_iff slots_def)

section \<open>Logging in and out\<close>

text \<open>Changes that touch neither the records nor who is logged in.\<close>

lemma same_slots:
  assumes "length us' = length us"
    and "\<And>i. name_pipe_record (us' ! i) = name_pipe_record (us ! i)"
    and "\<And>i. u_id (us' ! i) = u_id (us ! i)" and "\<And>i. u_valid (us' ! i) = u_valid (us ! i)"
  shows "table_ok us' = table_ok us" and "pipes_between_users us' = pipes_between_users us"
  by (simp_all add: table_ok_def pipes_between_users_def pipe_from_to_def assms)

lemma login_cases:
  assumes "login sck addr port m = Inr (i, m')"
  obtains v where "i < 30" and "\<not> u_valid (shm m ! i)" and "\<And>j. j < i \<Longrightarrow> u_valid (shm m ! j)"
    and "m' = m\<lparr>shm := (shm m)[i := v]\<rparr>" and "u_valid v" and "u_name v = ''(no name)''"
    and "u_sock v = sck" and "u_msgs v = []" and "u_id v = u_id (shm m ! i)"
    and "name_pipe_record v = name_pipe_record (shm m ! i)" and "u_pid v = u_pid (shm m ! i)"
  using assms by (auto simp: login_def find_slot_Some split: option.splits if_splits)

lemma login_invariants:
  assumes "login sck addr port m = Inr (i, m')" and "table_ok (shm m)"
  shows "table_ok (shm m')" and "pipes_between_users (shm m) \<Longrightarrow> pipes_between_users (shm m')"
    and "names_distinct (shm m) \<Longrightarrow> names_distinct (shm m')"
proof -
  from assms(1) obtain v where 1: "i < 30" "\<not> u_valid (shm m ! i)"
      "m' = m\<lparr>shm := (shm m)[i := v]\<rparr>" "u_valid v" "u_name v = ''(no name)''"
      "u_id v = u_id (shm m ! i)" "name_pipe_record v = name_pipe_record (shm m ! i)"
    by (rule login_cases) blast
  have l: "length (shm m) = 31" using assms(2) by (simp add: table_ok_def)
  have same: "name_pipe_record (shm m' ! j) = name_pipe_record (shm m ! j)"
      "u_id (shm m' ! j) = u_id (shm m ! j)" "u_valid (shm m ! j) \<Longrightarrow> u_valid (shm m' ! j)" for j
    using 1 l by (auto simp: nth_list_update)
  show "table_ok (shm m')" using assms(2) same 1(3) by (simp add: table_ok_def)
  show "pipes_between_users (shm m')" if "pipes_between_users (shm m)"
    using that same by (auto simp: pipes_between_users_def pipe_from_to_def)
  show "names_distinct (shm m')" if "names_distinct (shm m)"
    using that 1 l by (auto simp: names_distinct_def nth_list_update)
qed

lemma login_child_invariants:
  assumes "table_ok (shm m)"
  shows "table_ok (shm (login_child i p m))"
    and "pipes_between_users (shm m) \<Longrightarrow> pipes_between_users (shm (login_child i p m))"
    and "names_distinct (shm m) \<Longrightarrow> names_distinct (shm (login_child i p m))"
proof -
  have *: "shm (login_child i p m) ! j =
      (if j = i \<and> i < length (shm m) then (shm m ! i)\<lparr>u_pid := p\<rparr> else shm m ! j)" for j
    by (cases "i < length (shm m)") (auto simp: login_child_def nth_list_update list_update_beyond not_less)
  have same: "name_pipe_record (shm (login_child i p m) ! j) = name_pipe_record (shm m ! j)"
      "u_id (shm (login_child i p m) ! j) = u_id (shm m ! j)"
      "u_valid (shm (login_child i p m) ! j) = u_valid (shm m ! j)"
      "u_name (shm (login_child i p m) ! j) = u_name (shm m ! j)" for j
    by (auto simp: *)
  have "length (shm (login_child i p m)) = length (shm m)" by (simp add: login_child_def)
  note slots = same_slots [OF this same(1-3)]
  show "table_ok (shm (login_child i p m))" using assms slots by simp
  show "pipes_between_users (shm (login_child i p m))" if "pipes_between_users (shm m)"
    using that slots by simp
  show "names_distinct (shm (login_child i p m))" if "names_distinct (shm m)"
    using that same by (simp add: names_distinct_def)
qed

lemma logout_spec:
  assumes "table_ok (shm m)" and "ix < 30"
  shows "table_ok (shm (logout ix m))"
    and "\<And>j. j < 31 \<Longrightarrow> u_valid (shm (logout ix m) ! j) \<longleftrightarrow> u_valid (shm m ! j) \<and> j \<noteq> ix"
    and "\<And>j. j < 31 \<Longrightarrow> u_name (shm (logout ix m) ! j) = u_name (shm m ! j)"
    and "\<And>r s. pipe_from_to (shm (logout ix m)) s r = pipe_from_to (clear_name_pipes ix (shm m)) s r"
proof -
  let ?us = "clear_name_pipes ix (shm m)"
  note c = clear_name_pipes_spec [OF assms(1), where ix = ix]
  have l: "length ?us = 31" "length (shm m) = 31" using c(1) assms(1) by (simp_all add: table_ok_def)
  show "table_ok (shm (logout ix m))"
    using c(1) l assms(2) by (auto simp: logout_def Let_def table_ok_def nth_list_update)
  show "u_valid (shm (logout ix m) ! j) \<longleftrightarrow> u_valid (shm m ! j) \<and> j \<noteq> ix" if "j < 31" for j
    using that l assms(2) same_other_fields(1) [OF c(2)] by (auto simp: logout_def Let_def nth_list_update)
  show "u_name (shm (logout ix m) ! j) = u_name (shm m ! j)" if "j < 31" for j
    using that l assms(2) same_other_fields(5) [OF c(2)] by (auto simp: logout_def Let_def nth_list_update)
  show "pipe_from_to (shm (logout ix m)) s r = pipe_from_to ?us s r" for r s
    using l assms(2) by (cases "r = ix") (auto simp: logout_def Let_def pipe_from_to_def nth_list_update)
qed

lemma logout_others:
  assumes "table_ok (shm m)" and "ix < 30"
  shows "length (shm (logout ix m)) = length (shm m) \<and> (\<forall>i<length (shm m).
    u_pid (shm (logout ix m) ! i) = u_pid (shm m ! i) \<and> u_sock (shm (logout ix m) ! i) = u_sock (shm m ! i) \<and>
    (i \<noteq> ix \<longrightarrow> u_valid (shm (logout ix m) ! i) = u_valid (shm m ! i) \<and>
                u_name (shm (logout ix m) ! i) = u_name (shm m ! i)))"
proof -
  note c = clear_name_pipes_spec(2) [OF assms(1), where ix = ix]
  have l: "length (clear_name_pipes ix (shm m)) = length (shm m)" by (rule same_other_length [OF c])
  then show ?thesis
    using same_other_fields [OF c] by (cases "ix < length (shm m)")
      (auto simp: logout_def Let_def nth_list_update list_update_beyond not_less)
qed

lemma logout_invariants:
  assumes "table_ok (shm m)" and "ix < 30"
  shows "pipes_between_users (shm m) \<Longrightarrow> pipes_between_users (shm (logout ix m))"
    and "names_distinct (shm m) \<Longrightarrow> names_distinct (shm (logout ix m))"
proof -
  note s = logout_spec [OF assms]
  note c = clear_name_pipes_spec [OF assms(1), where ix = ix]
  show "pipes_between_users (shm (logout ix m))" if h: "pipes_between_users (shm m)"
    unfolding pipes_between_users_def s(4)
  proof (intro allI impI)
    fix r s' :: nat
    assume a: "r < 31" "s' < 31" "pipe_from_to (clear_name_pipes ix (shm m)) s' r"
    then have p: "pipe_from_to (shm m) s' r" using c(4) by blast
    then have o: "1 \<le> r" "1 \<le> s'" "u_valid (shm m ! (r - 1))" "u_valid (shm m ! (s' - 1))"
      using h a(1,2) by (auto simp: pipes_between_users_def)
    then have "s' \<noteq> ix + 1" "r \<noteq> ix + 1" using c(3) a by auto
    then show "1 \<le> r \<and> 1 \<le> s' \<and> u_valid (shm (logout ix m) ! (r - 1)) \<and> u_valid (shm (logout ix m) ! (s' - 1))"
      using o a(1,2) s(2) by auto
  qed
  show "names_distinct (shm (logout ix m))" if "names_distinct (shm m)"
    using that unfolding names_distinct_def by (auto simp: s(2,3))
qed

end
