(* ===== verification/Rwg_Shell.thy ===== *)
theory Rwg_Shell
  imports Shell_P1 Rwg_Users
begin

text \<open>
  The shell of the multi-process remote working ground, \<^verbatim>\<open>nctu_np_project2/final/npshell_3.h\<close>:
  the shell of project 1 with user pipes \<^verbatim>\<open><n\<close> and \<^verbatim>\<open>>n\<close>, the commands on other users and the
  batch command, over the shared table of \<^theory_text>\<open>Rwg_Users\<close>.  The numbered pipes and the
  redirection are the functions of \<^theory_text>\<open>Shell_P1\<close>, whose code the header repeats.  One call of
  \<open>rwg_line\<close> is one turn of the main loop.
\<close>

section \<open>State\<close>

text \<open>
  The variables of \<^verbatim>\<open>npshell\<close> beyond those of project 1, and the view of the shared memory.
  \<open>batch_command\<close> holds the first \<^verbatim>\<open>batch_count\<close> rows; \<open>announces\<close> are the children that will
  broadcast what they pipe to whom, each with its command line and the receiver.
\<close>

record rwg = npshell +
  user_index :: nat
  rw_sock :: int
  shared :: shared
  name_pipe_in_flag :: bool
  name_pipe_out_flag :: bool
  name_pipe_in_file :: string
  name_pipe_out_file :: string
  name_pipe_out_id :: int
  batch_flag :: bool
  ignore :: bool
  batch_command :: "string list"
  batch_command_index :: nat
  announces :: "(string \<times> int) list"

definition rwg_users :: "rwg \<Rightarrow> user list" where
  "rwg_users s = shm (shared s)"

text \<open>The user who runs the shell.\<close>

definition me :: "rwg \<Rightarrow> user" where
  "me s = rwg_users s ! user_index s"

definition rwg_start :: "nat \<Rightarrow> shared \<Rightarrow> fdtable \<Rightarrow> nat \<Rightarrow> environ \<Rightarrow> rwg" where
  "rwg_start ix m fds n e =
     \<lparr>k_fds = fds, k_next = n, sh_env = sys_setenv ''PATH'' ''bin:.'' e, num_pipe_vec = [],
      num_pipe_in_flag = False, num_pipe_out_flag = False, shock_pipe_out_flag = False,
      write_file_flag = False, line_end_with_pipe = False,
      redirection_file_name = replicate 100 NUL, sh_log = [], sh_exited = False,
      user_index = ix, rw_sock = u_sock (shm m ! ix), shared = m,
      name_pipe_in_flag = False, name_pipe_out_flag = False,
      name_pipe_in_file = [], name_pipe_out_file = [], name_pipe_out_id = 0,
      batch_flag = u_batch_flag (shm m ! ix), ignore = u_ignore (shm m ! ix),
      batch_command = [], batch_command_index = 0, announces = []\<rparr>"

text \<open>\<^verbatim>\<open>sprintf\<close> into a buffer of \<open>n\<close> bytes, of which one is for the NUL.\<close>

definition into_buffer :: "nat \<Rightarrow> string \<Rightarrow> string result" where
  "into_buffer n t = (if n \<le> length t then Inl BufferOverflow else Inr t)"

definition say :: "string \<Rightarrow> rwg \<Rightarrow> rwg result" where
  "say msg s = ebind (broadcast_msg msg (shared s)) (\<lambda>m. Inr (s\<lparr>shared := m\<rparr>))"

section \<open>Reading a command\<close>

text \<open>
  From the socket: the bytes \<open>raw\<close> of one \<^verbatim>\<open>read\<close>, up to the first that is less than 20 as a
  signed \<^verbatim>\<open>char\<close>.  From the batch file: the next row without its last byte; after the last row
  the batch ends, with an empty line.
\<close>

definition read_command :: "string \<Rightarrow> rwg \<Rightarrow> (string \<times> rwg) result" where
  "read_command raw s =
     (if \<not> batch_flag s then
        (if 15100 \<le> length raw \<and> list_all (\<lambda>c. 20 \<le> schar c) raw then Inl BufferOverflow
         else Inr (takeWhile (\<lambda>c. 20 \<le> schar c) raw, sh_event Prompt s))
      else if batch_command s \<noteq> [] then
        (if batch_command_index s < length (batch_command s) then
           (let row = batch_command s ! batch_command_index s
            in if row = [] then Inl BufferOverflow
               else Inr (butlast row, s\<lparr>batch_command_index := batch_command_index s + 1\<rparr>))
         else Inr ([], s\<lparr>batch_command := [], batch_command_index := 0, batch_flag := False,
                         ignore := True\<rparr>))
      else Inr ([], s))"

section \<open>User pipes\<close>

definition quoted :: "string \<Rightarrow> string" where
  "quoted t = [CHR 0x27] @ t @ [CHR 0x27]"

definition user_pipe_file :: "int \<Rightarrow> int \<Rightarrow> string" where
  "user_pipe_file a b = ''user_pipe/'' @ to_string a @ ''-'' @ to_string b"

definition no_user_msg :: "int \<Rightarrow> string" where
  "no_user_msg n = ''*** Error: user #'' @ to_string n @ '' does not exist yet. ***'' @ [NL]"

definition pipe_missing_msg :: "int \<Rightarrow> int \<Rightarrow> string" where
  "pipe_missing_msg a b =
     ''*** Error: the pipe #'' @ to_string a @ ''->#'' @ to_string b @ '' does not exist yet. ***'' @ [NL]"

definition pipe_exists_msg :: "int \<Rightarrow> int \<Rightarrow> string" where
  "pipe_exists_msg a b =
     ''*** Error: the pipe #'' @ to_string a @ ''->#'' @ to_string b @ '' already exists. ***'' @ [NL]"

definition received_msg :: "user \<Rightarrow> user \<Rightarrow> int \<Rightarrow> string \<Rightarrow> string" where
  "received_msg u from n cmd =
     ''*** '' @ u_name u @ '' (#'' @ to_string (u_id u) @ '') just received from '' @ u_name from @
     '' (#'' @ to_string n @ '') by '' @ quoted cmd @ '' ***'' @ [NL]"

definition piped_msg :: "user \<Rightarrow> user \<Rightarrow> string \<Rightarrow> string" where
  "piped_msg u to cmd =
     ''*** '' @ u_name u @ '' (#'' @ to_string (u_id u) @ '') just piped '' @ quoted cmd @ '' to '' @
     u_name to @ '' (#'' @ to_string (u_id to) @ '') ***'' @ [NL]"

text \<open>
  \<^verbatim>\<open><n\<close>: the pipe is taken out of the record and the command announced.  An unknown user or pipe
  only marks the line to be ignored.
\<close>

definition user_pipe_in :: "string \<Rightarrow> string \<Rightarrow> rwg \<Rightarrow> rwg result" where
  "user_pipe_in cmd w s =
     (case strtok_first (\<lambda>c. c = CHR ''<'') w of
        None \<Rightarrow> Inl NullDeref
      | Some digits \<Rightarrow>
          (let n = atoi digits; us = rwg_users s; ix = user_index s
           in if \<not> check_id_exist n us then
                Inr (sh_event (Output (no_user_msg n)) (s\<lparr>ignore := True\<rparr>))
              else if check_name_pipe_exist (nat n) (ix + 1) us then
                ebind (into_buffer 300 (received_msg (us ! ix) (us ! nat (n - 1)) n cmd))
                  (\<lambda>msg. say msg (s\<lparr>name_pipe_in_flag := True,
                     name_pipe_in_file := user_pipe_file n (int ix + 1),
                     shared := (shared s)\<lparr>shm := set_pipe_record (nat n) (ix + 1) False us\<rparr>\<rparr>))
              else
                Inr (sh_event (Output (pipe_missing_msg n (int ix + 1))) (s\<lparr>ignore := True\<rparr>))))"

text \<open>\<^verbatim>\<open>>n\<close>: the file is created and the pipe recorded with the receiver.\<close>

definition user_pipe_out :: "string \<Rightarrow> rwg \<Rightarrow> rwg result" where
  "user_pipe_out w s =
     (case strtok_first (\<lambda>c. c = CHR ''>'') w of
        None \<Rightarrow> Inl NullDeref
      | Some digits \<Rightarrow>
          (let n = atoi digits; us = rwg_users s; ix = user_index s; s = s\<lparr>name_pipe_out_id := n\<rparr>
           in if \<not> check_id_exist n us then
                Inr (sh_event (Output (no_user_msg n)) (s\<lparr>ignore := True\<rparr>))
              else if \<not> check_name_pipe_exist (ix + 1) (nat n) us then
                (let file = user_pipe_file (int ix + 1) n
                 in Inr (sh_event (CreateFile file)
                      (s\<lparr>name_pipe_out_flag := True, name_pipe_out_file := file,
                         shared := (shared s)\<lparr>shm := set_pipe_record (ix + 1) (nat n) True us\<rparr>\<rparr>)))
              else
                Inr (sh_event (Output (pipe_exists_msg (int ix + 1) n)) (s\<lparr>ignore := True\<rparr>))))"

section \<open>Parsing a line\<close>

text \<open>
  The words of one process: a \<^verbatim>\<open><n\<close> among them is a user pipe, and an operator ends them.  A
  process of which nothing but a \<^verbatim>\<open><n\<close> at the end of the line is there is not counted:
  \<^const>\<open>None\<close>.
\<close>

fun rwg_words ::
  "string \<Rightarrow> string list \<Rightarrow> string list \<Rightarrow> rwg \<Rightarrow> (string list option \<times> string list \<times> rwg) result" where
  "rwg_words cmd acc [] s = Inr (if acc = [] then None else Some acc, [], s)"
| "rwg_words cmd acc (w # ws) s =
     (if hd w = CHR ''<'' then ebind (user_pipe_in cmd w s) (rwg_words cmd acc ws)
      else if is_op w then Inr (Some acc, w # ws, s)
      else if 9 \<le> length acc then Inl BufferOverflow
      else rwg_words cmd (acc @ [w]) ws s)"

definition rwg_op ::
  "string \<Rightarrow> string list \<Rightarrow> nat \<Rightarrow> rwg \<Rightarrow> (string list \<times> nat \<times> rwg) result" where
  "rwg_op w rest out s =
     (if w = ''|'' then Inr (rest, out, s)
      else if w = ''>'' then
        (case rest of
           [] \<Rightarrow> Inl NullDeref
         | f # rest \<Rightarrow> ebind (set_redirection f s) (\<lambda>s. Inr (rest, out, s)))
      else if hd w = CHR ''!'' then
        ebind (number_pipe_out (CHR ''!'') w (s\<lparr>line_end_with_pipe := True\<rparr>))
          (\<lambda>(out, s). Inr (rest, out, s\<lparr>shock_pipe_out_flag := True\<rparr>))
      else if hd w = CHR ''|'' then
        ebind (number_pipe_out (CHR ''|'') w (s\<lparr>line_end_with_pipe := True\<rparr>))
          (\<lambda>(out, s). Inr (rest, out, s\<lparr>num_pipe_out_flag := True\<rparr>))
      else ebind (user_pipe_out w s) (\<lambda>s. Inr (rest, out, s)))"

lemma rwg_words_length: "rwg_words cmd acc ws s = Inr (p, rest, s') \<Longrightarrow> length rest \<le> length ws"
  by (induction cmd acc ws s rule: rwg_words.induct) (fastforce split: if_splits)+

lemma rwg_op_length: "rwg_op w rest out s = Inr (rest', out', s') \<Longrightarrow> length rest' \<le> length rest"
  by (auto simp: rwg_op_def split: if_splits list.splits prod.splits)

function rwg_combine ::
  "string \<Rightarrow> string list \<Rightarrow> string list list \<Rightarrow> nat \<Rightarrow> rwg \<Rightarrow> (string list list \<times> nat \<times> rwg) result" where
  "rwg_combine cmd toks procs out s =
     (if toks = [] then Inr (procs, out, s)
      else if 5000 \<le> length procs then Inl BufferOverflow
      else case rwg_words cmd [] toks s of
        Inl e \<Rightarrow> Inl e
      | Inr (p, rest, s) \<Rightarrow>
          (let procs = (case p of None \<Rightarrow> procs | Some words \<Rightarrow> procs @ [words])
           in case rest of
                [] \<Rightarrow> Inr (procs, out, s)
              | w # rest \<Rightarrow>
                  (case rwg_op w rest out s of
                     Inl e \<Rightarrow> Inl e
                   | Inr (rest, out, s) \<Rightarrow> rwg_combine cmd rest procs out s)))"
  by pat_completeness auto
termination
  by (relation "measure (\<lambda>(_, toks, _). length toks)")
    (auto dest!: rwg_words_length rwg_op_length)

declare rwg_combine.simps [simp del]

text \<open>\<^verbatim>\<open>tell\<close> and \<^verbatim>\<open>yell\<close> at the start of the line take the rest of it as it is.\<close>

definition rwg_parse :: "string \<Rightarrow> string list \<Rightarrow> rwg \<Rightarrow> (string list list \<times> nat \<times> rwg) result" where
  "rwg_parse cmd toks s =
     (case toks of
        [] \<Rightarrow> Inl NullDeref
      | w # _ \<Rightarrow>
          if w = ''tell'' \<or> w = ''yell'' then Inr ([toks], 1, s)
          else rwg_combine cmd toks [] 1 s)"

end
