(* ===== verification/Rwg_Exec.thy ===== *)
theory Rwg_Exec
  imports Rwg_Shell
begin

text \<open>
  The execution loop of \<^verbatim>\<open>nctu_np_project2/final/npshell_3.h\<close>: the commands on users, and the four
  ways a process is started.  \<open>rd\<close> is the content of a file that \<^verbatim>\<open>fopen\<close> can read.
\<close>

section \<open>Built-in commands\<close>

definition rwg_printenv :: "string list \<Rightarrow> rwg \<Rightarrow> rwg result" where
  "rwg_printenv args s =
     (case args of
        [] \<Rightarrow> Inr s
      | a # _ \<Rightarrow> (case sh_env s a of
            None \<Rightarrow> Inr s
          | Some v \<Rightarrow> ebind (into_buffer 200 (v @ [NL])) (\<lambda>env. Inr (sh_event (Output env) s))))"

text \<open>\<^verbatim>\<open>exit\<close>: the farewell, the records of all pipes of the user, and the slot.\<close>

definition left_msg :: "string \<Rightarrow> string" where
  "left_msg nm = ''*** User '' @ quoted nm @ '' left. ***'' @ [NL]"

definition rwg_exit :: "rwg \<Rightarrow> rwg result" where
  "rwg_exit s =
     ebind (into_buffer 300 (left_msg (u_name (me s)))) (\<lambda>msg.
     ebind (say msg s) (\<lambda>s.
       Inr (sh_event Exit (s\<lparr>shared := logout (user_index s) (shared s), sh_exited := True\<rparr>))))"

text \<open>\<^verbatim>\<open>fgets(row, 20, file)\<close> until the end of the file.\<close>

definition fgets_row :: "string \<Rightarrow> string" where
  "fgets_row t =
     (let l = takeWhile (\<lambda>c. c \<noteq> NL) t in take 19 (if length l < length t then l @ [NL] else l))"

lemma fgets_row_nonempty: "t \<noteq> [] \<Longrightarrow> fgets_row t \<noteq> []"
  by (cases t) (auto simp: fgets_row_def Let_def)

function fgets_rows :: "string \<Rightarrow> string list" where
  "fgets_rows t =
     (if t = [] then [] else fgets_row t # fgets_rows (drop (length (fgets_row t)) t))"
  by pat_completeness auto
termination
  by (relation "measure length") (auto intro!: diff_less simp: fgets_row_nonempty)

declare fgets_rows.simps [simp del]

text \<open>
  \<^verbatim>\<open>batch\<close>: the rows of the file go behind those that are there, into an array of ten.  The C
  string of a row ends at a NUL in it.
\<close>

definition rwg_batch :: "(string \<Rightarrow> string option) \<Rightarrow> string list \<Rightarrow> rwg \<Rightarrow> rwg result" where
  "rwg_batch rd args s =
     (case args of
        [] \<Rightarrow> Inl NullDeref
      | f # _ \<Rightarrow>
          if 100 \<le> length f then Inl BufferOverflow
          else (case rd f of
            None \<Rightarrow> Inl NullDeref
          | Some content \<Rightarrow>
              (let rows = batch_command s @ map cstr (fgets_rows content)
               in if 10 < length rows then Inl BufferOverflow
                  else Inr (s\<lparr>batch_flag := True, batch_command := rows, batch_command_index := 0\<rparr>))))"

definition who_line :: "int \<Rightarrow> user list \<Rightarrow> nat \<Rightarrow> string" where
  "who_line sck us i =
     to_string (int i + 1) @ [CHR 0x09] @ u_name (us ! i) @ [CHR 0x09] @ ''CGILAB/511'' @ [CHR 0x09] @
     (if u_sock (us ! i) = sck then ''<-me'' else []) @ [NL]"

definition who_header :: string where
  "who_header = ''<ID>'' @ [CHR 0x09] @ ''<nickname>'' @ [CHR 0x09] @ ''<IP/port> '' @ [CHR 0x09] @
     ''<indicate me>'' @ [NL]"

definition rwg_who :: "rwg \<Rightarrow> rwg" where
  "rwg_who s =
     fold (\<lambda>i s. if u_valid (rwg_users s ! i)
                 then sh_event (Output (who_line (rw_sock s) (rwg_users s) i)) s else s)
       slots (sh_event (Output who_header) s)"

definition spoken :: "string list \<Rightarrow> string" where
  "spoken ws = concat (map (\<lambda>w. w @ '' '') ws)"

definition tell_msg :: "string \<Rightarrow> string \<Rightarrow> string" where
  "tell_msg nm t = ''*** '' @ nm @ '' told you ***: '' @ t @ [NL]"

definition yell_msg :: "string \<Rightarrow> string \<Rightarrow> string" where
  "yell_msg nm t = ''*** '' @ nm @ '' yelled ***: '' @ t @ [NL]"

definition rwg_tell :: "string list \<Rightarrow> rwg \<Rightarrow> rwg result" where
  "rwg_tell args s =
     (case args of
        [] \<Rightarrow> Inl NullDeref
      | a # ws \<Rightarrow>
          (let n = atoi a
           in if check_id_exist n (rwg_users s) then
                ebind (into_buffer 1500 (spoken ws)) (\<lambda>t.
                ebind (into_buffer 1500 (tell_msg (u_name (me s)) t)) (\<lambda>msg.
                ebind (notify (nat (n - 1)) msg (shared s)) (\<lambda>m. Inr (s\<lparr>shared := m\<rparr>))))
              else Inr (sh_event (Output (no_user_msg n)) s)))"

definition rwg_yell :: "string list \<Rightarrow> rwg \<Rightarrow> rwg result" where
  "rwg_yell args s =
     ebind (into_buffer 1500 (spoken args)) (\<lambda>t.
     ebind (into_buffer 1500 (yell_msg (u_name (me s)) t)) (\<lambda>msg. say msg s))"

definition set_name :: "string \<Rightarrow> rwg \<Rightarrow> rwg" where
  "set_name nm s =
     s\<lparr>shared := (shared s)\<lparr>shm := (rwg_users s)[user_index s := (me s)\<lparr>u_name := nm\<rparr>]\<rparr>\<rparr>"

definition name_taken_msg :: "string \<Rightarrow> string" where
  "name_taken_msg nm = '' *** User '' @ quoted nm @ '' already exists. ***'' @ [NL]"

definition named_msg :: "string \<Rightarrow> string" where
  "named_msg nm = ''*** User from CGILAB/511 is named '' @ quoted nm @ ''. ***'' @ [NL]"

text \<open>\<^verbatim>\<open>name\<close>, with the 30 bytes of the field.\<close>

definition rwg_name :: "string list \<Rightarrow> rwg \<Rightarrow> rwg result" where
  "rwg_name args s =
     (case args of
        [] \<Rightarrow> Inr (set_name ''(no name)'' s)
      | nm # _ \<Rightarrow>
          if check_name_exist nm (rwg_users s) then Inr (sh_event (Output (name_taken_msg nm)) s)
          else ebind (into_buffer 30 nm) (\<lambda>nm. say (named_msg nm) (set_name nm s)))"

section \<open>Children\<close>

text \<open>Standard input of a child: a numbered pipe, a user pipe, or \<open>fd_in\<close>.\<close>

definition open_user_pipe :: "os \<Rightarrow> rwg \<Rightarrow> fdtable \<Rightarrow> fdtable" where
  "open_user_pipe sys s t =
     (if os_open sys (name_pipe_in_file s)
      then (let (fd, t) = fd_alloc (Opened (name_pipe_in_file s)) t in sys_dup2 fd 0 t)
      else t)"

definition rwg_stdin :: "os \<Rightarrow> nat \<Rightarrow> rwg \<Rightarrow> fdtable \<Rightarrow> fdtable" where
  "rwg_stdin sys fd_in s t =
     (if num_pipe_in_flag s then dup_num_pipe_in s t
      else if name_pipe_in_flag s then open_user_pipe sys s t
      else sys_dup2 fd_in 0 t)"

text \<open>Standard output to a file that is opened before standard input is set.\<close>

definition rwg_file_fds :: "os \<Rightarrow> string \<Rightarrow> nat \<Rightarrow> rwg \<Rightarrow> fdtable" where
  "rwg_file_fds sys name fd_in s =
     (if os_open sys name
      then (let (fd, t) = fd_alloc (Opened name) (k_fds s) in sys_dup2 fd 1 (rwg_stdin sys fd_in s t))
      else rwg_stdin sys fd_in s (k_fds s))"

definition rwg_numbered_fds :: "os \<Rightarrow> nat \<Rightarrow> nat \<Rightarrow> rwg \<Rightarrow> fdtable" where
  "rwg_numbered_fds sys fd_in pipe_out s =
     (let t = rwg_stdin sys fd_in s (k_fds s);
          t = (if shock_pipe_out_flag s then sys_dup2 pipe_out 2 t else t)
      in sys_dup2 pipe_out 1 t)"

definition rwg_single_fds :: "os \<Rightarrow> rwg \<Rightarrow> fdtable" where
  "rwg_single_fds sys s =
     (if num_pipe_in_flag s then dup_num_pipe_in s (k_fds s)
      else if name_pipe_in_flag s then open_user_pipe sys s (k_fds s)
      else k_fds s)"

definition rwg_pipeline_fds :: "os \<Rightarrow> bool \<Rightarrow> nat \<Rightarrow> nat \<Rightarrow> nat \<Rightarrow> rwg \<Rightarrow> fdtable" where
  "rwg_pipeline_fds sys is_last p0 p1 fd_in s =
     (let t = rwg_single_fds sys s;
          t = (if \<not> num_pipe_in_flag s then sys_dup2 fd_in 0 t else t);
          t = sys_close p0 t
      in if \<not> is_last then sys_dup2 p1 1 t else t)"

section \<open>The four branches\<close>

text \<open>What every parent does to its inputs.\<close>

definition drop_inputs :: "rwg \<Rightarrow> rwg" where
  "drop_inputs s = (drop_dead_pipes s)\<lparr>name_pipe_in_flag := False\<rparr>"

definition rwg_exec_redirect :: "os \<Rightarrow> nat \<Rightarrow> string list \<Rightarrow> nat \<Rightarrow> rwg \<Rightarrow> rwg" where
  "rwg_exec_redirect sys n argv fd_in s =
     (let s = close_0_rest_line_pipe_out s;
          name = cstr (redirection_file_name s);
          s = spawn sys argv (rwg_file_fds sys name fd_in s) (if os_open sys name then Some name else None) s;
          s = (if n \<noteq> 1 then close_fd fd_in s else s)
      in (drop_inputs s)\<lparr>write_file_flag := False\<rparr>)"

definition rwg_exec_numbered :: "os \<Rightarrow> nat \<Rightarrow> string list \<Rightarrow> nat \<Rightarrow> nat \<Rightarrow> rwg \<Rightarrow> rwg" where
  "rwg_exec_numbered sys n argv fd_in pipe_out s =
     (let s = close_0_rest_line_pipe_out s;
          s = spawn sys argv (rwg_numbered_fds sys fd_in pipe_out s) None s;
          s = (if n \<noteq> 1 then close_fd fd_in s else s)
      in (drop_inputs s)\<lparr>num_pipe_out_flag := False\<rparr>)"

definition rwg_exec_user_pipe :: "os \<Rightarrow> string \<Rightarrow> nat \<Rightarrow> string list \<Rightarrow> nat \<Rightarrow> rwg \<Rightarrow> rwg" where
  "rwg_exec_user_pipe sys cmd n argv fd_in s =
     (let s = close_0_rest_line_pipe_out s;
          name = name_pipe_out_file s;
          s = spawn sys argv (rwg_file_fds sys name fd_in s) (if os_open sys name then Some name else None) s;
          s = s\<lparr>announces := announces s @ [(cmd, name_pipe_out_id s)]\<rparr>;
          s = (if n \<noteq> 1 then close_fd fd_in s else s)
      in (drop_inputs s)\<lparr>name_pipe_out_flag := False\<rparr>)"

definition rwg_exec_normal :: "os \<Rightarrow> nat \<Rightarrow> nat \<Rightarrow> string list \<Rightarrow> nat \<Rightarrow> rwg \<Rightarrow> nat \<times> rwg" where
  "rwg_exec_normal sys n prc argv fd_in s =
     (if n \<noteq> 1 then
        (let (p0, p1, s) = sys_pipe s;
             s = close_0_rest_line_pipe_out s;
             s = spawn sys argv (rwg_pipeline_fds sys (prc = n - 1) p0 p1 fd_in s) None s;
             s = close_fd p1 s;
             s = (if prc = n - 1 then close_fd p0 s else s)
         in (p0, drop_inputs s))
      else
        (let s = close_0_rest_line_pipe_out s;
             s = spawn sys argv (rwg_single_fds sys s) None s
         in (fd_in, drop_inputs s)))"

text \<open>
  The child of \<^verbatim>\<open>>n\<close> broadcasts, in its own time, before it opens its files: with the table as it
  is then, and a buffer of 1500 bytes.  Nothing checks \<^verbatim>\<open>name_pipe_out_id\<close> here: in the turn
  after a refused \<^verbatim>\<open>>n\<close> behind an accepted one, the flag is still set and its stack slot has the number of no user.
\<close>

definition announce :: "nat \<Rightarrow> string \<times> int \<Rightarrow> shared \<Rightarrow> shared result" where
  "announce ix a m =
     (case a of (cmd, n) \<Rightarrow>
        if n < 1 \<or> 31 < n then Inl OutOfRange
        else ebind (into_buffer 1500 (piped_msg (shm m ! ix) (shm m ! nat (n - 1)) cmd)) (\<lambda>msg. broadcast_msg msg m))"

section \<open>The loop\<close>

definition rwg_builtin :: "(string \<Rightarrow> string option) \<Rightarrow> string \<Rightarrow> string list \<Rightarrow> rwg \<Rightarrow> rwg result option" where
  "rwg_builtin rd c args s =
     (if c = ''printenv'' then Some (rwg_printenv args s)
      else if c = ''setenv'' then Some (Inr (setenv_builtin args s))
      else if c = ''exit'' then Some (rwg_exit s)
      else if c = ''batch'' then Some (rwg_batch rd args s)
      else if c = ''who'' then Some (Inr (rwg_who s))
      else if c = ''tell'' then Some (rwg_tell args s)
      else if c = ''yell'' then Some (rwg_yell args s)
      else if c = ''name'' then Some (rwg_name args s)
      else None)"

definition rwg_process ::
  "os \<Rightarrow> string \<Rightarrow> nat \<Rightarrow> nat \<Rightarrow> string list \<Rightarrow> nat \<Rightarrow> nat \<Rightarrow> rwg \<Rightarrow> nat \<times> rwg" where
  "rwg_process sys cmd n prc argv fd_in pipe_out s =
     (if write_file_flag s \<and> prc = n - 1 then (fd_in, rwg_exec_redirect sys n argv fd_in s)
      else if (shock_pipe_out_flag s \<or> num_pipe_out_flag s) \<and> prc = n - 1 then
        (fd_in, rwg_exec_numbered sys n argv fd_in pipe_out s)
      else if name_pipe_out_flag s \<and> prc = n - 1 then
        (fd_in, rwg_exec_user_pipe sys cmd n argv fd_in s)
      else rwg_exec_normal sys n prc argv fd_in s)"

fun rwg_loop ::
  "os \<Rightarrow> (string \<Rightarrow> string option) \<Rightarrow> string \<Rightarrow> nat \<Rightarrow> nat \<Rightarrow> string list list \<Rightarrow> nat \<Rightarrow> nat \<Rightarrow> rwg \<Rightarrow> rwg result"
where
  "rwg_loop sys rd cmd n prc [] fd_in pipe_out s = Inr s"
| "rwg_loop sys rd cmd n prc ([] # procs) fd_in pipe_out s = Inl NullDeref"
| "rwg_loop sys rd cmd n prc ((c # args) # procs) fd_in pipe_out s =
     (case rwg_builtin rd c args s of
        Some r \<Rightarrow> ebind r (\<lambda>s.
          if sh_exited s then Inr s else rwg_loop sys rd cmd n (prc + 1) procs fd_in pipe_out s)
      | None \<Rightarrow>
          (let (fd_in, s) = rwg_process sys cmd n prc (c # args) fd_in pipe_out s
           in rwg_loop sys rd cmd n (prc + 1) procs fd_in pipe_out s))"

text \<open>A line that is not ignored: counted, parsed, executed unless the parser objects, waited for.\<close>

definition rwg_execute ::
  "os \<Rightarrow> (string \<Rightarrow> string option) \<Rightarrow> string \<Rightarrow> string list \<Rightarrow> rwg \<Rightarrow> rwg result" where
  "rwg_execute sys rd cmd toks s =
     (let s = (if toks \<noteq> [] \<and> num_pipe_vec s \<noteq> [] then decrease_line_count s else s)
      in ebind (rwg_parse cmd toks s) (\<lambda>(procs, out, s).
         ebind (if ignore s then Inr (s\<lparr>ignore := False\<rparr>)
                else rwg_loop sys rd cmd (length procs) 0 procs 0 out s) (\<lambda>s.
           Inr (if sh_exited s \<or> line_end_with_pipe s then s else sh_event WaitAll s))))"

text \<open>One turn, with the bytes \<open>raw\<close> that the socket has if it is read.\<close>

definition rwg_line :: "os \<Rightarrow> (string \<Rightarrow> string option) \<Rightarrow> string \<Rightarrow> rwg \<Rightarrow> rwg result" where
  "rwg_line sys rd raw s =
     ebind (read_command raw (s\<lparr>line_end_with_pipe := False, redirection_file_name := replicate 100 NUL\<rparr>))
       (\<lambda>(line, s).
          ebind (c_format line) (\<lambda>cmd.
            if line = [] \<or> ignore s then Inr (s\<lparr>ignore := False\<rparr>)
            else rwg_execute sys rd cmd (tokens (\<lambda>c. c = CHR '' '') line) s))"

fun rwg_lines :: "os \<Rightarrow> (string \<Rightarrow> string option) \<Rightarrow> string list \<Rightarrow> rwg \<Rightarrow> rwg result" where
  "rwg_lines sys rd [] s = Inr s"
| "rwg_lines sys rd (raw # raws) s =
     (if sh_exited s then Inr s else ebind (rwg_line sys rd raw s) (rwg_lines sys rd raws))"

end
