(* ===== verification/Simple_Shell.thy ===== *)
theory Simple_Shell
  imports Shell_P1_Lines Rwg_Exec Fork_Server
begin

text \<open>
  The shell of the concurrent server \<^verbatim>\<open>np_simple\<close>, \<^verbatim>\<open>nctu_np_project2/final/npshell_1.h\<close>, and that
  server.  The header repeats the parser and the three ways a process is started of the project 1
  shell word for word, so these are the definitions of \<^theory_text>\<open>Shell_P1\<close>; what is its own is how a line is
  read, the command \<^verbatim>\<open>batch\<close>, and the variables that survive a turn.
\<close>

section \<open>State\<close>

text \<open>
  \<open>sm_line\<close> is the content of the array \<^verbatim>\<open>line\<close> as a C string, which the next turn finds when nothing
  is read into it; \<open>sm_rows\<close> are the first \<^verbatim>\<open>batch_count\<close> rows of \<^verbatim>\<open>batch_command\<close>.
\<close>

record simple =
  sm_sh :: npshell
  sm_line :: string
  sm_batch :: bool
  sm_ignore :: bool
  sm_rows :: "string list"
  sm_index :: nat

definition simple_init :: "fdtable \<Rightarrow> nat \<Rightarrow> environ \<Rightarrow> string \<Rightarrow> string \<Rightarrow> simple" where
  "simple_init fds n e name_buf line_buf =
     \<lparr>sm_sh = npshell_init fds n e name_buf, sm_line = line_buf, sm_batch = False, sm_ignore = False,
      sm_rows = [], sm_index = 0\<rparr>"

section \<open>Reading a line\<close>

text \<open>
  From the connection: the bytes \<open>raw\<close> that \<^verbatim>\<open>fgets\<close> stores, none at the end of the input, when
  the array keeps what is in it; then the array is cut at the first byte that is less than 20 as a
  signed \<^verbatim>\<open>char\<close>.  From the batch file: the next row without its last byte.  After the last row
  the batch ends and \<^verbatim>\<open>ignore\<close> is set; a batch without rows changes nothing.
\<close>

definition simple_read :: "string \<Rightarrow> simple \<Rightarrow> simple result" where
  "simple_read raw s =
     (if \<not> sm_batch s then
        Inr (s\<lparr>sm_sh := sh_event Prompt (sm_sh s),
               sm_line := takeWhile (\<lambda>c. 20 \<le> schar c) (if raw = [] then sm_line s else raw)\<rparr>)
      else if sm_rows s = [] then Inr s
      else if sm_index s < length (sm_rows s) then
        (let row = sm_rows s ! sm_index s
         in if row = [] then Inl BufferOverflow
            else Inr (s\<lparr>sm_line := butlast row, sm_index := sm_index s + 1\<rparr>))
      else Inr (s\<lparr>sm_rows := [], sm_index := 0, sm_batch := False, sm_ignore := True\<rparr>))"

text \<open>\<^verbatim>\<open>strtok\<close> ends the first word of the array with a NUL: what is left is a C string up to there.\<close>

definition after_strtok :: "string \<Rightarrow> string" where
  "after_strtok line =
     (case tokens (\<lambda>c. c = CHR '' '') line of
        [] \<Rightarrow> line
      | w # _ \<Rightarrow> takeWhile (\<lambda>c. c = CHR '' '') line @ w)"

section \<open>Executing a line\<close>

definition simple_batch :: "(string \<Rightarrow> string option) \<Rightarrow> string list \<Rightarrow> simple \<Rightarrow> simple result" where
  "simple_batch rd args s =
     (case args of
        [] \<Rightarrow> Inl NullDeref
      | f # _ \<Rightarrow>
          if 100 \<le> length f then Inl BufferOverflow
          else (case rd f of
            None \<Rightarrow> Inl NullDeref
          | Some content \<Rightarrow>
              (let rows = sm_rows s @ map cstr (fgets_rows content)
               in if 10 < length rows then Inl BufferOverflow
                  else Inr (s\<lparr>sm_batch := True, sm_rows := rows, sm_index := 0\<rparr>))))"

abbreviation on_shell :: "npshell \<Rightarrow> simple \<Rightarrow> simple" where
  "on_shell t s \<equiv> s\<lparr>sm_sh := t\<rparr>"

fun simple_loop ::
  "os \<Rightarrow> (string \<Rightarrow> string option) \<Rightarrow> nat \<Rightarrow> nat \<Rightarrow> string list list \<Rightarrow> nat \<Rightarrow> nat \<Rightarrow> simple \<Rightarrow> simple result"
where
  "simple_loop sys rd n prc [] fd_in out s = Inr s"
| "simple_loop sys rd n prc ([] # procs) fd_in out s = Inl NullDeref"
| "simple_loop sys rd n prc ((c # args) # procs) fd_in out s =
     (if c = ''printenv'' then simple_loop sys rd n (prc + 1) procs fd_in out (on_shell (printenv args (sm_sh s)) s)
      else if c = ''setenv'' then
        simple_loop sys rd n (prc + 1) procs fd_in out (on_shell (setenv_builtin args (sm_sh s)) s)
      else if c = ''exit'' then Inr (on_shell (sh_event Exit ((sm_sh s)\<lparr>sh_exited := True\<rparr>)) s)
      else if c = ''batch'' then
        ebind (simple_batch rd args s) (simple_loop sys rd n (prc + 1) procs fd_in out)
      else if write_file_flag (sm_sh s) \<and> prc = n - 1 then
        simple_loop sys rd n (prc + 1) procs fd_in out (on_shell (exec_redirect sys n (c # args) fd_in (sm_sh s)) s)
      else if (shock_pipe_out_flag (sm_sh s) \<or> num_pipe_out_flag (sm_sh s)) \<and> prc = n - 1 then
        simple_loop sys rd n (prc + 1) procs fd_in out
          (on_shell (exec_numbered sys n (c # args) fd_in out (sm_sh s)) s)
      else
        (let (fd_in, t) = exec_normal sys n prc (c # args) fd_in (sm_sh s)
         in simple_loop sys rd n (prc + 1) procs fd_in out (on_shell t s)))"

text \<open>Everything between the reading of a line and the next turn.\<close>

definition simple_execute :: "os \<Rightarrow> (string \<Rightarrow> string option) \<Rightarrow> simple \<Rightarrow> simple result" where
  "simple_execute sys rd s =
     (let line = sm_line s; toks = tokens (\<lambda>c. c = CHR '' '') line; t = sm_sh s;
          t = (if toks \<noteq> [] \<and> num_pipe_vec t \<noteq> [] then decrease_line_count t else t)
      in ebind (combine toks [] 1 t) (\<lambda>(procs, out, t).
           ebind (simple_loop sys rd (length procs) 0 procs 0 out (s\<lparr>sm_sh := t, sm_line := after_strtok line\<rparr>)) (\<lambda>s.
             Inr (if sh_exited (sm_sh s) \<or> line_end_with_pipe (sm_sh s) then s
                  else on_shell (sh_event WaitAll (sm_sh s)) s))))"

text \<open>One turn of the loop.  \<^verbatim>\<open>ignore\<close> is never cleared.\<close>

definition simple_turn :: "os \<Rightarrow> (string \<Rightarrow> string option) \<Rightarrow> string \<Rightarrow> simple \<Rightarrow> simple result" where
  "simple_turn sys rd raw s =
     ebind (simple_read raw (s\<lparr>sm_sh := (sm_sh s)\<lparr>line_end_with_pipe := False\<rparr>\<rparr>)) (\<lambda>s.
       if sm_ignore s then Inr s else simple_execute sys rd s)"

fun simple_turns :: "os \<Rightarrow> (string \<Rightarrow> string option) \<Rightarrow> string list \<Rightarrow> simple \<Rightarrow> simple result" where
  "simple_turns sys rd [] s = Inr s"
| "simple_turns sys rd (raw # raws) s =
     (if sh_exited (sm_sh s) then Inr s else ebind (simple_turn sys rd raw s) (simple_turns sys rd raws))"

section \<open>The server\<close>

text \<open>
  \<^verbatim>\<open>main\<close>: each connection is forked off.  \<open>conn\<close> is the open file of the connection that \<^verbatim>\<open>accept\<close>
  returns, one that comes from outside like the terminal; its error, \<^const>\<open>None\<close>, is reported and
  otherwise ignored, as is the one of \<^verbatim>\<open>fork\<close>.  The child closes the listening socket and makes the
  connection its standard descriptors.
\<close>

definition simple_accept_fds :: "nat option \<Rightarrow> fdtable \<Rightarrow> nat option \<times> fdtable" where
  "simple_accept_fds conn t =
     (case conn of
        None \<Rightarrow> (None, t)
      | Some c \<Rightarrow> (let (fd, t) = fd_alloc (Inherited c) t in (Some fd, t)))"

definition simple_child_fds :: "nat \<Rightarrow> nat option \<Rightarrow> fdtable \<Rightarrow> fdtable" where
  "simple_child_fds sockfd new t =
     (let t = sys_close sockfd t
      in case new of
           None \<Rightarrow> t
         | Some fd \<Rightarrow> sys_dup2 fd 2 (sys_dup2 fd 1 (sys_dup2 fd 0 t)))"

definition simple_parent_fds :: "nat option \<Rightarrow> fdtable \<Rightarrow> fdtable" where
  "simple_parent_fds new t = (case new of None \<Rightarrow> t | Some fd \<Rightarrow> sys_close fd t)"

text \<open>
  One round of the accept loop, in the parent or in the child, which goes into the shell.  \<open>e\<close> and the
  two buffers are what the shell of the child starts with.
\<close>

record simple_server =
  sv_fds :: fdtable
  sv_sockfd :: nat
  sv_session :: "simple option"
  sv_zombies :: nat

definition simple_round ::
  "nat option \<Rightarrow> fork_result \<Rightarrow> environ \<Rightarrow> string \<Rightarrow> string \<Rightarrow> simple_server \<Rightarrow> simple_server" where
  "simple_round conn r e name_buf line_buf g =
     (let (new, t) = simple_accept_fds conn (sv_fds g)
      in case r of
           InChild \<Rightarrow>
             (let t = simple_child_fds (sv_sockfd g) new t
              in g\<lparr>sv_fds := t, sv_session := Some (simple_init t 0 e name_buf line_buf)\<rparr>)
         | _ \<Rightarrow> g\<lparr>sv_fds := simple_parent_fds new t\<rparr>)"

text \<open>
  The listening process over what happens to it: connections it forks off, or fails to, and ends of
  children.  It has no handler for \<^verbatim>\<open>SIGCHLD\<close> and waits for nobody.
\<close>

datatype simple_event = Connection "nat option" bool | ChildEnds

fun simple_serve :: "simple_event list \<Rightarrow> simple_server \<Rightarrow> simple_server" where
  "simple_serve [] g = g"
| "simple_serve (Connection conn forked # evs) g =
     simple_serve evs (simple_round conn (if forked then InParent else ForkFailed) Map.empty [] [] g)"
| "simple_serve (ChildEnds # evs) g = simple_serve evs (g\<lparr>sv_zombies := sv_zombies g + 1\<rparr>)"

end
