(* ===== verification/Simple_Claims.thy ===== *)
theory Simple_Claims
  imports Simple_Shell Shell_P1_Claims
begin

text \<open>
  The properties of the concurrent server \<^verbatim>\<open>np_simple\<close>: its shell is the project 1 shell as long as no
  \<^verbatim>\<open>batch\<close> is used, what \<^verbatim>\<open>batch\<close> and the end of the connection do to it, and what a connection hands to
  the shell.
\<close>

section \<open>A session for the witnesses\<close>

definition demo_visit :: simple where
  "demo_visit = simple_init [Some (Inherited 7), Some (Inherited 7), Some (Inherited 7)] 0 Map.empty
     (replicate 100 NUL) []"

definition demo_files :: "string \<Rightarrow> string option" where
  "demo_files f = (if f = ''cmds'' then Some (''ls'' @ [NL] @ ''cat'' @ [NL]) else None)"

lemma demo_visit_sel [simp]:
  "\<not> sm_batch demo_visit" "\<not> sm_ignore demo_visit" "\<not> sh_exited (sm_sh demo_visit)"
  "num_pipe_vec (sm_sh demo_visit) = []" "plain (sm_sh demo_visit)"
  by (simp_all add: demo_visit_def simple_init_def npshell_init_def plain_def)

section \<open>The project 1 shell behind a connection\<close>

lemma simple_loop_project1:
  "\<forall>p\<in>set procs. p \<noteq> [] \<longrightarrow> hd p \<noteq> ''batch'' \<Longrightarrow>
   simple_loop sys rd n prc procs fd_in out s =
     ebind (exec_loop sys n prc procs fd_in out (sm_sh s)) (\<lambda>t. Inr (on_shell t s))"
proof (induction procs arbitrary: prc fd_in s)
  case (Cons p procs)
  then have IH: "simple_loop sys rd n prc procs fd_in out s =
      ebind (exec_loop sys n prc procs fd_in out (sm_sh s)) (\<lambda>t. Inr (on_shell t s))" for prc fd_in s
    by simp
  show ?case
  proof (cases p)
    case (Cons c args)
    with Cons.prems have "c \<noteq> ''batch''" by simp
    then show ?thesis using IH by (simp add: Cons split: prod.split)
  qed simp
qed simp

lemma execute_project1:
  assumes "''batch'' \<notin> set (tokens (\<lambda>c. c = CHR '' '') (sm_line s))"
  defines "toks \<equiv> tokens (\<lambda>c. c = CHR '' '') (sm_line s)"
  defines "t \<equiv> (if toks \<noteq> [] \<and> num_pipe_vec (sm_sh s) \<noteq> [] then decrease_line_count (sm_sh s) else sm_sh s)"
  shows "simple_execute sys rd s =
    ebind (ebind (combine toks [] 1 t) (\<lambda>(procs, out, t).
       ebind (exec_loop sys (length procs) 0 procs 0 out t) (\<lambda>t.
         Inr (if sh_exited t \<or> line_end_with_pipe t then t else sh_event WaitAll t))))
      (\<lambda>t. Inr (s\<lparr>sm_sh := t, sm_line := after_strtok (sm_line s)\<rparr>))"
proof (cases "combine toks [] 1 t")
  case (Inl e)
  then show ?thesis by (simp add: simple_execute_def Let_def toks_def [symmetric] t_def [symmetric])
next
  case (Inr r)
  then obtain procs out u where c: "combine toks [] 1 t = Inr (procs, out, u)" by (cases r) auto
  have "\<forall>p\<in>set procs. \<forall>w\<in>set p. w \<in> set toks" using combine_rows [OF c, of "set toks"] by simp
  then have "\<forall>p\<in>set procs. p \<noteq> [] \<longrightarrow> hd p \<noteq> ''batch''"
    using assms(1) hd_in_set unfolding toks_def by metis
  note l = simple_loop_project1 [OF this, of sys rd "length procs" 0 0 out
      "s\<lparr>sm_sh := u, sm_line := after_strtok (sm_line s)\<rparr>"]
  show ?thesis
  proof (cases "exec_loop sys (length procs) 0 procs 0 out u")
    case (Inl e)
    then show ?thesis using c l
      by (simp add: simple_execute_def Let_def toks_def [symmetric] t_def [symmetric])
  next
    case (Inr v)
    then show ?thesis using c l
      by (simp add: simple_execute_def Let_def toks_def [symmetric] t_def [symmetric])
  qed
qed

lemma simple_turn_line:
  assumes "\<forall>c\<in>set line. 20 \<le> schar c" and "''batch'' \<notin> set (tokens (\<lambda>c. c = CHR '' '') line)"
    and "\<not> sm_batch s" and "\<not> sm_ignore s" and "\<not> 20 \<le> schar d"
  shows "simple_turn sys rd (line @ d # rest) s =
    ebind (shell_line sys (line @ [NL]) (sm_sh s)) (\<lambda>t. Inr (s\<lparr>sm_sh := t, sm_line := after_strtok line\<rparr>))"
proof -
  have "takeWhile (\<lambda>c. 20 \<le> schar c) (line @ d # rest) = line"
    using assms(1,5) by (simp add: takeWhile_append_stop)
  then have r: "simple_read (line @ d # rest) (s\<lparr>sm_sh := (sm_sh s)\<lparr>line_end_with_pipe := False\<rparr>\<rparr>) =
      Inr (s\<lparr>sm_sh := sh_event Prompt ((sm_sh s)\<lparr>line_end_with_pipe := False\<rparr>), sm_line := line\<rparr>)" (is "_ = Inr ?s")
    using assms(3) by (simp add: simple_read_def)
  have "NUL \<notin> set line" using assms(1) by (auto simp: NUL_def schar_def)
  then have "cstr (line @ [NL]) = line @ [NL]"
    by (simp add: cstr_def takeWhile_eq_all_conv) (auto simp: NL_def NUL_def)
  then show ?thesis
    using execute_project1 [of ?s sys rd] assms(2,4) r
    by (simp add: simple_turn_def shell_line_def Let_def)
qed

text \<open>
  C2. The shell of \<^verbatim>\<open>np_simple\<close> is the shell of project 1 behind a connection: outside a batch, a line of
  text that ends with carriage return and line feed does exactly what the same line does there, with
  the same children, descriptors, numbered pipes and errors, unless one of its words is \<^verbatim>\<open>batch\<close>.  So
  every property of the project 1 shell is one of the server's sessions.\<close>

theorem simple_turn_is_project1_turn:
  assumes "\<forall>c\<in>set line. 20 \<le> schar c" and "''batch'' \<notin> set (tokens (\<lambda>c. c = CHR '' '') line)"
    and "\<not> sm_batch s" and "\<not> sm_ignore s"
  shows "simple_turn sys rd (line @ [CR, NL]) s =
    ebind (shell_line sys (line @ [NL]) (sm_sh s)) (\<lambda>t. Inr (s\<lparr>sm_sh := t, sm_line := after_strtok line\<rparr>))"
  by (rule simple_turn_line [OF assms]) (simp add: CR_def schar_def)

theorem simple_turn_is_project1_turn_witness:
  "simple_turn demo_os demo_files (''ls |2'' @ [CR, NL]) demo_visit =
     ebind (shell_line demo_os (''ls |2'' @ [NL]) (sm_sh demo_visit))
       (\<lambda>t. Inr (demo_visit\<lparr>sm_sh := t, sm_line := after_strtok ''ls |2''\<rparr>))"
proof -
  have l: "\<forall>c\<in>set ''ls |2''. 20 \<le> schar c" "''batch'' \<notin> set (tokens (\<lambda>c. c = CHR '' '') ''ls |2'')"
    by code_simp+
  show ?thesis by (rule simple_turn_is_project1_turn [OF l]) simp_all
qed

section \<open>Batches\<close>

text \<open>What a line does to the project 1 shell once it is read, without the prompt.\<close>

definition execute_line :: "os \<Rightarrow> string \<Rightarrow> npshell \<Rightarrow> npshell result" where
  "execute_line sys line t =
     (let toks = tokens (\<lambda>c. c = CHR '' '') line;
          t = (if toks \<noteq> [] \<and> num_pipe_vec t \<noteq> [] then decrease_line_count t else t)
      in ebind (combine toks [] 1 t) (\<lambda>(procs, out, t).
           ebind (exec_loop sys (length procs) 0 procs 0 out t) (\<lambda>t.
             Inr (if sh_exited t \<or> line_end_with_pipe t then t else sh_event WaitAll t))))"

lemma execute_line:
  "''batch'' \<notin> set (tokens (\<lambda>c. c = CHR '' '') (sm_line s)) \<Longrightarrow> simple_execute sys rd s =
     ebind (execute_line sys (sm_line s) (sm_sh s)) (\<lambda>t. Inr (s\<lparr>sm_sh := t, sm_line := after_strtok (sm_line s)\<rparr>))"
  using execute_project1 [of s sys rd] by (simp add: execute_line_def Let_def)

text \<open>The rows of a batch, one after the other, until one of them ends the shell.\<close>

fun batch_lines :: "os \<Rightarrow> string list \<Rightarrow> npshell \<Rightarrow> npshell result" where
  "batch_lines sys [] t = Inr t"
| "batch_lines sys (row # rows) t =
     (if sh_exited t then Inr t
      else ebind (execute_line sys (butlast row) (t\<lparr>line_end_with_pipe := False\<rparr>)) (batch_lines sys rows))"

lemma batch_lines_exited: "sh_exited t \<Longrightarrow> batch_lines sys rows t = Inr t"
  by (cases rows) simp_all

definition plain_row :: "string \<Rightarrow> bool" where
  "plain_row row \<longleftrightarrow> row \<noteq> [] \<and> ''batch'' \<notin> set (tokens (\<lambda>c. c = CHR '' '') (butlast row))"

lemma batch_turn:
  assumes "sm_batch s" and "\<not> sm_ignore s" and "sm_index s < length (sm_rows s)"
    and "plain_row (sm_rows s ! sm_index s)"
  shows "simple_turn sys rd raw s =
    ebind (execute_line sys (butlast (sm_rows s ! sm_index s)) ((sm_sh s)\<lparr>line_end_with_pipe := False\<rparr>))
      (\<lambda>t. Inr (s\<lparr>sm_sh := t, sm_line := after_strtok (butlast (sm_rows s ! sm_index s)),
                sm_index := sm_index s + 1\<rparr>))"
proof -
  let ?row = "sm_rows s ! sm_index s"
  let ?s = "s\<lparr>sm_sh := (sm_sh s)\<lparr>line_end_with_pipe := False\<rparr>, sm_line := butlast ?row, sm_index := sm_index s + 1\<rparr>"
  have "simple_read raw (s\<lparr>sm_sh := (sm_sh s)\<lparr>line_end_with_pipe := False\<rparr>\<rparr>) = Inr ?s"
    using assms by (auto simp: simple_read_def plain_row_def Let_def)
  then have "simple_turn sys rd raw s = simple_execute sys rd ?s" using assms(2) by (simp add: simple_turn_def)
  also have "\<dots> = ebind (execute_line sys (sm_line ?s) (sm_sh ?s))
      (\<lambda>t. Inr (?s\<lparr>sm_sh := t, sm_line := after_strtok (sm_line ?s)\<rparr>))"
    by (rule execute_line) (use assms(4) in \<open>simp add: plain_row_def\<close>)
  finally show ?thesis by (cases "execute_line sys (butlast ?row) ((sm_sh s)\<lparr>line_end_with_pipe := False\<rparr>)") simp_all
qed

lemma batch_turns:
  assumes "sm_batch s" and "\<not> sm_ignore s" and "drop (sm_index s) (sm_rows s) = todo" and "sm_index s \<le> length (sm_rows s)"
    and "\<forall>row\<in>set todo. plain_row row" and "batch_lines sys todo (sm_sh s) = Inr t" and "\<not> sh_exited t"
    and "length raws = length todo"
  shows "\<exists>l. simple_turns sys rd raws s = Inr (s\<lparr>sm_sh := t, sm_line := l, sm_index := length (sm_rows s)\<rparr>)"
  using assms
proof (induction todo arbitrary: s raws)
  case Nil
  then have "sm_index s = length (sm_rows s)" by simp
  moreover have "sm_sh s = t" "raws = []" using Nil.prems by simp_all
  ultimately show ?case by (intro exI [of _ "sm_line s"]) simp
next
  case (Cons row todo)
  then obtain raw raws' where raws: "raws = raw # raws'" by (cases raws) simp_all
  have i: "sm_index s < length (sm_rows s)" using Cons.prems(3) by (metis drop_all list.distinct(1) not_le)
  have row: "sm_rows s ! sm_index s = row" "drop (Suc (sm_index s)) (sm_rows s) = todo"
    using Cons.prems(3) i by (simp_all add: Cons_nth_drop_Suc [symmetric, OF i])
  have ex: "\<not> sh_exited (sm_sh s)" using Cons.prems(6,7) by (auto split: if_splits)
  then obtain u where u: "execute_line sys (butlast row) ((sm_sh s)\<lparr>line_end_with_pipe := False\<rparr>) = Inr u"
    and rec: "batch_lines sys todo u = Inr t"
    using Cons.prems(6) by auto
  let ?s = "s\<lparr>sm_sh := u, sm_line := after_strtok (butlast row), sm_index := sm_index s + 1\<rparr>"
  have turn: "simple_turn sys rd raw s = Inr ?s"
    using batch_turn [OF Cons.prems(1,2) i, of sys rd raw] Cons.prems(5) u by (simp add: row(1))
  obtain l where "simple_turns sys rd raws' ?s = Inr (?s\<lparr>sm_sh := t, sm_line := l, sm_index := length (sm_rows ?s)\<rparr>)"
    using Cons.IH [of ?s raws'] Cons.prems i row(2) rec raws by auto
  then show ?case using turn ex raws by (intro exI [of _ l]) simp
qed

lemma simple_turns_append:
  "simple_turns sys rd (raws @ raws') s = ebind (simple_turns sys rd raws s) (simple_turns sys rd raws')"
proof (induction raws arbitrary: s)
  case (Cons raw raws)
  have IH: "simple_turns sys rd (raws @ raws') = (\<lambda>s. ebind (simple_turns sys rd raws s) (simple_turns sys rd raws'))"
    using Cons by (intro ext)
  have "sh_exited (sm_sh s) \<Longrightarrow> simple_turns sys rd raws' s = Inr s" by (cases raws') simp_all
  then show ?case by (simp add: ebind_assoc IH)
qed simp

lemma batch_last_turn:
  assumes "sm_batch s" and "sm_rows s \<noteq> []" and "sm_index s = length (sm_rows s)"
  shows "simple_turn sys rd raw s = Inr (s\<lparr>sm_sh := (sm_sh s)\<lparr>line_end_with_pipe := False\<rparr>, sm_rows := [],
      sm_index := 0, sm_batch := False, sm_ignore := True\<rparr>)"
  using assms by (simp add: simple_turn_def simple_read_def)

text \<open>
  C8. A batch ends: with \<open>n\<close> rows it takes \<open>n + 1\<close> turns, which execute the rows in their order, each
  without its last byte, and read nothing from the connection, whatever is waiting there.  The last
  turn only ends the batch.\<close>

theorem batch_ends:
  assumes "sm_batch s" and "\<not> sm_ignore s" and "sm_index s = 0" and "sm_rows s \<noteq> []"
    and "\<forall>row\<in>set (sm_rows s). plain_row row" and "batch_lines sys (sm_rows s) (sm_sh s) = Inr t" and "\<not> sh_exited t"
    and "length raws = length (sm_rows s) + 1"
  shows "\<exists>s'. simple_turns sys rd raws s = Inr s' \<and> \<not> sm_batch s' \<and> sm_ignore s' \<and> sm_rows s' = []
    \<and> sm_sh s' = t\<lparr>line_end_with_pipe := False\<rparr>"
proof -
  obtain pre raw where raws: "raws = pre @ [raw]" "length pre = length (sm_rows s)"
    using assms(8) by (cases raws rule: rev_cases) simp_all
  obtain l where "simple_turns sys rd pre s = Inr (s\<lparr>sm_sh := t, sm_line := l, sm_index := length (sm_rows s)\<rparr>)"
    (is "_ = Inr ?s")
    using batch_turns [OF assms(1,2) _ _ _ _ assms(7), of "sm_rows s" sys pre rd] assms(3-6) raws(2) by auto
  then show ?thesis
    using batch_last_turn [of ?s sys rd raw] assms(1,4,7) raws(1) by (simp add: simple_turns_append)
qed

definition demo_batch :: simple where
  "demo_batch = demo_visit\<lparr>sm_batch := True, sm_rows := [''ls'' @ [NL], ''cat'' @ [NL]]\<rparr>"

theorem batch_ends_witness:
  "\<exists>t s'. batch_lines demo_os (sm_rows demo_batch) (sm_sh demo_batch) = Inr t
    \<and> simple_turns demo_os demo_files [[], ''exit'' @ [NL], []] demo_batch = Inr s' \<and> \<not> sm_batch s' \<and> sm_ignore s'
    \<and> sm_sh s' = t\<lparr>line_end_with_pipe := False\<rparr>"
proof -
  have "case batch_lines demo_os (sm_rows demo_batch) (sm_sh demo_batch) of Inl _ \<Rightarrow> False | Inr t \<Rightarrow> \<not> sh_exited t"
    by code_simp
  then obtain t where t: "batch_lines demo_os (sm_rows demo_batch) (sm_sh demo_batch) = Inr t" "\<not> sh_exited t"
    by (cases "batch_lines demo_os (sm_rows demo_batch) (sm_sh demo_batch)") simp_all
  have p: "\<forall>row\<in>set (sm_rows demo_batch). plain_row row" by code_simp
  have "\<exists>s'. simple_turns demo_os demo_files [[], ''exit'' @ [NL], []] demo_batch = Inr s' \<and> \<not> sm_batch s'
      \<and> sm_ignore s' \<and> sm_rows s' = [] \<and> sm_sh s' = t\<lparr>line_end_with_pipe := False\<rparr>"
    by (rule batch_ends [OF _ _ _ _ p t]) (simp_all add: demo_batch_def demo_visit_def simple_init_def)
  with t(1) show ?thesis by blast
qed

text \<open>
  After a batch the shell is deaf for ever: it prompts and reads, but no line is executed any
  more, not even \<^verbatim>\<open>exit\<close>, since nothing clears \<^verbatim>\<open>ignore\<close>.\<close>

theorem deaf_after_batch:
  assumes "sm_ignore s" and "\<not> sm_batch s" and "\<not> sh_exited (sm_sh s)"
  shows "\<exists>s'. simple_turns sys rd raws s = Inr s' \<and> sm_ignore s' \<and> \<not> sh_exited (sm_sh s')
    \<and> sh_log (sm_sh s') = sh_log (sm_sh s) @ replicate (length raws) Prompt
    \<and> num_pipe_vec (sm_sh s') = num_pipe_vec (sm_sh s) \<and> k_fds (sm_sh s') = k_fds (sm_sh s)"
  using assms
proof (induction raws arbitrary: s)
  case (Cons raw raws)
  obtain s1 where s1: "simple_turn sys rd raw s = Inr s1" "sm_ignore s1" "\<not> sm_batch s1" "\<not> sh_exited (sm_sh s1)"
    "sh_log (sm_sh s1) = sh_log (sm_sh s) @ [Prompt]" "num_pipe_vec (sm_sh s1) = num_pipe_vec (sm_sh s)"
    "k_fds (sm_sh s1) = k_fds (sm_sh s)"
    using Cons.prems by (simp add: simple_turn_def simple_read_def sh_event_def)
  from Cons.IH [OF s1(2-4)] show ?case using s1 Cons.prems(3) by auto
qed simp

theorem deaf_after_batch_witness:
  "\<exists>s'. simple_turns demo_os demo_files [''exit'' @ [CR, NL], ''ls'' @ [CR, NL]] (demo_visit\<lparr>sm_ignore := True\<rparr>) = Inr s'
    \<and> \<not> sh_exited (sm_sh s') \<and> sh_log (sm_sh s') = sh_log (sm_sh demo_visit) @ [Prompt, Prompt]"
proof -
  have "sm_ignore (demo_visit\<lparr>sm_ignore := True\<rparr>)" "\<not> sm_batch (demo_visit\<lparr>sm_ignore := True\<rparr>)"
    "\<not> sh_exited (sm_sh (demo_visit\<lparr>sm_ignore := True\<rparr>))" by simp_all
  from deaf_after_batch [OF this, of demo_os demo_files "[''exit'' @ [CR, NL], ''ls'' @ [CR, NL]]"]
  show ?thesis by (auto simp: numeral_2_eq_2)
qed

section \<open>The end of the connection\<close>

lemma split_at_chars: "w \<in> set (split_at p line) \<Longrightarrow> set w \<subseteq> set line"
  by (induction line arbitrary: w) (fastforce split: list.splits if_splits)+

lemma tokens_chars: "w \<in> set (tokens p line) \<Longrightarrow> set w \<subseteq> set line"
  using split_at_chars [of w p line] by (auto simp: tokens_def)

lemma tokens_take_while_sep: "\<forall>c\<in>set sep. p c \<Longrightarrow> tokens p (sep @ s) = tokens p s"
  by (induction sep) simp_all

lemma after_strtok_tokens:
  assumes "tokens (\<lambda>c. c = CHR '' '') line = w # ws"
  shows "tokens (\<lambda>c. c = CHR '' '') (after_strtok line) = [w]"
proof -
  have w: "w \<noteq> []" "\<forall>c\<in>set w. c \<noteq> CHR '' ''"
    using assms tokens_nonempty [of w "\<lambda>c. c = CHR '' ''" line] tokens_no_sep [of w "\<lambda>c. c = CHR '' ''" line] by auto
  have "\<forall>c\<in>set (takeWhile (\<lambda>c. c = CHR '' '') line). c = CHR '' ''" by (auto dest: set_takeWhileD)
  then show ?thesis
    using assms w by (simp add: after_strtok_def tokens_take_while_sep tokens_word)
qed

lemma after_strtok_idem:
  assumes t: "tokens (\<lambda>c. c = CHR '' '') line = w # ws"
  shows "after_strtok (after_strtok line) = after_strtok line"
proof -
  have w: "takeWhile (\<lambda>c. c = CHR '' '') w = []"
    using t tokens_no_sep [of w "\<lambda>c. c = CHR '' ''" line "hd w"] by (cases w) auto
  have "\<forall>c\<in>set (takeWhile (\<lambda>c. c = CHR '' '') line). c = CHR '' ''" by (auto dest: set_takeWhileD)
  then have "takeWhile (\<lambda>c. c = CHR '' '') (after_strtok line) = takeWhile (\<lambda>c. c = CHR '' '') line"
    using t w by (simp add: after_strtok_def takeWhile_append)
  then show ?thesis
    using after_strtok_tokens [OF t] t by (simp add: after_strtok_def [of "after_strtok line"]) (simp add: after_strtok_def)
qed

lemma after_strtok_chars: "set (after_strtok line) \<subseteq> set line"
proof (cases "tokens (\<lambda>c. c = CHR '' '') line")
  case (Cons w ws)
  then have "set w \<subseteq> set line" using tokens_chars [of w "\<lambda>c. c = CHR '' ''" line] by simp
  then show ?thesis using Cons by (auto simp: after_strtok_def dest: set_takeWhileD)
qed (simp add: after_strtok_def)

definition word_child :: "os \<Rightarrow> string \<Rightarrow> npshell \<Rightarrow> child" where
  "word_child sys w t =
     \<lparr>ch_argv = [w], ch_fds = k_fds t, ch_trunc = None, ch_end = exec_child sys (sh_env t) [w]\<rparr>"

lemma execute_word:
  assumes "tokens (\<lambda>c. c = CHR '' '') line = [w]" and "\<not> is_builtin w" and "\<not> is_op w" and "plain t"
    and "\<not> line_end_with_pipe t" and "\<not> sh_exited t"
  shows "execute_line sys line t = Inr (sh_event WaitAll (sh_event (Spawn (word_child sys w t)) t))"
  using assms
  by (simp add: execute_line_def Let_def combine.simps exec_normal_def spawn_def close_out_plain plain_def
      single_fds_def word_child_def is_builtin_def drop_dead_pipes_def sh_event_def)

text \<open>
  The shell does not notice the end of its input: after a plain command, the turns that read
  nothing any more, since the client has closed its side and only listens, each start the command's first word once more,
  without its arguments, and wait for it, as often as the loop turns.\<close>

theorem eof_repeats_last_command:
  assumes "sm_line s = after_strtok line" and "tokens (\<lambda>c. c = CHR '' '') line = w # ws"
    and "\<not> is_builtin w" and "w \<noteq> ''batch''" and "\<not> is_op w" and "\<forall>c\<in>set line. 20 \<le> schar c"
    and "plain (sm_sh s)" and "\<not> sh_exited (sm_sh s)" and "\<not> sm_batch s" and "\<not> sm_ignore s"
  shows "\<exists>s'. simple_turns sys rd (replicate n []) s = Inr s' \<and> sh_log (sm_sh s') = sh_log (sm_sh s)
    @ concat (replicate n [Prompt, Spawn (word_child sys w (sm_sh s)), WaitAll])"
proof -
  have line: "tokens (\<lambda>c. c = CHR '' '') (sm_line s) = [w]" "after_strtok (sm_line s) = sm_line s"
    using after_strtok_tokens [OF assms(2)] after_strtok_idem [OF assms(2)] by (simp_all add: assms(1))
  have cut: "takeWhile (\<lambda>c. 20 \<le> schar c) (sm_line s) = sm_line s"
    using assms(1,6) after_strtok_chars [of line] by (auto simp: takeWhile_eq_all_conv)
  from assms(7-10) line cut show ?thesis
  proof (induction n arbitrary: s)
    case (Suc n)
    let ?t = "sh_event Prompt ((sm_sh s)\<lparr>line_end_with_pipe := False\<rparr>)"
    let ?u = "sh_event WaitAll (sh_event (Spawn (word_child sys w ?t)) ?t)"
    have "simple_turn sys rd [] s = simple_execute sys rd (s\<lparr>sm_sh := ?t, sm_line := sm_line s\<rparr>)"
      using Suc.prems by (simp add: simple_turn_def simple_read_def del: takeWhile_eq_all_conv)
    also have "\<dots> = Inr (s\<lparr>sm_sh := ?u\<rparr>)"
      using execute_word [of "sm_line s" w ?t sys] execute_line [of "s\<lparr>sm_sh := ?t, sm_line := sm_line s\<rparr>" sys rd]
        Suc.prems assms(3-5)
      by (simp add: sh_event_def plain_def)
    finally have turn: "simple_turn sys rd [] s = Inr (s\<lparr>sm_sh := ?u\<rparr>)" .
    have same: "word_child sys w ?u = word_child sys w (sm_sh s)" "word_child sys w ?t = word_child sys w (sm_sh s)"
      by (simp_all add: word_child_def sh_event_def)
    have "plain ?u" "\<not> sh_exited ?u" using Suc.prems(1,2) by (simp_all add: plain_def sh_event_def)
    then obtain s' where "simple_turns sys rd (replicate n []) (s\<lparr>sm_sh := ?u\<rparr>) = Inr s'"
      "sh_log (sm_sh s') = sh_log ?u @ concat (replicate n [Prompt, Spawn (word_child sys w ?u), WaitAll])"
      using Suc.IH [of "s\<lparr>sm_sh := ?u\<rparr>"] Suc.prems by auto
    then show ?case using turn same Suc.prems(2) by (intro exI [of _ s']) (simp add: sh_event_def)
  qed simp
qed

theorem eof_repeats_last_command_witness:
  "\<exists>s'. simple_turns demo_os demo_files (replicate 2 []) (demo_visit\<lparr>sm_line := ''ls''\<rparr>) = Inr s'
    \<and> sh_log (sm_sh s') = sh_log (sm_sh (demo_visit\<lparr>sm_line := ''ls''\<rparr>))
      @ concat (replicate 2 [Prompt, Spawn (word_child demo_os ''ls'' (sm_sh (demo_visit\<lparr>sm_line := ''ls''\<rparr>))), WaitAll])"
proof -
  have l: "sm_line (demo_visit\<lparr>sm_line := ''ls''\<rparr>) = after_strtok ''ls -l''"
    "tokens (\<lambda>c. c = CHR '' '') ''ls -l'' = [''ls'', ''-l'']" "\<forall>c\<in>set ''ls -l''. 20 \<le> schar c"
    "\<not> is_builtin ''ls''" "\<not> is_op ''ls''"
    by (code_simp, code_simp, code_simp, simp add: is_builtin_def, simp add: is_op_def)
  show ?thesis by (rule eof_repeats_last_command [OF l(1,2,4) _ l(5,3)]) simp_all
qed

section \<open>A connection\<close>

lemma accept_then_close:
  "fd_get (simple_parent_fds (fst (simple_accept_fds conn t)) (snd (simple_accept_fds conn t))) f = fd_get t f"
proof (cases conn)
  case (Some c)
  then show ?thesis
    using fd.alloc_free [of t "Inherited c"]
    by (simp add: simple_parent_fds_def simple_accept_fds_def case_prod_unfold Let_def)
qed (simp add: simple_parent_fds_def simple_accept_fds_def)

lemma simple_round_parent:
  "r \<noteq> InChild \<Longrightarrow> fd_get (sv_fds (simple_round conn r e nb lb g)) f = fd_get (sv_fds g) f
     \<and> sv_sockfd (simple_round conn r e nb lb g) = sv_sockfd g
     \<and> sv_session (simple_round conn r e nb lb g) = sv_session g
     \<and> sv_zombies (simple_round conn r e nb lb g) = sv_zombies g"
  using accept_then_close [of conn "sv_fds g" f]
  by (cases r) (simp_all add: simple_round_def Let_def case_prod_unfold)

lemma simple_serve_parent:
  "fd_get (sv_fds (simple_serve evs g)) f = fd_get (sv_fds g) f \<and> sv_sockfd (simple_serve evs g) = sv_sockfd g
   \<and> sv_zombies (simple_serve evs g) = sv_zombies g + length (filter (\<lambda>ev. ev = ChildEnds) evs)"
proof (induction evs arbitrary: g)
  case (Cons ev evs)
  then show ?case by (cases ev) (simp_all add: simple_round_parent)
qed simp

text \<open>
  C10. Whatever happened to the server before, every connection gets a fresh shell that starts from the
  invariant: its standard descriptors are the connection, the listening socket is closed in it, its
  search path is \<^verbatim>\<open>bin:.\<close>; and the listening process has not lost or gained a descriptor.
  But it has collected none of its children: each one that ended is still a zombie.\<close>

theorem simple_connection_starts_shell:
  assumes "2 < sv_sockfd g" and "\<forall>f<3. \<exists>k. fd_get (sv_fds g) f = Some (Inherited k)"
    and "\<forall>f i. fd_get (sv_fds g) f \<noteq> Some (PipeR i) \<and> fd_get (sv_fds g) f \<noteq> Some (PipeW i)"
    and "fd_get (sv_fds g) (sv_sockfd g) \<noteq> None"
  shows "\<exists>s. sv_session (simple_round (Some c) InChild e nb lb (simple_serve evs g)) = Some s
    \<and> shell_inv (sm_sh s) \<and> (\<forall>f<3. fd_get (k_fds (sm_sh s)) f = Some (Inherited c))
    \<and> fd_get (k_fds (sm_sh s)) (sv_sockfd g) = None \<and> sh_env (sm_sh s) ''PATH'' = Some ''bin:.''
    \<and> (\<forall>f. fd_get (sv_fds (simple_serve evs g)) f = fd_get (sv_fds g) f)
    \<and> sv_zombies (simple_serve evs g) = sv_zombies g + length (filter (\<lambda>ev. ev = ChildEnds) evs)"
proof -
  let ?g = "simple_serve evs g"
  let ?fd = "fst (fd_alloc (Inherited c) (sv_fds ?g))"
  let ?t = "simple_child_fds (sv_sockfd g) (Some ?fd) (snd (fd_alloc (Inherited c) (sv_fds ?g)))"
  note par = simple_serve_parent [of evs g]
  have fd: "?fd \<noteq> sv_sockfd g" "\<And>f. f < 3 \<Longrightarrow> ?fd \<noteq> f"
    using fd.alloc_fresh [of "sv_fds ?g" _ "Inherited c"] assms(2,4) par by (fastforce, fastforce)
  have get: "fd_get ?t f = (if f < 3 \<or> f = ?fd then Some (Inherited c) else if f = sv_sockfd g then None
      else fd_get (sv_fds g) f)" for f
    using fd assms(1) par by (auto simp: simple_child_fds_def)
  have s: "sv_session (simple_round (Some c) InChild e nb lb ?g) = Some (simple_init ?t 0 e nb lb)"
    using par by (simp add: simple_round_def simple_accept_fds_def Let_def split: prod.split)
  have "shell_inv (sm_sh (simple_init ?t 0 e nb lb))"
    using get assms(3) by (auto simp: simple_init_def npshell_init_def shell_inv_def pipes_wf_def std_ok_def dead_flagged_def)
  then show ?thesis
    using s get assms(1) par fd
    by (intro exI [of _ "simple_init ?t 0 e nb lb"]) (simp add: simple_init_def npshell_init_def sys_setenv_def)
qed

definition demo_listener :: simple_server where
  "demo_listener = \<lparr>sv_fds = [Some (Inherited 0), Some (Inherited 1), Some (Inherited 2), Some (Inherited 3)],
     sv_sockfd = 3, sv_session = None, sv_zombies = 0\<rparr>"

theorem simple_connection_starts_shell_witness:
  "\<exists>s. sv_session (simple_round (Some 9) InChild Map.empty [] []
        (simple_serve [Connection (Some 8) True, Connection None False, ChildEnds] demo_listener)) = Some s
    \<and> shell_inv (sm_sh s) \<and> fd_get (k_fds (sm_sh s)) (sv_sockfd demo_listener) = None
    \<and> sv_zombies (simple_serve [Connection (Some 8) True, Connection None False, ChildEnds] demo_listener) = 1"
proof -
  have g: "2 < sv_sockfd demo_listener" "\<forall>f<3. \<exists>k. fd_get (sv_fds demo_listener) f = Some (Inherited k)"
    "\<forall>f i. fd_get (sv_fds demo_listener) f \<noteq> Some (PipeR i) \<and> fd_get (sv_fds demo_listener) f \<noteq> Some (PipeW i)"
    "fd_get (sv_fds demo_listener) (sv_sockfd demo_listener) \<noteq> None"
    by (auto simp: demo_listener_def fd_get_def less_Suc_eq numeral_3_eq_3 nth_Cons')
  show ?thesis
    using simple_connection_starts_shell [OF g, of 9 Map.empty "[]" "[]"
        "[Connection (Some 8) True, Connection None False, ChildEnds]"]
    by (auto simp: demo_listener_def)
qed

end
