(* ===== verification/Console_Shell.thy ===== *)
theory Console_Shell
  imports Web_Console Simple_Claims
begin

text \<open>
  The web console of project 3 and 4 in front of the concurrent server of project 2: the session of the
  console sends a line of its file for each prompt it reads, and the shell behind the connection
  executes it.  The locale \<open>console_on_shell\<close> closes the loop of any paced session with any shell that
  takes a line per turn; it is interpreted on the console's session and the server's shell.
\<close>

section \<open>The closed loop\<close>

text \<open>
  One round: the output \<open>out\<close> of the last command arrives, if there is any, then the prompt; what the
  session sends to it is the input of the next turn.
\<close>

locale console_on_shell = paced_session on_read reading commands sent shown wtc
  for on_read :: "string option \<Rightarrow> 's \<Rightarrow> 's"
    and reading :: "'s \<Rightarrow> bool"
    and commands :: "'s \<Rightarrow> string list"
    and sent :: "'s \<Rightarrow> string"
    and shown :: "'s \<Rightarrow> string"
    and wtc :: "'s \<Rightarrow> string \<Rightarrow> string" +
  fixes turn :: "string \<Rightarrow> 't \<Rightarrow> 't result"
begin

definition shows_output :: "string \<Rightarrow> 's \<Rightarrow> 's" where
  "shows_output out c = on_read (Some ''% '') (if out = [] then c else on_read (Some out) c)"

fun rounds :: "string list \<Rightarrow> 's \<Rightarrow> 't \<Rightarrow> ('s \<times> 't) result" where
  "rounds [] c t = Inr (c, t)"
| "rounds (out # outs) c t =
     (let c' = shows_output out c
      in ebind (turn (drop (length (sent c)) (sent c')) t) (rounds outs c'))"

fun turns :: "string list \<Rightarrow> 't \<Rightarrow> 't result" where
  "turns [] t = Inr t"
| "turns (raw # raws) t = ebind (turn raw t) (turns raws)"

lemma shows_output:
  assumes "\<not> is_prompt out" and "commands c = l # ls"
  shows "commands (shows_output out c) = ls" and "sent (shows_output out c) = sent c @ l @ [NL]"
proof -
  have p: "is_prompt ''% ''" by (simp add: is_prompt_def)
  show "commands (shows_output out c) = ls" and "sent (shows_output out c) = sent c @ l @ [NL]"
    using on_read_other [of out c] on_read_prompt [OF p, of c] on_read_prompt [OF p, of "on_read (Some out) c"] assms
    by (auto simp: shows_output_def)
qed

text \<open>The shell gets the lines of the session, one per turn and in their order.\<close>

lemma rounds_feed_lines:
  assumes "\<forall>out\<in>set outs. \<not> is_prompt out" and "length outs \<le> length (commands c)"
  shows "\<exists>c'. rounds outs c t = ebind (turns (map (\<lambda>l. l @ [NL]) (take (length outs) (commands c))) t) (\<lambda>t. Inr (c', t))
    \<and> commands c' = drop (length outs) (commands c)
    \<and> sent c' = sent c @ send_lines (take (length outs) (commands c))"
  using assms
proof (induction outs arbitrary: c t)
  case Nil
  then show ?case by (intro exI [of _ c]) (simp add: send_lines_def)
next
  case (Cons out outs)
  then obtain l ls where ls: "commands c = l # ls" by (cases "commands c") auto
  let ?c = "shows_output out c"
  note o = shows_output [of out, OF _ ls]
  have c: "commands ?c = ls" "sent ?c = sent c @ l @ [NL]" using o Cons.prems(1) by simp_all
  have pre: "\<forall>out\<in>set outs. \<not> is_prompt out" "length outs \<le> length (commands ?c)"
    using Cons.prems ls c(1) by simp_all
  show ?case
  proof (cases "turn (l @ [NL]) t")
    case (Inl e)
    obtain c' where "commands c' = drop (length outs) (commands ?c)"
      "sent c' = sent ?c @ send_lines (take (length outs) (commands ?c))"
      using Cons.IH [OF pre, of t] by blast
    then show ?thesis using Inl c ls by (intro exI [of _ c']) (simp add: send_lines_def)
  next
    case (Inr t1)
    obtain c' where "rounds outs ?c t1 = ebind (turns (map (\<lambda>l. l @ [NL]) (take (length outs) (commands ?c))) t1)
        (\<lambda>t. Inr (c', t))" "commands c' = drop (length outs) (commands ?c)"
      "sent c' = sent ?c @ send_lines (take (length outs) (commands ?c))"
      using Cons.IH [OF pre, of t1] by blast
    then show ?thesis using Inr c ls by (intro exI [of _ c']) (simp add: send_lines_def)
  qed
qed

end

section \<open>The console and the server\<close>

text \<open>A turn of the server's shell; a shell that has ended takes no more of them.\<close>

definition session_turn :: "os \<Rightarrow> (string \<Rightarrow> string option) \<Rightarrow> string \<Rightarrow> simple \<Rightarrow> simple result" where
  "session_turn sys rd raw s = (if sh_exited (sm_sh s) then Inr s else simple_turn sys rd raw s)"

interpretation csh: console_on_shell shell_run_on_read sr_reading sr_command sr_sock sr_cout
  "\<lambda>s. write_to_console (sr_id s)" "session_turn sys rd" for sys rd
  by unfold_locales

fun console_rounds ::
  "os \<Rightarrow> (string \<Rightarrow> string option) \<Rightarrow> string list \<Rightarrow> shell_run \<Rightarrow> simple \<Rightarrow> (shell_run \<times> simple) result" where
  "console_rounds sys rd [] c s = Inr (c, s)"
| "console_rounds sys rd (out # outs) c s =
     (let c' = shell_run_on_read (Some ''% '') (if out = [] then c else shell_run_on_read (Some out) c)
      in ebind (session_turn sys rd (drop (length (sr_sock c)) (sr_sock c')) s) (console_rounds sys rd outs c'))"

lemma csh_rounds_eq: "csh.rounds sys rd outs c s = console_rounds sys rd outs c s"
proof (induction outs arbitrary: c s)
  case (Cons out outs)
  then have "csh.rounds sys rd outs c = console_rounds sys rd outs c" for c by (intro ext)
  then show ?case by (simp add: csh.shows_output_def Let_def)
qed simp

text \<open>Lines that the shell of project 1 takes as they are.\<close>

definition plain_input :: "string \<Rightarrow> bool" where
  "plain_input l \<longleftrightarrow> (\<forall>c\<in>set l. 20 \<le> schar c) \<and> ''batch'' \<notin> set (tokens (\<lambda>c. c = CHR '' '') l)"

lemma turns_project1:
  assumes "\<forall>l\<in>set ls. plain_input l" and "\<not> sm_batch s" and "\<not> sm_ignore s"
  shows "ebind (csh.turns sys rd (map (\<lambda>l. l @ [NL]) ls) s) (\<lambda>s. Inr (sm_sh s)) =
    run_lines sys (map (\<lambda>l. l @ [NL]) ls) (sm_sh s)"
  using assms
proof (induction ls arbitrary: s)
  case (Cons l ls)
  have nl: "\<not> 20 \<le> schar NL" by (simp add: NL_def schar_def)
  show ?case
  proof (cases "sh_exited (sm_sh s)")
    case True
    have "run_lines sys raws (sm_sh s) = Inr (sm_sh s)" for raws using True by (cases raws) simp_all
    moreover have "csh.turns sys rd raws s = Inr s" for raws
    proof -
      have "session_turn sys rd raw s = Inr s" for raw by (simp add: session_turn_def True)
      then show ?thesis by (induction raws) simp_all
    qed
    ultimately show ?thesis by (simp only: ebind_Inr)
  next
    case False
    have t: "simple_turn sys rd (l @ [NL]) s =
        ebind (shell_line sys (l @ [NL]) (sm_sh s)) (\<lambda>t. Inr (s\<lparr>sm_sh := t, sm_line := after_strtok l\<rparr>))"
      using simple_turn_line [of l s NL sys rd "[]"] Cons.prems nl by (simp add: plain_input_def)
    then have "session_turn sys rd (l @ [NL]) s =
        ebind (shell_line sys (l @ [NL]) (sm_sh s)) (\<lambda>t. Inr (s\<lparr>sm_sh := t, sm_line := after_strtok l\<rparr>))"
      using False by (simp add: session_turn_def)
    then show ?thesis
      using Cons.IH [of "s\<lparr>sm_sh := u, sm_line := after_strtok l\<rparr>" for u] Cons.prems False
      by (cases "shell_line sys (l @ [NL]) (sm_sh s)") simp_all
  qed
qed simp

text \<open>
  The console drives the server's shell: whatever the commands print, as long as it holds no percent sign,
  after \<open>n\<close> rounds of prompt and line the shell behind the connection is where the shell of project 1
  is after the first \<open>n\<close> lines of the session's file, or has failed as it does; and the console
  has sent exactly these lines and keeps the others.\<close>

theorem console_drives_shell:
  assumes "\<forall>out\<in>set outs. CHR ''%'' \<notin> set out" and "length outs \<le> length (getlines body)"
    and "\<forall>l\<in>set (getlines body). plain_input l" and "\<not> sm_batch s" and "\<not> sm_ignore s"
  defines "ls \<equiv> take (length outs) (getlines body)"
  shows "ebind (console_rounds sys rd outs (shell_run_start ident (Some body)) s) (\<lambda>(c, s). Inr (sm_sh s)) =
      run_lines sys (map (\<lambda>l. l @ [NL]) ls) (sm_sh s)
    \<and> (\<forall>c s'. console_rounds sys rd outs (shell_run_start ident (Some body)) s = Inr (c, s') \<longrightarrow>
        sr_sock c = send_lines ls \<and> sr_command c = drop (length outs) (getlines body))"
proof -
  have p: "\<forall>out\<in>set outs. \<not> is_prompt out" using assms(1) by (simp add: is_prompt_def)
  have c0: "sr_command (shell_run_start ident (Some body)) = getlines body"
    "sr_sock (shell_run_start ident (Some body)) = []" by (simp_all add: shell_run_start_def)
  obtain c where r: "console_rounds sys rd outs (shell_run_start ident (Some body)) s =
      ebind (csh.turns sys rd (map (\<lambda>l. l @ [NL]) ls) s) (\<lambda>t. Inr (c, t))"
    and c: "sr_command c = drop (length outs) (getlines body)" "sr_sock c = send_lines ls"
    using csh.rounds_feed_lines [OF p, of "shell_run_start ident (Some body)" sys rd s] assms(2)
    unfolding csh_rounds_eq c0 ls_def by auto
  have "\<forall>l\<in>set ls. plain_input l" using assms(3) by (auto simp: ls_def dest: in_set_takeD)
  from turns_project1 [OF this assms(4,5), of sys rd] show ?thesis
    using r c by (cases "csh.turns sys rd (map (\<lambda>l. l @ [NL]) ls) s") auto
qed

theorem console_drives_shell_witness:
  "\<exists>c s'. console_rounds demo_os demo_files [''welcome'', ''a.txt''] (shell_run_start ''s0'' (Some (''ls |1'' @ [NL] @ ''cat'' @ [NL])))
      demo_visit = Inr (c, s')
    \<and> run_lines demo_os [''ls |1'' @ [NL], ''cat'' @ [NL]] (sm_sh demo_visit) = Inr (sm_sh s') \<and> sr_command c = []"
proof -
  let ?body = "''ls |1'' @ [NL] @ ''cat'' @ [NL]"
  let ?r = "console_rounds demo_os demo_files [''welcome'', ''a.txt''] (shell_run_start ''s0'' (Some ?body)) demo_visit"
  have g: "getlines ?body = [''ls |1'', ''cat'']" by code_simp
  have a: "\<forall>out\<in>set [''welcome'', ''a.txt'']. CHR ''%'' \<notin> set out" "length [''welcome'', ''a.txt''] \<le> length (getlines ?body)"
    unfolding g by simp_all
  have p: "\<forall>l\<in>set (getlines ?body). plain_input l" unfolding g by code_simp
  note run = console_drives_shell [OF a p demo_visit_sel(1,2), of demo_os demo_files "''s0''"]
  have "case ?r of Inl _ \<Rightarrow> False | Inr _ \<Rightarrow> True" by code_simp
  then obtain c s' where r: "?r = Inr (c, s')" by (cases ?r) auto
  have "take (length [''welcome'', ''a.txt'']) (getlines ?body) = [''ls |1'', ''cat'']" unfolding g by simp
  note res = run [unfolded this g r]
  show ?thesis using r res by (intro exI [of _ c] exI [of _ s']) auto
qed

end
