(* ===== verification/Proxied_Shell.thy ===== *)
theory Proxied_Shell
  imports Console_Shell Socks_Relay
begin

text \<open>
  The whole chain of project 4: the console's session, the CONNECT relay of the SOCKS proxy
  (\<^verbatim>\<open>socks_server.cpp\<close>, \<^verbatim>\<open>HttpSession\<close>), and the concurrent server's shell behind it.  The bytes that travel
  through the relay are what its completed reads and sends move; the loop is that of \<^theory_text>\<open>Console_Shell\<close>
  with the relay in between.
\<close>

section \<open>Text as bytes\<close>

definition bytes_of :: "string \<Rightarrow> byte list" where
  "bytes_of t = map byte_of_char t"

definition text_of :: "byte list \<Rightarrow> string" where
  "text_of bs = map (\<lambda>b. char_of (unat b)) bs"

lemma text_of_bytes [simp]: "text_of (bytes_of t) = t"
proof -
  have "char_of (unat (byte_of_char c)) = c" for c
  proof -
    have "(of_char c :: nat) < 256" by simp
    then have "unat (byte_of_char c) = of_char c" by (simp add: byte_of_char_def unat_of_nat)
    then show ?thesis by simp
  qed
  then show ?thesis by (simp add: text_of_def bytes_of_def comp_def)
qed

lemma length_bytes_of [simp]: "length (bytes_of t) = length t" "bytes_of [] = []" "bytes_of t = [] \<longleftrightarrow> t = []"
  by (simp_all add: bytes_of_def)

section \<open>Passing through the relay\<close>

text \<open>
  Bytes that arrive at one socket in one read and leave through the other in one send; what the peer
  gets are the bytes that are new on its socket.
\<close>

definition pass_up :: "string \<Rightarrow> http_session \<Rightarrow> (string \<times> http_session) option" where
  "pass_up t h =
     map_option (\<lambda>h'. (text_of (drop (length (sk_sent (hs_out_socket h))) (sk_sent (hs_out_socket h'))), h'))
       (http_run h [HIn (Got (bytes_of t)), HIn (Wrote (length t))])"

definition pass_down :: "string \<Rightarrow> http_session \<Rightarrow> (string \<times> http_session) option" where
  "pass_down t h =
     map_option (\<lambda>h'. (text_of (drop (length (sk_sent (hs_in_socket h))) (sk_sent (hs_in_socket h'))), h'))
       (http_run h [HOut (Got (bytes_of t)), HOut (Wrote (length t))])"

text \<open>A relay that waits for bytes in both directions.\<close>

definition waiting :: "http_session \<Rightarrow> bool" where
  "waiting h \<longleftrightarrow> hs_phase h = HRelaying \<and> hs_in_op h = OpRead \<and> hs_out_op h = OpRead"

lemma pass_up_waiting:
  assumes "waiting h" and "t \<noteq> []" and "length t \<le> 1024"
  obtains h' where "pass_up t h = Some (t, h')" "waiting h'"
  using assms that
  by (simp add: waiting_def pass_up_def http_handler_defs fill_buffer_def)

lemma pass_down_waiting:
  assumes "waiting h" and "t \<noteq> []" and "length t \<le> 1024"
  obtains h' where "pass_down t h = Some (t, h')" "waiting h'"
  using assms that
  by (simp add: waiting_def pass_down_def http_handler_defs fill_buffer_def)

section \<open>The chain\<close>

text \<open>
  One round: the output of the last command and the prompt pass down, the line the console sends
  passes up, and the shell takes its turn on what it gets.  \<^const>\<open>None\<close> is a relay that does not take the bytes.
\<close>

definition reads_down :: "string \<Rightarrow> shell_run \<times> http_session \<Rightarrow> (shell_run \<times> http_session) option" where
  "reads_down t ch =
     (case ch of (c, h) \<Rightarrow>
        map_option (\<lambda>(t, h). (shell_run_on_read (Some t) c, h)) (pass_down t h))"

fun proxied_rounds ::
  "os \<Rightarrow> (string \<Rightarrow> string option) \<Rightarrow> string list \<Rightarrow> shell_run \<Rightarrow> http_session \<Rightarrow> simple \<Rightarrow>
     (shell_run \<times> simple) result option" where
  "proxied_rounds sys rd [] c h s = Some (Inr (c, s))"
| "proxied_rounds sys rd (out # outs) c h s =
     Option.bind (if out = [] then Some (c, h) else reads_down out (c, h)) (\<lambda>ch.
     Option.bind (reads_down ''% '' ch) (\<lambda>(c', h').
       let line = drop (length (sr_sock c)) (sr_sock c')
       in Option.bind (pass_up line h') (\<lambda>(raw, h'').
            (case session_turn sys rd raw s of
               Inl e \<Rightarrow> Some (Inl e)
             | Inr s' \<Rightarrow> proxied_rounds sys rd outs c' h'' s'))))"

lemma proxied_rounds_direct:
  assumes "waiting h" and "\<forall>out\<in>set outs. \<not> is_prompt out \<and> length out \<le> 1024"
    and "length outs \<le> length (sr_command c)" and "\<forall>l\<in>set (sr_command c). length l < 1024"
  shows "proxied_rounds sys rd outs c h s = Some (console_rounds sys rd outs c s)"
  using assms
proof (induction outs arbitrary: c h s)
  case (Cons out outs)
  obtain l ls where l: "sr_command c = l # ls" using Cons.prems(3) by (cases "sr_command c") auto
  let ?c1 = "if out = [] then c else shell_run_on_read (Some out) c"
  obtain h1 where h1: "(if out = [] then Some (c, h) else reads_down out (c, h)) = Some (?c1, h1)" "waiting h1"
  proof (cases "out = []")
    case False
    obtain h' where "pass_down out h = Some (out, h')" "waiting h'"
      using pass_down_waiting [OF Cons.prems(1) False] Cons.prems(2) by auto
    then show ?thesis using that [of h'] False by (simp add: reads_down_def)
  qed (use that Cons.prems(1) in simp)
  obtain h2 where h2: "pass_down ''% '' h1 = Some (''% '', h2)" "waiting h2"
    using pass_down_waiting [OF h1(2), of "''% ''"] by auto
  let ?c2 = "shell_run_on_read (Some ''% '') ?c1"
  have c2: "sr_command ?c2 = ls" "sr_sock ?c2 = sr_sock c @ l @ [NL]"
    using csh.shows_output [of out c l ls] l Cons.prems(2) by (simp_all add: csh.shows_output_def)
  have "l @ [NL] \<noteq> []" "length (l @ [NL]) \<le> 1024" using Cons.prems(4) l by simp_all
  then obtain h3 where h3: "pass_up (l @ [NL]) h2 = Some (l @ [NL], h3)" "waiting h3"
    using pass_up_waiting [OF h2(2)] by blast
  have "proxied_rounds sys rd outs ?c2 h3 s' = Some (console_rounds sys rd outs ?c2 s')" for s'
    by (rule Cons.IH [OF h3(2)]) (use Cons.prems c2(1) l in auto)
  then show ?case
    using h1(1) h2(1) h3(1) c2(2)
    by (cases "out = []"; cases "session_turn sys rd (l @ [NL]) s")
      (simp_all add: reads_down_def [of _ "(_, h1)"] Let_def)
qed simp

lemma relay_started_waiting:
  "http_run (http_start k ip port reply rb wb) [Resolved None, Connected None, ReplySent (Some 8)] = Some h \<Longrightarrow> waiting h"
  by (auto simp: http_start_def http_handler_defs waiting_def)

text \<open>
  C4. The console drives the shell through the proxy: once the CONNECT relay has sent its reply, as long as no
  line and no output is longer than its buffer, the shell behind the proxy gets what it would get directly, byte for
  byte.  Whatever the commands print, if it holds no percent sign, after \<open>n\<close> rounds of prompt and line
  the shell is where the shell of project 1 is after the first \<open>n\<close> lines of the session's file, or has
  failed as it does; and the console has sent exactly these lines and keeps the others.\<close>

theorem console_drives_proxied_shell:
  assumes "http_run (http_start k ip port reply rb wb) [Resolved None, Connected None, ReplySent (Some 8)] = Some h"
    and "\<forall>out\<in>set outs. CHR ''%'' \<notin> set out \<and> length out \<le> 1024" and "length outs \<le> length (getlines body)"
    and "\<forall>l\<in>set (getlines body). plain_input l \<and> length l < 1024" and "\<not> sm_batch s" and "\<not> sm_ignore s"
  defines "ls \<equiv> take (length outs) (getlines body)"
  shows "\<exists>r. proxied_rounds sys rd outs (shell_run_start ident (Some body)) h s = Some r
    \<and> r = console_rounds sys rd outs (shell_run_start ident (Some body)) s
    \<and> ebind r (\<lambda>(c, s). Inr (sm_sh s)) = run_lines sys (map (\<lambda>l. l @ [NL]) ls) (sm_sh s)
    \<and> (\<forall>c s'. r = Inr (c, s') \<longrightarrow> sr_sock c = send_lines ls \<and> sr_command c = drop (length outs) (getlines body))"
proof -
  have p: "\<forall>out\<in>set outs. \<not> is_prompt out \<and> length out \<le> 1024" using assms(2) by (simp add: is_prompt_def)
  have "sr_command (shell_run_start ident (Some body)) = getlines body" by (simp add: shell_run_start_def)
  then have "proxied_rounds sys rd outs (shell_run_start ident (Some body)) h s =
      Some (console_rounds sys rd outs (shell_run_start ident (Some body)) s)"
    using proxied_rounds_direct [OF relay_started_waiting [OF assms(1)] p] assms(3,4) by simp
  moreover have "\<forall>out\<in>set outs. CHR ''%'' \<notin> set out" "\<forall>l\<in>set (getlines body). plain_input l" using assms(2,4) by simp_all
  note console_drives_shell [OF this(1) assms(3) this(2) assms(5,6), of sys rd ident]
  ultimately show ?thesis unfolding ls_def by blast
qed

definition demo_relay :: "http_session option" where
  "demo_relay = http_run (http_start fresh_sock ''140.113.1.2'' ''7000'' [0, 90, 0, 0, 0, 0, 0, 0] [] [])
     [Resolved None, Connected None, ReplySent (Some 8)]"

theorem console_drives_proxied_shell_witness:
  "\<exists>h c s'. demo_relay = Some h
    \<and> proxied_rounds demo_os demo_files [''welcome'', ''a.txt''] (shell_run_start ''s0'' (Some (''ls |1'' @ [NL] @ ''cat'' @ [NL]))) h
        demo_visit = Some (Inr (c, s'))
    \<and> run_lines demo_os [''ls |1'' @ [NL], ''cat'' @ [NL]] (sm_sh demo_visit) = Inr (sm_sh s') \<and> sr_command c = []"
proof -
  let ?body = "''ls |1'' @ [NL] @ ''cat'' @ [NL]"
  let ?outs = "[''welcome'', ''a.txt'']"
  obtain h where h: "demo_relay = Some h" by (cases demo_relay) (auto simp: demo_relay_def http_start_def http_handler_defs)
  have g: "getlines ?body = [''ls |1'', ''cat'']" by code_simp
  have a: "\<forall>out\<in>set ?outs. CHR ''%'' \<notin> set out \<and> length out \<le> 1024" "length ?outs \<le> length (getlines ?body)"
    unfolding g by simp_all
  have p: "\<forall>l\<in>set (getlines ?body). plain_input l \<and> length l < 1024" unfolding g by code_simp
  note run = console_drives_proxied_shell [OF h [unfolded demo_relay_def] a p demo_visit_sel(1,2), of demo_os demo_files "''s0''"]
  let ?r = "console_rounds demo_os demo_files ?outs (shell_run_start ''s0'' (Some ?body)) demo_visit"
  have "case ?r of Inl _ \<Rightarrow> False | Inr _ \<Rightarrow> True" by code_simp
  then obtain c s' where r: "?r = Inr (c, s')" by (cases ?r) auto
  have "take (length ?outs) (getlines ?body) = [''ls |1'', ''cat'']" unfolding g by simp
  note res = run [unfolded this g r]
  show ?thesis using h res by (intro exI [of _ h] exI [of _ c] exI [of _ s']) auto
qed

end
