(* ===== verification/Rwg_Turns.thy ===== *)
theory Rwg_Turns
  imports Rwg_Exec
begin

text \<open>
  What a turn of a remote-working-ground shell does to the shared table: every operation keeps
  the invariant of the table, and touches no other user's slot but for messages and pipes.
  \<open>good\<close> relates the states before and after an operation; \<open>quiet\<close> is its special case of the
  operations that leave the shared memory alone.
\<close>

section \<open>The invariant\<close>

definition users_ok :: "user list \<Rightarrow> bool" where
  "users_ok us \<longleftrightarrow> table_ok us \<and> pipes_between_users us \<and> names_distinct us"

definition rwg_inv :: "rwg \<Rightarrow> bool" where
  "rwg_inv s \<longleftrightarrow> users_ok (rwg_users s) \<and> user_index s < 30 \<and> (\<not> sh_exited s \<longrightarrow> u_valid (me s))"

text \<open>What a turn of user \<open>ix\<close> leaves of the table.\<close>

definition others_kept :: "nat \<Rightarrow> user list \<Rightarrow> user list \<Rightarrow> bool" where
  "others_kept ix us us' \<longleftrightarrow> length us' = length us \<and>
     (\<forall>i<length us. u_pid (us' ! i) = u_pid (us ! i) \<and> u_sock (us' ! i) = u_sock (us ! i) \<and>
        (i \<noteq> ix \<longrightarrow> u_valid (us' ! i) = u_valid (us ! i) \<and> u_name (us' ! i) = u_name (us ! i)))"

lemma others_kept_refl [simp, intro]: "others_kept ix us us"
  by (simp add: others_kept_def)

lemma others_kept_trans:
  "others_kept ix us us' \<Longrightarrow> others_kept ix us' us'' \<Longrightarrow> others_kept ix us us''"
  by (simp add: others_kept_def)

lemma same_core_others: "same_core us us' \<Longrightarrow> others_kept ix us us'"
  by (simp add: others_kept_def same_core_length same_core_fields)

lemma same_other_others: "same_other us us' \<Longrightarrow> others_kept ix us us'"
  by (simp add: others_kept_def same_other_length same_other_fields)

lemma same_core_users_ok: "same_core us us' \<Longrightarrow> users_ok us \<Longrightarrow> users_ok us'"
  using same_core_table_ok same_core_pipes same_core_names
  by (auto simp: users_ok_def table_ok_def [of us])

section \<open>Relating the states of an operation\<close>

definition kept :: "rwg \<Rightarrow> rwg \<Rightarrow> bool" where
  "kept s s' \<longleftrightarrow> (rwg_inv s \<and> \<not> sh_exited s \<longrightarrow>
     rwg_inv s' \<and> user_index s' = user_index s \<and> rw_sock s' = rw_sock s \<and> others_kept (user_index s) (rwg_users s) (rwg_users s'))"

definition good :: "rwg \<Rightarrow> rwg \<Rightarrow> bool" where
  "good s s' \<longleftrightarrow> kept s s' \<and> sh_exited s' = sh_exited s"

definition quiet :: "rwg \<Rightarrow> rwg \<Rightarrow> bool" where
  "quiet s s' \<longleftrightarrow> shared s' = shared s \<and> user_index s' = user_index s \<and> rw_sock s' = rw_sock s \<and>
     sh_exited s' = sh_exited s"

lemma quiet_refl [simp, intro]: "quiet s s"
  by (simp add: quiet_def)

lemma quiet_trans: "quiet s s' \<Longrightarrow> quiet s' s'' \<Longrightarrow> quiet s s''"
  by (simp add: quiet_def)

lemma quiet_good: "quiet s s' \<Longrightarrow> good s s'"
  by (simp add: quiet_def good_def kept_def rwg_inv_def me_def rwg_users_def)

lemma good_refl [simp, intro]: "good s s"
  by (simp add: quiet_good)

lemma good_kept_trans: "good s s' \<Longrightarrow> kept s' s'' \<Longrightarrow> kept s s''"
  by (auto simp: good_def kept_def intro: others_kept_trans)

lemma good_trans: "good s s' \<Longrightarrow> good s' s'' \<Longrightarrow> good s s''"
  using good_kept_trans [of s s' s''] by (simp add: good_def)

text \<open>An operation that changes the shared memory only by messages.\<close>

lemma same_core_good:
  assumes "same_core (rwg_users s) (rwg_users s')" and "user_index s' = user_index s"
    and "rw_sock s' = rw_sock s" and "sh_exited s' = sh_exited s"
  shows "good s s'"
  unfolding good_def kept_def
proof (intro conjI impI)
  assume h: "rwg_inv s \<and> \<not> sh_exited s"
  then have "user_index s < length (rwg_users s)"
    by (simp add: rwg_inv_def users_ok_def table_ok_def)
  then have "u_valid (me s') = u_valid (me s)"
    using same_core_fields(1) [OF assms(1)] by (simp add: me_def assms(2))
  with h show "rwg_inv s'"
    using same_core_users_ok [OF assms(1)] by (simp add: rwg_inv_def assms(2))
qed (use assms in \<open>simp_all add: same_core_others\<close>)

section \<open>Operations that leave the shared memory alone\<close>

lemma quiet_event [simp]: "quiet s (sh_event e s)"
  by (simp add: quiet_def sh_event_def)

lemma quiet_updates [simp]:
  "quiet s (s\<lparr>ignore := b\<rparr>)" "quiet s (s\<lparr>line_end_with_pipe := b\<rparr>)" "quiet s (s\<lparr>shock_pipe_out_flag := b\<rparr>)"
  "quiet s (s\<lparr>num_pipe_out_flag := b\<rparr>)" "quiet s (s\<lparr>write_file_flag := b\<rparr>)"
  "quiet s (s\<lparr>name_pipe_in_flag := b\<rparr>)" "quiet s (s\<lparr>name_pipe_out_flag := b\<rparr>)"
  "quiet s (s\<lparr>announces := a\<rparr>)" "quiet s (s\<lparr>name_pipe_out_id := n\<rparr>)"
  by (simp_all add: quiet_def)

lemma quiet_decrease [simp]: "quiet s (decrease_line_count s)"
  by (simp add: quiet_def decrease_line_count_def Let_def)

lemma quiet_set_redirection: "set_redirection f s = Inr s' \<Longrightarrow> quiet s s'"
  by (auto simp: quiet_def set_redirection_def sh_event_def Let_def split: if_splits)

lemma quiet_sys_pipe: "sys_pipe s = (r, w, s') \<Longrightarrow> quiet s s'"
  by (erule sys_pipeE) (simp add: quiet_def)

lemma quiet_number_pipe_out: "number_pipe_out d w s = Inr (out, s') \<Longrightarrow> quiet s s'"
  by (auto simp: number_pipe_out_def Let_def quiet_def split: option.splits prod.splits
      dest!: quiet_sys_pipe)

lemma quiet_close [simp]:
  "quiet s (close_0_rest_line_pipe_out s)" "quiet s (close_fd fd s)" "quiet s (spawn sys argv t tr s)"
  "quiet s (drop_inputs s)"
  by (simp_all add: quiet_def close_0_rest_line_pipe_out_def close_fd_def spawn_def sh_event_def
      drop_inputs_def drop_dead_pipes_def close_0_rest_line_pipe_in_def)

lemma quiet_exec_redirect: "quiet s (rwg_exec_redirect sys n argv fd_in s)"
  by (simp add: quiet_def rwg_exec_redirect_def Let_def close_0_rest_line_pipe_out_def close_fd_def
      spawn_def sh_event_def drop_inputs_def drop_dead_pipes_def close_0_rest_line_pipe_in_def)

lemma quiet_exec_numbered: "quiet s (rwg_exec_numbered sys n argv fd_in out s)"
  by (simp add: quiet_def rwg_exec_numbered_def Let_def close_0_rest_line_pipe_out_def close_fd_def
      spawn_def sh_event_def drop_inputs_def drop_dead_pipes_def close_0_rest_line_pipe_in_def)

lemma quiet_exec_user_pipe: "quiet s (rwg_exec_user_pipe sys cmd n argv fd_in s)"
  by (simp add: quiet_def rwg_exec_user_pipe_def Let_def close_0_rest_line_pipe_out_def close_fd_def
      spawn_def sh_event_def drop_inputs_def drop_dead_pipes_def close_0_rest_line_pipe_in_def)

lemma quiet_exec_normal: "rwg_exec_normal sys n prc argv fd_in s = (fd, s') \<Longrightarrow> quiet s s'"
  unfolding rwg_exec_normal_def Let_def
  by (auto split: if_splits prod.splits dest!: quiet_sys_pipe
      intro!: quiet_trans [OF _ quiet_close(4)] quiet_trans [OF _ quiet_close(2)]
        quiet_trans [OF _ quiet_close(3)] quiet_trans [OF _ quiet_close(1)])

lemma quiet_process: "rwg_process sys cmd n prc argv fd_in out s = (fd, s') \<Longrightarrow> quiet s s'"
  by (auto simp: rwg_process_def quiet_exec_redirect quiet_exec_numbered quiet_exec_user_pipe
      split: if_splits dest: quiet_exec_normal)

lemma quiet_read_command: "read_command raw s = Inr (line, s') \<Longrightarrow> quiet s s'"
  by (auto simp: read_command_def Let_def quiet_def sh_event_def split: if_splits)

lemma quiet_who: "quiet s (rwg_who s)"
proof -
  have "quiet s (fold (\<lambda>i s. if u_valid (rwg_users s ! i)
      then sh_event (Output (who_line (rw_sock s) (rwg_users s) i)) s else s) is s)" for "is" s
    by (induction "is" arbitrary: s) (auto intro: quiet_trans [OF quiet_event])
  then show ?thesis unfolding rwg_who_def by (rule quiet_trans [OF quiet_event])
qed

section \<open>Operations on the table\<close>

lemma say_good: "say msg s = Inr s' \<Longrightarrow> good s s'"
  by (auto simp: say_def rwg_users_def intro!: same_core_good dest: broadcast_same_core)

lemma tell_good: "rwg_tell args s = Inr s' \<Longrightarrow> good s s'"
  by (auto simp: rwg_tell_def into_buffer_def Let_def rwg_users_def sh_event_def
      split: list.splits if_splits intro!: same_core_good dest: notify_same_core)

lemma yell_good: "rwg_yell args s = Inr s' \<Longrightarrow> good s s'"
  by (auto simp: rwg_yell_def into_buffer_def split: if_splits intro: say_good)

text \<open>Recording a user pipe, or taking it out of the record.\<close>

lemma set_record_good:
  assumes "shm (shared s') = set_pipe_record a b v (rwg_users s)" and "user_index s' = user_index s"
    and "rw_sock s' = rw_sock s" and "sh_exited s' = sh_exited s" and "user_index s < 30 \<Longrightarrow> a < 31 \<and> b < 31"
    and "v \<Longrightarrow> 1 \<le> a \<and> 1 \<le> b \<and> (u_valid (me s) \<longrightarrow>
      u_valid (rwg_users s ! (b - 1)) \<and> u_valid (rwg_users s ! (a - 1)))"
  shows "good s s'"
  unfolding good_def kept_def
proof (intro conjI impI)
  have so: "same_other (rwg_users s) (rwg_users s')"
    using set_pipe_record_same_other assms(1) by (simp add: rwg_users_def)
  show "others_kept (user_index s) (rwg_users s) (rwg_users s')" by (rule same_other_others [OF so])
  assume h: "rwg_inv s \<and> \<not> sh_exited s"
  then have ok: "table_ok (rwg_users s)" "pipes_between_users (rwg_users s)"
      "names_distinct (rwg_users s)" "length (rwg_users s) = 31" "u_valid (me s)"
      "user_index s < length (rwg_users s)" "user_index s < 30"
    by (simp_all add: rwg_inv_def users_ok_def table_ok_def)
  have us': "rwg_users s' = set_pipe_record a b v (rwg_users s)" using assms by (simp add: rwg_users_def)
  have "pipes_between_users (rwg_users s')"
    unfolding us' by (rule set_pipe_record_pipes) (use ok assms(5,6) in auto)
  moreover have "table_ok (rwg_users s')" unfolding us' using ok(1) by (rule set_pipe_record_table_ok)
  moreover have "names_distinct (rwg_users s')" using same_other_names [OF so ok(4)] ok(3) by simp
  moreover have "u_valid (me s')"
    using same_other_fields(1) [OF so ok(6)] ok(5) by (simp add: me_def assms(2))
  ultimately show "rwg_inv s'" using ok(7) by (simp add: rwg_inv_def users_ok_def assms(2))
qed (use assms in simp_all)

lemma user_pipe_in_good:
  assumes "user_pipe_in cmd w s = Inr s'"
  shows "good s s'"
proof -
  obtain digits where d: "strtok_first (\<lambda>c. c = CHR ''<'') w = Some digits"
    using assms by (auto simp: user_pipe_in_def split: option.splits)
  define n where "n = atoi digits"
  note eq = assms [unfolded user_pipe_in_def d option.case Let_def, folded n_def]
  show ?thesis
  proof (cases "check_id_exist n (rwg_users s)")
    case False
    with eq show ?thesis by (auto intro!: quiet_good quiet_trans [OF quiet_updates(1) quiet_event])
  next
    case True
    then have n: "nat n < 31" by (rule check_id_existD)
    show ?thesis
    proof (cases "check_name_pipe_exist (nat n) (user_index s + 1) (rwg_users s)")
      case False
      with eq True show ?thesis
        by (auto intro!: quiet_good quiet_trans [OF quiet_updates(1) quiet_event])
    next
      case ex: True
      let ?s1 = "s\<lparr>name_pipe_in_flag := True,
         name_pipe_in_file := user_pipe_file n (int (user_index s) + 1),
         shared := (shared s)\<lparr>shm := set_pipe_record (nat n) (user_index s + 1) False (rwg_users s)\<rparr>\<rparr>"
      obtain msg where "say msg ?s1 = Inr s'" using eq True ex by auto
      moreover have "good s ?s1" by (rule set_record_good [where v = False and a = "nat n" and b = "user_index s + 1"])
          (use n in simp_all)
      ultimately show ?thesis using say_good good_trans by blast
    qed
  qed
qed

lemma user_pipe_out_good:
  assumes "user_pipe_out w s = Inr s'"
  shows "good s s'"
proof -
  obtain digits where d: "strtok_first (\<lambda>c. c = CHR ''>'') w = Some digits"
    using assms by (auto simp: user_pipe_out_def split: option.splits)
  define n where "n = atoi digits"
  note eq = assms [unfolded user_pipe_out_def d option.case Let_def, folded n_def]
  show ?thesis
  proof (cases "check_id_exist n (rwg_users s) \<and> \<not> check_name_pipe_exist (user_index s + 1) (nat n) (rwg_users s)")
    case False
    with eq show ?thesis
      by (auto simp: quiet_def sh_event_def split: if_splits intro!: quiet_good)
  next
    case True
    then have n: "1 \<le> nat n" "nat n < 31" "u_valid (rwg_users s ! (nat n - 1))"
      using check_id_existD by blast+
    show ?thesis
      by (rule set_record_good [where a = "user_index s + 1" and b = "nat n" and v = True])
        (use eq True n in \<open>auto simp: sh_event_def me_def\<close>)
  qed
qed

lemma set_name_good:
  assumes "nm = ''(no name)'' \<or> \<not> check_name_exist nm (rwg_users s)"
  shows "good s (set_name nm s)"
  unfolding good_def kept_def
proof (intro conjI impI)
  let ?us = "rwg_users s" and ?ix = "user_index s"
  assume h: "rwg_inv s \<and> \<not> sh_exited s"
  then have ok: "table_ok ?us" "pipes_between_users ?us" "names_distinct ?us" "length ?us = 31"
      "u_valid (?us ! ?ix)" "?ix < 30"
    by (simp_all add: rwg_inv_def users_ok_def table_ok_def me_def)
  have us': "rwg_users (set_name nm s) = ?us[?ix := (?us ! ?ix)\<lparr>u_name := nm\<rparr>]"
    by (simp add: set_name_def rwg_users_def me_def)
  have nth: "rwg_users (set_name nm s) ! i = (if i = ?ix then (?us ! ?ix)\<lparr>u_name := nm\<rparr> else ?us ! i)" for i
    using ok(4,6) by (simp add: us')
  have "length (rwg_users (set_name nm s)) = length ?us" by (simp add: us')
  from same_slots [OF this] have "table_ok (rwg_users (set_name nm s))" "pipes_between_users (rwg_users (set_name nm s))"
    using ok(1,2) by (simp_all add: nth)
  moreover have "names_distinct (rwg_users (set_name nm s))"
    unfolding names_distinct_def
  proof (intro allI impI, elim conjE)
    fix i j :: nat
    assume ij: "i < 30" "j < 30" "u_valid (rwg_users (set_name nm s) ! i)"
      "u_valid (rwg_users (set_name nm s) ! j)"
      "u_name (rwg_users (set_name nm s) ! i) = u_name (rwg_users (set_name nm s) ! j)"
      "u_name (rwg_users (set_name nm s) ! i) \<noteq> ''(no name)''"
    show "i = j"
    proof (cases "i = ?ix \<or> j = ?ix")
      case True
      then have "\<not> check_name_exist nm ?us" using ij assms by (auto simp: nth)
      with True ij show ?thesis by (auto simp: nth check_name_exist_iff split: if_splits)
    next
      case False
      with ij ok(3) show ?thesis by (auto simp: nth names_distinct_def)
    qed
  qed
  moreover have "user_index (set_name nm s) = ?ix" "u_valid (me (set_name nm s))"
    using ok(5) nth [of ?ix] by (simp_all add: me_def set_name_def)
  ultimately show "rwg_inv (set_name nm s)" using ok(6) by (simp add: rwg_inv_def users_ok_def)
  show "others_kept ?ix ?us (rwg_users (set_name nm s))"
    by (auto simp: others_kept_def nth) (simp add: us')
qed (simp_all add: set_name_def)

lemma name_good: "rwg_name args s = Inr s' \<Longrightarrow> good s s'"
  by (auto simp: rwg_name_def into_buffer_def split: list.splits if_splits
      intro: set_name_good quiet_good good_trans [OF set_name_good say_good])

lemma printenv_good: "rwg_printenv args s = Inr s' \<Longrightarrow> good s s'"
  by (auto simp: rwg_printenv_def into_buffer_def split: list.splits option.splits if_splits
      intro: quiet_good)

lemma setenv_good: "good s (setenv_builtin args s)"
  by (auto simp: setenv_builtin_def quiet_def split: list.splits intro!: quiet_good)

lemma batch_good: "rwg_batch rd args s = Inr s' \<Longrightarrow> good s s'"
  by (auto simp: rwg_batch_def Let_def quiet_def split: list.splits option.splits if_splits
      intro!: quiet_good)

text \<open>\<^verbatim>\<open>exit\<close>: the invariant holds with the user's slot free.\<close>

lemma exit_kept: "rwg_exit s = Inr s' \<Longrightarrow> kept s s'"
proof -
  assume "rwg_exit s = Inr s'"
  then obtain msg s1 where s1: "say msg s = Inr s1"
    and s': "s' = sh_event Exit (s1\<lparr>shared := logout (user_index s1) (shared s1), sh_exited := True\<rparr>)"
    by (auto simp: rwg_exit_def)
  have "kept s1 s'"
    unfolding kept_def
  proof (rule impI)
    assume h: "rwg_inv s1 \<and> \<not> sh_exited s1"
    then have ok: "table_ok (rwg_users s1)" "users_ok (rwg_users s1)" "user_index s1 < 30"
      by (simp_all add: rwg_inv_def users_ok_def)
    note l = logout_spec [OF ok(1) [unfolded rwg_users_def] ok(3)]
      and i = logout_invariants [OF ok(1) [unfolded rwg_users_def] ok(3)]
    have us': "rwg_users s' = shm (logout (user_index s1) (shared s1))" "user_index s' = user_index s1"
      "rw_sock s' = rw_sock s1" "sh_exited s'"
      by (simp_all add: s' rwg_users_def sh_event_def)
    have "users_ok (rwg_users s')"
      using ok(2) l(1) i unfolding us'(1) by (simp add: users_ok_def rwg_users_def)
    moreover have "others_kept (user_index s1) (rwg_users s1) (rwg_users s')"
      unfolding us'(1) using logout_others [OF ok(1) [unfolded rwg_users_def] ok(3)]
      by (simp add: others_kept_def rwg_users_def)
    ultimately show "rwg_inv s' \<and> user_index s' = user_index s1 \<and> rw_sock s' = rw_sock s1 \<and>
        others_kept (user_index s1) (rwg_users s1) (rwg_users s')"
      using us' ok(3) by (simp add: rwg_inv_def)
  qed
  then show "kept s s'" using say_good [OF s1] by (rule good_kept_trans [rotated])
qed

section \<open>The turn\<close>

lemma good_index: "good s s' \<Longrightarrow> rwg_inv s \<and> \<not> sh_exited s \<Longrightarrow> user_index s' < 30"
  by (simp add: good_def kept_def rwg_inv_def)

lemma words_good: "rwg_words cmd acc ws s = Inr (p, rest, s') \<Longrightarrow> good s s'"
  by (induction cmd acc ws s arbitrary: p rest s' rule: rwg_words.induct)
    (auto split: if_splits intro: good_trans [OF user_pipe_in_good])

lemma op_good: "rwg_op w rest out s = Inr (rest', out', s') \<Longrightarrow> good s s'"
proof (cases "w \<noteq> ''|'' \<and> w \<noteq> ''>'' \<and> hd w \<noteq> CHR ''!'' \<and> hd w \<noteq> CHR ''|''")
  case True
  then show "rwg_op w rest out s = Inr (rest', out', s') \<Longrightarrow> good s s'"
    by (auto simp: rwg_op_def intro: user_pipe_out_good)
next
  case False
  then show "rwg_op w rest out s = Inr (rest', out', s') \<Longrightarrow> good s s'"
    by (auto simp: rwg_op_def split: if_splits list.splits
        intro!: quiet_good dest!: quiet_set_redirection quiet_number_pipe_out simp: quiet_def)
qed

lemma combine_good: "rwg_combine cmd toks procs out s = Inr (procs', out', s') \<Longrightarrow> good s s'"
proof (induction cmd toks procs out s arbitrary: procs' out' s' rule: rwg_combine.induct)
  case (1 cmd toks procs out s)
  show ?case
  proof (cases "toks = [] \<or> 5000 \<le> length procs")
    case True
    with 1(2) show ?thesis by (auto simp: rwg_combine.simps [of cmd toks] split: if_splits)
  next
    case False
    then obtain p rest s1 where w: "rwg_words cmd [] toks s = Inr (p, rest, s1)"
      using 1(2) by (auto simp: rwg_combine.simps [of cmd toks] split: sum.splits)
    note g = words_good [OF w]
    show ?thesis
    proof (cases rest)
      case Nil
      with 1(2) False w g show ?thesis by (simp add: rwg_combine.simps [of cmd toks] Let_def)
    next
      case (Cons c rest1)
      then obtain rest2 out2 s2 where o: "rwg_op c rest1 out s1 = Inr (rest2, out2, s2)"
        using 1(2) False w by (auto simp: rwg_combine.simps [of cmd toks] Let_def split: sum.splits)
      from 1(2) False w Cons o have r: "rwg_combine cmd rest2
          (case p of None \<Rightarrow> procs | Some words \<Rightarrow> procs @ [words]) out2 s2 = Inr (procs', out', s')"
        by (simp add: rwg_combine.simps [of cmd toks] Let_def)
      have "good s2 s'"
        by (rule 1(1) [OF _ _ w _ _ refl Cons o _ _ r]) (use False in auto)
      with g op_good [OF o] show ?thesis by (blast intro: good_trans)
    qed
  qed
qed

lemma parse_good: "rwg_parse cmd toks s = Inr (procs, out, s') \<Longrightarrow> good s s'"
  by (auto simp: rwg_parse_def split: list.splits if_splits dest: combine_good)

lemma builtin_good:
  assumes "rwg_builtin rd c args s = Some (Inr s')" and "c \<noteq> ''exit''"
  shows "good s s'"
  using assms
  by (auto simp: rwg_builtin_def quiet_who split: if_splits
      intro: printenv_good setenv_good batch_good tell_good yell_good name_good quiet_good)

lemma exit_exits: "rwg_exit s = Inr s' \<Longrightarrow> sh_exited s'"
  by (auto simp: rwg_exit_def sh_event_def)

lemma loop_kept: "rwg_loop sys rd cmd n prc procs fd_in out s = Inr s' \<Longrightarrow> kept s s'"
proof (induction sys rd cmd n prc procs fd_in out s rule: rwg_loop.induct)
  case (3 sys rd cmd n prc c args procs fd_in out s)
  show ?case
  proof (cases "rwg_builtin rd c args s")
    case None
    obtain fd s1 where p: "rwg_process sys cmd n prc (c # args) fd_in out s = (fd, s1)"
      by (cases "rwg_process sys cmd n prc (c # args) fd_in out s")
    with 3 None have "kept s1 s'" by simp
    with quiet_good [OF quiet_process [OF p]] show ?thesis by (rule good_kept_trans)
  next
    case (Some r)
    then obtain s1 where r: "r = Inr s1" using 3(3) by (cases r) auto
    show ?thesis
    proof (cases "c = ''exit''")
      case True
      then have e: "rwg_exit s = Inr s1" using Some r by (simp add: rwg_builtin_def)
      with 3(3) Some r exit_exits [OF e] exit_kept [OF e] show ?thesis by simp
    next
      case False
      have g: "good s s1" using builtin_good Some r False by blast
      show ?thesis
      proof (cases "sh_exited s1")
        case True
        with 3(3) Some r g show ?thesis by (simp add: good_def)
      next
        case False
        with 3 Some r have "kept s1 s'" by simp
        with g show ?thesis by (rule good_kept_trans)
      qed
    qed
  qed
qed (simp_all add: kept_def)

lemma execute_kept: "rwg_execute sys rd cmd toks s = Inr s' \<Longrightarrow> kept s s'"
proof -
  assume h: "rwg_execute sys rd cmd toks s = Inr s'"
  let ?s0 = "if toks \<noteq> [] \<and> num_pipe_vec s \<noteq> [] then decrease_line_count s else s"
  obtain procs out s1 s2 where p: "rwg_parse cmd toks ?s0 = Inr (procs, out, s1)"
    and l: "(if ignore s1 then Inr (s1\<lparr>ignore := False\<rparr>)
             else rwg_loop sys rd cmd (length procs) 0 procs 0 out s1) = Inr s2"
    and s': "s' = (if sh_exited s2 \<or> line_end_with_pipe s2 then s2 else sh_event WaitAll s2)"
    using h by (auto simp: rwg_execute_def Let_def)
  have "good s ?s0" by (simp add: quiet_good)
  then have g: "good s s1" using parse_good [OF p] by (rule good_trans)
  have "kept s1 s2"
    using l quiet_good [OF quiet_updates(1)] by (auto simp: good_def split: if_splits intro: loop_kept)
  then have "kept s s2" by (rule good_kept_trans [OF g])
  moreover have "quiet s2 s'" by (simp add: s')
  ultimately show "kept s s'"
    by (auto simp: kept_def quiet_def rwg_inv_def me_def rwg_users_def)
qed

lemma line_kept: "rwg_line sys rd raw s = Inr s' \<Longrightarrow> kept s s'"
proof -
  assume h: "rwg_line sys rd raw s = Inr s'"
  let ?s0 = "s\<lparr>line_end_with_pipe := False, redirection_file_name := replicate 100 NUL\<rparr>"
  obtain line s1 where r: "read_command raw ?s0 = Inr (line, s1)"
    using h by (auto simp: rwg_line_def)
  have "quiet s ?s0" by (simp add: quiet_def)
  then have g: "good s s1" using quiet_read_command [OF r] by (blast intro: quiet_good quiet_trans)
  have "kept s1 s'"
    using h r quiet_good [OF quiet_updates(1)]
    by (auto simp: rwg_line_def good_def split: if_splits intro: execute_kept)
  with g show "kept s s'" by (rule good_kept_trans)
qed

end
