(* ===== verification/Rwg_Lines.thy ===== *)
theory Rwg_Lines
  imports Rwg_Turns
begin

text \<open>
  How the remote-working-ground shell runs a line of plain words with a user pipe at its end:
  the lemmas that evaluate reading, parsing and execution of such lines.
\<close>

section \<open>Plain lines\<close>

definition is_sp :: "char \<Rightarrow> bool" where
  "is_sp c \<longleftrightarrow> c = CHR '' ''"

definition line_char :: "char \<Rightarrow> bool" where
  "line_char c \<longleftrightarrow> 20 \<le> schar c \<and> c \<noteq> CHR ''%''"

text \<open>A word that is neither an operator nor a user pipe.\<close>

definition plain_word :: "string \<Rightarrow> bool" where
  "plain_word w \<longleftrightarrow> w \<noteq> [] \<and> list_all (\<lambda>c. line_char c \<and> c \<noteq> CHR '' '') w \<and>
     \<not> is_op w \<and> hd w \<noteq> CHR ''<''"

definition rwg_command :: "string list \<Rightarrow> bool" where
  "rwg_command ws \<longleftrightarrow> ws \<noteq> [] \<and> length ws \<le> 9 \<and> list_all plain_word ws \<and>
     hd ws \<notin> {''printenv'', ''setenv'', ''exit'', ''batch'', ''who'', ''tell'', ''yell'', ''name''}"

text \<open>A shell between two lines, with nothing pending.\<close>

definition rwg_idle :: "rwg \<Rightarrow> bool" where
  "rwg_idle s \<longleftrightarrow> \<not> batch_flag s \<and> \<not> ignore s \<and> num_pipe_vec s = [] \<and> \<not> num_pipe_in_flag s \<and>
     \<not> num_pipe_out_flag s \<and> \<not> shock_pipe_out_flag s \<and> \<not> write_file_flag s \<and>
     \<not> name_pipe_in_flag s \<and> \<not> name_pipe_out_flag s \<and> \<not> sh_exited s"

lemma line_char_simps: "line_char (CHR '' '')" "line_char (CHR ''<'')" "line_char (CHR ''>'')"
  by (simp_all add: line_char_def schar_def)

lemma digit_line_char: "is_digit c \<Longrightarrow> line_char c \<and> c \<noteq> CHR '' '' \<and> c \<noteq> CHR ''<'' \<and> c \<noteq> CHR ''>''"
  by (auto simp: is_digit_def line_char_def schar_def Let_def)

lemma plain_word_chars:
  "plain_word w \<Longrightarrow> w \<noteq> [] \<and> (\<forall>c\<in>set w. line_char c \<and> c \<noteq> CHR '' '')"
  by (simp add: plain_word_def list_all_iff)

text \<open>The line made of words, and what the tokenizer finds in it.\<close>

lemma join_chars:
  "\<forall>w\<in>set ws. \<forall>c\<in>set w. line_char c \<Longrightarrow> \<forall>c\<in>set (join_with (CHR '' '') ws). line_char c"
  by (induction "CHR '' ''" ws rule: join_with.induct) (auto simp: line_char_simps)

lemma join_tokens:
  "\<forall>w\<in>set ws. w \<noteq> [] \<and> (\<forall>c\<in>set w. c \<noteq> CHR '' '') \<Longrightarrow>
     tokens (\<lambda>c. c = CHR '' '') (join_with (CHR '' '') ws) = ws"
  by (rule tokens_join_with) auto

lemma join_nonempty: "ws \<noteq> [] \<Longrightarrow> \<forall>w\<in>set ws. w \<noteq> [] \<Longrightarrow> join_with d ws \<noteq> []"
  by (induction d ws rule: join_with.induct) auto

text \<open>Reading such a line from the socket.\<close>

lemma read_plain:
  assumes "\<forall>c\<in>set line. line_char c" and "\<not> batch_flag s"
  shows "read_command (line @ CR # rest) s = Inr (line, sh_event Prompt s)"
proof -
  have "\<not> 20 \<le> schar CR" by (simp add: CR_def schar_def)
  moreover have "\<forall>c\<in>set line. 20 \<le> schar c" using assms(1) by (simp add: line_char_def)
  ultimately show ?thesis
    using assms(2) takeWhile_append_stop [of line "\<lambda>c. 20 \<le> schar c" CR rest]
    by (simp add: read_command_def list_all_iff)
qed

lemma format_plain: "\<forall>c\<in>set line. line_char c \<Longrightarrow> c_format line = Inr line"
  by (rule c_format_plain) (auto simp: line_char_def)

text \<open>The state in which a line is executed.\<close>

definition at_line :: "rwg \<Rightarrow> rwg" where
  "at_line s = sh_event Prompt (s\<lparr>line_end_with_pipe := False, redirection_file_name := replicate 100 NUL\<rparr>)"

lemma at_line_sel [simp]:
  "shared (at_line s) = shared s" "user_index (at_line s) = user_index s" "rwg_users (at_line s) = rwg_users s"
  "k_fds (at_line s) = k_fds s" "sh_log (at_line s) = sh_log s @ [Prompt]" "\<not> line_end_with_pipe (at_line s)"
  "announces (at_line s) = announces s" "name_pipe_in_flag (at_line s) = name_pipe_in_flag s"
  "name_pipe_in_file (at_line s) = name_pipe_in_file s" "num_pipe_in_flag (at_line s) = num_pipe_in_flag s"
  by (simp_all add: at_line_def sh_event_def rwg_users_def)

lemma at_line_idle [simp]: "rwg_idle (at_line s) = rwg_idle s"
  by (simp add: at_line_def sh_event_def rwg_idle_def)

lemma line_plain:
  assumes "\<forall>w\<in>set toks. w \<noteq> [] \<and> (\<forall>c\<in>set w. line_char c \<and> c \<noteq> CHR '' '')" and "toks \<noteq> []"
    and "\<not> batch_flag s" and "\<not> ignore s"
  defines "line \<equiv> join_with (CHR '' '') toks"
  shows "rwg_line sys rd (line @ CR # rest) s = rwg_execute sys rd line toks (at_line s)"
proof -
  have c: "\<forall>c\<in>set line. line_char c" unfolding line_def using assms(1) by (intro join_chars) blast
  have t: "tokens (\<lambda>c. c = CHR '' '') line = toks" unfolding line_def using assms(1) by (intro join_tokens) blast
  have "line \<noteq> []" unfolding line_def using assms(1,2) by (intro join_nonempty) blast+
  then show ?thesis
    using assms(3,4) read_plain [OF c, of "s\<lparr>line_end_with_pipe := False, redirection_file_name := replicate 100 NUL\<rparr>" rest]
    by (simp add: rwg_line_def format_plain [OF c] t at_line_def sh_event_def)
qed

section \<open>Parsing and executing\<close>

lemma words_plain:
  assumes "list_all plain_word ws" and "length acc + length ws \<le> 9"
  shows "rwg_words cmd acc (ws @ rest) s = rwg_words cmd (acc @ ws) rest s"
  using assms by (induction ws arbitrary: acc) (simp_all add: plain_word_def)

lemma strtok_digits:
  "d = CHR ''<'' \<or> d = CHR ''>'' \<Longrightarrow> strtok_first (\<lambda>c. c = d) (d # dec_nat n) = Some (dec_nat n)"
proof -
  assume d: "d = CHR ''<'' \<or> d = CHR ''>''"
  then have "\<forall>c\<in>set (dec_nat n). \<not> c = d" using dec_nat_digits digit_line_char by blast
  then have "tokens (\<lambda>c. c = d) (dec_nat n) = [dec_nat n]" by (intro tokens_word) simp_all
  then show ?thesis by (simp add: strtok_first_def)
qed

definition pipe_op :: "char \<Rightarrow> nat \<Rightarrow> string" where
  "pipe_op d n = d # dec_nat n"

lemma pipe_op_chars:
  "d = CHR ''<'' \<or> d = CHR ''>'' \<Longrightarrow> \<forall>c\<in>set (pipe_op d n). line_char c \<and> c \<noteq> CHR '' ''"
  using dec_nat_digits [of _ n] digit_line_char line_char_simps by (auto simp: pipe_op_def)

text \<open>\<^verbatim>\<open>>n\<close> when the receiver is logged in and has no pipe from this user.\<close>

lemma user_pipe_out_fresh:
  assumes "check_id_exist (int n) (rwg_users s)" and "\<not> check_name_pipe_exist (user_index s + 1) n (rwg_users s)"
  defines "file \<equiv> user_pipe_file (int (user_index s) + 1) (int n)"
  shows "user_pipe_out (pipe_op (CHR ''>'') n) s =
    Inr (sh_event (CreateFile file)
      (s\<lparr>name_pipe_out_id := int n, name_pipe_out_flag := True, name_pipe_out_file := file,
         shared := (shared s)\<lparr>shm := set_pipe_record (user_index s + 1) n True (rwg_users s)\<rparr>\<rparr>))"
proof -
  have "n < 2 ^ 31" using check_id_existD(2) [OF assms(1)] by simp
  then show ?thesis
    using assms(1,2) strtok_digits [of "CHR ''>''" n]
    by (simp add: user_pipe_out_def pipe_op_def Let_def atoi_dec_nat file_def)
qed

lemma combine_out:
  assumes "rwg_command ws" and "user_pipe_out (pipe_op (CHR ''>'') n) s = Inr s'"
  shows "rwg_parse cmd (ws @ [pipe_op (CHR ''>'') n]) s = Inr ([ws], 1, s')"
proof -
  have op: "is_op (pipe_op (CHR ''>'') n)" "hd (pipe_op (CHR ''>'') n) = CHR ''>''"
    "pipe_op (CHR ''>'') n \<noteq> ''>''"
    by (simp_all add: pipe_op_def is_op_def)
  have w: "rwg_words cmd [] (ws @ [pipe_op (CHR ''>'') n]) s = Inr (Some ws, [pipe_op (CHR ''>'') n], s)"
    using assms(1) op by (simp add: words_plain rwg_command_def)
  have o: "rwg_op (pipe_op (CHR ''>'') n) [] 1 s = Inr ([], 1, s')"
    using assms(2) op by (auto simp: rwg_op_def)
  obtain c cs where "ws = c # cs" using assms(1) by (cases ws) (simp_all add: rwg_command_def)
  then show ?thesis
    using assms(1) w o unfolding rwg_parse_def
    by (subst rwg_combine.simps) (simp add: rwg_command_def rwg_combine.simps [of cmd "[]"])
qed

lemma combine_in:
  assumes "rwg_command ws" and "user_pipe_in cmd (pipe_op (CHR ''<'') n) s = Inr s'"
  shows "rwg_parse cmd (ws @ [pipe_op (CHR ''<'') n]) s = Inr ([ws], 1, s')"
proof -
  have op: "hd (pipe_op (CHR ''<'') n) = CHR ''<''" by (simp add: pipe_op_def)
  have w: "rwg_words cmd [] (ws @ [pipe_op (CHR ''<'') n]) s = Inr (Some ws, [], s')"
    using assms op by (simp add: words_plain rwg_command_def)
  obtain c cs where "ws = c # cs" using assms(1) by (cases ws) (simp_all add: rwg_command_def)
  then show ?thesis
    using assms(1) w unfolding rwg_parse_def
    by (subst rwg_combine.simps) (simp add: rwg_command_def)
qed

lemma no_builtin: "rwg_command (c # args) \<Longrightarrow> rwg_builtin rd c args s = None"
  by (simp add: rwg_command_def rwg_builtin_def)

text \<open>The execution of one external command, whatever branch starts it.\<close>

lemma execute_one:
  assumes "rwg_command ws" and "num_pipe_vec s = []" and "rwg_parse cmd toks s = Inr ([ws], out, s1)"
    and "\<not> ignore s1" and "rwg_process sys cmd 1 0 ws 0 out s1 = (fd, s2)"
    and "\<not> sh_exited s1" and "\<not> line_end_with_pipe s2"
  shows "rwg_execute sys rd cmd toks s = Inr (sh_event WaitAll s2)"
proof -
  obtain c args where ws: "ws = c # args" using assms(1) by (cases ws) (simp_all add: rwg_command_def)
  have "rwg_loop sys rd cmd 1 0 [ws] 0 out s1 = Inr s2"
    using no_builtin [OF assms(1) [unfolded ws]] assms(5) by (simp add: ws)
  moreover have "\<not> sh_exited s2" using quiet_process [OF assms(5)] assms(6) by (simp add: quiet_def)
  ultimately show ?thesis using assms(2,3,4,7) by (simp add: rwg_execute_def)
qed

end
