(* ===== verification/Semaphores.thy ===== *)
theory Semaphores
  imports NP_Prelude
begin

text \<open>
  The System V semaphores of \<^verbatim>\<open>nctu_np_project2/final/semaphore.h\<close>: sets of three values, of
  which the first is the semaphore proper, the second counts the processes that use the set down
  from \<^verbatim>\<open>BIGCOUNT\<close>, and the third is the lock of creation and removal.  \<^verbatim>\<open>semop\<close> is the
  kernel's: a list of operations done at once or not at all, with the adjustments that
  \<^verbatim>\<open>SEM_UNDO\<close> records for the end of a process.
\<close>

section \<open>The kernel's part\<close>

text \<open>\<^verbatim>\<open>struct sembuf\<close>; \<open>undo\<close> is the flag \<^verbatim>\<open>SEM_UNDO\<close>.\<close>

record sembuf =
  sem_num :: nat
  sem_delta :: int
  undo :: bool

text \<open>A set: its values, and the adjustments of every process.\<close>

record semset =
  sem_vals :: "int list"
  sem_adj :: "int \<Rightarrow> int list"

definition fresh_semset :: semset where
  "fresh_semset = \<lparr>sem_vals = [0, 0, 0], sem_adj = (\<lambda>_. [0, 0, 0])\<rparr>"

text \<open>
  One operation of process \<open>p\<close>: \<^const>\<open>None\<close> when the process has to wait, on zero for a delta of
  zero and on a value that is large enough for a negative one.
\<close>

definition sem_apply :: "int \<Rightarrow> sembuf \<Rightarrow> semset \<Rightarrow> semset option" where
  "sem_apply p b s =
     (let v = sem_vals s ! sem_num b
      in if sem_delta b = 0 then (if v = 0 then Some s else None)
         else if v + sem_delta b < 0 then None
         else Some
           (let adj = sem_adj s p
            in s\<lparr>sem_vals := (sem_vals s)[sem_num b := v + sem_delta b],
                 sem_adj := (if undo b
                   then (sem_adj s)(p := adj[sem_num b := adj ! sem_num b - sem_delta b])
                   else sem_adj s)\<rparr>))"

fun semop :: "int \<Rightarrow> sembuf list \<Rightarrow> semset \<Rightarrow> semset option" where
  "semop p [] s = Some s"
| "semop p (b # bs) s =
     (case sem_apply p b s of None \<Rightarrow> None | Some s \<Rightarrow> semop p bs s)"

text \<open>\<^verbatim>\<open>semctl(SETVAL)\<close> also clears the adjustments of that value, for every process.\<close>

definition sem_setval :: "nat \<Rightarrow> int \<Rightarrow> semset \<Rightarrow> semset" where
  "sem_setval n v s = s\<lparr>sem_vals := (sem_vals s)[n := v], sem_adj := (\<lambda>p. (sem_adj s p)[n := 0])\<rparr>"

text \<open>The end of a process: its adjustments are added, no value falling below zero.\<close>

definition sem_exit :: "int \<Rightarrow> semset \<Rightarrow> semset" where
  "sem_exit p s =
     s\<lparr>sem_vals := map (\<lambda>n. max 0 (sem_vals s ! n + sem_adj s p ! n)) [0..<length (sem_vals s)],
       sem_adj := (sem_adj s)(p := replicate (length (sem_vals s)) 0)\<rparr>"

section \<open>The operations of the header\<close>

definition BIGCOUNT :: int where
  "BIGCOUNT = 31"

definition op_lock :: "sembuf list" where
  "op_lock = [\<lparr>sem_num = 2, sem_delta = 0, undo = False\<rparr>, \<lparr>sem_num = 2, sem_delta = 1, undo = True\<rparr>]"

definition op_unlock :: "sembuf list" where
  "op_unlock = [\<lparr>sem_num = 2, sem_delta = -1, undo = True\<rparr>]"

definition op_endcreate :: "sembuf list" where
  "op_endcreate = [\<lparr>sem_num = 1, sem_delta = -1, undo = True\<rparr>, \<lparr>sem_num = 2, sem_delta = -1, undo = True\<rparr>]"

definition op_open :: "sembuf list" where
  "op_open = [\<lparr>sem_num = 1, sem_delta = -1, undo = True\<rparr>]"

definition op_close :: "sembuf list" where
  "op_close = [\<lparr>sem_num = 2, sem_delta = 0, undo = False\<rparr>, \<lparr>sem_num = 2, sem_delta = 1, undo = True\<rparr>,
     \<lparr>sem_num = 1, sem_delta = 1, undo = True\<rparr>]"

definition op_op :: "int \<Rightarrow> sembuf list" where
  "op_op v = [\<lparr>sem_num = 0, sem_delta = v, undo = True\<rparr>]"

text \<open>
  What a call does: it waits, fails with -1, or goes on with the set as the kernel has it then.
  \<^const>\<open>None\<close> for the set is one that does not exist.
\<close>

datatype sem_outcome = Waits | Fails | Continues "semset option"

definition IPC_PRIVATE :: int where
  "IPC_PRIVATE = 0"

definition sem_create :: "int \<Rightarrow> int \<Rightarrow> int \<Rightarrow> semset option \<Rightarrow> sem_outcome" where
  "sem_create p key initval k =
     (if key = IPC_PRIVATE then Fails
      else if key = -1 then Fails
      else case semop p op_lock (case k of None \<Rightarrow> fresh_semset | Some s \<Rightarrow> s) of
        None \<Rightarrow> Waits
      | Some s \<Rightarrow>
          (let s = (if sem_vals s ! 1 = 0 then sem_setval 1 BIGCOUNT (sem_setval 0 initval s) else s)
           in case semop p op_endcreate s of None \<Rightarrow> Waits | Some s \<Rightarrow> Continues (Some s)))"

definition sem_rm :: "semset option \<Rightarrow> semset option" where
  "sem_rm k = None"

definition sem_open :: "int \<Rightarrow> int \<Rightarrow> semset option \<Rightarrow> sem_outcome" where
  "sem_open p key k =
     (if key = IPC_PRIVATE then Fails
      else if key = -1 then Fails
      else case k of
        None \<Rightarrow> Fails
      | Some s \<Rightarrow> (case semop p op_open s of None \<Rightarrow> Waits | Some s \<Rightarrow> Continues (Some s)))"

definition sem_close :: "int \<Rightarrow> semset \<Rightarrow> sem_outcome" where
  "sem_close p s =
     (case semop p op_close s of
        None \<Rightarrow> Waits
      | Some s \<Rightarrow>
          if sem_vals s ! 1 > BIGCOUNT then Continues (Some s)
          else if sem_vals s ! 1 = BIGCOUNT then Continues (sem_rm (Some s))
          else (case semop p op_unlock s of None \<Rightarrow> Waits | Some s \<Rightarrow> Continues (Some s)))"

text \<open>
  \<^verbatim>\<open>sem_op\<close> with its error path: \<open>intr\<close> is a \<^verbatim>\<open>semop\<close> that a signal interrupts while it waits.
  It fails with \<^verbatim>\<open>EINTR\<close>, which is reported and ignored, so the caller goes on.
\<close>

definition sem_op :: "bool \<Rightarrow> int \<Rightarrow> int \<Rightarrow> semset \<Rightarrow> semset option" where
  "sem_op intr p v s =
     (case semop p (op_op v) s of
        Some s' \<Rightarrow> Some s'
      | None \<Rightarrow> if intr then Some s else None)"

definition sem_wait :: "bool \<Rightarrow> int \<Rightarrow> semset \<Rightarrow> semset option" where
  "sem_wait intr p s = sem_op intr p (-1) s"

definition sem_signal :: "int \<Rightarrow> semset \<Rightarrow> semset option" where
  "sem_signal p s = sem_op False p 1 s"

section \<open>Processes and their critical sections\<close>

text \<open>
  The processes that share the set, in the order the code runs them: a process enters between a
  \<^verbatim>\<open>sem_wait\<close> that returned and its \<^verbatim>\<open>sem_signal\<close>.  \<open>interrupted\<close> is a \<^verbatim>\<open>sem_wait\<close> that a
  signal made return, \<open>dies\<close> the end of a process wherever it is.
\<close>

record lock_state =
  ls_set :: semset
  ls_inside :: "int set"

inductive lock_step :: "bool \<Rightarrow> lock_state \<Rightarrow> lock_state \<Rightarrow> bool" for signals where
  enters: "p \<notin> ls_inside l \<Longrightarrow> sem_wait False p (ls_set l) = Some s \<Longrightarrow>
     lock_step signals l (l\<lparr>ls_set := s, ls_inside := insert p (ls_inside l)\<rparr>)"
| interrupted: "signals \<Longrightarrow> p \<notin> ls_inside l \<Longrightarrow> sem_wait True p (ls_set l) = Some s \<Longrightarrow>
     lock_step signals l (l\<lparr>ls_set := s, ls_inside := insert p (ls_inside l)\<rparr>)"
| leaves: "p \<in> ls_inside l \<Longrightarrow> sem_signal p (ls_set l) = Some s \<Longrightarrow>
     lock_step signals l (l\<lparr>ls_set := s, ls_inside := ls_inside l - {p}\<rparr>)"
| dies: "lock_step signals l (l\<lparr>ls_set := sem_exit p (ls_set l), ls_inside := ls_inside l - {p}\<rparr>)"

inductive_cases lock_stepE [consumes 1, case_names enters interrupted leaves dies]: "lock_step signals l l'"

inductive lock_reachable :: "bool \<Rightarrow> lock_state \<Rightarrow> bool" for signals where
  created: "sem_create p key 1 None = Continues (Some s) \<Longrightarrow>
     lock_reachable signals \<lparr>ls_set = s, ls_inside = {}\<rparr>"
| stepped: "lock_reachable signals l \<Longrightarrow> lock_step signals l l' \<Longrightarrow> lock_reachable signals l'"

section \<open>Mutual exclusion\<close>

lemmas sem_op_simps = sem_op_def op_op_def sem_apply_def Let_def

text \<open>
  While no signal interrupts a wait, the first value is 1 exactly when nobody is inside, and a
  process inside has an adjustment that its end would give back.
\<close>

definition lock_inv :: "lock_state \<Rightarrow> bool" where
  "lock_inv l \<longleftrightarrow>
     length (sem_vals (ls_set l)) = 3 \<and> (\<forall>p. length (sem_adj (ls_set l) p) = 3) \<and>
     (\<forall>p. sem_adj (ls_set l) p ! 0 = (if p \<in> ls_inside l then 1 else 0)) \<and>
     (sem_vals (ls_set l) ! 0 = 1 \<and> ls_inside l = {} \<or>
      sem_vals (ls_set l) ! 0 = 0 \<and> (\<exists>p. ls_inside l = {p}))"

lemma sem_create_fresh:
  assumes "key \<noteq> 0" and "key \<noteq> -1"
  shows "sem_create p key v None = Continues (Some
    \<lparr>sem_vals = [v, 30, 0], sem_adj = (\<lambda>_. [0, 0, 0])(p := [0, 1, 0])\<rparr>)"
  using assms
  by (simp add: sem_create_def IPC_PRIVATE_def fresh_semset_def op_lock_def op_endcreate_def
      sem_apply_def sem_setval_def BIGCOUNT_def Let_def numeral_2_eq_2 fun_eq_iff)

lemma sem_create_key: "sem_create p key v None = Continues k \<Longrightarrow> key \<noteq> 0 \<and> key \<noteq> -1"
  by (auto simp: sem_create_def IPC_PRIVATE_def split: if_splits)

lemma lock_inv_created:
  "sem_create p key 1 None = Continues (Some s) \<Longrightarrow> lock_inv \<lparr>ls_set = s, ls_inside = {}\<rparr>"
  using sem_create_key [of p key 1 "Some s"] sem_create_fresh [of key p 1]
  by (auto simp: lock_inv_def)

lemma lock_inv_enters:
  assumes "lock_inv l" and "sem_wait False p (ls_set l) = Some s"
  shows "lock_inv (l\<lparr>ls_set := s, ls_inside := insert p (ls_inside l)\<rparr>)"
  using assms by (auto simp: lock_inv_def sem_wait_def sem_op_simps split: if_splits)

lemma lock_inv_leaves:
  assumes "lock_inv l" and "p \<in> ls_inside l" and "sem_signal p (ls_set l) = Some s"
  shows "lock_inv (l\<lparr>ls_set := s, ls_inside := ls_inside l - {p}\<rparr>)"
  using assms by (auto simp: lock_inv_def sem_signal_def sem_op_simps split: if_splits)

lemma lock_inv_dies:
  assumes "lock_inv l"
  shows "lock_inv (l\<lparr>ls_set := sem_exit p (ls_set l), ls_inside := ls_inside l - {p}\<rparr>)"
proof -
  have l: "length (sem_vals (ls_set l)) = 3" "[0..<3] = [0, 1, 2::nat]"
    using assms by (simp_all add: lock_inv_def upt_rec)
  have adj: "sem_adj (sem_exit p (ls_set l)) q =
      (if q = p then [0, 0, 0] else sem_adj (ls_set l) q)" for q
    by (simp add: sem_exit_def l numeral_3_eq_3)
  have val: "sem_vals (sem_exit p (ls_set l)) ! 0 = max 0 (sem_vals (ls_set l) ! 0 + sem_adj (ls_set l) p ! 0)"
      "length (sem_vals (sem_exit p (ls_set l))) = 3"
    by (simp_all add: sem_exit_def l)
  show ?thesis
    using assms unfolding lock_inv_def by (auto simp: adj val)
qed

lemma lock_inv_step: "lock_step False l l' \<Longrightarrow> lock_inv l \<Longrightarrow> lock_inv l'"
  by (cases rule: lock_step.cases, assumption)
    (simp_all add: lock_inv_enters lock_inv_leaves lock_inv_dies)

lemma lock_reachable_inv: "lock_reachable False l \<Longrightarrow> lock_inv l"
  by (induction rule: lock_reachable.induct) (auto intro: lock_inv_created lock_inv_step)

lemma lock_inv_wait_iff:
  "lock_inv l \<Longrightarrow> sem_wait False p (ls_set l) \<noteq> None \<longleftrightarrow> ls_inside l = {}"
  by (auto simp: lock_inv_def sem_wait_def sem_op_simps)

text \<open>
  C24. At most one process is in a critical section as long as no wait is interrupted, a
  process can enter exactly when none is inside, and the end of the process inside, without a
  \<^verbatim>\<open>sem_signal\<close>, lets the others in again.\<close>

theorem sem_mutual_exclusion:
  assumes "lock_reachable False l" and "p \<in> ls_inside l"
  shows "ls_inside l = {p} \<and> sem_wait False q (ls_set l) = None
    \<and> sem_wait False q (sem_exit p (ls_set l)) \<noteq> None"
proof -
  have inv: "lock_inv l" using assms(1) by (rule lock_reachable_inv)
  then have i: "ls_inside l = {p}" using assms(2) by (auto simp: lock_inv_def)
  from lock_inv_dies [OF inv, of p] have "sem_wait False q (sem_exit p (ls_set l)) \<noteq> None"
    using lock_inv_wait_iff [of "l\<lparr>ls_set := sem_exit p (ls_set l), ls_inside := ls_inside l - {p}\<rparr>" q] i
    by simp
  then show ?thesis using i lock_inv_wait_iff [OF inv, of q] by auto
qed

definition demo_set :: "int \<Rightarrow> int \<Rightarrow> semset" where
  "demo_set v a = \<lparr>sem_vals = [v, 30, 0], sem_adj = (\<lambda>_. [0, 0, 0])(1 := [a, 1, 0])\<rparr>"

lemma demo_created: "lock_reachable signals \<lparr>ls_set = demo_set 1 0, ls_inside = {}\<rparr>"
  using lock_reachable.created [of 1 7891 "demo_set 1 0"] sem_create_fresh [of 7891 1 1]
  by (simp add: demo_set_def)

lemma demo_entered: "lock_reachable signals \<lparr>ls_set = demo_set 0 1, ls_inside = {1}\<rparr>"
proof -
  have "sem_wait False 1 (demo_set 1 0) = Some (demo_set 0 1)"
    by (simp add: sem_wait_def sem_op_simps demo_set_def)
  then show ?thesis
    using lock_reachable.stepped [OF demo_created lock_step.enters [where p = 1]] by simp
qed

lemma sem_mutual_exclusion_witness:
  "sem_wait False 2 (demo_set 0 1) = None \<and> sem_wait False 2 (sem_exit 1 (demo_set 0 1)) \<noteq> None"
  using sem_mutual_exclusion [OF demo_entered, of 1 2] by simp

section \<open>The lock as a specification\<close>

text \<open>
  What the callers rely on: a lock that has an owner or none.  A wait blocks while somebody owns it, a
  signal or the end of the owner gives it back, and the end of anybody else does not touch it.
  \<^const>\<open>None\<close> is blocking for ever.
\<close>

datatype lock_op = Wait int | Signal int | End int

fun owner_op :: "lock_op \<Rightarrow> int option \<Rightarrow> int option option" where
  "owner_op (Wait p) w = (if w = None then Some (Some p) else None)"
| "owner_op (Signal p) w = Some None"
| "owner_op (End p) w = Some (if w = Some p then None else w)"

fun owner_runs :: "lock_op list \<Rightarrow> int option \<Rightarrow> int option option" where
  "owner_runs [] w = Some w"
| "owner_runs (e # es) w = Option.bind (owner_op e w) (owner_runs es)"

text \<open>Only the owner signals.\<close>

fun disciplined :: "lock_op list \<Rightarrow> int option \<Rightarrow> bool" where
  "disciplined [] w = True"
| "disciplined (e # es) w \<longleftrightarrow> (\<forall>p. e = Signal p \<longrightarrow> w = Some p)
     \<and> (case owner_op e w of None \<Rightarrow> True | Some w' \<Rightarrow> disciplined es w')"

text \<open>The same operations on the semaphore set, no wait being interrupted.\<close>

fun sem_step :: "lock_op \<Rightarrow> semset \<Rightarrow> semset option" where
  "sem_step (Wait p) s = sem_wait False p s"
| "sem_step (Signal p) s = sem_signal p s"
| "sem_step (End p) s = Some (sem_exit p s)"

fun sem_runs :: "lock_op list \<Rightarrow> semset \<Rightarrow> semset option" where
  "sem_runs [] s = Some s"
| "sem_runs (e # es) s = Option.bind (sem_step e s) (sem_runs es)"

definition owned_by :: "semset \<Rightarrow> int option \<Rightarrow> bool" where
  "owned_by s w \<longleftrightarrow> lock_inv \<lparr>ls_set = s, ls_inside = set_option w\<rparr>"

lemma owned_step:
  assumes "owned_by s w" and "\<forall>p. e = Signal p \<longrightarrow> w = Some p"
  shows "rel_option owned_by (sem_step e s) (owner_op e w)"
proof (cases e)
  case (Wait p)
  note inv = assms(1) [unfolded owned_by_def]
  have iff: "sem_wait False p s \<noteq> None \<longleftrightarrow> w = None" using lock_inv_wait_iff [OF inv, of p] by (cases w) simp_all
  show ?thesis
  proof (cases w)
    case None
    with iff obtain s' where s': "sem_wait False p s = Some s'" by auto
    have "owned_by s' (Some p)"
      using lock_inv_enters [OF inv, of p s'] s' None by (simp add: owned_by_def)
    with Wait None s' show ?thesis by simp
  qed (use Wait iff in simp)
next
  case (Signal p)
  note inv = assms(1) [unfolded owned_by_def]
  have w: "w = Some p" using assms(2) Signal by simp
  have "\<exists>s'. sem_signal p s = Some s'" using inv by (auto simp: lock_inv_def sem_signal_def sem_op_simps w)
  then obtain s' where s': "sem_signal p s = Some s'" by blast
  have "owned_by s' None"
    using lock_inv_leaves [OF inv, of p s'] s' w by (simp add: owned_by_def)
  with Signal s' show ?thesis by simp
next
  case (End p)
  have "set_option w - {p} = set_option (if w = Some p then None else w)" by (cases w) auto
  with lock_inv_dies [OF assms(1) [unfolded owned_by_def], of p] End show ?thesis
    by (simp add: owned_by_def)
qed

lemma owned_runs:
  "owned_by s w \<Longrightarrow> disciplined es w \<Longrightarrow> rel_option owned_by (sem_runs es s) (owner_runs es w)"
proof (induction es arbitrary: s w)
  case (Cons e es)
  then have st: "rel_option owned_by (sem_step e s) (owner_op e w)" using owned_step [of s w e] by simp
  then show ?case
  proof (cases rule: option.rel_cases)
    case (Some s1 w1)
    with Cons show ?thesis by simp
  qed simp
qed simp

text \<open>
  C25. The semaphore set implements the lock with an owner, as long as no wait is interrupted: over
  every sequence of waits, signals by the owner and ends of processes, it blocks exactly where the
  specification blocks, and its value is 1 exactly when the specification has no owner.\<close>

theorem semaphore_refines_lock:
  assumes "sem_create p key 1 None = Continues (Some s)" and "disciplined es None"
  shows "rel_option (\<lambda>s' w. sem_vals s' ! 0 = (if w = None then 1 else 0)) (sem_runs es s) (owner_runs es None)"
proof -
  have "owned_by s None" using lock_inv_created [OF assms(1)] by (simp add: owned_by_def)
  from owned_runs [OF this assms(2)] show ?thesis
    by (rule option.rel_mono_strong) (auto simp: owned_by_def lock_inv_def)
qed

lemma semaphore_refines_lock_witness:
  "sem_runs [Wait 1, Wait 2] (demo_set 1 0) = None
    \<and> map_option (\<lambda>s. sem_vals s ! 0) (sem_runs [Wait 1, End 1, Wait 2, Signal 2] (demo_set 1 0)) = Some 1"
proof -
  have c: "sem_create 1 7891 1 None = Continues (Some (demo_set 1 0))"
    using sem_create_fresh [of 7891 1 1] by (simp add: demo_set_def)
  have d: "disciplined [Wait 1, Wait 2] None" "disciplined [Wait 1, End 1, Wait 2, Signal 2] None" by simp_all
  show ?thesis
    using semaphore_refines_lock [OF c d(1)] semaphore_refines_lock [OF c d(2)] by (auto simp: option_rel_Some2)
qed

text \<open>
  A signal breaks the exclusion.  \<^verbatim>\<open>sem_op\<close> reports the error of an interrupted \<^verbatim>\<open>semop\<close> and
  returns, so a process that waits for the lock when it is sent the broadcast signal walks in
  beside the owner; the two \<^verbatim>\<open>sem_signal\<close> calls then leave the semaphore at two, and from then
  on two processes enter without any further signal.\<close>

theorem interrupted_wait_breaks_exclusion:
  "\<exists>l l'. lock_reachable True l \<and> ls_inside l = {1, 2}
    \<and> lock_reachable True l' \<and> ls_inside l' = {} \<and> sem_vals (ls_set l') ! 0 = 2"
proof -
  let ?s = "\<lambda>v a b. \<lparr>sem_vals = [v, 30, 0],
      sem_adj = (\<lambda>_. [0, 0, 0])(1 := [a, 1, 0], 2 := [b, 0, 0])\<rparr> :: semset"
  have d: "demo_set v a = ?s v a 0" for v a by (auto simp: demo_set_def fun_eq_iff)
  have "sem_wait True 2 (demo_set 0 1) = Some (demo_set 0 1)"
    by (simp add: sem_wait_def sem_op_simps demo_set_def)
  then have both: "lock_reachable True \<lparr>ls_set = demo_set 0 1, ls_inside = {1, 2}\<rparr>"
    using lock_reachable.stepped [OF demo_entered lock_step.interrupted [where p = 2]]
    by (simp add: insert_commute)
  have "sem_signal 1 (demo_set 0 1) = Some (?s 1 0 0)"
    by (auto simp: sem_signal_def sem_op_simps d fun_eq_iff)
  then have one: "lock_reachable True \<lparr>ls_set = ?s 1 0 0, ls_inside = {2}\<rparr>"
    using lock_reachable.stepped [OF both lock_step.leaves [where p = 1]] by simp
  have "sem_signal 2 (?s 1 0 0) = Some (?s 2 0 (-1))"
    by (auto simp: sem_signal_def sem_op_simps fun_eq_iff)
  then have "lock_reachable True \<lparr>ls_set = ?s 2 0 (-1), ls_inside = {}\<rparr>"
    using lock_reachable.stepped [OF one lock_step.leaves [where p = 2]] by simp
  with both show ?thesis by (intro exI conjI) (assumption | simp)+
qed

section \<open>The life of a set\<close>

text \<open>A set that \<open>n\<close> processes use, and whose lock is free.\<close>

definition in_use :: "nat \<Rightarrow> semset \<Rightarrow> bool" where
  "in_use n s \<longleftrightarrow> n \<le> 31 \<and> length (sem_vals s) = 3 \<and> sem_vals s ! 1 = BIGCOUNT - int n \<and> sem_vals s ! 2 = 0"

lemma sem_close_last: "in_use 1 s \<Longrightarrow> sem_close p s = Continues None"
  by (auto simp: sem_close_def sem_rm_def op_close_def op_unlock_def sem_apply_def Let_def
      in_use_def BIGCOUNT_def)

text \<open>
  The counter of \<^verbatim>\<open>BIGCOUNT\<close> tracks the processes that use a set: creating makes one user,
  opening one more, and closing removes the set exactly when its caller was the last user; a
  32nd user is kept waiting.\<close>

theorem sem_set_life:
  "(key \<noteq> 0 \<and> key \<noteq> -1 \<longrightarrow> (\<exists>s. sem_create p key v None = Continues (Some s) \<and> in_use 1 s))
   \<and> (key \<noteq> 0 \<and> key \<noteq> -1 \<and> in_use n s \<longrightarrow>
       (if n < 31 then \<exists>s'. sem_open p key (Some s) = Continues (Some s') \<and> in_use (Suc n) s'
        else sem_open p key (Some s) = Waits))
   \<and> (in_use (Suc n) s \<longrightarrow>
       (if n = 0 then sem_close p s = Continues None
        else \<exists>s'. sem_close p s = Continues (Some s') \<and> in_use n s'))"
proof (intro conjI impI)
  assume "key \<noteq> 0 \<and> key \<noteq> -1"
  then show "\<exists>s. sem_create p key v None = Continues (Some s) \<and> in_use 1 s"
    using sem_create_fresh [of key p v] by (simp add: in_use_def BIGCOUNT_def)
next
  assume "key \<noteq> 0 \<and> key \<noteq> -1 \<and> in_use n s"
  then show "if n < 31 then \<exists>s'. sem_open p key (Some s) = Continues (Some s') \<and> in_use (Suc n) s'
        else sem_open p key (Some s) = Waits"
    by (auto simp: sem_open_def IPC_PRIVATE_def op_open_def sem_apply_def Let_def in_use_def BIGCOUNT_def)
next
  assume "in_use (Suc n) s"
  then show "if n = 0 then sem_close p s = Continues None
        else \<exists>s'. sem_close p s = Continues (Some s') \<and> in_use n s'"
    by (auto simp: sem_close_def sem_rm_def op_close_def op_unlock_def sem_apply_def Let_def
        in_use_def BIGCOUNT_def)
qed

lemma sem_set_life_witness:
  "(\<exists>s. sem_create 5 7891 1 None = Continues (Some s) \<and> in_use 1 s)
   \<and> sem_close 1 (demo_set 1 0) = Continues None"
  using sem_set_life [where key = 7891 and p = 5 and v = 1 and n = 0 and s = "demo_set 1 0"]
    sem_set_life [where key = 7891 and p = 1 and v = 1 and n = 0 and s = "demo_set 1 0"]
  by (simp add: in_use_def demo_set_def BIGCOUNT_def)

end
