(* ===== verification/Rwg_Server.thy ===== *)
theory Rwg_Server
  imports Rwg_Turns Semaphores
begin

text \<open>
  The multi-process server of \<^verbatim>\<open>nctu_np_project2/final/np_multi_proc.cpp\<close>: logging in, the process
  of a session, and the system of all sessions over the one shared table, as a step relation.
  The steps are the turns of the shells, the logins, the handlers of \<^verbatim>\<open>SIGUSR1\<close> and the
  broadcasts of the children; in which order they come is open.  Here a turn is one step: the
  invariant is that of turns that do not overlap.  The processes as they really interleave are in \<^theory_text>\<open>Rwg_Sections\<close>.
\<close>

section \<open>A session\<close>

text \<open>The server before it accepts: a fresh segment, its slots numbered and free.\<close>

definition rwg_boot :: shared where
  "rwg_boot = \<lparr>shm = init_users fresh_segment, kills = []\<rparr>"

text \<open>
  The descriptors of a session's process, from those of the server: the listening socket closed,
  the client's socket on the three standard descriptors, the other users' sockets closed.  When
  \<^verbatim>\<open>accept\<close> has failed the three \<^verbatim>\<open>dup2\<close> of -1 fail too.
\<close>

definition session_fds :: "nat \<Rightarrow> int \<Rightarrow> nat list \<Rightarrow> fdtable \<Rightarrow> fdtable" where
  "session_fds sockfd newsockfd others t =
     (let t = sys_close sockfd t;
          t = (if newsockfd < 0 then t
               else sys_dup2 (nat newsockfd) 2 (sys_dup2 (nat newsockfd) 1 (sys_dup2 (nat newsockfd) 0 t)))
      in fold sys_close others t)"

definition welcome_msg :: string where
  "welcome_msg =
     replicate 40 (CHR ''*'') @ [NL] @ ''** Welcome to the information server. **'' @ [NL] @
     replicate 40 (CHR ''*'') @ [NL]"

text \<open>
  What follows the login on slot \<open>i\<close>: \<^verbatim>\<open>fork\<close>, which reports its failure (\<^const>\<open>None\<close>) and goes on, with
  the slot taken; the new process, which stores its number, greets (on its standard output) and
  starts the shell.
\<close>

definition start_session_process ::
  "nat \<Rightarrow> int \<Rightarrow> nat \<Rightarrow> int option \<Rightarrow> fdtable \<Rightarrow> nat \<Rightarrow> environ \<Rightarrow> shared \<Rightarrow>
     shared \<times> (int \<times> string) list \<times> rwg option" where
  "start_session_process sockfd newsockfd i childpid t next e m =
     (case childpid of
        None \<Rightarrow> (m, [], None)
      | Some p \<Rightarrow>
          (let m = login_child i p m
           in (m, (newsockfd, welcome_msg) # broadcast_login_msg m,
               Some (rwg_start i m (session_fds sockfd newsockfd (login_closes i m) t) next e))))"

text \<open>
  One turn of the accept loop, whose socket is -1 when \<^verbatim>\<open>accept\<close> has failed: the error is reported only
  after the slot has been taken, and does not end the turn.
\<close>

definition accept_user ::
  "nat \<Rightarrow> int \<Rightarrow> string \<Rightarrow> int \<Rightarrow> int option \<Rightarrow> fdtable \<Rightarrow> nat \<Rightarrow> environ \<Rightarrow> shared \<Rightarrow>
     (nat \<times> shared \<times> (int \<times> string) list \<times> rwg option) result" where
  "accept_user sockfd newsockfd addr port childpid t next e m =
     ebind (login newsockfd addr port m) (\<lambda>(i, m).
       Inr (i, start_session_process sockfd newsockfd i childpid t next e m))"

section \<open>The system\<close>

text \<open>
  The shared memory, the shell of every slot in use, and the children that have still to
  broadcast, each with the slot of its shell.
\<close>

record rwg_system =
  sys_shared :: shared
  sys_shells :: "nat \<Rightarrow> rwg option"
  sys_announces :: "(nat \<times> string \<times> int) list"

text \<open>The turn of a shell: it sees the shared memory as it is now.\<close>

definition turn ::
  "os \<Rightarrow> (string \<Rightarrow> string option) \<Rightarrow> string \<Rightarrow> nat \<Rightarrow> rwg \<Rightarrow> rwg_system \<Rightarrow> rwg_system result" where
  "turn sys rd raw i s g =
     ebind (rwg_line sys rd raw (s\<lparr>shared := sys_shared g, announces := []\<rparr>)) (\<lambda>s'.
       Inr \<lparr>sys_shared = shared s',
            sys_shells = (sys_shells g)(i := if sh_exited s' then None else Some s'),
            sys_announces = sys_announces g @ map (Pair i) (announces s')\<rparr>)"

inductive rwg_step :: "rwg_system \<Rightarrow> rwg_system \<Rightarrow> bool" where
  logs_in: "accept_user sockfd sck addr port childpid t next e (sys_shared g) = Inr (i, m, written, s) \<Longrightarrow>
     rwg_step g (g\<lparr>sys_shared := m, sys_shells := (sys_shells g)(i := s)\<rparr>)"
| takes_turn: "sys_shells g i = Some s \<Longrightarrow> turn sys rd raw i s g = Inr g' \<Longrightarrow> rwg_step g g'"
| handles_signal: "p \<in> set (kills (sys_shared g)) \<Longrightarrow> real_broadcast_msg p (sys_shared g) = (out, m) \<Longrightarrow>
     rwg_step g (g\<lparr>sys_shared := m\<lparr>kills := filter (\<lambda>q. q \<noteq> p) (kills m)\<rparr>\<rparr>)"
| child_announces: "sys_announces g = as @ (i, a) # bs \<Longrightarrow> announce i a (sys_shared g) = Inr m \<Longrightarrow>
     rwg_step g (g\<lparr>sys_shared := m, sys_announces := as @ bs\<rparr>)"

inductive_cases rwg_stepE [consumes 1, case_names logs_in takes_turn handles_signal child_announces]:
  "rwg_step g g'"

inductive rwg_reachable :: "rwg_system \<Rightarrow> bool" where
  boots: "rwg_reachable \<lparr>sys_shared = rwg_boot, sys_shells = (\<lambda>_. None), sys_announces = []\<rparr>"
| steps: "rwg_reachable g \<Longrightarrow> rwg_step g g' \<Longrightarrow> rwg_reachable g'"

section \<open>The invariant\<close>

text \<open>A shell in the system belongs to the logged-in user of its slot.\<close>

definition shell_ok :: "user list \<Rightarrow> nat \<Rightarrow> rwg \<Rightarrow> bool" where
  "shell_ok us i s \<longleftrightarrow> i < 30 \<and> user_index s = i \<and> \<not> sh_exited s \<and> u_valid (us ! i) \<and>
     rw_sock s = u_sock (us ! i)"

definition sys_inv :: "rwg_system \<Rightarrow> bool" where
  "sys_inv g \<longleftrightarrow> users_ok (shm (sys_shared g)) \<and>
     (\<forall>i s. sys_shells g i = Some s \<longrightarrow> shell_ok (shm (sys_shared g)) i s)"

lemma users_ok_length: "users_ok us \<Longrightarrow> length us = 31"
  by (simp add: users_ok_def table_ok_def)

lemma boot_users: "length (shm rwg_boot) = 31" "i < 30 \<Longrightarrow> shm rwg_boot ! i = zero_user\<lparr>u_id := int i + 1\<rparr>"
    "shm rwg_boot ! 30 = zero_user"
proof -
  have *: "length (fold (\<lambda>i us. us[i := (us ! i)\<lparr>u_valid := False, u_id := int i + 1\<rparr>]) [0..<n] us) = length us"
    "n \<le> length us \<Longrightarrow> fold (\<lambda>i us. us[i := (us ! i)\<lparr>u_valid := False, u_id := int i + 1\<rparr>]) [0..<n] us ! j =
      (if j < n then (us ! j)\<lparr>u_valid := False, u_id := int j + 1\<rparr> else us ! j)" for n j and us :: "user list"
    by (induction n) (auto simp: nth_list_update)
  show "length (shm rwg_boot) = 31" "i < 30 \<Longrightarrow> shm rwg_boot ! i = zero_user\<lparr>u_id := int i + 1\<rparr>"
    "shm rwg_boot ! 30 = zero_user"
    by (simp_all add: rwg_boot_def init_users_def slots_def fresh_segment_def * zero_user_def)
qed

lemma boot_fields:
  assumes "i < 31"
  shows "\<not> u_valid (shm rwg_boot ! i)" and "name_pipe_record (shm rwg_boot ! i) = replicate 31 False"
proof -
  have "i < 30 \<or> i = 30" using assms by linarith
  then have "shm rwg_boot ! i = zero_user\<lparr>u_id := int i + 1\<rparr> \<or> shm rwg_boot ! i = zero_user"
    using boot_users(2) boot_users(3) by blast
  then show "\<not> u_valid (shm rwg_boot ! i)" "name_pipe_record (shm rwg_boot ! i) = replicate 31 False"
    by (auto simp: zero_user_def)
qed

lemma boot_inv: "sys_inv \<lparr>sys_shared = rwg_boot, sys_shells = (\<lambda>_. None), sys_announces = []\<rparr>"
  using boot_users(1,2) boot_fields
  by (simp add: sys_inv_def users_ok_def table_ok_def pipes_between_users_def names_distinct_def
      pipe_from_to_def zero_user_def)

lemma sys_inv_shared:
  assumes "sys_inv g" and "same_core (shm (sys_shared g)) (shm m)"
    and "sys_shared g' = m" and "sys_shells g' = sys_shells g"
  shows "sys_inv g'"
proof -
  have ok: "users_ok (shm (sys_shared g))" using assms(1) by (simp add: sys_inv_def)
  have f: "u_valid (shm m ! i) = u_valid (shm (sys_shared g) ! i)"
      "u_sock (shm m ! i) = u_sock (shm (sys_shared g) ! i)"
      "u_pid (shm m ! i) = u_pid (shm (sys_shared g) ! i)" if "i < 30" for i
    using that same_core_fields [OF assms(2)] users_ok_length [OF ok] by simp_all
  have "shell_ok (shm m) i s" if "sys_shells g i = Some s" for i s
  proof -
    have "shell_ok (shm (sys_shared g)) i s" using assms(1) that by (simp add: sys_inv_def)
    then show ?thesis using f [of i] by (simp add: shell_ok_def)
  qed
  then show ?thesis
    using same_core_users_ok [OF assms(2) ok] by (simp add: sys_inv_def assms(3,4))
qed

lemma turn_inv:
  assumes "sys_inv g" and "sys_shells g i = Some s" and "turn sys rd raw i s g = Inr g'"
  shows "sys_inv g'"
proof -
  let ?s = "s\<lparr>shared := sys_shared g, announces := []\<rparr>"
  obtain s' where l: "rwg_line sys rd raw ?s = Inr s'"
    and g': "sys_shared g' = shared s'" "sys_shells g' = (sys_shells g)(i := if sh_exited s' then None else Some s')"
    using assms(3) by (auto simp: turn_def)
  have sh: "shell_ok (shm (sys_shared g)) i s" using assms(1,2) by (simp add: sys_inv_def)
  have ok: "users_ok (shm (sys_shared g))" using assms(1) by (simp add: sys_inv_def)
  have "rwg_inv ?s \<and> \<not> sh_exited ?s"
    using sh ok by (simp add: rwg_inv_def shell_ok_def me_def rwg_users_def)
  then have k: "rwg_inv s'" "user_index s' = i" "rw_sock s' = rw_sock s"
      "others_kept i (shm (sys_shared g)) (shm (shared s'))"
    using line_kept [OF l] sh by (simp_all add: kept_def shell_ok_def rwg_users_def)
  note len = users_ok_length [OF ok]
  have o: "j < 30 \<Longrightarrow> u_pid (shm (shared s') ! j) = u_pid (shm (sys_shared g) ! j)"
    "j < 30 \<Longrightarrow> u_sock (shm (shared s') ! j) = u_sock (shm (sys_shared g) ! j)"
    "j < 30 \<Longrightarrow> j \<noteq> i \<Longrightarrow> u_valid (shm (shared s') ! j) = u_valid (shm (sys_shared g) ! j)" for j
    using k(4) len by (simp_all add: others_kept_def)
  have i: "i < 30" "u_valid (shm (sys_shared g) ! i)" using sh by (simp_all add: shell_ok_def)
  have "shell_ok (shm (shared s')) j u" if "sys_shells g' j = Some u" for j u
  proof (cases "j = i")
    case True
    with that g' have "u = s'" "\<not> sh_exited s'" by (auto split: if_splits)
    with True k(1-3) i sh o(2) show ?thesis
      by (simp add: shell_ok_def rwg_inv_def me_def rwg_users_def)
  next
    case False
    with that g' assms(1) have "shell_ok (shm (sys_shared g)) j u" by (simp add: sys_inv_def)
    with False o show ?thesis by (simp add: shell_ok_def)
  qed
  then show ?thesis
    using k(1) by (simp add: sys_inv_def g'(1) rwg_inv_def rwg_users_def)
qed

lemma login_inv:
  assumes "sys_inv g" and "accept_user sockfd sck addr port childpid t next e (sys_shared g) = Inr (i, m, written, s)"
  shows "sys_inv (g\<lparr>sys_shared := m, sys_shells := (sys_shells g)(i := s)\<rparr>)"
proof -
  let ?us = "shm (sys_shared g)"
  have ok: "users_ok ?us" using assms(1) by (simp add: sys_inv_def)
  note len = users_ok_length [OF ok]
  obtain m1 where l: "login sck addr port (sys_shared g) = Inr (i, m1)"
    and m: "m = (case childpid of None \<Rightarrow> m1 | Some p \<Rightarrow> login_child i p m1)"
    and s: "s = Some u \<Longrightarrow> user_index u = i \<and> \<not> sh_exited u \<and> rw_sock u = u_sock (shm m ! i)" for u
    using assms(2) by (auto simp: accept_user_def start_session_process_def Let_def rwg_start_def split: option.splits)
  obtain v where v: "i < 30" "m1 = (sys_shared g)\<lparr>shm := ?us[i := v]\<rparr>" "u_valid v"
    using l by (rule login_cases) blast
  have nth: "j \<noteq> i \<Longrightarrow> shm m ! j = ?us ! j" "u_valid (shm m ! i)" for j
    using v len by (auto simp: m login_child_def split: option.splits)
  have "users_ok (shm m)"
    using ok login_invariants [OF l] login_child_invariants [where i = i and m = m1]
    unfolding users_ok_def m by (cases childpid) simp_all
  moreover have "shell_ok (shm m) j u" if "((sys_shells g)(i := s)) j = Some u" for j u
  proof (cases "j = i")
    case True
    with that s v(1) nth(2) show ?thesis by (simp add: shell_ok_def)
  next
    case False
    with that assms(1) have "shell_ok ?us j u" by (simp add: sys_inv_def)
    with False show ?thesis by (simp add: shell_ok_def nth(1))
  qed
  ultimately show ?thesis by (simp add: sys_inv_def)
qed

lemma announce_same_core: "announce i a m = Inr m' \<Longrightarrow> same_core (shm m) (shm m')"
  by (auto simp: announce_def into_buffer_def split: prod.splits if_splits dest: broadcast_same_core)

lemma step_inv: "rwg_step g g' \<Longrightarrow> sys_inv g \<Longrightarrow> sys_inv g'"
proof (induction rule: rwg_step.induct)
  case (logs_in sockfd sck addr port childpid t "next" e g i m written s)
  then show ?case by (blast intro: login_inv)
next
  case (takes_turn g i s sys rd raw g')
  then show ?case by (blast intro: turn_inv)
next
  case (handles_signal p g out m)
  have "same_core (shm (sys_shared g)) (shm m)"
    using real_broadcast_same_core [of "sys_shared g" p] handles_signal(2) by simp
  then have "same_core (shm (sys_shared g)) (shm (m\<lparr>kills := filter (\<lambda>q. q \<noteq> p) (kills m)\<rparr>))" by simp
  with handles_signal(3) show ?case by (rule sys_inv_shared) simp_all
next
  case (child_announces g as i a bs m)
  from child_announces(3) announce_same_core [OF child_announces(2)] show ?case
    by (rule sys_inv_shared) simp_all
qed

lemma reachable_inv: "rwg_reachable g \<Longrightarrow> sys_inv g"
  by (induction rule: rwg_reachable.induct) (auto intro: boot_inv step_inv)

end
