(* ===== verification/Rwg_Claims.thy ===== *)
theory Rwg_Claims
  imports Rwg_Lines Rwg_Server
begin

text \<open>
  The properties of the multi-process remote working ground: which user pipes the table records while
  turns do not overlap, what a user pipe delivers, what a line that is refused halfway leaves behind, and
  what a broadcast delivers.
\<close>

section \<open>A concrete system\<close>

definition demo_os :: os where
  "demo_os = \<lparr>os_exec = (\<lambda>_ _. True), os_access = (\<lambda>_. True), os_open = (\<lambda>_. True)\<rparr>"

definition demo_fds :: fdtable where
  "demo_fds = map (\<lambda>i. Some (Inherited i)) [0..<3]"

text \<open>Two users log in, with the sockets 4 and 5 and the processes 100 and 101.\<close>

definition demo_user :: "int \<Rightarrow> int \<Rightarrow> int \<Rightarrow> string \<Rightarrow> int \<Rightarrow> user" where
  "demo_user n p sck addr port = zero_user\<lparr>u_valid := True, u_id := n, u_pid := p, u_sock := sck,
     u_addr := addr, u_name := ''(no name)'', u_port := port\<rparr>"

definition free_slots :: "nat \<Rightarrow> user list" where
  "free_slots n = map (\<lambda>i. zero_user\<lparr>u_id := int i + 1\<rparr>) [n..<30] @ [zero_user]"

definition demo_user_a :: user where "demo_user_a = demo_user 1 100 4 ''10.0.0.1'' 4001"
definition demo_user_b :: user where "demo_user_b = demo_user 2 101 5 ''10.0.0.2'' 4002"

definition demo_first :: shared where
  "demo_first = \<lparr>shm = demo_user_a # free_slots 1, kills = []\<rparr>"

definition demo_shared :: shared where
  "demo_shared = \<lparr>shm = demo_user_a # demo_user_b # free_slots 2, kills = []\<rparr>"

definition demo_a :: rwg where
  "demo_a = rwg_start 0 demo_first (session_fds 3 4 [] demo_fds) 0 Map.empty"

definition demo_b :: rwg where
  "demo_b = rwg_start 1 demo_shared (session_fds 3 5 [4] demo_fds) 0 Map.empty"

definition demo_system :: rwg_system where
  "demo_system = \<lparr>sys_shared = demo_shared, sys_shells = (\<lambda>_. None)(0 := Some demo_a, 1 := Some demo_b),
     sys_announces = []\<rparr>"

definition demo_piped :: rwg_system where
  "demo_piped = projr (turn demo_os Map.empty (''cat >2'' @ [CR, NL]) 0 demo_a demo_system)"

lemma demo_reachable: "rwg_reachable demo_system"
proof -
  let ?g0 = "\<lparr>sys_shared = rwg_boot, sys_shells = (\<lambda>_. None), sys_announces = []\<rparr> :: rwg_system"
  let ?g1 = "?g0\<lparr>sys_shared := demo_first, sys_shells := (\<lambda>_. None)(0 := Some demo_a)\<rparr>"
  have "login 4 ''10.0.0.1'' 4001 rwg_boot = Inr (0, demo_first\<lparr>shm := (shm demo_first)[0 := demo_user_a\<lparr>u_pid := 0\<rparr>]\<rparr>)"
    "login_child 0 100 (demo_first\<lparr>shm := (shm demo_first)[0 := demo_user_a\<lparr>u_pid := 0\<rparr>]\<rparr>) = demo_first"
    "login_closes 0 demo_first = []"
    by code_simp+
  then have f: "accept_user 3 4 ''10.0.0.1'' 4001 (Some 100) demo_fds 0 Map.empty rwg_boot =
      Inr (0, demo_first, (4, welcome_msg) # broadcast_login_msg demo_first, Some demo_a)"
    by (simp only: accept_user_def start_session_process_def option.case ebind_Inr Let_def prod.case demo_a_def)
  have "login 5 ''10.0.0.2'' 4002 demo_first = Inr (1, demo_shared\<lparr>shm := (shm demo_shared)[1 := demo_user_b\<lparr>u_pid := 0\<rparr>]\<rparr>)"
    "login_child 1 101 (demo_shared\<lparr>shm := (shm demo_shared)[1 := demo_user_b\<lparr>u_pid := 0\<rparr>]\<rparr>) = demo_shared"
    "login_closes 1 demo_shared = [4]"
    by code_simp+
  then have s: "accept_user 3 5 ''10.0.0.2'' 4002 (Some 101) demo_fds 0 Map.empty demo_first =
      Inr (1, demo_shared, (5, welcome_msg) # broadcast_login_msg demo_shared, Some demo_b)"
    by (simp only: accept_user_def start_session_process_def option.case ebind_Inr Let_def prod.case demo_b_def)
  have "rwg_reachable ?g1"
    using rwg_reachable.steps [OF rwg_reachable.boots rwg_step.logs_in [where sck = 4]] f
    by simp
  from rwg_reachable.steps [OF this rwg_step.logs_in [where sck = 5]] s
  show ?thesis by (simp add: demo_system_def fun_upd_def)
qed

lemma demo_piped_reachable: "rwg_reachable demo_piped"
proof -
  have "isl (turn demo_os Map.empty (''cat >2'' @ [CR, NL]) 0 demo_a demo_system) = False" by code_simp
  then have "turn demo_os Map.empty (''cat >2'' @ [CR, NL]) 0 demo_a demo_system = Inr demo_piped"
    by (cases "turn demo_os Map.empty (''cat >2'' @ [CR, NL]) 0 demo_a demo_system")
      (simp_all add: demo_piped_def)
  then show ?thesis
    using rwg_reachable.steps [OF demo_reachable rwg_step.takes_turn [where i = 0 and s = demo_a]]
    by (simp add: demo_system_def)
qed

section \<open>The table in every reachable state\<close>

text \<open>
  While no two turns overlap, a recorded user pipe joins two users who are logged in: \<^verbatim>\<open>exit\<close> takes every pipe
  from and to the user along.  With turns that overlap the receiver may have left (\<^theory_text>\<open>Rwg_Races\<close>),
  and what remains is shown in \<^theory_text>\<open>Rwg_Sections\<close>.\<close>

lemma user_pipes_join_users:
  assumes "rwg_reachable g" and "pipe_from_to (shm (sys_shared g)) s r" and "s < 31" and "r < 31"
  shows "1 \<le> s \<and> 1 \<le> r \<and> u_valid (shm (sys_shared g) ! (s - 1)) \<and> u_valid (shm (sys_shared g) ! (r - 1))"
  using reachable_inv [OF assms(1)] assms(2-4)
  by (simp add: sys_inv_def users_ok_def pipes_between_users_def)

lemma user_pipes_join_users_witness:
  "u_valid (shm (sys_shared demo_piped) ! 0) \<and> u_valid (shm (sys_shared demo_piped) ! 1)"
proof -
  have "pipe_from_to (shm (sys_shared demo_piped)) 1 2" by code_simp
  then show ?thesis using user_pipes_join_users [OF demo_piped_reachable, of 1 2] by simp
qed

section \<open>What a user pipe delivers\<close>

lemma to_string_plain: "CHR ''%'' \<notin> set (to_string (int n))"
  using dec_nat_digits [of "CHR ''%''" n] by (auto simp: to_string_def is_digit_def)

lemma close_out_none: "num_pipe_vec s = [] \<Longrightarrow> close_0_rest_line_pipe_out s = s"
  by (simp add: close_0_rest_line_pipe_out_def)

lemma drop_inputs_idle:
  "\<not> num_pipe_in_flag s \<Longrightarrow> drop_inputs s = s\<lparr>name_pipe_in_flag := False\<rparr>"
  by (simp add: drop_inputs_def drop_dead_pipes_def)

text \<open>The child of \<^verbatim>\<open>>n\<close> writes to the file, and one that reads a user pipe reads from it.\<close>

lemma file_fds_out:
  assumes "os_open sys f" and "\<not> num_pipe_in_flag s" and "\<not> name_pipe_in_flag s"
  shows "fd_get (rwg_file_fds sys f 0 s) 1 = Some (Opened f)"
proof -
  obtain fd t where a: "fd_alloc (Opened f) (k_fds s) = (fd, t)" by (cases "fd_alloc (Opened f) (k_fds s)")
  then have "fd_get t fd = Some (Opened f)" using fd.get_alloc [of "Opened f" "k_fds s" fd] by simp
  then show ?thesis using assms a by (auto simp: rwg_file_fds_def rwg_stdin_def)
qed

lemma open_user_pipe_stdin:
  assumes "os_open sys (name_pipe_in_file s)"
  shows "fd_get (open_user_pipe sys s t) 0 = Some (Opened (name_pipe_in_file s))"
proof -
  obtain fd u where a: "fd_alloc (Opened (name_pipe_in_file s)) t = (fd, u)"
    by (cases "fd_alloc (Opened (name_pipe_in_file s)) t")
  then have "fd_get u fd = Some (Opened (name_pipe_in_file s))"
    using fd.get_alloc [of "Opened (name_pipe_in_file s)" t fd] by simp
  then show ?thesis using assms a by (simp add: open_user_pipe_def)
qed

text \<open>The sender's line.\<close>

lemma sender_line:
  assumes "rwg_idle s" and "rwg_command ws" and "check_id_exist (int n) (rwg_users s)"
    and "\<not> check_name_pipe_exist (user_index s + 1) n (rwg_users s)"
    and "os_open sys (user_pipe_file (int (user_index s) + 1) (int n))"
  defines "file \<equiv> user_pipe_file (int (user_index s) + 1) (int n)"
    and "line \<equiv> join_with (CHR '' '') (ws @ [pipe_op (CHR ''>'') n])"
  obtains s' ch where "rwg_line sys rd (line @ CR # rest) s = Inr s'"
    and "sh_log s' = sh_log s @ [Prompt, CreateFile file, Spawn ch, WaitAll]"
    and "ch_argv ch = ws" and "fd_get (ch_fds ch) 1 = Some (Opened file)" and "ch_trunc ch = Some file"
    and "shared s' = (shared s)\<lparr>shm := set_pipe_record (user_index s + 1) n True (rwg_users s)\<rparr>"
    and "announces s' = announces s @ [(line, int n)]" and "rwg_idle s'"
proof -
  have words: "\<forall>w\<in>set (ws @ [pipe_op (CHR ''>'') n]). w \<noteq> [] \<and> (\<forall>c\<in>set w. line_char c \<and> c \<noteq> CHR '' '')"
    using assms(2) plain_word_chars pipe_op_chars [of "CHR ''>''" n]
    by (auto simp: rwg_command_def list_all_iff pipe_op_def)
  have pl: "\<not> batch_flag s" "\<not> ignore s" using assms(1) by (simp_all add: rwg_idle_def)
  let ?s = "at_line s"
  let ?s1 = "sh_event (CreateFile file)
      (?s\<lparr>name_pipe_out_id := int n, name_pipe_out_flag := True, name_pipe_out_file := file,
         shared := (shared ?s)\<lparr>shm := set_pipe_record (user_index ?s + 1) n True (rwg_users ?s)\<rparr>\<rparr>)"
  define s2 where "s2 = rwg_exec_user_pipe sys line 1 ws 0 ?s1"
  have r: "rwg_line sys rd (line @ CR # rest) s = rwg_execute sys rd line (ws @ [pipe_op (CHR ''>'') n]) ?s"
    unfolding line_def by (rule line_plain) (use words pl in auto)
  have p: "rwg_parse line (ws @ [pipe_op (CHR ''>'') n]) ?s = Inr ([ws], 1, ?s1)"
    by (rule combine_out [OF assms(2)])
      (use user_pipe_out_fresh [of n ?s] assms(3,4) in \<open>simp add: file_def\<close>)
  have idle: "rwg_idle ?s" using assms(1) by simp
  have proc: "rwg_process sys line 1 0 ws 0 1 ?s1 = (0, s2)"
    using idle by (simp add: rwg_process_def s2_def rwg_idle_def sh_event_def)
  let ?ch = "\<lparr>ch_argv = ws, ch_fds = rwg_file_fds sys file 0 ?s1, ch_trunc = Some file,
      ch_end = exec_child sys (sh_env ?s1) ws\<rparr>"
  have s2: "s2 = ?s1\<lparr>sh_log := sh_log ?s1 @ [Spawn ?ch], announces := announces s @ [(line, int n)],
      name_pipe_in_flag := False, name_pipe_out_flag := False\<rparr>"
    using idle assms(5) unfolding s2_def
    by (simp add: rwg_exec_user_pipe_def Let_def close_out_none drop_inputs_idle spawn_def sh_event_def
        rwg_idle_def file_def)
  have "rwg_execute sys rd line (ws @ [pipe_op (CHR ''>'') n]) ?s = Inr (sh_event WaitAll s2)"
    by (rule execute_one [OF assms(2) _ p _ proc]) (use idle s2 in \<open>simp_all add: rwg_idle_def sh_event_def\<close>)
  moreover have "fd_get (rwg_file_fds sys file 0 ?s1) 1 = Some (Opened file)"
    by (rule file_fds_out) (use idle assms(5) in \<open>simp_all add: rwg_idle_def sh_event_def file_def\<close>)
  ultimately show thesis
    using that [of "sh_event WaitAll s2" ?ch] r idle
    by (simp add: s2 sh_event_def rwg_idle_def)
qed

text \<open>The receiver's line, which is announced to everybody.\<close>

lemma received_plain:
  assumes "CHR ''%'' \<notin> set (u_name u)" and "CHR ''%'' \<notin> set (u_name v)" and "u_id u = int k"
    and "\<forall>c\<in>set cmd. line_char c"
  shows "c_format (received_msg u v (int n) cmd) = Inr (received_msg u v (int n) cmd)"
  by (rule c_format_plain)
    (use assms to_string_plain in \<open>auto simp: received_msg_def quoted_def line_char_def NL_def\<close>)

text \<open>
  \<^verbatim>\<open><n\<close> when the pipe is there: what it needs of the table, and the state after it.
\<close>

definition pipe_ready :: "rwg \<Rightarrow> nat \<Rightarrow> string \<Rightarrow> bool" where
  "pipe_ready t n line \<longleftrightarrow> table_ok (rwg_users t) \<and> user_index t < 30 \<and> check_id_exist (int n) (rwg_users t) \<and>
     \<not> list_ex queue_full (take 30 (rwg_users t)) \<and>
     CHR ''%'' \<notin> set (u_name (me t)) \<and> CHR ''%'' \<notin> set (u_name (rwg_users t ! (n - 1))) \<and>
     length (received_msg (me t) (rwg_users t ! (n - 1)) (int n) line) < 300"

text \<open>It does not depend on the recorded pipes.\<close>

lemma pipe_ready_same:
  assumes "pipe_ready t n line" and "same_other (rwg_users t) (rwg_users t')"
    and "table_ok (rwg_users t')" and "user_index t' = user_index t"
  shows "pipe_ready t' n line"
proof -
  let ?us = "rwg_users t" and ?us' = "rwg_users t'"
  have r: "length ?us = 31" "length ?us' = 31" "user_index t < 31" "n - 1 < 31"
    using assms(1,3) check_id_existD(2) [of "int n" ?us] by (auto simp: pipe_ready_def table_ok_def)
  have f: "u_valid (?us' ! i) = u_valid (?us ! i)" "u_name (?us' ! i) = u_name (?us ! i)"
    "u_id (?us' ! i) = u_id (?us ! i)" "queue_full (?us' ! i) = queue_full (?us ! i)" if "i < 31" for i
    using that same_other_fields [OF assms(2), of i] r(1) same_other_nth [OF assms(2), of i]
    by (simp_all add: queue_full_def)
  have "list_ex queue_full (take 30 us) = (\<exists>i<30. queue_full (us ! i))" if "length us = 31" for us
    using that by (auto simp: list_ex_length)
  then have "list_ex queue_full (take 30 ?us') = list_ex queue_full (take 30 ?us)"
    using r(1,2) f(4) by (simp cong: conj_cong)
  moreover have "check_id_exist (int n) ?us' = check_id_exist (int n) ?us"
  proof -
    have "nat (int n - 1) < 31" if "n \<le> 30" using that by linarith
    then show ?thesis using f(1) [of "nat (int n - 1)"] by (auto simp: check_id_exist_iff)
  qed
  moreover have "received_msg (me t') (?us' ! (n - 1)) (int n) line = received_msg (me t) (?us ! (n - 1)) (int n) line"
    using f r(3,4) by (simp add: received_msg_def me_def assms(4))
  ultimately show ?thesis
    using assms(1,3,4) f(2) r(3,4) by (simp add: pipe_ready_def me_def)
qed

lemma broadcast_received:
  assumes "pipe_ready t n line" and "\<forall>c\<in>set line. line_char c" and "same_other (rwg_users t) us1"
    and "shm m1 = us1"
  obtains m where "broadcast_msg (received_msg (me t) (rwg_users t ! (n - 1)) (int n) line) m1 = Inr m"
    and "same_core us1 (shm m)"
proof -
  let ?us = "rwg_users t"
  let ?msg = "received_msg (me t) (?us ! (n - 1)) (int n) line"
  have len: "length ?us = 31" "length us1 = 31"
    using assms(1) same_other_length [OF assms(3)] by (simp_all add: pipe_ready_def table_ok_def)
  have full: "\<not> (\<exists>u\<in>set (take 30 us1). queue_full u)"
  proof
    assume "\<exists>u\<in>set (take 30 us1). queue_full u"
    then obtain i where i: "i < 30" "queue_full (us1 ! i)" by (auto simp: in_set_conv_nth)
    then have "queue_full (?us ! i)"
      using same_other_fields [OF assms(3), of i] len by (simp add: queue_full_def)
    with i(1) assms(1) take30_nth [OF i(1) len(1)] show False by (auto simp: list_ex_iff pipe_ready_def)
  qed
  have "c_format ?msg = Inr ?msg"
    by (rule received_plain [of _ _ "user_index t + 1"])
      (use assms(1,2) in \<open>simp_all add: me_def table_ok_def pipe_ready_def\<close>)
  then obtain m where m: "broadcast_msg ?msg m1 = Inr m"
    using broadcast_msg_eq [of m1 ?msg ?msg] full assms(1,4) len by (simp add: pipe_ready_def)
  show thesis by (rule that [OF m]) (use broadcast_same_core [OF m] assms(4) in simp)
qed

lemma user_pipe_in_taken:
  assumes "pipe_ready t n line" and "check_name_pipe_exist n (user_index t + 1) (rwg_users t)"
    and "\<forall>c\<in>set line. line_char c"
  obtains m where "user_pipe_in line (pipe_op (CHR ''<'') n) t = Inr (t\<lparr>name_pipe_in_flag := True,
       name_pipe_in_file := user_pipe_file (int n) (int (user_index t) + 1), shared := m\<rparr>)"
    and "\<not> check_name_pipe_exist n (user_index t + 1) (shm m)"
    and "\<And>k. check_id_exist k (shm m) = check_id_exist k (rwg_users t)"
proof -
  let ?ix = "user_index t" and ?us = "rwg_users t"
  define us1 where "us1 = set_pipe_record n (?ix + 1) False ?us"
  have r: "table_ok ?us" "?ix < 30" "check_id_exist (int n) ?us" using assms(1) by (simp_all add: pipe_ready_def)
  note id = check_id_existD [OF r(3)]
  have len: "length ?us = 31" using r(1) by (simp add: table_ok_def)
  have so: "same_other ?us us1" unfolding us1_def by (rule set_pipe_record_same_other)
  have l1: "length us1 = 31" using same_other_length [OF so] len by simp
  obtain m where m: "broadcast_msg (received_msg (me t) (?us ! (n - 1)) (int n) line)
      ((shared t)\<lparr>shm := us1\<rparr>) = Inr m" and sc: "same_core us1 (shm m)"
    by (rule broadcast_received [OF assms(1,3) so, of "(shared t)\<lparr>shm := us1\<rparr>"]) simp
  have at: "atoi (dec_nat n) = int n" by (rule atoi_dec_nat) (use id(2) in simp)
  have "length (received_msg (me t) (?us ! (n - 1)) (int n) line) < 300"
    using assms(1) by (simp add: pipe_ready_def)
  then have pin: "user_pipe_in line (pipe_op (CHR ''<'') n) t = Inr (t\<lparr>name_pipe_in_flag := True,
       name_pipe_in_file := user_pipe_file (int n) (int ?ix + 1), shared := m\<rparr>)"
    using r(3) assms(2) strtok_digits [of "CHR ''<''" n] id(1) m
    by (simp add: user_pipe_in_def pipe_op_def Let_def at into_buffer_def say_def
        me_def us1_def nat_diff_distrib)
  have "?ix + 1 < length ?us" "n < length (name_pipe_record (?us ! (?ix + 1)))"
    using r(1,2) id(2) by (simp_all add: table_ok_def)
  from pipe_set_pipe_record [OF this, of False n "?ix + 1"]
  have "\<not> name_pipe_record (us1 ! (?ix + 1)) ! n" by (simp add: pipe_from_to_def us1_def)
  then have rec: "\<not> check_name_pipe_exist n (?ix + 1) (shm m)"
    using same_core_fields(6) [OF sc, of "?ix + 1"] l1 r(2) by (simp add: check_name_pipe_exist_def)
  have v: "u_valid (shm m ! i) = u_valid (?us ! i)" if "i < 31" for i
    using that same_core_fields(1) [OF sc, of i] same_other_fields(1) [OF so, of i] l1 len by simp
  have "check_id_exist k (shm m) = check_id_exist k ?us" for k
  proof -
    have "nat (k - 1) < 31" if "1 \<le> k" "k \<le> 30" using that by linarith
    then show ?thesis using v [of "nat (k - 1)"] by (auto simp: check_id_exist_iff)
  qed
  with pin rec show thesis by (rule that)
qed

lemma pipe_words:
  assumes "rwg_command ws" and "list_all (\<lambda>w. \<exists>d n. w = pipe_op d n \<and> (d = CHR ''<'' \<or> d = CHR ''>'')) ps"
  shows "\<forall>w\<in>set (ws @ ps). w \<noteq> [] \<and> (\<forall>c\<in>set w. line_char c \<and> c \<noteq> CHR '' '')"
  using assms plain_word_chars pipe_op_chars
  by (fastforce simp: rwg_command_def list_all_iff pipe_op_def)

text \<open>A single command whose input is a user pipe.\<close>

lemma process_reads_pipe:
  assumes "rwg_idle (s\<lparr>name_pipe_in_flag := False\<rparr>)" and "name_pipe_in_flag s"
    and "os_open sys (name_pipe_in_file s)"
  obtains ch where "rwg_process sys cmd 1 0 ws 0 1 s =
      (0, s\<lparr>sh_log := sh_log s @ [Spawn ch], name_pipe_in_flag := False\<rparr>)"
    and "ch_argv ch = ws" and "fd_get (ch_fds ch) 0 = Some (Opened (name_pipe_in_file s))"
proof -
  let ?ch = "\<lparr>ch_argv = ws, ch_fds = open_user_pipe sys s (k_fds s), ch_trunc = None,
      ch_end = exec_child sys (sh_env s) ws\<rparr>"
  have "rwg_process sys cmd 1 0 ws 0 1 s = (0, s\<lparr>sh_log := sh_log s @ [Spawn ?ch], name_pipe_in_flag := False\<rparr>)"
    using assms(1,2) by (simp add: rwg_process_def rwg_exec_normal_def Let_def close_out_none drop_inputs_idle
        spawn_def sh_event_def rwg_single_fds_def rwg_idle_def)
  then show thesis by (rule that) (simp_all add: open_user_pipe_stdin assms(3))
qed

lemma receiver_line:
  assumes "rwg_idle t" and "rwg_command ws"
    and "check_name_pipe_exist n (user_index t + 1) (rwg_users t)"
  defines "file \<equiv> user_pipe_file (int n) (int (user_index t) + 1)"
    and "line \<equiv> join_with (CHR '' '') (ws @ [pipe_op (CHR ''<'') n])"
  assumes "pipe_ready t n line" and "os_open sys file"
  obtains t' ch where "rwg_line sys rd (line @ CR # rest) t = Inr t'"
    and "sh_log t' = sh_log t @ [Prompt, Spawn ch, WaitAll]" and "ch_argv ch = ws"
    and "fd_get (ch_fds ch) 0 = Some (Opened file)"
    and "\<not> check_name_pipe_exist n (user_index t + 1) (rwg_users t')" and "rwg_idle t'"
proof -
  let ?t = "at_line t"
  have words: "\<forall>w\<in>set (ws @ [pipe_op (CHR ''<'') n]). w \<noteq> [] \<and> (\<forall>c\<in>set w. line_char c \<and> c \<noteq> CHR '' '')"
    by (rule pipe_words [OF assms(2)]) auto
  have line: "\<forall>c\<in>set line. line_char c" unfolding line_def using words by (intro join_chars) blast
  have idle: "rwg_idle ?t" "\<not> batch_flag t" "\<not> ignore t" using assms(1) by simp_all (simp_all add: rwg_idle_def)
  have "pipe_ready ?t n line" "check_name_pipe_exist n (user_index ?t + 1) (rwg_users ?t)"
    using assms(3,6) by (simp_all add: pipe_ready_def me_def)
  from user_pipe_in_taken [OF this line] obtain m where
    pin: "user_pipe_in line (pipe_op (CHR ''<'') n) ?t =
      Inr (?t\<lparr>name_pipe_in_flag := True, name_pipe_in_file := file, shared := m\<rparr>)" (is "_ = Inr ?t1")
    and rec: "\<not> check_name_pipe_exist n (user_index t + 1) (shm m)"
    by (auto simp: file_def)
  have p: "rwg_parse line (ws @ [pipe_op (CHR ''<'') n]) ?t = Inr ([ws], 1, ?t1)"
    by (rule combine_in [OF assms(2) pin])
  have i1: "rwg_idle (?t1\<lparr>name_pipe_in_flag := False\<rparr>)" using idle(1) by (simp add: rwg_idle_def)
  obtain ch where ch: "rwg_process sys line 1 0 ws 0 1 ?t1 =
      (0, ?t1\<lparr>sh_log := sh_log ?t1 @ [Spawn ch], name_pipe_in_flag := False\<rparr>)" (is "_ = (0, ?t2)")
    and c: "ch_argv ch = ws" "fd_get (ch_fds ch) 0 = Some (Opened file)"
    by (rule process_reads_pipe [OF i1, of sys line ws]) (use assms(7) in simp_all)
  have "rwg_execute sys rd line (ws @ [pipe_op (CHR ''<'') n]) ?t = Inr (sh_event WaitAll ?t2)"
    by (rule execute_one [OF assms(2) _ p _ ch]) (use idle(1) in \<open>simp_all add: rwg_idle_def\<close>)
  moreover have "rwg_line sys rd (line @ CR # rest) t = rwg_execute sys rd line (ws @ [pipe_op (CHR ''<'') n]) ?t"
    unfolding line_def by (rule line_plain) (use words idle in auto)
  ultimately show thesis
    by (intro that [of "sh_event WaitAll ?t2" ch]) (use c rec i1 in \<open>simp_all add: sh_event_def rwg_idle_def rwg_users_def\<close>)
qed

text \<open>
  C12. A user pipe delivers.  When user \<open>a\<close> runs a command with \<^verbatim>\<open>>b\<close> and user \<open>b\<close> then one with
  \<^verbatim>\<open><a\<close>, the first command's standard output and the second one's standard input are the same
  file, which the first one truncated; the pipe is recorded in between and gone afterwards.\<close>

theorem user_pipe_delivers:
  assumes "rwg_idle s" and "rwg_idle t" and "rwg_command ws" and "rwg_command vs"
    and "table_ok (rwg_users s)" and "user_index s < 30" and "user_index t < 30"
    and "u_valid (me s)" and "u_valid (rwg_users s ! user_index t)"
    and "\<not> pipe_from_to (rwg_users s) (user_index s + 1) (user_index t + 1)"
  defines "file \<equiv> user_pipe_file (int (user_index s) + 1) (int (user_index t) + 1)"
    and "sent \<equiv> join_with (CHR '' '') (ws @ [pipe_op (CHR ''>'') (user_index t + 1)])"
    and "taken \<equiv> join_with (CHR '' '') (vs @ [pipe_op (CHR ''<'') (user_index s + 1)])"
  assumes "os_open sys file" and "pipe_ready (t\<lparr>shared := shared s\<rparr>) (user_index s + 1) taken"
  shows "\<exists>s' t' c d. rwg_line sys rd (sent @ CR # l1) s = Inr s'
    \<and> sh_log s' = sh_log s @ [Prompt, CreateFile file, Spawn c, WaitAll]
    \<and> ch_argv c = ws \<and> fd_get (ch_fds c) 1 = Some (Opened file) \<and> ch_trunc c = Some file
    \<and> pipe_from_to (rwg_users s') (user_index s + 1) (user_index t + 1)
    \<and> rwg_line sys rd (taken @ CR # l2) (t\<lparr>shared := shared s'\<rparr>) = Inr t'
    \<and> sh_log t' = sh_log t @ [Prompt, Spawn d, WaitAll]
    \<and> ch_argv d = vs \<and> fd_get (ch_fds d) 0 = Some (Opened file)
    \<and> \<not> pipe_from_to (rwg_users t') (user_index s + 1) (user_index t + 1)"
proof -
  let ?a = "user_index s" and ?b = "user_index t" and ?us = "rwg_users s"
  have id: "check_id_exist (int (?b + 1)) ?us" "check_id_exist (int (?a + 1)) ?us"
    using assms(6-9) by (simp_all add: check_id_exist_iff me_def)
  have np: "\<not> check_name_pipe_exist (?a + 1) (?b + 1) ?us"
    using assms(10) by (simp add: check_name_pipe_exist_def pipe_from_to_def)
  have f: "user_pipe_file (int ?a + 1) (int (?b + 1)) = file" "user_pipe_file (int (?a + 1)) (int ?b + 1) = file"
    by (simp_all add: file_def add.commute)
  obtain s' c where s': "rwg_line sys rd (sent @ CR # l1) s = Inr s'"
      "sh_log s' = sh_log s @ [Prompt, CreateFile file, Spawn c, WaitAll]" "ch_argv c = ws"
      "fd_get (ch_fds c) 1 = Some (Opened file)" "ch_trunc c = Some file"
      "shared s' = (shared s)\<lparr>shm := set_pipe_record (?a + 1) (?b + 1) True ?us\<rparr>"
    using sender_line [OF assms(1,3) id(1) np, of sys rd l1, unfolded f(1), OF assms(14), folded sent_def] by blast
  let ?t = "t\<lparr>shared := shared s'\<rparr>"
  have len: "?b + 1 < length ?us" "?a + 1 < length (name_pipe_record (?us ! (?b + 1)))"
    using assms(5-7) by (simp_all add: table_ok_def)
  have pipe: "pipe_from_to (rwg_users s') (?a + 1) (?b + 1)"
    using pipe_set_pipe_record [OF len] s'(6) by (simp add: rwg_users_def)
  have so: "same_other ?us (rwg_users ?t)"
    using set_pipe_record_same_other s'(6) by (simp add: rwg_users_def)
  have ready: "pipe_ready ?t (?a + 1) taken"
    by (rule pipe_ready_same [OF assms(15)]) (use so set_pipe_record_table_ok [OF assms(5)] s'(6) in \<open>simp_all add: rwg_users_def\<close>)
  have ex: "check_name_pipe_exist (?a + 1) (user_index ?t + 1) (rwg_users ?t)"
    using pipe by (simp add: check_name_pipe_exist_def pipe_from_to_def rwg_users_def)
  have idle: "rwg_idle ?t" using assms(2) by (simp add: rwg_idle_def)
  have f2: "user_pipe_file (int (?a + 1)) (int (user_index ?t) + 1) = file" using f(2) by simp
  have u: "user_index ?t = ?b" "sh_log ?t = sh_log t" by simp_all
  obtain t' d where "rwg_line sys rd (taken @ CR # l2) ?t = Inr t'"
      "sh_log t' = sh_log t @ [Prompt, Spawn d, WaitAll]" "ch_argv d = vs"
      "fd_get (ch_fds d) 0 = Some (Opened file)"
      "\<not> check_name_pipe_exist (?a + 1) (?b + 1) (rwg_users t')"
    using receiver_line [OF idle assms(4) ex ready [unfolded taken_def], of sys rd l2,
        unfolded f2, OF assms(14), folded taken_def, unfolded u] by blast
  with s' pipe show ?thesis by (auto simp: check_name_pipe_exist_def pipe_from_to_def)
qed

definition demo_sender :: rwg where
  "demo_sender = demo_a\<lparr>shared := demo_shared\<rparr>"

lemma user_pipe_delivers_witness:
  "\<exists>s' t' d. rwg_line demo_os Map.empty (''cat f >2'' @ [CR, NL]) demo_sender = Inr s'
    \<and> rwg_line demo_os Map.empty (''number <1'' @ [CR, NL]) (demo_b\<lparr>shared := shared s'\<rparr>) = Inr t'
    \<and> sh_log t' = [Prompt, Spawn d, WaitAll] \<and> fd_get (ch_fds d) 0 = Some (Opened ''user_pipe/1-2'')"
proof -
  have i: "user_index demo_sender = 0" "user_index demo_b = 1" "sh_log demo_b = []" by code_simp+
  have l: "join_with (CHR '' '') ([''cat'', ''f''] @ [pipe_op (CHR ''>'') (1 + 1)]) = ''cat f >2''"
    "join_with (CHR '' '') ([''number''] @ [pipe_op (CHR ''<'') (0 + 1)]) = ''number <1''"
    "user_pipe_file (int 0 + 1) (int 1 + 1) = ''user_pipe/1-2''"
    by code_simp+
  have h: "rwg_idle demo_sender" "rwg_idle demo_b" "rwg_command [''cat'', ''f'']" "rwg_command [''number'']"
    "table_ok (rwg_users demo_sender)" "u_valid (me demo_sender)" "u_valid (rwg_users demo_sender ! 1)"
    "\<not> pipe_from_to (rwg_users demo_sender) (0 + 1) (1 + 1)"
    "pipe_ready (demo_b\<lparr>shared := shared demo_sender\<rparr>) (0 + 1) ''number <1''"
    by code_simp+
  have o: "os_open demo_os ''user_pipe/1-2''" by (simp add: demo_os_def)
  have n: "(0::nat) < 30" "(1::nat) < 30" by simp_all
  note d = user_pipe_delivers [OF h(1-5), of demo_os Map.empty "[NL]" "[NL]", unfolded i l]
  from d [OF n h(6-8) o h(9)] show ?thesis by (simp only: append_Nil) (elim exE conjE, intro exI conjI, assumption+)
qed

section \<open>A refused line\<close>

text \<open>The parser on a line that takes a pipe and then names a user who is not there.\<close>

lemma combine_refused:
  assumes "rwg_command ws" and "user_pipe_in cmd (pipe_op (CHR ''<'') a) s = Inr s1"
    and "\<not> check_id_exist (int n) (rwg_users s1)" and "n < 2 ^ 31"
  shows "rwg_parse cmd (ws @ [pipe_op (CHR ''<'') a, pipe_op (CHR ''>'') n]) s =
    Inr ([ws], 1, sh_event (Output (no_user_msg (int n))) (s1\<lparr>name_pipe_out_id := int n, ignore := True\<rparr>))"
proof -
  have op: "hd (pipe_op (CHR ''<'') a) = CHR ''<''" "is_op (pipe_op (CHR ''>'') n)"
    "hd (pipe_op (CHR ''>'') n) = CHR ''>''" "pipe_op (CHR ''>'') n \<noteq> ''>''"
    by (simp_all add: pipe_op_def is_op_def)
  have w: "rwg_words cmd [] (ws @ [pipe_op (CHR ''<'') a, pipe_op (CHR ''>'') n]) s =
      Inr (Some ws, [pipe_op (CHR ''>'') n], s1)"
    using assms(1,2) op by (simp add: words_plain rwg_command_def)
  have o: "rwg_op (pipe_op (CHR ''>'') n) [] 1 s1 =
      Inr ([], 1, sh_event (Output (no_user_msg (int n))) (s1\<lparr>name_pipe_out_id := int n, ignore := True\<rparr>))"
    using assms(3,4) op strtok_digits [of "CHR ''>''" n]
    by (auto simp: rwg_op_def user_pipe_out_def pipe_op_def atoi_dec_nat Let_def)
  obtain c cs where "ws = c # cs" using assms(1) by (cases ws) (simp_all add: rwg_command_def)
  then show ?thesis
    using assms(1) w o unfolding rwg_parse_def
    by (subst rwg_combine.simps) (simp add: rwg_command_def rwg_combine.simps [of cmd "[]"])
qed

lemma combine_command:
  assumes "rwg_command ws"
  shows "rwg_parse cmd ws s = Inr ([ws], 1, s)"
proof -
  have w: "rwg_words cmd [] ws s = Inr (Some ws, [], s)"
    using assms words_plain [of ws "[]" cmd "[]" s] by (simp add: rwg_command_def)
  obtain c cs where "ws = c # cs" using assms by (cases ws) (simp_all add: rwg_command_def)
  then show ?thesis
    using assms w unfolding rwg_parse_def by (subst rwg_combine.simps) (simp add: rwg_command_def)
qed

text \<open>The command of the next line, with the flag of a user pipe left over.\<close>

lemma leftover_line:
  assumes "rwg_idle (t\<lparr>name_pipe_in_flag := False\<rparr>)" and "name_pipe_in_flag t" and "rwg_command vs"
    and "os_open sys (name_pipe_in_file t)"
  obtains t' d where "rwg_line sys rd (join_with (CHR '' '') vs @ CR # rest) t = Inr t'"
    and "sh_log t' = sh_log t @ [Prompt, Spawn d, WaitAll]" and "ch_argv d = vs"
    and "fd_get (ch_fds d) 0 = Some (Opened (name_pipe_in_file t))"
proof -
  let ?t = "at_line t" and ?line = "join_with (CHR '' '') vs"
  have idle: "rwg_idle (?t\<lparr>name_pipe_in_flag := False\<rparr>)"
    using assms(1) by (simp add: at_line_def rwg_idle_def sh_event_def)
  have pl: "\<not> batch_flag t" "\<not> ignore t" using assms(1) by (simp_all add: rwg_idle_def)
  obtain ch where ch: "rwg_process sys ?line 1 0 vs 0 1 ?t =
      (0, ?t\<lparr>sh_log := sh_log ?t @ [Spawn ch], name_pipe_in_flag := False\<rparr>)" (is "_ = (0, ?t2)")
    and c: "ch_argv ch = vs" "fd_get (ch_fds ch) 0 = Some (Opened (name_pipe_in_file t))"
    by (rule process_reads_pipe [OF idle, of sys ?line vs]) (use assms(2,4) in simp_all)
  have "rwg_execute sys rd ?line vs ?t = Inr (sh_event WaitAll ?t2)"
    by (rule execute_one [OF assms(3) _ combine_command [OF assms(3)] _ ch])
      (use idle in \<open>simp_all add: rwg_idle_def\<close>)
  moreover have "rwg_line sys rd (?line @ CR # rest) t = rwg_execute sys rd ?line vs ?t"
    by (rule line_plain) (use pipe_words [OF assms(3), of "[]"] assms(3) pl in \<open>auto simp: rwg_command_def\<close>)
  ultimately show thesis
    by (intro that [of "sh_event WaitAll ?t2" ch]) (use c in \<open>simp_all add: sh_event_def\<close>)
qed

text \<open>
  A refused line loses the pipe it takes, and the next line reads it.  A command with
  \<^verbatim>\<open><a >n\<close>, where user \<open>n\<close> is not logged in, is not run; but the pipe from \<open>a\<close> has been struck
  from the record and announced as received, and because the flag stays set, the next command,
  which names no pipe, has the file of the pipe as its standard input.\<close>

theorem refused_line_takes_pipe:
  assumes "rwg_idle t" and "rwg_command ws" and "rwg_command vs"
    and "check_name_pipe_exist a (user_index t + 1) (rwg_users t)"
    and "\<not> check_id_exist (int n) (rwg_users t)" and "n < 2 ^ 31"
  defines "file \<equiv> user_pipe_file (int a) (int (user_index t) + 1)"
    and "line \<equiv> join_with (CHR '' '') (ws @ [pipe_op (CHR ''<'') a, pipe_op (CHR ''>'') n])"
  assumes "pipe_ready t a line" and "os_open sys file"
  shows "\<exists>t1 t2 d. rwg_line sys rd (line @ CR # l1) t = Inr t1
    \<and> sh_log t1 = sh_log t @ [Prompt, Output (no_user_msg (int n)), WaitAll]
    \<and> \<not> check_name_pipe_exist a (user_index t + 1) (rwg_users t1)
    \<and> rwg_line sys rd (join_with (CHR '' '') vs @ CR # l2) t1 = Inr t2
    \<and> sh_log t2 = sh_log t1 @ [Prompt, Spawn d, WaitAll]
    \<and> ch_argv d = vs \<and> fd_get (ch_fds d) 0 = Some (Opened file)"
proof -
  let ?t = "at_line t" and ?toks = "ws @ [pipe_op (CHR ''<'') a, pipe_op (CHR ''>'') n]"
  have words: "\<forall>w\<in>set ?toks. w \<noteq> [] \<and> (\<forall>c\<in>set w. line_char c \<and> c \<noteq> CHR '' '')"
    by (rule pipe_words [OF assms(2)]) auto
  have line: "\<forall>c\<in>set line. line_char c" unfolding line_def using words by (intro join_chars) blast
  have idle: "rwg_idle ?t" "\<not> batch_flag t" "\<not> ignore t" using assms(1) by simp_all (simp_all add: rwg_idle_def)
  have "pipe_ready ?t a line" "check_name_pipe_exist a (user_index ?t + 1) (rwg_users ?t)"
    using assms(4,9) by (simp_all add: pipe_ready_def me_def)
  from user_pipe_in_taken [OF this line] obtain m where
    pin: "user_pipe_in line (pipe_op (CHR ''<'') a) ?t =
      Inr (?t\<lparr>name_pipe_in_flag := True, name_pipe_in_file := file, shared := m\<rparr>)" (is "_ = Inr ?t1")
    and rec: "\<not> check_name_pipe_exist a (user_index t + 1) (shm m)"
    and ids: "\<And>k. check_id_exist k (shm m) = check_id_exist k (rwg_users t)"
    by (auto simp: file_def)
  let ?t2 = "sh_event (Output (no_user_msg (int n))) (?t1\<lparr>name_pipe_out_id := int n, ignore := True\<rparr>)"
  have "rwg_parse line ?toks ?t = Inr ([ws], 1, ?t2)"
    by (rule combine_refused [OF assms(2) pin _ assms(6)]) (use ids assms(5) in \<open>simp add: rwg_users_def\<close>)
  then have ex: "rwg_execute sys rd line ?toks ?t = Inr (sh_event WaitAll (?t2\<lparr>ignore := False\<rparr>))"
    using idle(1) by (simp add: rwg_execute_def rwg_idle_def sh_event_def)
  have r: "rwg_line sys rd (line @ CR # l1) t = rwg_execute sys rd line ?toks ?t"
    unfolding line_def by (rule line_plain) (use words idle in auto)
  let ?t3 = "sh_event WaitAll (?t2\<lparr>ignore := False\<rparr>)"
  have "rwg_idle (?t3\<lparr>name_pipe_in_flag := False\<rparr>)" "name_pipe_in_flag ?t3" "name_pipe_in_file ?t3 = file"
    using idle(1) by (simp_all add: sh_event_def rwg_idle_def)
  then obtain t' d where "rwg_line sys rd (join_with (CHR '' '') vs @ CR # l2) ?t3 = Inr t'"
      "sh_log t' = sh_log ?t3 @ [Prompt, Spawn d, WaitAll]" "ch_argv d = vs"
      "fd_get (ch_fds d) 0 = Some (Opened file)"
    using assms(10) leftover_line [of ?t3 vs sys rd l2] assms(3) by metis
  then show ?thesis using r ex rec by (intro exI [of _ ?t3] exI [of _ t'] exI [of _ d])
      (simp add: rwg_users_def sh_event_def)
qed

definition demo_receiver :: rwg where
  "demo_receiver = demo_b\<lparr>shared := demo_shared\<lparr>shm := set_pipe_record 1 2 True (shm demo_shared)\<rparr>\<rparr>"

lemma refused_line_takes_pipe_witness:
  "\<exists>t1 t2 d. rwg_line demo_os Map.empty (''number <1 >9'' @ [CR, NL]) demo_receiver = Inr t1
    \<and> rwg_line demo_os Map.empty (''ls'' @ [CR, NL]) t1 = Inr t2
    \<and> sh_log t2 = sh_log t1 @ [Prompt, Spawn d, WaitAll] \<and> ch_argv d = [''ls'']
    \<and> fd_get (ch_fds d) 0 = Some (Opened ''user_pipe/1-2'')"
proof -
  have i: "user_index demo_receiver = 1" by code_simp
  have l: "join_with (CHR '' '') ([''number''] @ [pipe_op (CHR ''<'') 1, pipe_op (CHR ''>'') 9]) = ''number <1 >9''"
    "join_with (CHR '' '') [''ls''] = ''ls''" "user_pipe_file (int 1) (int 1 + 1) = ''user_pipe/1-2''"
    by code_simp+
  have h: "rwg_idle demo_receiver" "rwg_command [''number'']" "rwg_command [''ls'']"
    "check_name_pipe_exist 1 (1 + 1) (rwg_users demo_receiver)"
    "\<not> check_id_exist (int 9) (rwg_users demo_receiver)"
    "pipe_ready demo_receiver 1 ''number <1 >9''"
    by code_simp+
  have o: "os_open demo_os ''user_pipe/1-2''" by (simp add: demo_os_def)
  have n: "(9::nat) < 2 ^ 31" by simp
  note r = refused_line_takes_pipe [OF h(1-3), of 1 9 demo_os Map.empty "[NL]" "[NL]", unfolded i l]
  from r [OF h(4,5) n h(6) o] show ?thesis by (elim exE conjE) (intro exI conjI, assumption+)
qed

section \<open>What a broadcast delivers\<close>

text \<open>
  C19. A broadcast either reaches every logged-in user or breaks the process.  When every valid
  user has a free row, each has the message behind those it had, its process is sent the signal,
  and its handler prints them all in order and leaves the queue empty; a single full queue (ten
  messages that no handler has printed) makes the broadcast write past the rows.\<close>

theorem broadcast_reaches_everyone:
  assumes "length (shm m) = 31" and "CHR ''%'' \<notin> set msg" and "length msg < 1500"
    and "i < 30" and "u_valid (shm m ! i)"
    and "\<And>j. j < 30 \<Longrightarrow> u_valid (shm m ! j) \<Longrightarrow> u_pid (shm m ! j) = u_pid (shm m ! i) \<Longrightarrow> j = i"
  shows "if list_ex queue_full (take 30 (shm m)) then broadcast_msg msg m = Inl BufferOverflow
    else \<exists>m' m''. broadcast_msg msg m = Inr m' \<and> u_pid (shm m ! i) \<in> set (kills m')
      \<and> real_broadcast_msg (u_pid (shm m ! i)) m' = (u_msgs (shm m ! i) @ [msg], m'')
      \<and> u_msgs (shm m'' ! i) = []"
proof (cases "list_ex queue_full (take 30 (shm m))")
  case True
  then show ?thesis
    using broadcast_msg_eq [OF assms(1) c_format_plain [OF assms(2)] assms(3)]
    by (auto simp: list_ex_iff)
next
  case False
  note f = c_format_plain [OF assms(2)]
  obtain m' where m': "broadcast_msg msg m = Inr m'"
    using broadcast_msg_eq [OF assms(1) f assms(3)] False by (auto simp: list_ex_iff)
  have k: "kills m' = kills m @ map u_pid (filter u_valid (take 30 (shm m)))"
    using broadcast_msg_eq [OF assms(1) f assms(3)] False m' by (auto simp: list_ex_iff)
  have "u_pid (shm m ! i) \<in> set (kills m')"
    using take30_nth [OF assms(4,1)] assms(5) by (auto simp: k)
  moreover have at: "shm m' ! j = queued msg (shm m ! j)" if "j < 30" for j
    by (rule broadcast_nth [OF m' assms(1) f assms(3) that])
  have fields: "u_valid (queued msg u) = u_valid u" "u_pid (queued msg u) = u_pid u" for u
    by (simp_all add: queued_def)
  have "List.find (\<lambda>j. u_valid (shm m' ! j) \<and> u_pid (shm m' ! j) = u_pid (shm m ! i)) slots = Some i"
    by (rule find_slot_unique [OF assms(4)]) (use assms(4,5,6) at fields in auto)
  then have r: "real_broadcast_msg (u_pid (shm m ! i)) m' =
      (u_msgs (shm m ! i) @ [msg], m'\<lparr>shm := (shm m')[i := (shm m' ! i)\<lparr>u_msgs := []\<rparr>]\<rparr>)"
    using at [OF assms(4)] assms(5) by (simp add: real_broadcast_msg_def queued_def)
  have "length (shm m') = 31"
    using same_core_length [OF broadcast_same_core [OF m']] assms(1) by simp
  then have "u_msgs ((shm m')[i := (shm m' ! i)\<lparr>u_msgs := []\<rparr>] ! i) = []" using assms(4) by simp
  ultimately show ?thesis using False m' r by auto
qed

lemma broadcast_reaches_everyone_witness:
  "\<exists>m' m''. broadcast_msg ''hi'' demo_shared = Inr m' \<and> real_broadcast_msg 101 m' = ([''hi''], m'')"
proof -
  have h: "length (shm demo_shared) = 31" "u_valid (shm demo_shared ! 1)" "u_msgs (shm demo_shared ! 1) = []"
    "u_pid (shm demo_shared ! 1) = 101" "\<not> list_ex queue_full (take 30 (shm demo_shared))"
    "list_all (\<lambda>j. (u_valid (shm demo_shared ! j) \<and> u_pid (shm demo_shared ! j) = 101) \<longrightarrow> j = 1) [0..<30]"
    by code_simp+
  have u: "j = 1" if "j < 30" "u_valid (shm demo_shared ! j)"
    "u_pid (shm demo_shared ! j) = u_pid (shm demo_shared ! 1)" for j
    using h(6) that unfolding h(4) list_all_iff by force
  have msg: "CHR ''%'' \<notin> set ''hi''" "length ''hi'' < 1500" "(1::nat) < 30" by simp_all
  from broadcast_reaches_everyone [OF h(1) msg h(2) u] show ?thesis
    unfolding h(3,4) if_not_P [OF h(5)] by fastforce
qed

end
