(* ===== verification/Rwg_Races.thy ===== *)
theory Rwg_Races
  imports Rwg_Claims
begin

text \<open>
  The sections of \<^verbatim>\<open>npshell_3.h\<close> that look at the shared table and change it later without holding the semaphore in
  between: \<^verbatim>\<open>name\<close> and \<^verbatim>\<open>>n\<close>.  Here each is two steps, the look and the change, so that a step of another
  process can come between them; \<open>rwg_name\<close> and \<open>user_pipe_out\<close> are the two at once.
\<close>

section \<open>Taking a name\<close>

definition name_taken :: "string \<Rightarrow> rwg \<Rightarrow> bool" where
  "name_taken nm s \<longleftrightarrow> check_name_exist nm (rwg_users s)"

definition name_take :: "string \<Rightarrow> rwg \<Rightarrow> rwg result" where
  "name_take nm s = ebind (into_buffer 30 nm) (\<lambda>nm. say (named_msg nm) (set_name nm s))"

lemma rwg_name_steps:
  "rwg_name (nm # ws) s =
     (if name_taken nm s then Inr (sh_event (Output (name_taken_msg nm)) s) else name_take nm s)"
  by (simp add: rwg_name_def name_taken_def name_take_def)

text \<open>A name that is taken, with room for the message in every queue.\<close>

lemma named_msg_fits:
  assumes "length nm < 30" and "CHR ''%'' \<notin> set nm"
  shows "CHR ''%'' \<notin> set (named_msg nm)" and "length (named_msg nm) < 1500"
  using assms by (auto simp: named_msg_def quoted_def NL_def)

lemma name_take_users:
  assumes "length (shm m) = 31" and "i < 30" and "user_index s = i"
    and "length nm < 30" and "CHR ''%'' \<notin> set nm" and "\<And>k. k < 30 \<Longrightarrow> length (u_msgs (shm m ! k)) < 10"
  shows "\<exists>s'. name_take nm (s\<lparr>shared := m\<rparr>) = Inr s' \<and> length (rwg_users s') = 31 \<and>
    (\<forall>k<30. rwg_users s' ! k = queued (named_msg nm) (if k = i then (shm m ! i)\<lparr>u_name := nm\<rparr> else shm m ! k))"
proof -
  let ?m = "m\<lparr>shm := (shm m)[i := (shm m ! i)\<lparr>u_name := nm\<rparr>]\<rparr>"
  have len: "length (shm ?m) = 31" using assms(1) by simp
  note f = c_format_plain [OF named_msg_fits(1) [OF assms(4,5)]] and l = named_msg_fits(2) [OF assms(4,5)]
  have "\<not> queue_full u" if "u \<in> set (take 30 (shm ?m))" for u
    using that assms(1,2,6) by (auto simp: in_set_conv_nth queue_full_def nth_list_update not_le)
  then obtain m' where m': "broadcast_msg (named_msg nm) ?m = Inr m'"
    using broadcast_msg_eq [OF len f l] by auto
  have "length (shm m') = 31" using same_core_length [OF broadcast_same_core [OF m']] len by simp
  moreover have "shm m' ! k = queued (named_msg nm) (shm ?m ! k)" if "k < 30" for k
    by (rule broadcast_nth [OF m' len f l that])
  ultimately show ?thesis
    using assms m' by (intro exI [of _ "s\<lparr>shared := m'\<rparr>"])
      (simp add: name_take_def into_buffer_def say_def set_name_def rwg_users_def me_def nth_list_update)
qed

lemma queued_fields [simp]:
  "u_name (queued row u) = u_name u" "u_valid (queued row u) = u_valid u"
  by (simp_all add: queued_def)

lemma length_queued: "length (u_msgs (queued row u)) \<le> length (u_msgs u) + 1"
  by (simp add: queued_def)

text \<open>
  C21. Two users can take one name: when both shells have looked before either has changed the table, both find the
  name free, both take it, and the names of the logged-in users are no longer distinct.  Had the second looked
  after the first was done, it would only have printed that the name exists.\<close>

theorem names_can_clash:
  assumes "length (shm m) = 31" and "i < 30" and "j < 30" and "i \<noteq> j" and "u_valid (shm m ! i)" and "u_valid (shm m ! j)"
    and "user_index s = i" and "user_index t = j" and "\<not> check_name_exist nm (shm m)"
    and "length nm < 30" and "CHR ''%'' \<notin> set nm" and "nm \<noteq> ''(no name)''"
    and "\<And>k. k < 30 \<Longrightarrow> length (u_msgs (shm m ! k)) < 9"
  shows "\<not> name_taken nm (s\<lparr>shared := m\<rparr>) \<and> \<not> name_taken nm (t\<lparr>shared := m\<rparr>)
    \<and> (\<exists>s' t'. name_take nm (s\<lparr>shared := m\<rparr>) = Inr s' \<and> name_take nm (t\<lparr>shared := shared s'\<rparr>) = Inr t'
        \<and> u_name (rwg_users t' ! i) = nm \<and> u_name (rwg_users t' ! j) = nm \<and> \<not> names_distinct (rwg_users t')
        \<and> rwg_name [nm] (t\<lparr>shared := shared s'\<rparr>) = Inr (sh_event (Output (name_taken_msg nm)) (t\<lparr>shared := shared s'\<rparr>)))"
proof -
  have room: "length (u_msgs (shm m ! k)) < 10" if "k < 30" for k using assms(13) [OF that] by simp
  obtain s' where s': "name_take nm (s\<lparr>shared := m\<rparr>) = Inr s'" "length (rwg_users s') = 31"
    "\<forall>k<30. rwg_users s' ! k = queued (named_msg nm) (if k = i then (shm m ! i)\<lparr>u_name := nm\<rparr> else shm m ! k)"
    using name_take_users [OF assms(1,2,7,10,11) room] by blast
  have room': "length (u_msgs (shm (shared s') ! k)) < 10" if "k < 30" for k
    using s'(3) that assms(13) [OF that] assms(13) [OF assms(2)]
      length_queued [of "named_msg nm" "shm m ! k"] length_queued [of "named_msg nm" "(shm m ! i)\<lparr>u_name := nm\<rparr>"]
    by (auto simp: rwg_users_def split: if_splits)
  have len: "length (shm (shared s')) = 31" using s'(2) by (simp add: rwg_users_def)
  obtain t' where t': "name_take nm (t\<lparr>shared := shared s'\<rparr>) = Inr t'"
    "\<forall>k<30. rwg_users t' ! k =
        queued (named_msg nm) (if k = j then (shm (shared s') ! j)\<lparr>u_name := nm\<rparr> else shm (shared s') ! k)"
    using name_take_users [OF len assms(3,8,10,11) room'] by blast
  have n: "u_name (rwg_users t' ! i) = nm" "u_name (rwg_users t' ! j) = nm"
    and v: "u_valid (rwg_users t' ! i)" "u_valid (rwg_users t' ! j)"
    using assms(2-6) s'(3) t'(2) by (simp_all add: rwg_users_def)
  then have "\<not> names_distinct (rwg_users t')" using assms(2-4,12) unfolding names_distinct_def by metis
  moreover have "name_taken nm (t\<lparr>shared := shared s'\<rparr>)"
    using s'(3) assms(2,5) by (auto simp: name_taken_def check_name_exist_iff rwg_users_def intro!: exI [of _ i])
  ultimately show ?thesis
    using assms(9) s'(1) t'(1) n by (simp add: name_taken_def rwg_users_def rwg_name_steps)
qed

lemma names_can_clash_witness:
  "\<exists>s' t'. name_take ''bob'' (demo_a\<lparr>shared := demo_shared\<rparr>) = Inr s' \<and> name_take ''bob'' (demo_b\<lparr>shared := shared s'\<rparr>) = Inr t'
    \<and> \<not> names_distinct (rwg_users t')"
proof -
  have h: "length (shm demo_shared) = 31" "u_valid (shm demo_shared ! 0)" "u_valid (shm demo_shared ! 1)"
    "user_index demo_a = 0" "user_index demo_b = 1" "\<not> check_name_exist ''bob'' (shm demo_shared)"
    by code_simp+
  have q: "list_all (\<lambda>k. length (u_msgs (shm demo_shared ! k)) < 9) [0..<30]" by code_simp
  then have q: "length (u_msgs (shm demo_shared ! k)) < 9" if "k < 30" for k using that by (simp add: list_all_iff)
  show ?thesis
    using names_can_clash [OF h(1) _ _ _ h(2-6), of, simplified, OF q] by auto
qed

section \<open>Piping to a user\<close>

definition pipe_out_free :: "int \<Rightarrow> rwg \<Rightarrow> bool" where
  "pipe_out_free n s \<longleftrightarrow>
     check_id_exist n (rwg_users s) \<and> \<not> check_name_pipe_exist (user_index s + 1) (nat n) (rwg_users s)"

definition pipe_out_record :: "int \<Rightarrow> rwg \<Rightarrow> rwg" where
  "pipe_out_record n s =
     (let file = user_pipe_file (int (user_index s) + 1) n
      in sh_event (CreateFile file)
           (s\<lparr>name_pipe_out_id := n, name_pipe_out_flag := True, name_pipe_out_file := file,
              shared := (shared s)\<lparr>shm := set_pipe_record (user_index s + 1) (nat n) True (rwg_users s)\<rparr>\<rparr>))"

lemma user_pipe_out_steps:
  assumes "strtok_first (\<lambda>c. c = CHR ''>'') w = Some digits"
  shows "user_pipe_out w s =
    (let n = atoi digits; s' = s\<lparr>name_pipe_out_id := n, ignore := True\<rparr>
     in Inr (if pipe_out_free n s then pipe_out_record n s
             else if check_id_exist n (rwg_users s)
                  then sh_event (Output (pipe_exists_msg (int (user_index s) + 1) n)) s'
                  else sh_event (Output (no_user_msg n)) s'))"
  using assms by (simp add: user_pipe_out_def pipe_out_free_def pipe_out_record_def Let_def)

text \<open>
  C22. A pipe can be given to a user who has left: when the receiver logs out after the sender's shell has found the
  pipe free and before it records it, the pipe joins a user who is not there, which no run in which turns do
  not overlap comes to, and whoever logs in next on that slot has a pipe from the sender before he does anything.
  Had the shell looked after the logout, it would have reported that the user does not exist.\<close>

theorem pipe_to_departed_user:
  assumes "table_ok (shm m)" and "i < 30" and "r < 30" and "i \<noteq> r" and "user_index s = i"
    and "u_valid (shm m ! r)" and "\<not> check_name_pipe_exist (i + 1) (r + 1) (shm m)"
    and "\<forall>k<r. u_valid (shm m ! k)" and "length addr < 20"
  defines "s' \<equiv> pipe_out_record (int r + 1) (s\<lparr>shared := logout r m\<rparr>)"
  shows "pipe_out_free (int r + 1) (s\<lparr>shared := m\<rparr>) \<and> \<not> pipe_out_free (int r + 1) (s\<lparr>shared := logout r m\<rparr>)
    \<and> pipe_from_to (rwg_users s') (i + 1) (r + 1) \<and> \<not> u_valid (rwg_users s' ! r) \<and> \<not> pipes_between_users (rwg_users s')
    \<and> (\<exists>m'. login sck addr port (shared s') = Inr (r, m') \<and> check_name_pipe_exist (i + 1) (r + 1) (shm m'))"
proof -
  have l: "length (shm m) = 31" using assms(1) by (simp add: table_ok_def)
  note c = clear_name_pipes_spec(1,2) [OF assms(1), of r]
  let ?us = "shm (logout r m)"
  have us: "?us = (clear_name_pipes r (shm m))[r := (clear_name_pipes r (shm m) ! r)\<lparr>u_valid := False\<rparr>]"
    by (simp add: logout_def Let_def)
  have ok: "table_ok ?us" using c(1) assms(3) by (auto simp: us table_ok_def nth_list_update)
  have v: "u_valid (?us ! k) \<longleftrightarrow> k \<noteq> r \<and> u_valid (shm m ! k)" if "k < 31" for k
    using that same_other_fields(1) [OF c(2), of k] l assms(3) same_other_length [OF c(2)] by (simp add: us nth_list_update)
  let ?us' = "set_pipe_record (i + 1) (r + 1) True ?us"
  have s': "rwg_users s' = ?us'" "shm (shared s') = ?us'"
    using assms(5) by (simp_all add: s'_def pipe_out_record_def rwg_users_def sh_event_def Let_def nat_add_distrib)
  have len: "r + 1 < length ?us" "i + 1 < length (name_pipe_record (?us ! (r + 1)))"
    using ok assms(2,3) by (simp_all add: table_ok_def)
  have p: "pipe_from_to ?us' (i + 1) (r + 1)" unfolding pipe_set_pipe_record [OF len] by simp
  have v': "u_valid (?us' ! k) \<longleftrightarrow> k \<noteq> r \<and> u_valid (shm m ! k)" if "k < 31" for k
    using that v [OF that] same_other_fields(1) [OF set_pipe_record_same_other, of k ?us "i + 1" "r + 1" True] ok
    by (simp add: table_ok_def)
  have "\<not> pipes_between_users ?us'"
  proof
    assume "pipes_between_users ?us'"
    moreover have "r + 1 < 31" "i + 1 < 31" using assms(2,3) by simp_all
    ultimately have "u_valid (?us' ! (r + 1 - 1))" using p unfolding pipes_between_users_def by blast
    then show False using v' [of r] assms(3) by simp
  qed
  moreover have find: "List.find (\<lambda>k. \<not> u_valid (?us' ! k)) slots = Some r"
    using v' assms(3,8) by (auto simp: find_Some_iff slots_def intro!: exI [of _ r])
  moreover have "\<exists>m'. login sck addr port (shared s') = Inr (r, m') \<and> check_name_pipe_exist (i + 1) (r + 1) (shm m')"
    using p find assms(9) by (simp add: login_def s' check_name_pipe_exist_def pipe_from_to_def)
  ultimately show ?thesis
    using p v' [of r] v [of r] assms(2-7)
    by (simp add: s' pipe_out_free_def rwg_users_def check_id_exist_iff nat_add_distrib)
qed

lemma pipe_to_departed_user_witness:
  "pipe_out_free 2 (demo_a\<lparr>shared := demo_shared\<rparr>)
    \<and> (\<exists>m'. login 6 ''10.0.0.3'' 4003 (shared (pipe_out_record 2 (demo_a\<lparr>shared := logout 1 demo_shared\<rparr>))) = Inr (1, m')
        \<and> check_name_pipe_exist 1 2 (shm m'))"
proof -
  have l: "length (shm demo_shared) = 31" by code_simp
  have "list_all (\<lambda>i. length (name_pipe_record (shm demo_shared ! i)) = 31) [0..<31]"
    "list_all (\<lambda>i. u_id (shm demo_shared ! i) = int i + 1) [0..<30]"
    by code_simp+
  then have ok: "table_ok (shm demo_shared)" using l by (simp add: table_ok_def list_all_iff)
  have h: "user_index demo_a = 0" "u_valid (shm demo_shared ! 1)" "\<not> check_name_pipe_exist (0 + 1) (1 + 1) (shm demo_shared)"
    "\<forall>k<1. u_valid (shm demo_shared ! k)" "length ''10.0.0.3'' < 20"
    by (simp_all add: demo_shared_def demo_user_a_def demo_user_b_def demo_user_def check_name_pipe_exist_def free_slots_def zero_user_def demo_a_def rwg_start_def)
  show ?thesis
    using pipe_to_departed_user [OF ok _ _ _ h(1-5), of 6 4003] by (simp add: numeral_2_eq_2)
qed

end
