(* ===== verification/Rwg_Sections.thy ===== *)
theory Rwg_Sections
  imports Rwg_Claims
begin

text \<open>
  The multi-process server at the grain at which its processes really interleave: not whole turns,
  but the single accesses to the shared table that \<^verbatim>\<open>npshell_3.h\<close> and \<^verbatim>\<open>np_multi_proc.cpp\<close> make under
  the semaphore or in one statement.  What a session has looked at before may be out of date when
  it acts, so nothing is assumed of it; a process may die at any point, a \<^verbatim>\<open>fork\<close> may fail, and the
  sockets and process numbers are arbitrary.  \<open>line_sections\<close> shows that the turns of \<open>rwg_line\<close>
  do nothing but such accesses.
\<close>

section \<open>The accesses of a session\<close>

text \<open>
  \<open>Record n\<close> and \<open>Take n\<close> are the records of \<^verbatim>\<open>>n\<close> and \<^verbatim>\<open><n\<close>, \<open>Rename\<close> the change of the name, \<open>Yell\<close>
  a broadcast, \<open>Tell\<close> a message to one user, \<open>Started\<close> the process number that the child stores, and \<open>Leave\<close>
  the section of \<^verbatim>\<open>exit\<close>.
\<close>

datatype access =
    Record int
  | Take int
  | Rename string
  | Yell string
  | Tell int string
  | Started int
  | Leave

definition slot_number :: "int \<Rightarrow> bool" where
  "slot_number n \<longleftrightarrow> 1 \<le> n \<and> n \<le> 30"

fun perform :: "nat \<Rightarrow> access \<Rightarrow> shared \<Rightarrow> shared result" where
  "perform i (Record n) m =
     (if slot_number n then Inr (m\<lparr>shm := set_pipe_record (i + 1) (nat n) True (shm m)\<rparr>) else Inl OutOfRange)"
| "perform i (Take n) m =
     (if slot_number n then Inr (m\<lparr>shm := set_pipe_record (nat n) (i + 1) False (shm m)\<rparr>) else Inl OutOfRange)"
| "perform i (Rename nm) m = Inr (m\<lparr>shm := (shm m)[i := (shm m ! i)\<lparr>u_name := nm\<rparr>]\<rparr>)"
| "perform i (Yell msg) m = broadcast_msg msg m"
| "perform i (Tell n msg) m = (if slot_number n then notify (nat (n - 1)) msg m else Inl OutOfRange)"
| "perform i (Started p) m = Inr (login_child i p m)"
| "perform i Leave m = Inr (logout i m)"

fun accesses :: "nat \<Rightarrow> access list \<Rightarrow> shared \<Rightarrow> shared result" where
  "accesses i [] m = Inr m"
| "accesses i (a # as) m = ebind (perform i a m) (accesses i as)"

lemma accesses_append: "accesses i (as @ bs) m = ebind (accesses i as m) (accesses i bs)"
proof (induction as arbitrary: m)
  case (Cons a as)
  then show ?case by (cases "perform i a m") simp_all
qed simp

section \<open>A turn is a sequence of accesses\<close>

text \<open>An operation that stays in the session, as accesses other than \<^const>\<open>Leave\<close>.\<close>

definition stays :: "rwg \<Rightarrow> rwg \<Rightarrow> bool" where
  "stays s s' \<longleftrightarrow> user_index s' = user_index s \<and> sh_exited s' = sh_exited s \<and>
     (\<exists>as. Leave \<notin> set as \<and> accesses (user_index s) as (shared s) = Inr (shared s'))"

text \<open>A turn or the rest of one: it ends the session exactly if its last access is \<^const>\<open>Leave\<close>.\<close>

definition turns :: "rwg \<Rightarrow> rwg \<Rightarrow> bool" where
  "turns s s' \<longleftrightarrow> user_index s' = user_index s \<and>
     (\<exists>as. Leave \<notin> set as \<and>
       accesses (user_index s) (as @ (if sh_exited s' then [Leave] else [])) (shared s) = Inr (shared s'))"

lemma quiet_stays: "quiet s s' \<Longrightarrow> stays s s'"
  by (auto simp: quiet_def stays_def intro: exI [of _ "[]"])

lemma one_stays:
  assumes "perform (user_index s) a (shared s) = Inr (shared s')" and "a \<noteq> Leave"
    and "user_index s' = user_index s" and "sh_exited s' = sh_exited s"
  shows "stays s s'"
  using assms by (auto simp: stays_def intro!: exI [of _ "[a]"])

lemma stays_trans: "stays s s' \<Longrightarrow> stays s' s'' \<Longrightarrow> stays s s''"
proof -
  assume "stays s s'" "stays s' s''"
  then obtain as bs where as: "Leave \<notin> set as" "accesses (user_index s) as (shared s) = Inr (shared s')"
    and bs: "Leave \<notin> set bs" "accesses (user_index s) bs (shared s') = Inr (shared s'')"
    and u: "user_index s'' = user_index s" "sh_exited s'' = sh_exited s"
    unfolding stays_def by auto
  have "accesses (user_index s) (as @ bs) (shared s) = Inr (shared s'')"
    using as(2) bs(2) by (simp add: accesses_append del: accesses.simps)
  then show "stays s s''" using as(1) bs(1) u unfolding stays_def by (intro conjI exI [of _ "as @ bs"]) auto
qed

lemma stays_turns_trans: "stays s s' \<Longrightarrow> turns s' s'' \<Longrightarrow> turns s s''"
proof -
  assume "stays s s'" "turns s' s''"
  then obtain as bs where as: "Leave \<notin> set as" "accesses (user_index s) as (shared s) = Inr (shared s')"
    and bs: "Leave \<notin> set bs"
      "accesses (user_index s) (bs @ (if sh_exited s'' then [Leave] else [])) (shared s') = Inr (shared s'')"
    and u: "user_index s'' = user_index s"
    unfolding stays_def turns_def by auto
  have "accesses (user_index s) ((as @ bs) @ (if sh_exited s'' then [Leave] else [])) (shared s) = Inr (shared s'')"
    using as(2) bs(2) by (simp add: accesses_append del: accesses.simps)
  then show "turns s s''" using as(1) bs(1) u unfolding turns_def by (intro conjI exI [of _ "as @ bs"]) auto
qed

lemma stays_turns: "stays s s' \<Longrightarrow> \<not> sh_exited s \<Longrightarrow> turns s s'"
  by (auto simp: stays_def turns_def)

lemma quiet_turns: "quiet s s' \<Longrightarrow> \<not> sh_exited s \<Longrightarrow> turns s s'"
  by (rule stays_turns [OF quiet_stays])

lemma say_stays: "say msg s = Inr s' \<Longrightarrow> stays s s'"
  by (rule one_stays [where a = "Yell msg"]) (auto simp: say_def)

lemma tell_stays: "rwg_tell args s = Inr s' \<Longrightarrow> stays s s'"
proof -
  assume h: "rwg_tell args s = Inr s'"
  then obtain a ws where args: "args = a # ws" by (cases args) (auto simp: rwg_tell_def)
  show "stays s s'"
  proof (cases "check_id_exist (atoi a) (rwg_users s)")
    case True
    then have n: "slot_number (atoi a)" by (simp add: check_id_exist_iff slot_number_def)
    obtain msg m where "notify (nat (atoi a - 1)) msg (shared s) = Inr m" "s' = s\<lparr>shared := m\<rparr>"
      using h True args by (auto simp: rwg_tell_def Let_def)
    then show ?thesis using n by (intro one_stays [where a = "Tell (atoi a) msg"]) simp_all
  next
    case False
    with h args show ?thesis by (auto simp: rwg_tell_def Let_def intro: quiet_stays)
  qed
qed

lemma yell_stays: "rwg_yell args s = Inr s' \<Longrightarrow> stays s s'"
  by (auto simp: rwg_yell_def into_buffer_def split: if_splits intro: say_stays)

lemma rename_stays: "stays s (set_name nm s)"
  by (rule one_stays [where a = "Rename nm"]) (simp_all add: set_name_def rwg_users_def me_def)

lemma name_stays: "rwg_name args s = Inr s' \<Longrightarrow> stays s s'"
  by (auto simp: rwg_name_def into_buffer_def split: list.splits if_splits
      intro: rename_stays quiet_stays stays_trans [OF rename_stays say_stays])

lemma user_pipe_in_stays:
  assumes "user_pipe_in cmd w s = Inr s'"
  shows "stays s s'"
proof -
  obtain digits where d: "strtok_first (\<lambda>c. c = CHR ''<'') w = Some digits"
    using assms by (auto simp: user_pipe_in_def split: option.splits)
  define n where "n = atoi digits"
  note eq = assms [unfolded user_pipe_in_def d option.case Let_def, folded n_def]
  show ?thesis
  proof (cases "check_id_exist n (rwg_users s) \<and> check_name_pipe_exist (nat n) (user_index s + 1) (rwg_users s)")
    case False
    with eq show ?thesis by (auto simp: quiet_def sh_event_def split: if_splits intro!: quiet_stays)
  next
    case True
    let ?s1 = "s\<lparr>name_pipe_in_flag := True,
       name_pipe_in_file := user_pipe_file n (int (user_index s) + 1),
       shared := (shared s)\<lparr>shm := set_pipe_record (nat n) (user_index s + 1) False (rwg_users s)\<rparr>\<rparr>"
    obtain msg where m: "say msg ?s1 = Inr s'" using eq True by auto
    have "stays s ?s1"
      by (rule one_stays [where a = "Take n"]) (use True in \<open>simp_all add: check_id_exist_iff slot_number_def rwg_users_def\<close>)
    then show ?thesis using say_stays [OF m] by (rule stays_trans)
  qed
qed

lemma user_pipe_out_stays:
  assumes "user_pipe_out w s = Inr s'"
  shows "stays s s'"
proof -
  obtain digits where d: "strtok_first (\<lambda>c. c = CHR ''>'') w = Some digits"
    using assms by (auto simp: user_pipe_out_def split: option.splits)
  define n where "n = atoi digits"
  note eq = assms [unfolded user_pipe_out_def d option.case Let_def, folded n_def]
  show ?thesis
  proof (cases "check_id_exist n (rwg_users s) \<and> \<not> check_name_pipe_exist (user_index s + 1) (nat n) (rwg_users s)")
    case False
    with eq show ?thesis by (auto simp: quiet_def sh_event_def split: if_splits intro!: quiet_stays)
  next
    case True
    show ?thesis
      by (rule one_stays [where a = "Record n"])
        (use eq True in \<open>auto simp: check_id_exist_iff slot_number_def rwg_users_def sh_event_def\<close>)
  qed
qed

lemma words_stays: "rwg_words cmd acc ws s = Inr (p, rest, s') \<Longrightarrow> stays s s'"
  by (induction cmd acc ws s arbitrary: p rest s' rule: rwg_words.induct)
    (auto split: if_splits intro: stays_trans [OF user_pipe_in_stays] quiet_stays)

lemma op_stays: "rwg_op w rest out s = Inr (rest', out', s') \<Longrightarrow> stays s s'"
proof (cases "w \<noteq> ''|'' \<and> w \<noteq> ''>'' \<and> hd w \<noteq> CHR ''!'' \<and> hd w \<noteq> CHR ''|''")
  case True
  then show "rwg_op w rest out s = Inr (rest', out', s') \<Longrightarrow> stays s s'"
    by (auto simp: rwg_op_def intro: user_pipe_out_stays)
next
  case False
  then show "rwg_op w rest out s = Inr (rest', out', s') \<Longrightarrow> stays s s'"
    by (auto simp: rwg_op_def split: if_splits list.splits
        intro!: quiet_stays dest!: quiet_set_redirection quiet_number_pipe_out simp: quiet_def)
qed

lemma combine_stays: "rwg_combine cmd toks procs out s = Inr (procs', out', s') \<Longrightarrow> stays s s'"
proof (induction cmd toks procs out s arbitrary: procs' out' s' rule: rwg_combine.induct)
  case (1 cmd toks procs out s)
  show ?case
  proof (cases "toks = [] \<or> 5000 \<le> length procs")
    case True
    with 1(2) show ?thesis by (auto simp: rwg_combine.simps [of cmd toks] quiet_stays split: if_splits)
  next
    case False
    then obtain p rest s1 where w: "rwg_words cmd [] toks s = Inr (p, rest, s1)"
      using 1(2) by (auto simp: rwg_combine.simps [of cmd toks] split: sum.splits)
    note g = words_stays [OF w]
    show ?thesis
    proof (cases rest)
      case Nil
      with 1(2) False w g show ?thesis by (simp add: rwg_combine.simps [of cmd toks] Let_def)
    next
      case (Cons c rest1)
      then obtain rest2 out2 s2 where o: "rwg_op c rest1 out s1 = Inr (rest2, out2, s2)"
        using 1(2) False w by (auto simp: rwg_combine.simps [of cmd toks] Let_def split: sum.splits)
      from 1(2) False w Cons o have r: "rwg_combine cmd rest2
          (case p of None \<Rightarrow> procs | Some words \<Rightarrow> procs @ [words]) out2 s2 = Inr (procs', out', s')"
        by (simp add: rwg_combine.simps [of cmd toks] Let_def)
      have "stays s2 s'"
        by (rule 1(1) [OF _ _ w _ _ refl Cons o _ _ r]) (use False in auto)
      with g op_stays [OF o] show ?thesis by (blast intro: stays_trans)
    qed
  qed
qed

lemma parse_stays: "rwg_parse cmd toks s = Inr (procs, out, s') \<Longrightarrow> stays s s'"
  by (auto simp: rwg_parse_def quiet_stays split: list.splits if_splits dest: combine_stays)

lemma quiet_builtins:
  "rwg_printenv args s = Inr s' \<Longrightarrow> quiet s s'" "quiet s (setenv_builtin args s)"
  "rwg_batch rd args s = Inr s' \<Longrightarrow> quiet s s'"
  by (auto simp: rwg_printenv_def into_buffer_def setenv_builtin_def rwg_batch_def Let_def quiet_def sh_event_def
      split: list.splits option.splits if_splits)

lemma builtin_stays:
  assumes "rwg_builtin rd c args s = Some (Inr s')" and "c \<noteq> ''exit''"
  shows "stays s s'"
  using assms
  by (auto simp: rwg_builtin_def quiet_who split: if_splits
      intro: quiet_builtins tell_stays yell_stays name_stays quiet_stays)

lemma exit_turns: "rwg_exit s = Inr s' \<Longrightarrow> turns s s'"
proof -
  assume "rwg_exit s = Inr s'"
  then obtain msg s1 where s1: "say msg s = Inr s1"
    and s': "s' = sh_event Exit (s1\<lparr>shared := logout (user_index s1) (shared s1), sh_exited := True\<rparr>)"
    by (auto simp: rwg_exit_def)
  have "turns s1 s'" by (auto simp: turns_def s' sh_event_def intro!: exI [of _ "[]"])
  with say_stays [OF s1] show "turns s s'" by (rule stays_turns_trans)
qed

lemma stays_running: "stays s s' \<Longrightarrow> sh_exited s' = sh_exited s"
  by (simp add: stays_def)

lemma loop_turns:
  "rwg_loop sys rd cmd n prc procs fd_in out s = Inr s' \<Longrightarrow> \<not> sh_exited s \<Longrightarrow> turns s s'"
proof (induction sys rd cmd n prc procs fd_in out s rule: rwg_loop.induct)
  case (3 sys rd cmd n prc c args procs fd_in out s)
  show ?case
  proof (cases "rwg_builtin rd c args s")
    case None
    obtain fd s1 where p: "rwg_process sys cmd n prc (c # args) fd_in out s = (fd, s1)"
      by (cases "rwg_process sys cmd n prc (c # args) fd_in out s")
    have g: "stays s s1" by (rule quiet_stays [OF quiet_process [OF p]])
    with 3 None p stays_running [OF g] have "turns s1 s'" by simp
    with g show ?thesis by (rule stays_turns_trans)
  next
    case (Some r)
    then obtain s1 where r: "r = Inr s1" using 3(3) by (cases r) auto
    show ?thesis
    proof (cases "c = ''exit''")
      case True
      then have e: "rwg_exit s = Inr s1" using Some r by (simp add: rwg_builtin_def)
      with 3(3) Some r exit_exits [OF e] exit_turns [OF e] show ?thesis by simp
    next
      case False
      have g: "stays s s1" using builtin_stays Some r False by blast
      with 3 Some r stays_running [OF g] have "turns s1 s'" by simp
      with g show ?thesis by (rule stays_turns_trans)
    qed
  qed
qed (simp_all add: stays_turns quiet_stays)

lemma turns_quiet: "turns s s' \<Longrightarrow> quiet s' s'' \<Longrightarrow> turns s s''"
  by (auto simp: turns_def quiet_def)

lemma execute_turns: "rwg_execute sys rd cmd toks s = Inr s' \<Longrightarrow> \<not> sh_exited s \<Longrightarrow> turns s s'"
proof -
  assume h: "rwg_execute sys rd cmd toks s = Inr s'" and run: "\<not> sh_exited s"
  let ?s0 = "if toks \<noteq> [] \<and> num_pipe_vec s \<noteq> [] then decrease_line_count s else s"
  obtain procs out s1 s2 where p: "rwg_parse cmd toks ?s0 = Inr (procs, out, s1)"
    and l: "(if ignore s1 then Inr (s1\<lparr>ignore := False\<rparr>)
             else rwg_loop sys rd cmd (length procs) 0 procs 0 out s1) = Inr s2"
    and s': "s' = (if sh_exited s2 \<or> line_end_with_pipe s2 then s2 else sh_event WaitAll s2)"
    using h by (auto simp: rwg_execute_def Let_def)
  have g: "stays s s1" using parse_stays [OF p] by (rule stays_trans [rotated]) (simp add: quiet_stays)
  have "\<not> sh_exited s1" using stays_running [OF g] run by simp
  then have "turns s1 s2"
    using l by (auto split: if_splits intro: loop_turns quiet_turns)
  then have "turns s s2" using g by (rule stays_turns_trans [rotated])
  then show "turns s s'" by (rule turns_quiet) (simp add: s')
qed

lemma line_turns:
  assumes "rwg_line sys rd raw s = Inr s'" and "\<not> sh_exited s"
  shows "turns s s'"
proof -
  let ?s0 = "s\<lparr>line_end_with_pipe := False, redirection_file_name := replicate 100 NUL\<rparr>"
  obtain line s1 where r: "read_command raw ?s0 = Inr (line, s1)"
    using assms(1) by (auto simp: rwg_line_def)
  have "quiet s ?s0" by (simp add: quiet_def)
  then have q: "quiet s s1" using quiet_read_command [OF r] by (rule quiet_trans)
  then have run: "\<not> sh_exited s1" using assms(2) by (simp add: quiet_def)
  have i: "turns s1 (s1\<lparr>ignore := False\<rparr>)" by (rule quiet_turns) (simp_all add: run)
  have e: "turns s1 s'" if "rwg_execute sys rd cmd toks s1 = Inr s'" for cmd toks
    using that run by (rule execute_turns)
  have "turns s1 s'"
    using assms(1) r by (auto simp: rwg_line_def i split: if_splits dest: e)
  with quiet_stays [OF q] show ?thesis by (rule stays_turns_trans)
qed

text \<open>
  Every turn of a shell is a sequence of its accesses, and it ends the session exactly if the
  last of them is \<^const>\<open>Leave\<close>.
\<close>

lemma line_sections:
  assumes "rwg_line sys rd raw s = Inr s'" and "\<not> sh_exited s"
  obtains as where "Leave \<notin> set as"
    and "accesses (user_index s) (as @ (if sh_exited s' then [Leave] else [])) (shared s) = Inr (shared s')"
  using line_turns [OF assms] unfolding turns_def by blast

section \<open>The system of accesses\<close>

text \<open>
  The shared memory, and the slots whose session process is running.  A login fills the first free
  slot and starts a process for it unless \<^verbatim>\<open>fork\<close> fails; a process acts while it runs, and may die
  without having acted; children that pipe to somebody broadcast in their own time, also after
  their shell has left; and the handler of a process prints and empties a queue.
\<close>

record sections =
  sc_shared :: shared
  sc_live :: "nat set"

datatype label =
    Enters nat bool
  | By nat access
  | Dies nat
  | Announces nat "string \<times> int"
  | Handles int

inductive sec_step :: "sections \<Rightarrow> label \<Rightarrow> sections \<Rightarrow> bool" where
  enters: "login sck addr port (sc_shared g) = Inr (i, m) \<Longrightarrow>
     sec_step g (Enters i forked) (g\<lparr>sc_shared := m, sc_live := (if forked then insert i (sc_live g) else sc_live g)\<rparr>)"
| acts: "i \<in> sc_live g \<Longrightarrow> perform i a (sc_shared g) = Inr m \<Longrightarrow>
     sec_step g (By i a) (g\<lparr>sc_shared := m, sc_live := (if a = Leave then sc_live g - {i} else sc_live g)\<rparr>)"
| dies: "i \<in> sc_live g \<Longrightarrow> sec_step g (Dies i) (g\<lparr>sc_live := sc_live g - {i}\<rparr>)"
| announces: "announce i a (sc_shared g) = Inr m \<Longrightarrow> sec_step g (Announces i a) (g\<lparr>sc_shared := m\<rparr>)"
| handles: "real_broadcast_msg p (sc_shared g) = (out, m) \<Longrightarrow>
     sec_step g (Handles p) (g\<lparr>sc_shared := m\<lparr>kills := filter (\<lambda>q. q \<noteq> p) (kills m)\<rparr>\<rparr>)"

inductive sec_run :: "sections \<Rightarrow> label list \<Rightarrow> sections \<Rightarrow> bool" where
  stop: "sec_run g [] g"
| step: "sec_step g l g1 \<Longrightarrow> sec_run g1 ls h \<Longrightarrow> sec_run g (l # ls) h"

inductive_cases sec_stepE [consumes 1, case_names enters acts dies announces handles]: "sec_step g l h"

inductive_simps sec_run_Nil: "sec_run g [] h"
inductive_simps sec_run_Cons: "sec_run g (l # ls) h"

definition sections_boot :: sections where
  "sections_boot = \<lparr>sc_shared = rwg_boot, sc_live = {}\<rparr>"

text \<open>A turn is a run of the session's own accesses, after which the session is still there or has left.\<close>

lemma accesses_run:
  "accesses i as m = Inr m' \<Longrightarrow> i \<in> L \<Longrightarrow> Leave \<notin> set as \<Longrightarrow>
     sec_run \<lparr>sc_shared = m, sc_live = L\<rparr> (map (By i) as) \<lparr>sc_shared = m', sc_live = L\<rparr>"
proof (induction as arbitrary: m)
  case (Cons a as)
  then obtain m1 where "perform i a m = Inr m1" "accesses i as m1 = Inr m'" by (cases "perform i a m") auto
  with Cons sec_step.acts [of i "\<lparr>sc_shared = m, sc_live = L\<rparr>" a m1] show ?case
    by (auto simp: sec_run_Cons)
qed (simp add: sec_run_Nil)

lemma sec_run_append: "sec_run g ls g1 \<Longrightarrow> sec_run g1 ks h \<Longrightarrow> sec_run g (ls @ ks) h"
  by (induction rule: sec_run.induct) (auto intro: sec_run.step)

lemma turn_run:
  assumes "rwg_line sys rd raw s = Inr s'" and "\<not> sh_exited s" and "user_index s \<in> L"
  shows "\<exists>as. sec_run \<lparr>sc_shared = shared s, sc_live = L\<rparr> (map (By (user_index s)) as)
      \<lparr>sc_shared = shared s', sc_live = (if sh_exited s' then L - {user_index s} else L)\<rparr>"
proof -
  let ?i = "user_index s"
  obtain as where as: "Leave \<notin> set as"
    "accesses ?i (as @ (if sh_exited s' then [Leave] else [])) (shared s) = Inr (shared s')"
    by (rule line_sections [OF assms(1,2)])
  then obtain m where m: "accesses ?i as (shared s) = Inr m"
    and l: "if sh_exited s' then shared s' = logout ?i m else shared s' = m"
    by (cases "accesses ?i as (shared s)") (auto simp: accesses_append split: if_splits)
  note r = accesses_run [OF m assms(3) as(1)]
  show ?thesis
  proof (cases "sh_exited s'")
    case True
    have "sec_step \<lparr>sc_shared = m, sc_live = L\<rparr> (By ?i Leave) \<lparr>sc_shared = shared s', sc_live = L - {?i}\<rparr>"
      using sec_step.acts [of ?i "\<lparr>sc_shared = m, sc_live = L\<rparr>" Leave] assms(3) l True by simp
    then have "sec_run \<lparr>sc_shared = m, sc_live = L\<rparr> [By ?i Leave] \<lparr>sc_shared = shared s', sc_live = L - {?i}\<rparr>"
      by (auto simp: sec_run_Cons sec_run_Nil)
    from sec_run_append [OF r this] True show ?thesis by (intro exI [of _ "as @ [Leave]"]) simp
  next
    case False
    with r l show ?thesis by auto
  qed
qed

lemma accept_user_run:
  assumes "accept_user sockfd sck addr port (Some p) t next e m0 = Inr (i, m, written, s)"
  shows "sec_run \<lparr>sc_shared = m0, sc_live = L\<rparr> [Enters i True, By i (Started p)] \<lparr>sc_shared = m, sc_live = insert i L\<rparr>"
proof -
  obtain m1 where l: "login sck addr port m0 = Inr (i, m1)" and m: "m = login_child i p m1"
    using assms by (auto simp: accept_user_def start_session_process_def Let_def)
  have "sec_step \<lparr>sc_shared = m0, sc_live = L\<rparr> (Enters i True) \<lparr>sc_shared = m1, sc_live = insert i L\<rparr>"
    using sec_step.enters [where g = "\<lparr>sc_shared = m0, sc_live = L\<rparr>" and forked = True] l by simp
  moreover have "sec_step \<lparr>sc_shared = m1, sc_live = insert i L\<rparr> (By i (Started p)) \<lparr>sc_shared = m, sc_live = insert i L\<rparr>"
    using sec_step.acts [of i "\<lparr>sc_shared = m1, sc_live = insert i L\<rparr>" "Started p" m] m by simp
  ultimately show ?thesis by (auto simp: sec_run_Cons sec_run_Nil)
qed

lemma accept_user_fork_fails:
  assumes "accept_user sockfd sck addr port None t next e m0 = Inr (i, m, written, s)"
  shows "s = None \<and> sec_run \<lparr>sc_shared = m0, sc_live = L\<rparr> [Enters i False] \<lparr>sc_shared = m, sc_live = L\<rparr>"
  using assms sec_step.enters [where g = "\<lparr>sc_shared = m0, sc_live = L\<rparr>" and forked = False]
  by (auto simp: accept_user_def start_session_process_def sec_run_Cons sec_run_Nil)

section \<open>What an access changes\<close>

definition entry :: "user \<Rightarrow> bool \<times> int \<times> int \<times> int \<times> string \<times> int \<times> string" where
  "entry u = (u_valid u, u_id u, u_pid u, u_sock u, u_addr u, u_port u, u_name u)"

lemma entry_other: "entry (other u) = entry u"
  by (simp add: entry_def other_def)

text \<open>What anybody but the user of slot \<open>j\<close> leaves of it: its entry, and the messages queued for it.\<close>

definition untouched :: "nat \<Rightarrow> user list \<Rightarrow> user list \<Rightarrow> bool" where
  "untouched j us us' \<longleftrightarrow> entry (us' ! j) = entry (us ! j) \<and> (\<exists>more. u_msgs (us' ! j) = u_msgs (us ! j) @ more)"

lemma untouched_refl [simp, intro]: "untouched j us us"
  by (simp add: untouched_def)

lemma untouched_trans: "untouched j us us' \<Longrightarrow> untouched j us' us'' \<Longrightarrow> untouched j us us''"
  by (auto simp: untouched_def)

lemma untouched_valid: "untouched j us us' \<Longrightarrow> u_valid (us' ! j) = u_valid (us ! j)"
  by (simp add: untouched_def entry_def)

lemma notify_untouched: "notify i msg m = Inr m' \<Longrightarrow> j < length (shm m) \<Longrightarrow> untouched j (shm m) (shm m')"
  by (cases "i = j") (auto simp: notify_def Let_def untouched_def entry_def nth_list_update split: if_splits)

lemma broadcast_loop_untouched:
  "broadcast_loop is msg m = Inr m' \<Longrightarrow> j < length (shm m) \<Longrightarrow> untouched j (shm m) (shm m')"
proof (induction "is" msg m rule: broadcast_loop.induct)
  case (2 i "is" msg m)
  show ?case
  proof (cases "u_valid (shm m ! i)")
    case True
    then obtain m1 where m1: "notify i msg m = Inr m1" "broadcast_loop is msg m1 = Inr m'"
      using 2(3) by (cases "notify i msg m") auto
    have "length (shm m1) = length (shm m)" by (rule same_core_length [OF notify_same_core [OF m1(1)]])
    with 2(1) [OF True m1(2)] 2(4) have "untouched j (shm m1) (shm m')" by simp
    with notify_untouched [OF m1(1) 2(4)] show ?thesis by (rule untouched_trans)
  next
    case False
    with 2 show ?thesis by simp
  qed
qed simp

lemma announce_untouched: "announce i a m = Inr m' \<Longrightarrow> j < length (shm m) \<Longrightarrow> untouched j (shm m) (shm m')"
  by (auto simp: announce_def broadcast_msg_def into_buffer_def intro: broadcast_loop_untouched
      split: prod.splits if_splits)

lemma set_pipe_record_untouched: "j < length us \<Longrightarrow> untouched j us (set_pipe_record a b v us)"
  by (cases "b = j") (simp_all add: set_pipe_record_def untouched_def entry_def)

text \<open>The pipes that are recorded before and after an access.\<close>

lemma same_core_records: "same_core us us' \<Longrightarrow> r < length us \<Longrightarrow> pipe_from_to us' s r = pipe_from_to us s r"
  by (simp add: pipe_from_to_def same_core_fields)

text \<open>Every recorded pipe has a sender who is logged in, whoever was to receive it.\<close>

definition senders_in :: "user list \<Rightarrow> bool" where
  "senders_in us \<longleftrightarrow>
     (\<forall>r<31. \<forall>s<31. pipe_from_to us s r \<longrightarrow> 1 \<le> r \<and> 1 \<le> s \<and> u_valid (us ! (s - 1)))"

definition sec_inv :: "sections \<Rightarrow> bool" where
  "sec_inv g \<longleftrightarrow> table_ok (shm (sc_shared g)) \<and> senders_in (shm (sc_shared g)) \<and>
     (\<forall>i\<in>sc_live g. i < 30 \<and> u_valid (shm (sc_shared g) ! i))"

lemma same_core_senders: "same_core us us' \<Longrightarrow> length us = 31 \<Longrightarrow> senders_in us \<Longrightarrow> senders_in us'"
  by (auto simp: senders_in_def same_core_records same_core_fields)

lemma same_core_inv:
  assumes "sec_inv g" and "same_core (shm (sc_shared g)) (shm m)" and "L \<subseteq> sc_live g"
  shows "sec_inv \<lparr>sc_shared = m, sc_live = L\<rparr>"
proof -
  have ok: "table_ok (shm (sc_shared g))" using assms(1) by (simp add: sec_inv_def)
  then have l: "length (shm (sc_shared g)) = 31" by (simp add: table_ok_def)
  have "i < 30 \<and> u_valid (shm m ! i)" if "i \<in> L" for i
  proof -
    have "i < 30" "u_valid (shm (sc_shared g) ! i)" using that assms(1,3) by (auto simp: sec_inv_def)
    then show ?thesis using same_core_fields(1) [OF assms(2), of i] l by simp
  qed
  then show ?thesis
    using assms(1) same_core_table_ok [OF assms(2) ok] same_core_senders [OF assms(2) l] by (simp add: sec_inv_def)
qed

lemma perform_same_core:
  "perform i (Yell msg) m = Inr m' \<Longrightarrow> same_core (shm m) (shm m')"
  "perform i (Tell n msg) m = Inr m' \<Longrightarrow> same_core (shm m) (shm m')"
  by (auto simp: broadcast_same_core split: if_splits dest: notify_same_core)

lemma set_record_inv:
  assumes "sec_inv g" and "a < 31" and "b < 31" and "v \<Longrightarrow> 1 \<le> b \<and> 1 \<le> a \<and> u_valid (shm (sc_shared g) ! (a - 1))"
  shows "sec_inv (g\<lparr>sc_shared := (sc_shared g)\<lparr>shm := set_pipe_record a b v (shm (sc_shared g))\<rparr>\<rparr>)"
proof -
  let ?us = "shm (sc_shared g)"
  have ok: "table_ok ?us" "senders_in ?us" using assms(1) by (simp_all add: sec_inv_def)
  then have l: "length ?us = 31" "b < length ?us" "a < length (name_pipe_record (?us ! b))"
    using assms(2,3) by (simp_all add: table_ok_def)
  have val: "u_valid (set_pipe_record a b v ?us ! i) = u_valid (?us ! i)" if "i < 31" for i
    using same_other_fields(1) [OF set_pipe_record_same_other] that l(1) by simp
  have "senders_in (set_pipe_record a b v ?us)"
    unfolding senders_in_def
  proof (intro allI impI)
    fix r s :: nat
    assume rs: "r < 31" "s < 31" "pipe_from_to (set_pipe_record a b v ?us) s r"
    then have "(s = a \<and> r = b \<and> v) \<or> pipe_from_to ?us s r"
      unfolding pipe_set_pipe_record [OF l(2,3)] by (auto split: if_splits)
    then have "1 \<le> r \<and> 1 \<le> s \<and> u_valid (?us ! (s - 1))"
      using assms(4) ok(2) rs(1,2) by (auto simp: senders_in_def)
    then show "1 \<le> r \<and> 1 \<le> s \<and> u_valid (set_pipe_record a b v ?us ! (s - 1))" using val [of "s - 1"] rs(2) by simp
  qed
  then show ?thesis
    using assms(1) val set_pipe_record_table_ok [OF ok(1)] by (auto simp: sec_inv_def)
qed

lemma rename_inv:
  assumes "sec_inv g" and "\<And>u. u_valid (f u) = u_valid u" and "\<And>u. u_id (f u) = u_id u"
    and "\<And>u. name_pipe_record (f u) = name_pipe_record u"
  shows "sec_inv (g\<lparr>sc_shared := (sc_shared g)\<lparr>shm := (shm (sc_shared g))[i := f (shm (sc_shared g) ! i)]\<rparr>\<rparr>)"
proof -
  let ?us = "shm (sc_shared g)"
  let ?us' = "?us[i := f (?us ! i)]"
  have n: "?us' ! k = (if k = i \<and> i < length ?us then f (?us ! i) else ?us ! k)" for k
    by (cases "i < length ?us") (simp_all add: nth_list_update list_update_beyond not_less)
  have same: "name_pipe_record (?us' ! k) = name_pipe_record (?us ! k)" "u_id (?us' ! k) = u_id (?us ! k)"
    "u_valid (?us' ! k) = u_valid (?us ! k)" for k
    unfolding n by (simp_all add: assms(2-4))
  have "table_ok ?us' = table_ok ?us" by (rule same_slots) (simp_all only: same length_list_update)
  moreover have "senders_in ?us' = senders_in ?us"
    unfolding senders_in_def pipe_from_to_def same by (rule refl)
  ultimately show ?thesis using assms(1) by (simp add: sec_inv_def same)
qed

lemma login_child_shm: "login_child i p m = m\<lparr>shm := (shm m)[i := (\<lambda>u. u\<lparr>u_pid := p\<rparr>) (shm m ! i)]\<rparr>"
  by (simp add: login_child_def)

lemma leave_inv:
  assumes "sec_inv g" and "i \<in> sc_live g"
  shows "sec_inv \<lparr>sc_shared = logout i (sc_shared g), sc_live = sc_live g - {i}\<rparr>"
proof -
  let ?us = "shm (sc_shared g)" and ?us' = "shm (logout i (sc_shared g))"
  have ok: "table_ok ?us" "senders_in ?us" "i < 30" using assms by (auto simp: sec_inv_def)
  note s = logout_spec [OF ok(1,3)] and c = clear_name_pipes_spec [OF ok(1), where ix = i]
  have "senders_in ?us'"
    unfolding senders_in_def s(4)
  proof (intro allI impI)
    fix r s' :: nat
    assume a: "r < 31" "s' < 31" "pipe_from_to (clear_name_pipes i ?us) s' r"
    have "pipe_from_to ?us s' r" using c(4) [OF a(3)] .
    then have o: "1 \<le> r" "1 \<le> s'" "u_valid (?us ! (s' - 1))" using ok(2) a(1,2) by (auto simp: senders_in_def)
    have "s' \<noteq> i + 1" using c(3) [OF a(2,1) o(2,1)] a(3) by simp
    then show "1 \<le> r \<and> 1 \<le> s' \<and> u_valid (?us' ! (s' - 1))" using o a(2) s(2) [of "s' - 1"] by auto
  qed
  moreover have "k < 30 \<and> u_valid (?us' ! k)" if "k \<in> sc_live g - {i}" for k
  proof -
    have "k < 30" "u_valid (?us ! k)" "k \<noteq> i" using that assms(1) by (auto simp: sec_inv_def)
    then show ?thesis using s(2) [of k] by simp
  qed
  ultimately show ?thesis using s(1) by (simp add: sec_inv_def)
qed

lemma enter_inv:
  assumes "sec_inv g" and "login sck addr port (sc_shared g) = Inr (i, m)" and "L \<subseteq> insert i (sc_live g)"
  shows "sec_inv \<lparr>sc_shared = m, sc_live = L\<rparr>"
proof -
  let ?us = "shm (sc_shared g)"
  obtain v where v: "i < 30" "\<not> u_valid (?us ! i)" "shm m = ?us[i := v]" "u_valid v"
    "name_pipe_record v = name_pipe_record (?us ! i)"
    by (rule login_cases [OF assms(2)]) simp
  have ok: "table_ok ?us" "senders_in ?us" using assms(1) by (simp_all add: sec_inv_def)
  then have l: "length ?us = 31" by (simp add: table_ok_def)
  have n: "shm m ! k = (if k = i then v else ?us ! k)" for k using v(1,3) l by (simp add: nth_list_update)
  then have rec: "pipe_from_to (shm m) s r = pipe_from_to ?us s r"
    and val: "u_valid (?us ! k) \<Longrightarrow> u_valid (shm m ! k)" for s r k
    using v(4,5) by (simp_all add: pipe_from_to_def)
  have "senders_in (shm m)" using ok(2) val unfolding senders_in_def rec by blast
  moreover have "table_ok (shm m)" by (rule login_invariants(1) [OF assms(2) ok(1)])
  moreover have "k < 30 \<and> u_valid (shm m ! k)" if "k \<in> L" for k
    using that assms(1,3) v(1,4) val n by (cases "k = i") (auto simp: sec_inv_def)
  ultimately show ?thesis by (simp add: sec_inv_def)
qed

lemma sections_update: "g\<lparr>sc_shared := m\<rparr> = \<lparr>sc_shared = m, sc_live = sc_live g\<rparr>"
    "g\<lparr>sc_shared := m, sc_live := L\<rparr> = \<lparr>sc_shared = m, sc_live = L\<rparr>"
  by (cases g, simp)+

lemma acts_inv:
  assumes "sec_inv g" and "i \<in> sc_live g" and "perform i a (sc_shared g) = Inr m"
  shows "sec_inv \<lparr>sc_shared = m, sc_live = (if a = Leave then sc_live g - {i} else sc_live g)\<rparr>"
proof -
  have i: "i < 30" "u_valid (shm (sc_shared g) ! i)" using assms(1,2) by (auto simp: sec_inv_def)
  note rec = set_record_inv [OF assms(1), unfolded sections_update]
    and name = rename_inv [OF assms(1), unfolded sections_update]
  show ?thesis
  proof (cases a)
    case (Record n)
    with assms(3) i rec [of "i + 1" "nat n" True] show ?thesis
      by (auto simp: slot_number_def split: if_splits)
  next
    case (Take n)
    with assms(3) i rec [of "nat n" "i + 1" False] show ?thesis
      by (auto simp: slot_number_def split: if_splits)
  next
    case (Rename nm)
    with assms(3) name [of "\<lambda>u. u\<lparr>u_name := nm\<rparr>" i] show ?thesis by auto
  next
    case (Started p)
    with assms(3) name [of "\<lambda>u. u\<lparr>u_pid := p\<rparr>" i] show ?thesis
      by (auto simp: login_child_shm)
  next
    case (Yell msg)
    with assms(3) perform_same_core(1) same_core_inv [OF assms(1)] show ?thesis by auto
  next
    case (Tell n msg)
    with assms(3) perform_same_core(2) [of i n msg] same_core_inv [OF assms(1)] show ?thesis by auto
  next
    case Leave
    with assms(3) leave_inv [OF assms(1,2)] show ?thesis by simp
  qed
qed

lemma sec_step_inv: "sec_step g l h \<Longrightarrow> sec_inv g \<Longrightarrow> sec_inv h"
proof (induction rule: sec_step.induct)
  case (enters sck addr port g i m forked)
  have "(if forked then insert i (sc_live g) else sc_live g) \<subseteq> insert i (sc_live g)" by auto
  from enter_inv [OF enters(2,1) this] show ?case by (simp add: sections_update)
next
  case (acts i g a m)
  from acts_inv [OF acts(3,1,2)] show ?case by (cases "a = Leave") (simp_all add: sections_update)
next
  case (dies i g)
  then show ?case by (simp add: sec_inv_def)
next
  case (announces i a g m)
  from same_core_inv [OF announces(2) announce_same_core [OF announces(1)] subset_refl] show ?case
    by (simp add: sections_update)
next
  case (handles p g out m)
  have "same_core (shm (sc_shared g)) (shm m)"
    using real_broadcast_same_core [of "sc_shared g" p] handles(1) by simp
  from same_core_inv [OF handles(2), of "m\<lparr>kills := filter (\<lambda>q. q \<noteq> p) (kills m)\<rparr>", OF _ subset_refl] this
  show ?case by (simp add: sections_update)
qed

lemma sec_run_inv: "sec_run g ls h \<Longrightarrow> sec_inv g \<Longrightarrow> sec_inv h"
  by (induction rule: sec_run.induct) (auto intro: sec_step_inv)

lemma sections_boot_inv: "sec_inv sections_boot"
  using boot_inv boot_fields
  by (simp add: sections_boot_def sec_inv_def sys_inv_def users_ok_def senders_in_def pipe_from_to_def)

section \<open>Who can touch a slot\<close>

lemma perform_untouched:
  assumes "sec_inv g" and "i \<in> sc_live g" and "perform i a (sc_shared g) = Inr m" and "j < 30" and "i \<noteq> j"
  shows "untouched j (shm (sc_shared g)) (shm m)
    \<and> (\<forall>r<31. pipe_from_to (shm m) (j + 1) r \<longrightarrow> pipe_from_to (shm (sc_shared g)) (j + 1) r)"
proof -
  let ?us = "shm (sc_shared g)"
  have ok: "table_ok ?us" "i < 30" using assms(1,2) by (auto simp: sec_inv_def)
  then have l: "length ?us = 31" "j < length ?us" using assms(4) by (simp_all add: table_ok_def)
  note yell = broadcast_loop_untouched [OF _ l(2)]
  show ?thesis
  proof (cases a)
    case (Record n)
    then have m: "shm m = set_pipe_record (i + 1) (nat n) True ?us" and n: "slot_number n"
      using assms(3) by (auto split: if_splits)
    have "nat n < 31" using n by (auto simp: slot_number_def)
    then have "nat n < length ?us" "i + 1 < length (name_pipe_record (?us ! nat n))"
      using ok l by (simp_all add: table_ok_def)
    from pipe_set_pipe_record [OF this] show ?thesis
      using set_pipe_record_untouched [OF l(2)] assms(5) by (simp add: m)
  next
    case (Take n)
    then have m: "shm m = set_pipe_record (nat n) (i + 1) False ?us" and n: "slot_number n"
      using assms(3) by (auto split: if_splits)
    have "nat n < 31" using n by (auto simp: slot_number_def)
    then have "i + 1 < length ?us" "nat n < length (name_pipe_record (?us ! (i + 1)))"
      using ok l by (simp_all add: table_ok_def)
    from pipe_set_pipe_record [OF this] show ?thesis
      using set_pipe_record_untouched [OF l(2)] by (simp add: m)
  next
    case (Rename nm)
    then have "shm m = ?us[i := (?us ! i)\<lparr>u_name := nm\<rparr>]" using assms(3) by auto
    moreover have "pipe_from_to (?us[i := (?us ! i)\<lparr>u_name := nm\<rparr>]) (j + 1) r = pipe_from_to ?us (j + 1) r" for r
      using ok(2) l(1) by (cases "r = i") (simp_all add: pipe_from_to_def)
    ultimately show ?thesis using assms(5) by (simp add: untouched_def)
  next
    case (Started p)
    then have "shm m = ?us[i := (?us ! i)\<lparr>u_pid := p\<rparr>]" using assms(3) by (auto simp: login_child_def)
    moreover have "pipe_from_to (?us[i := (?us ! i)\<lparr>u_pid := p\<rparr>]) (j + 1) r = pipe_from_to ?us (j + 1) r" for r
      using ok(2) l(1) by (cases "r = i") (simp_all add: pipe_from_to_def)
    ultimately show ?thesis using assms(5) by (simp add: untouched_def)
  next
    case (Yell msg)
    with assms(3) have b: "broadcast_msg msg (sc_shared g) = Inr m" by simp
    then show ?thesis
      using yell [of slots msg m] same_core_records [OF broadcast_same_core [OF b]] l(1) by (simp add: broadcast_msg_def)
  next
    case (Tell n msg)
    then have b: "notify (nat (n - 1)) msg (sc_shared g) = Inr m" using assms(3) by (auto split: if_splits)
    then show ?thesis
      using notify_untouched [OF b l(2)] same_core_records [OF notify_same_core [OF b]] l(1) by simp
  next
    case Leave
    then have m: "m = logout i (sc_shared g)" using assms(3) by simp
    note c = clear_name_pipes_spec [OF ok(1), where ix = i]
    have "other (clear_name_pipes i ?us ! j) = other (?us ! j)" by (rule same_other_nth [OF c(2) l(2)])
    then have "entry (clear_name_pipes i ?us ! j) = entry (?us ! j)"
      "u_msgs (clear_name_pipes i ?us ! j) = u_msgs (?us ! j)" by (metis entry_other, metis other_fields(6))
    then have "entry (shm m ! j) = entry (?us ! j)" "u_msgs (shm m ! j) = u_msgs (?us ! j)"
      using assms(5) by (simp_all add: m logout_def Let_def)
    then show ?thesis using c(4) logout_spec(4) [OF ok(1,2)] by (simp add: m untouched_def)
  qed
qed

text \<open>A step that is not an access of the session of slot \<open>j\<close>.\<close>

definition slot_kept :: "nat \<Rightarrow> user list \<Rightarrow> user list \<Rightarrow> bool" where
  "slot_kept j us us' \<longleftrightarrow> entry (us' ! j) = entry (us ! j)
     \<and> (\<forall>r<31. pipe_from_to us' (j + 1) r \<longrightarrow> pipe_from_to us (j + 1) r)"

lemma slot_kept_trans: "slot_kept j us us' \<Longrightarrow> slot_kept j us' us'' \<Longrightarrow> slot_kept j us us''"
  by (auto simp: slot_kept_def)

lemma same_core_entry: "same_core us us' \<Longrightarrow> j < length us \<Longrightarrow> entry (us' ! j) = entry (us ! j)"
proof -
  assume a: "same_core us us'" "j < length us"
  have e: "entry (core u) = entry u" for u by (simp add: entry_def core_def)
  show ?thesis using same_core_nth [OF a] e [of "us ! j"] e [of "us' ! j"] by simp
qed

lemma same_core_slot_kept: "same_core us us' \<Longrightarrow> length us = 31 \<Longrightarrow> j < 30 \<Longrightarrow> slot_kept j us us'"
  by (simp add: slot_kept_def same_core_entry same_core_records)

lemma handler_other_queue:
  assumes "real_broadcast_msg p m = (out, m')" and "p \<noteq> u_pid (shm m ! j)"
  shows "u_msgs (shm m' ! j) = u_msgs (shm m ! j)"
proof (cases "List.find (\<lambda>i. u_valid (shm m ! i) \<and> u_pid (shm m ! i) = p) slots")
  case None
  then show ?thesis using assms(1) by (simp add: real_broadcast_msg_def)
next
  case (Some i)
  then have "u_pid (shm m ! i) = p" by (simp add: find_slot_Some)
  then have "i \<noteq> j" using assms(2) by auto
  moreover have "m' = m\<lparr>shm := (shm m)[i := (shm m ! i)\<lparr>u_msgs := []\<rparr>]\<rparr>"
    using assms(1) Some by (simp add: real_broadcast_msg_def)
  ultimately show ?thesis by simp
qed

lemma step_slot_kept:
  assumes "sec_step g l h" and "sec_inv g" and "j < 30" and "u_valid (shm (sc_shared g) ! j)" and "\<forall>a. l \<noteq> By j a"
  shows "slot_kept j (shm (sc_shared g)) (shm (sc_shared h)) \<and> (\<forall>forked. l \<noteq> Enters j forked)
    \<and> (l \<noteq> Handles (u_pid (shm (sc_shared g) ! j))
        \<longrightarrow> (\<exists>more. u_msgs (shm (sc_shared h) ! j) = u_msgs (shm (sc_shared g) ! j) @ more))"
proof -
  let ?us = "shm (sc_shared g)"
  have len: "length ?us = 31" "j < length ?us" using assms(2,3) by (simp_all add: sec_inv_def table_ok_def)
  show ?thesis
    using assms(1)
  proof (cases rule: sec_stepE)
    case (enters sck addr port i m forked)
    obtain v where v: "i < 30" "\<not> u_valid (?us ! i)" "shm m = ?us[i := v]"
      "name_pipe_record v = name_pipe_record (?us ! i)"
      by (rule login_cases [OF enters(3)]) simp
    then have ij: "i \<noteq> j" using assms(4) by auto
    have "pipe_from_to (shm m) (j + 1) r = pipe_from_to ?us (j + 1) r" for r
      using v(1,3,4) len by (cases "r = i") (simp_all add: pipe_from_to_def)
    then show ?thesis using enters ij v(3) by (simp add: slot_kept_def)
  next
    case (acts i a m)
    then have "i \<noteq> j" using assms(5) by auto
    from perform_untouched [OF assms(2) acts(3,4) assms(3) this] acts show ?thesis
      by (auto simp: slot_kept_def untouched_def)
  next
    case (dies i)
    then show ?thesis by (simp add: slot_kept_def)
  next
    case (announces i a m)
    have "same_core ?us (shm m)" by (rule announce_same_core [OF announces(3)])
    with announce_untouched [OF announces(3) len(2)] announces same_core_slot_kept [OF _ len(1) assms(3)] show ?thesis
      by (simp add: untouched_def)
  next
    case (handles p out m)
    have c: "same_core ?us (shm m)" using real_broadcast_same_core [of "sc_shared g" p] handles(3) by simp
    have "u_msgs (shm m ! j) = u_msgs (?us ! j)" if "p \<noteq> u_pid (?us ! j)"
      using handler_other_queue [OF handles(3) that] .
    with same_core_slot_kept [OF c len(1) assms(3)] handles show ?thesis by auto
  qed
qed

lemma run_slot_kept:
  assumes "sec_run g ls h" and "sec_inv g" and "j < 30" and "u_valid (shm (sc_shared g) ! j)" and "\<forall>a. By j a \<notin> set ls"
  shows "slot_kept j (shm (sc_shared g)) (shm (sc_shared h)) \<and> (\<forall>forked. Enters j forked \<notin> set ls)
    \<and> (Handles (u_pid (shm (sc_shared g) ! j)) \<notin> set ls
        \<longrightarrow> (\<exists>more. u_msgs (shm (sc_shared h) ! j) = u_msgs (shm (sc_shared g) ! j) @ more))"
  using assms
proof (induction rule: sec_run.induct)
  case (step g l g1 ls h)
  have s: "\<forall>a. l \<noteq> By j a" "\<forall>a. By j a \<notin> set ls" using step.prems(4) by auto
  note k = step_slot_kept [OF step.hyps(1) step.prems(1-3) s(1)]
  then have e: "u_valid (shm (sc_shared g1) ! j) = u_valid (shm (sc_shared g) ! j)"
    "u_pid (shm (sc_shared g1) ! j) = u_pid (shm (sc_shared g) ! j)"
    by (simp_all add: slot_kept_def entry_def)
  from step.IH [OF sec_step_inv [OF step.hyps(1) step.prems(1)] step.prems(2) _ s(2)] step.prems(3) e
  have ih: "slot_kept j (shm (sc_shared g1)) (shm (sc_shared h))" "\<forall>forked. Enters j forked \<notin> set ls"
    "Handles (u_pid (shm (sc_shared g) ! j)) \<notin> set ls
        \<longrightarrow> (\<exists>more. u_msgs (shm (sc_shared h) ! j) = u_msgs (shm (sc_shared g1) ! j) @ more)" by simp_all
  from k ih(1) have "slot_kept j (shm (sc_shared g)) (shm (sc_shared h))" by (blast intro: slot_kept_trans)
  moreover have "\<forall>forked. Enters j forked \<notin> set (l # ls)" using k ih(2) by auto
  moreover have "\<exists>more. u_msgs (shm (sc_shared h) ! j) = u_msgs (shm (sc_shared g) ! j) @ more"
    if n: "Handles (u_pid (shm (sc_shared g) ! j)) \<notin> set (l # ls)"
  proof -
    obtain m1 where "u_msgs (shm (sc_shared g1) ! j) = u_msgs (shm (sc_shared g) ! j) @ m1" using k n by auto
    moreover obtain m2 where "u_msgs (shm (sc_shared h) ! j) = u_msgs (shm (sc_shared g1) ! j) @ m2" using ih(3) n by auto
    ultimately show ?thesis by simp
  qed
  ultimately show ?case by blast
qed (simp add: slot_kept_def)

section \<open>Properties of every interleaving\<close>

text \<open>Two users have logged in and stored the numbers of their processes.\<close>

lemma demo_sections:
  "sec_run sections_boot [Enters 0 True, By 0 (Started 100), Enters 1 True, By 1 (Started 101)]
     \<lparr>sc_shared = demo_shared, sc_live = {0, 1}\<rparr>"
proof -
  have "login 4 ''10.0.0.1'' 4001 rwg_boot = Inr (0, demo_first\<lparr>shm := (shm demo_first)[0 := demo_user_a\<lparr>u_pid := 0\<rparr>]\<rparr>)"
    "login_child 0 100 (demo_first\<lparr>shm := (shm demo_first)[0 := demo_user_a\<lparr>u_pid := 0\<rparr>]\<rparr>) = demo_first"
    by code_simp+
  then have a: "accept_user 3 4 ''10.0.0.1'' 4001 (Some 100) demo_fds 0 Map.empty rwg_boot =
      Inr (0, demo_first, (4, welcome_msg) # broadcast_login_msg demo_first,
        Some (rwg_start 0 demo_first (session_fds 3 4 (login_closes 0 demo_first) demo_fds) 0 Map.empty))"
    by (simp only: accept_user_def start_session_process_def option.case ebind_Inr Let_def prod.case)
  have "login 5 ''10.0.0.2'' 4002 demo_first = Inr (1, demo_shared\<lparr>shm := (shm demo_shared)[1 := demo_user_b\<lparr>u_pid := 0\<rparr>]\<rparr>)"
    "login_child 1 101 (demo_shared\<lparr>shm := (shm demo_shared)[1 := demo_user_b\<lparr>u_pid := 0\<rparr>]\<rparr>) = demo_shared"
    by code_simp+
  then have b: "accept_user 3 5 ''10.0.0.2'' 4002 (Some 101) demo_fds 0 Map.empty demo_first =
      Inr (1, demo_shared, (5, welcome_msg) # broadcast_login_msg demo_shared,
        Some (rwg_start 1 demo_shared (session_fds 3 5 (login_closes 1 demo_shared) demo_fds) 0 Map.empty))"
    by (simp only: accept_user_def start_session_process_def option.case ebind_Inr Let_def prod.case)
  from sec_run_append [OF accept_user_run [OF a, of "{}"] accept_user_run [OF b]] show ?thesis
    by (simp add: sections_boot_def insert_commute)
qed

text \<open>
  C14. Every recorded user pipe has a sender who is logged in.  From a fresh segment, whatever accesses the sessions
  make and in whatever order, stale looks, failed forks and processes that die included: a recorded pipe is of a
  logged-in user, since \<^verbatim>\<open>exit\<close> takes every pipe from the user along and nobody records a pipe for another; so nobody
  who logs in next owns a pipe that he has not made.  Nothing is said of the receiver, who may
  have left (\<open>pipe_to_departed_user\<close>).\<close>

theorem recorded_pipe_has_sender:
  assumes "sec_run sections_boot ls g" and "pipe_from_to (shm (sc_shared g)) s r" and "s < 31" and "r < 31"
  shows "1 \<le> s \<and> 1 \<le> r \<and> u_valid (shm (sc_shared g) ! (s - 1))
    \<and> (\<forall>sck addr port i m. login sck addr port (sc_shared g) = Inr (i, m) \<longrightarrow> i + 1 \<noteq> s)"
proof -
  have "senders_in (shm (sc_shared g))"
    using sec_run_inv [OF assms(1) sections_boot_inv] by (simp add: sec_inv_def)
  then have o: "1 \<le> s" "1 \<le> r" "u_valid (shm (sc_shared g) ! (s - 1))"
    using assms(2-4) unfolding senders_in_def by blast+
  moreover have "i + 1 \<noteq> s" if "login sck addr port (sc_shared g) = Inr (i, m)" for sck addr port i m
    using that o(3) by (auto elim: login_cases)
  ultimately show ?thesis by blast
qed

text \<open>The receiver leaves between the sender's look and its record.\<close>

lemma demo_leaves:
  "sec_step \<lparr>sc_shared = demo_shared, sc_live = {0, 1}\<rparr> (By 1 Leave) \<lparr>sc_shared = logout 1 demo_shared, sc_live = {0}\<rparr>"
  using sec_step.acts [of 1 "\<lparr>sc_shared = demo_shared, sc_live = {0, 1}\<rparr>" Leave] by (simp add: insert_Diff_if)

lemma demo_departed:
  "sec_run \<lparr>sc_shared = demo_shared, sc_live = {0, 1}\<rparr> [By 1 Leave, By 0 (Record 2)]
     \<lparr>sc_shared = (logout 1 demo_shared)\<lparr>shm := set_pipe_record 1 2 True (shm (logout 1 demo_shared))\<rparr>, sc_live = {0}\<rparr>"
proof -
  note demo_leaves
  moreover have "sec_step \<lparr>sc_shared = logout 1 demo_shared, sc_live = {0}\<rparr> (By 0 (Record 2))
      \<lparr>sc_shared = (logout 1 demo_shared)\<lparr>shm := set_pipe_record 1 2 True (shm (logout 1 demo_shared))\<rparr>, sc_live = {0}\<rparr>"
    using sec_step.acts [of 0 "\<lparr>sc_shared = logout 1 demo_shared, sc_live = {0}\<rparr>" "Record 2"] by (simp add: slot_number_def)
  ultimately show ?thesis by (auto simp: sec_run_Cons sec_run_Nil)
qed

theorem recorded_pipe_has_sender_witness:
  "\<exists>ls g. sec_run sections_boot ls g \<and> pipe_from_to (shm (sc_shared g)) 1 2
     \<and> \<not> u_valid (shm (sc_shared g) ! 1) \<and> u_valid (shm (sc_shared g) ! 0)"
proof -
  let ?m = "(logout 1 demo_shared)\<lparr>shm := set_pipe_record 1 2 True (shm (logout 1 demo_shared))\<rparr>"
  let ?g = "\<lparr>sc_shared = ?m, sc_live = {0}\<rparr>"
  note r = sec_run_append [OF demo_sections demo_departed]
  have p: "pipe_from_to (shm ?m) 1 2" "\<not> u_valid (shm ?m ! 1)" by code_simp+
  have v: "u_valid (shm ?m ! 0)" using recorded_pipe_has_sender [OF r, of 1 2] p(1) by simp
  show ?thesis by (intro exI conjI, rule r) (simp_all only: sections.select_convs p v not_False_eq_True)
qed

text \<open>
  C18. Only the session of a user changes the user's entry.  While the session of a logged-in user makes no
  access, and whatever all others do in the meantime, in any interleaving: name, number, process,
  socket and address in the slot stay as they are, no login gets the slot, no pipe is recorded in the user's name, and
  until the handler of its own process runs, messages are only put behind those queued for it.\<close>

theorem others_leave_a_slot_alone:
  assumes "sec_run sections_boot ls0 g" and "sec_run g ls h"
    and "j < 30" and "u_valid (shm (sc_shared g) ! j)" and "\<forall>a. By j a \<notin> set ls"
  shows "entry (shm (sc_shared h) ! j) = entry (shm (sc_shared g) ! j)
    \<and> (\<forall>forked. Enters j forked \<notin> set ls)
    \<and> (\<forall>r<31. pipe_from_to (shm (sc_shared h)) (j + 1) r \<longrightarrow> pipe_from_to (shm (sc_shared g)) (j + 1) r)
    \<and> (Handles (u_pid (shm (sc_shared g) ! j)) \<notin> set ls
        \<longrightarrow> (\<exists>more. u_msgs (shm (sc_shared h) ! j) = u_msgs (shm (sc_shared g) ! j) @ more))"
  using run_slot_kept [OF assms(2) sec_run_inv [OF assms(1) sections_boot_inv] assms(3-5)]
  unfolding slot_kept_def by blast

theorem others_leave_a_slot_alone_witness:
  "entry (set_pipe_record 1 2 True (shm (logout 1 demo_shared)) ! 0) = entry demo_user_a"
proof -
  have h: "u_valid (shm demo_shared ! 1)" "shm demo_shared ! 0 = demo_user_a" "u_valid demo_user_a" by code_simp+
  have l: "sec_run \<lparr>sc_shared = demo_shared, sc_live = {0, 1}\<rparr> [By 1 Leave] \<lparr>sc_shared = logout 1 demo_shared, sc_live = {0}\<rparr>"
    using demo_leaves by (auto simp: sec_run_Cons sec_run_Nil)
  from others_leave_a_slot_alone [OF demo_sections l, of 0] h
  have "entry (shm (logout 1 demo_shared) ! 0) = entry demo_user_a" by simp
  then show ?thesis by (simp add: set_pipe_record_def)
qed

section \<open>A client that goes away\<close>

text \<open>
  At the end of the connection \<^verbatim>\<open>read\<close> returns nothing, which the loop takes for a blank line.  The turns
  of such a session, each with the table it finds, and the tables they leave.  Between them the next
  \<^verbatim>\<open>write\<close> of the prompt may raise \<^verbatim>\<open>SIGPIPE\<close>, for which the code sets no handler: the process dies.
\<close>

fun eof_turns :: "os \<Rightarrow> (string \<Rightarrow> string option) \<Rightarrow> shared list \<Rightarrow> rwg \<Rightarrow> (shared list \<times> rwg) result" where
  "eof_turns sys rd [] s = Inr ([], s)"
| "eof_turns sys rd (m # ms) s =
     ebind (rwg_line sys rd [] (s\<lparr>shared := m\<rparr>)) (\<lambda>s1.
       ebind (eof_turns sys rd ms s1) (\<lambda>(ms', s'). Inr (shared s1 # ms', s')))"

lemma eof_turns_prompt:
  assumes "\<not> batch_flag s" and "\<not> sh_exited s"
  shows "\<exists>s'. eof_turns sys rd ms s = Inr (ms, s') \<and> \<not> sh_exited s' \<and> sh_log s' = sh_log s @ replicate (length ms) Prompt"
  using assms
proof (induction ms arbitrary: s)
  case (Cons m ms)
  define s1 where "s1 = s\<lparr>shared := m, line_end_with_pipe := False, redirection_file_name := replicate 100 NUL,
      sh_log := sh_log s @ [Prompt], ignore := False\<rparr>"
  have "rwg_line sys rd [] (s\<lparr>shared := m\<rparr>) = Inr s1"
    using Cons.prems by (simp add: rwg_line_def read_command_def sh_event_def s1_def)
  moreover have "\<not> batch_flag s1" "\<not> sh_exited s1" "shared s1 = m" "sh_log s1 = sh_log s @ [Prompt]"
    using Cons.prems by (simp_all add: s1_def)
  ultimately show ?case using Cons.IH [of s1] by (auto simp: replicate_app_Cons_same)
qed simp

text \<open>A slot without a process.\<close>

lemma dead_slot_kept:
  assumes "sec_run g ls h" and "sec_inv g" and "j < 30" and "u_valid (shm (sc_shared g) ! j)" and "j \<notin> sc_live g"
  shows "\<forall>a. By j a \<notin> set ls"
  using assms
proof (induction rule: sec_run.induct)
  case (step g l g1 ls h)
  have l: "\<forall>a. l \<noteq> By j a" using step.hyps(1) step.prems(4) by (auto elim: sec_stepE)
  note k = step_slot_kept [OF step.hyps(1) step.prems(1-3) l]
  then have "u_valid (shm (sc_shared g1) ! j)" using step.prems(3) by (simp add: slot_kept_def entry_def)
  moreover have "j \<notin> sc_live g1"
    using step.hyps(1) k step.prems(4) by (cases rule: sec_stepE) auto
  ultimately have "\<forall>a. By j a \<notin> set ls"
    using step.IH sec_step_inv [OF step.hyps(1) step.prems(1)] step.prems(2) by blast
  with l show ?case by auto
qed simp

text \<open>
  C40. The slot of a client that has gone away is never free again.  At the end of the connection the session
  takes every \<^verbatim>\<open>read\<close> for a blank line: it prompts once more, does not end, and leaves the table as it finds it,
  for as long as the prompt can be written (a client that has only shut down its side is prompted for ever).  When
  it dies of the \<^verbatim>\<open>SIGPIPE\<close> that writing to the closed connection raises, nothing clears
  its slot either: in either case, whatever the others do, the user stays logged in and no login gets the slot.\<close>

theorem disconnected_slot_never_free:
  assumes "sec_run sections_boot ls0 g" and "i \<in> sc_live g" and "\<not> batch_flag s" and "\<not> sh_exited s"
  shows "(\<exists>s'. eof_turns sys rd ms s = Inr (ms, s') \<and> \<not> sh_exited s'
        \<and> sh_log s' = sh_log s @ replicate (length ms) Prompt)
    \<and> (\<forall>ls h. sec_run g ls h \<and> (\<forall>a. By i a \<notin> set ls) \<longrightarrow>
        u_valid (shm (sc_shared h) ! i) \<and> (\<forall>forked. Enters i forked \<notin> set ls))
    \<and> (\<forall>ls h. sec_run g (Dies i # ls) h \<longrightarrow>
        u_valid (shm (sc_shared h) ! i) \<and> (\<forall>forked. Enters i forked \<notin> set ls))"
proof (intro conjI allI impI)
  have inv: "sec_inv g" by (rule sec_run_inv [OF assms(1) sections_boot_inv])
  then have i: "i < 30" "u_valid (shm (sc_shared g) ! i)" using assms(2) by (auto simp: sec_inv_def)
  show "\<exists>s'. eof_turns sys rd ms s = Inr (ms, s') \<and> \<not> sh_exited s' \<and> sh_log s' = sh_log s @ replicate (length ms) Prompt"
    by (rule eof_turns_prompt [OF assms(3,4)])
  have kept: "u_valid (shm (sc_shared h) ! i) \<and> (\<forall>forked. Enters i forked \<notin> set ls)"
    if "sec_run g ls h" "\<forall>a. By i a \<notin> set ls" for ls h
    using run_slot_kept [OF that(1) inv i that(2)] i(2) by (simp add: slot_kept_def entry_def)
  show "u_valid (shm (sc_shared h) ! i)" "Enters i forked \<notin> set ls"
    if "sec_run g ls h \<and> (\<forall>a. By i a \<notin> set ls)" for ls h forked
    using kept that by blast+
  have dead: "\<forall>a. By i a \<notin> set (Dies i # ls)" if d: "sec_run g (Dies i # ls) h" for ls h
  proof -
    obtain g1 where "sec_step g (Dies i) g1" and r: "sec_run g1 ls h" using d by (auto simp: sec_run_Cons)
    then have "g1 = g\<lparr>sc_live := sc_live g - {i}\<rparr>" by (auto elim: sec_stepE)
    then show ?thesis using dead_slot_kept [OF r, of i] inv i by (auto simp: sec_inv_def)
  qed
  show "u_valid (shm (sc_shared h) ! i)" "Enters i forked \<notin> set ls"
    if "sec_run g (Dies i # ls) h" for ls h forked
    using kept [OF that dead [OF that]] by auto
qed

theorem disconnected_slot_never_free_witness:
  "\<exists>s'. eof_turns demo_os Map.empty [demo_shared, demo_shared, demo_shared] demo_a
      = Inr ([demo_shared, demo_shared, demo_shared], s') \<and> sh_log s' = [Prompt, Prompt, Prompt]"
proof -
  have h: "\<not> batch_flag demo_a" "\<not> sh_exited demo_a" "sh_log demo_a = []" by code_simp+
  have z: "0 \<in> sc_live \<lparr>sc_shared = demo_shared, sc_live = {0, 1}\<rparr>" by simp
  let ?ms = "[demo_shared, demo_shared, demo_shared]"
  note conjunct1 [OF disconnected_slot_never_free [OF demo_sections z h(1,2), of demo_os Map.empty ?ms]]
  then show ?thesis unfolding h(3) by (elim exE conjE) (rule exI, rule conjI, assumption, simp add: numeral_3_eq_3)
qed

end
