(* ===== verification/Rwg_Early.thy ===== *)
theory Rwg_Early
  imports Rwg_Server
begin

text \<open>
  The multi-process working ground as it was handed in for part 3, \<^verbatim>\<open>nctu_np_project2/part3\<close>.  Each user has
  one buffer for messages there instead of a queue, and the handler of \<^verbatim>\<open>SIGUSR1\<close> prints it without
  emptying it; the local buffers for messages have 200 bytes.  The sizes of the arrays in the table are those of
  its header \<^verbatim>\<open>user.h\<close>, which is not in the repository: they are a parameter.  What the files have in common
  with \<^verbatim>\<open>final/npshell_3.h\<close> and \<^verbatim>\<open>np_multi_proc.cpp\<close> word for word is taken from there.
\<close>

section \<open>The table\<close>

text \<open>
  The buffer is the only row of \<open>u_msgs\<close>, or there is none before the first message.  As for the final version the
  table has one entry more than there are users.
\<close>

record user_h =
  addr_size :: nat
  name_size :: nat
  row_size :: nat

definition early_notify :: "user_h \<Rightarrow> nat \<Rightarrow> string \<Rightarrow> shared \<Rightarrow> shared result" where
  "early_notify z i msg m =
     (let u = shm m ! i
      in ebind (c_format msg) (\<lambda>row.
           if row_size z \<le> length row then Inl BufferOverflow
           else Inr (m\<lparr>shm := (shm m)[i := u\<lparr>u_msgs := [row], u_receive := True\<rparr>],
                       kills := kills m @ [u_pid u]\<rparr>)))"

fun early_broadcast_loop :: "user_h \<Rightarrow> nat list \<Rightarrow> string \<Rightarrow> shared \<Rightarrow> shared result" where
  "early_broadcast_loop z [] msg m = Inr m"
| "early_broadcast_loop z (i # is) msg m =
     (if u_valid (shm m ! i) then ebind (early_notify z i msg m) (early_broadcast_loop z is msg)
      else early_broadcast_loop z is msg m)"

definition early_broadcast :: "user_h \<Rightarrow> string \<Rightarrow> shared \<Rightarrow> shared result" where
  "early_broadcast z msg m = early_broadcast_loop z slots msg m"

text \<open>The handler prints the buffer of the first valid user with the process and leaves it as it is.\<close>

definition early_handler :: "int \<Rightarrow> shared \<Rightarrow> string list" where
  "early_handler p m =
     (case List.find (\<lambda>i. u_valid (shm m ! i) \<and> u_pid (shm m ! i) = p) slots of
        None \<Rightarrow> []
      | Some i \<Rightarrow> u_msgs (shm m ! i))"

definition early_login :: "user_h \<Rightarrow> int \<Rightarrow> string \<Rightarrow> int \<Rightarrow> shared \<Rightarrow> (nat \<times> shared) result" where
  "early_login z newsockfd addr port m =
     (case List.find (\<lambda>i. \<not> u_valid (shm m ! i)) slots of
        None \<Rightarrow> Inl OutOfRange
      | Some i \<Rightarrow>
          if addr_size z \<le> length addr then Inl BufferOverflow
          else Inr (i, m\<lparr>shm := (shm m)[i := (shm m ! i)
                 \<lparr>u_valid := True, u_sock := newsockfd, u_addr := addr, u_name := ''(no name)'',
                  u_port := port, u_batch_flag := False, u_ignore := False, u_receive := False\<rparr>]\<rparr>))"

definition early_accept_user ::
  "user_h \<Rightarrow> nat \<Rightarrow> int \<Rightarrow> string \<Rightarrow> int \<Rightarrow> int option \<Rightarrow> fdtable \<Rightarrow> nat \<Rightarrow> environ \<Rightarrow> shared \<Rightarrow>
     (nat \<times> shared \<times> (int \<times> string) list \<times> rwg option) result" where
  "early_accept_user z sockfd newsockfd addr port childpid t next e m =
     ebind (early_login z newsockfd addr port m) (\<lambda>(i, m).
       Inr (i, start_session_process sockfd newsockfd i childpid t next e m))"

section \<open>The shell\<close>

definition early_say :: "user_h \<Rightarrow> string \<Rightarrow> rwg \<Rightarrow> rwg result" where
  "early_say z msg s = ebind (early_broadcast z msg (shared s)) (\<lambda>m. Inr (s\<lparr>shared := m\<rparr>))"

definition early_pipe_in :: "user_h \<Rightarrow> string \<Rightarrow> string \<Rightarrow> rwg \<Rightarrow> rwg result" where
  "early_pipe_in z cmd w s =
     (case strtok_first (\<lambda>c. c = CHR ''<'') w of
        None \<Rightarrow> Inl NullDeref
      | Some digits \<Rightarrow>
          (let n = atoi digits; us = rwg_users s; ix = user_index s
           in if \<not> check_id_exist n us then
                Inr (sh_event (Output (no_user_msg n)) (s\<lparr>ignore := True\<rparr>))
              else if check_name_pipe_exist (nat n) (ix + 1) us then
                ebind (into_buffer 300 (received_msg (us ! ix) (us ! nat (n - 1)) n cmd))
                  (\<lambda>msg. early_say z msg (s\<lparr>name_pipe_in_flag := True,
                     name_pipe_in_file := user_pipe_file n (int ix + 1),
                     shared := (shared s)\<lparr>shm := set_pipe_record (nat n) (ix + 1) False us\<rparr>\<rparr>))
              else
                Inr (sh_event (Output (pipe_missing_msg n (int ix + 1))) (s\<lparr>ignore := True\<rparr>))))"

fun early_words ::
  "user_h \<Rightarrow> string \<Rightarrow> string list \<Rightarrow> string list \<Rightarrow> rwg \<Rightarrow> (string list option \<times> string list \<times> rwg) result" where
  "early_words z cmd acc [] s = Inr (if acc = [] then None else Some acc, [], s)"
| "early_words z cmd acc (w # ws) s =
     (if hd w = CHR ''<'' then ebind (early_pipe_in z cmd w s) (early_words z cmd acc ws)
      else if is_op w then Inr (Some acc, w # ws, s)
      else if 9 \<le> length acc then Inl BufferOverflow
      else early_words z cmd (acc @ [w]) ws s)"

lemma early_words_length: "early_words z cmd acc ws s = Inr (p, rest, s') \<Longrightarrow> length rest \<le> length ws"
  by (induction z cmd acc ws s rule: early_words.induct) (fastforce split: if_splits)+

function early_combine ::
  "user_h \<Rightarrow> string \<Rightarrow> string list \<Rightarrow> string list list \<Rightarrow> nat \<Rightarrow> rwg \<Rightarrow> (string list list \<times> nat \<times> rwg) result" where
  "early_combine z cmd toks procs out s =
     (if toks = [] then Inr (procs, out, s)
      else if 5000 \<le> length procs then Inl BufferOverflow
      else case early_words z cmd [] toks s of
        Inl e \<Rightarrow> Inl e
      | Inr (p, rest, s) \<Rightarrow>
          (let procs = (case p of None \<Rightarrow> procs | Some words \<Rightarrow> procs @ [words])
           in case rest of
                [] \<Rightarrow> Inr (procs, out, s)
              | w # rest \<Rightarrow>
                  (case rwg_op w rest out s of
                     Inl e \<Rightarrow> Inl e
                   | Inr (rest, out, s) \<Rightarrow> early_combine z cmd rest procs out s)))"
  by pat_completeness auto
termination
  by (relation "measure (\<lambda>(_, _, toks, _). length toks)")
    (auto dest!: early_words_length rwg_op_length)

declare early_combine.simps [simp del]

definition early_parse :: "user_h \<Rightarrow> string \<Rightarrow> string list \<Rightarrow> rwg \<Rightarrow> (string list list \<times> nat \<times> rwg) result" where
  "early_parse z cmd toks s =
     (case toks of
        [] \<Rightarrow> Inl NullDeref
      | w # _ \<Rightarrow>
          if w = ''tell'' \<or> w = ''yell'' then Inr ([toks], 1, s)
          else early_combine z cmd toks [] 1 s)"

definition early_exit :: "user_h \<Rightarrow> rwg \<Rightarrow> rwg result" where
  "early_exit z s =
     ebind (into_buffer 300 (left_msg (u_name (me s)))) (\<lambda>msg.
     ebind (early_say z msg s) (\<lambda>s.
       Inr (sh_event Exit (s\<lparr>shared := logout (user_index s) (shared s), sh_exited := True\<rparr>))))"

definition early_tell :: "user_h \<Rightarrow> string list \<Rightarrow> rwg \<Rightarrow> rwg result" where
  "early_tell z args s =
     (case args of
        [] \<Rightarrow> Inl NullDeref
      | a # ws \<Rightarrow>
          (let n = atoi a
           in if check_id_exist n (rwg_users s) then
                ebind (into_buffer 200 (spoken ws)) (\<lambda>t.
                ebind (into_buffer 200 (tell_msg (u_name (me s)) t)) (\<lambda>msg.
                ebind (early_notify z (nat (n - 1)) msg (shared s)) (\<lambda>m. Inr (s\<lparr>shared := m\<rparr>))))
              else Inr (sh_event (Output (no_user_msg n)) s)))"

definition early_yell :: "user_h \<Rightarrow> string list \<Rightarrow> rwg \<Rightarrow> rwg result" where
  "early_yell z args s =
     ebind (into_buffer 200 (spoken args)) (\<lambda>t.
     ebind (into_buffer 200 (yell_msg (u_name (me s)) t)) (\<lambda>msg. early_say z msg s))"

definition early_name :: "user_h \<Rightarrow> string list \<Rightarrow> rwg \<Rightarrow> rwg result" where
  "early_name z args s =
     (case args of
        [] \<Rightarrow> Inr (set_name ''(no name)'' s)
      | nm # _ \<Rightarrow>
          if check_name_exist nm (rwg_users s) then Inr (sh_event (Output (name_taken_msg nm)) s)
          else ebind (into_buffer (name_size z) nm) (\<lambda>nm.
               ebind (into_buffer 200 (named_msg nm)) (\<lambda>msg. early_say z msg (set_name nm s))))"

definition early_builtin ::
  "user_h \<Rightarrow> (string \<Rightarrow> string option) \<Rightarrow> string \<Rightarrow> string list \<Rightarrow> rwg \<Rightarrow> rwg result option" where
  "early_builtin z rd c args s =
     (if c = ''printenv'' then Some (rwg_printenv args s)
      else if c = ''setenv'' then Some (Inr (setenv_builtin args s))
      else if c = ''exit'' then Some (early_exit z s)
      else if c = ''batch'' then Some (rwg_batch rd args s)
      else if c = ''who'' then Some (Inr (rwg_who s))
      else if c = ''tell'' then Some (early_tell z args s)
      else if c = ''yell'' then Some (early_yell z args s)
      else if c = ''name'' then Some (early_name z args s)
      else None)"

fun early_loop ::
  "user_h \<Rightarrow> os \<Rightarrow> (string \<Rightarrow> string option) \<Rightarrow> string \<Rightarrow> nat \<Rightarrow> nat \<Rightarrow> string list list \<Rightarrow> nat \<Rightarrow> nat \<Rightarrow> rwg \<Rightarrow> rwg result"
where
  "early_loop z sys rd cmd n prc [] fd_in pipe_out s = Inr s"
| "early_loop z sys rd cmd n prc ([] # procs) fd_in pipe_out s = Inl NullDeref"
| "early_loop z sys rd cmd n prc ((c # args) # procs) fd_in pipe_out s =
     (case early_builtin z rd c args s of
        Some r \<Rightarrow> ebind r (\<lambda>s.
          if sh_exited s then Inr s else early_loop z sys rd cmd n (prc + 1) procs fd_in pipe_out s)
      | None \<Rightarrow>
          (let (fd_in, s) = rwg_process sys cmd n prc (c # args) fd_in pipe_out s
           in early_loop z sys rd cmd n (prc + 1) procs fd_in pipe_out s))"

definition early_execute ::
  "user_h \<Rightarrow> os \<Rightarrow> (string \<Rightarrow> string option) \<Rightarrow> string \<Rightarrow> string list \<Rightarrow> rwg \<Rightarrow> rwg result" where
  "early_execute z sys rd cmd toks s =
     (let s = (if toks \<noteq> [] \<and> num_pipe_vec s \<noteq> [] then decrease_line_count s else s)
      in ebind (early_parse z cmd toks s) (\<lambda>(procs, out, s).
         ebind (if ignore s then Inr (s\<lparr>ignore := False\<rparr>)
                else early_loop z sys rd cmd (length procs) 0 procs 0 out s) (\<lambda>s.
           Inr (if sh_exited s \<or> line_end_with_pipe s then s else sh_event WaitAll s))))"

definition early_line :: "user_h \<Rightarrow> os \<Rightarrow> (string \<Rightarrow> string option) \<Rightarrow> string \<Rightarrow> rwg \<Rightarrow> rwg result" where
  "early_line z sys rd raw s =
     ebind (read_command raw (s\<lparr>line_end_with_pipe := False, redirection_file_name := replicate 100 NUL\<rparr>))
       (\<lambda>(line, s).
          ebind (c_format line) (\<lambda>cmd.
            if line = [] \<or> ignore s then Inr (s\<lparr>ignore := False\<rparr>)
            else early_execute z sys rd cmd (tokens (\<lambda>c. c = CHR '' '') line) s))"

definition early_announce :: "user_h \<Rightarrow> nat \<Rightarrow> string \<times> int \<Rightarrow> shared \<Rightarrow> shared result" where
  "early_announce z ix a m =
     (case a of (cmd, n) \<Rightarrow>
        if n < 1 \<or> 31 < n then Inl OutOfRange
        else ebind (into_buffer 200 (piped_msg (shm m ! ix) (shm m ! nat (n - 1)) cmd)) (\<lambda>msg. early_broadcast z msg m))"

section \<open>Both systems, event by event\<close>

text \<open>
  What happens to the server: a client connects, the shell of a slot takes a turn, a process handles its
  signal, a child announces what it pipes.  An event that cannot happen changes nothing; the list
  is what the handler prints.
\<close>

datatype rwg_event =
    Connects nat int string int "int option" fdtable nat environ
  | Turn nat string
  | Handles int
  | Announces nat

definition log_in :: "(nat \<times> shared \<times> (int \<times> string) list \<times> rwg option) result \<Rightarrow> rwg_system \<Rightarrow> rwg_system result" where
  "log_in r g = ebind r (\<lambda>(i, m, _, s). Inr (g\<lparr>sys_shared := m, sys_shells := (sys_shells g)(i := s)\<rparr>))"

definition signalled :: "int \<Rightarrow> shared \<Rightarrow> shared" where
  "signalled p m = m\<lparr>kills := filter (\<lambda>q. q \<noteq> p) (kills m)\<rparr>"

definition rwg_act ::
  "os \<Rightarrow> (string \<Rightarrow> string option) \<Rightarrow> rwg_event \<Rightarrow> rwg_system \<Rightarrow> (rwg_system \<times> string list) result" where
  "rwg_act sys rd ev g =
     (case ev of
        Connects sockfd sck addr port childpid t next e \<Rightarrow>
          ebind (log_in (accept_user sockfd sck addr port childpid t next e (sys_shared g)) g) (\<lambda>g. Inr (g, []))
      | Turn i raw \<Rightarrow>
          (case sys_shells g i of
             None \<Rightarrow> Inr (g, [])
           | Some s \<Rightarrow> ebind (turn sys rd raw i s g) (\<lambda>g. Inr (g, [])))
      | Handles p \<Rightarrow>
          if p \<notin> set (kills (sys_shared g)) then Inr (g, [])
          else (let (out, m) = real_broadcast_msg p (sys_shared g) in Inr (g\<lparr>sys_shared := signalled p m\<rparr>, out))
      | Announces k \<Rightarrow>
          if length (sys_announces g) \<le> k then Inr (g, [])
          else (let (i, a) = sys_announces g ! k
                in ebind (announce i a (sys_shared g)) (\<lambda>m.
                     Inr (g\<lparr>sys_shared := m, sys_announces := take k (sys_announces g) @ drop (k + 1) (sys_announces g)\<rparr>, []))))"

fun rwg_acts ::
  "os \<Rightarrow> (string \<Rightarrow> string option) \<Rightarrow> rwg_event list \<Rightarrow> rwg_system \<Rightarrow> (rwg_system \<times> string list list) result" where
  "rwg_acts sys rd [] g = Inr (g, [])"
| "rwg_acts sys rd (ev # evs) g =
     ebind (rwg_act sys rd ev g) (\<lambda>(g, out). ebind (rwg_acts sys rd evs g) (\<lambda>(g, outs). Inr (g, out # outs)))"

text \<open>The part 3 server on the same events.\<close>

definition early_turn ::
  "user_h \<Rightarrow> os \<Rightarrow> (string \<Rightarrow> string option) \<Rightarrow> string \<Rightarrow> nat \<Rightarrow> rwg \<Rightarrow> rwg_system \<Rightarrow> rwg_system result" where
  "early_turn z sys rd raw i s g =
     ebind (early_line z sys rd raw (s\<lparr>shared := sys_shared g, announces := []\<rparr>)) (\<lambda>s'.
       Inr \<lparr>sys_shared = shared s',
            sys_shells = (sys_shells g)(i := if sh_exited s' then None else Some s'),
            sys_announces = sys_announces g @ map (Pair i) (announces s')\<rparr>)"

definition early_act ::
  "user_h \<Rightarrow> os \<Rightarrow> (string \<Rightarrow> string option) \<Rightarrow> rwg_event \<Rightarrow> rwg_system \<Rightarrow> (rwg_system \<times> string list) result" where
  "early_act z sys rd ev g =
     (case ev of
        Connects sockfd sck addr port childpid t next e \<Rightarrow>
          ebind (log_in (early_accept_user z sockfd sck addr port childpid t next e (sys_shared g)) g) (\<lambda>g. Inr (g, []))
      | Turn i raw \<Rightarrow>
          (case sys_shells g i of
             None \<Rightarrow> Inr (g, [])
           | Some s \<Rightarrow> ebind (early_turn z sys rd raw i s g) (\<lambda>g. Inr (g, [])))
      | Handles p \<Rightarrow>
          if p \<notin> set (kills (sys_shared g)) then Inr (g, [])
          else Inr (g\<lparr>sys_shared := signalled p (sys_shared g)\<rparr>, early_handler p (sys_shared g))
      | Announces k \<Rightarrow>
          if length (sys_announces g) \<le> k then Inr (g, [])
          else (let (i, a) = sys_announces g ! k
                in ebind (early_announce z i a (sys_shared g)) (\<lambda>m.
                     Inr (g\<lparr>sys_shared := m, sys_announces := take k (sys_announces g) @ drop (k + 1) (sys_announces g)\<rparr>, []))))"

fun early_acts ::
  "user_h \<Rightarrow> os \<Rightarrow> (string \<Rightarrow> string option) \<Rightarrow> rwg_event list \<Rightarrow> rwg_system \<Rightarrow> (rwg_system \<times> string list list) result" where
  "early_acts z sys rd [] g = Inr (g, [])"
| "early_acts z sys rd (ev # evs) g =
     ebind (early_act z sys rd ev g) (\<lambda>(g, out). ebind (early_acts z sys rd evs g) (\<lambda>(g, outs). Inr (g, out # outs)))"

end
