(* ===== verification/Early_Claims.thy ===== *)
theory Early_Claims
  imports Rwg_Early Rwg_Claims
begin

text \<open>
  What the part 3 version of the working ground has in common with the final one, and what a single
  buffer loses.  \<open>agree\<close> relates two results that may only differ by a buffer that is too small;
  \<open>usim\<close>, \<open>msim\<close>, \<open>ssim\<close> and \<open>gsim\<close> relate the users, the tables, the shells and the systems.
\<close>

section \<open>Agreement but for overflows\<close>

definition agree :: "('a \<Rightarrow> 'b \<Rightarrow> bool) \<Rightarrow> 'a result \<Rightarrow> 'b result \<Rightarrow> bool" where
  "agree R r r' \<longleftrightarrow>
     (case (r, r') of
        (Inr x, Inr y) \<Rightarrow> R x y
      | (Inl e, Inl e') \<Rightarrow> e = e' \<or> e = BufferOverflow \<or> e' = BufferOverflow
      | (Inl e, Inr _) \<Rightarrow> e = BufferOverflow
      | (Inr _, Inl e) \<Rightarrow> e = BufferOverflow)"

lemma agree_simps [simp]:
  "agree R (Inr x) (Inr y) \<longleftrightarrow> R x y" "agree R (Inl e) (Inl e)"
  "agree R (Inl BufferOverflow) r'" "agree R r (Inl BufferOverflow)"
  by (auto simp: agree_def split: sum.split)

lemma agree_bind:
  assumes "agree R r r'" and "\<And>x y. R x y \<Longrightarrow> agree S (f x) (g y)"
  shows "agree S (ebind r f) (ebind r' g)"
  using assms by (cases r; cases r') (auto simp: agree_def split: sum.splits)

lemma agree_same: "(\<And>x. r = Inr x \<Longrightarrow> agree S (f x) (g x)) \<Longrightarrow> agree S (ebind r f) (ebind r g)"
  by (cases r) auto

lemma agree_cases [consumes 1, case_names both fails left right]:
  assumes "agree R r r'"
  obtains x y where "r = Inr x" "r' = Inr y" "R x y"
  | e where "r = Inl e" "r' = Inl e"
  | "r = Inl BufferOverflow"
  | "r' = Inl BufferOverflow"
  using assms by (cases r; cases r') (auto simp: agree_def)

lemma agree_buffer:
  assumes "agree S (f t) (g t)"
  shows "agree S (ebind (into_buffer n t) f) (ebind (into_buffer n' t) g)"
  using assms by (simp add: into_buffer_def)

section \<open>The relation of the tables\<close>

text \<open>Two users that differ in the messages only: the buffer is the last message of the queue.\<close>

definition usim :: "user \<Rightarrow> user \<Rightarrow> bool" where
  "usim u v \<longleftrightarrow> v = u\<lparr>u_msgs := u_msgs v\<rparr> \<and> (u_msgs u \<noteq> [] \<longrightarrow> u_msgs v = [last (u_msgs u)])"

definition msim :: "shared \<Rightarrow> shared \<Rightarrow> bool" where
  "msim m m' \<longleftrightarrow> list_all2 usim (shm m) (shm m') \<and> kills m' = kills m \<and> length (shm m) = 31"

text \<open>Two shells that differ in the shared memory only, and see related ones.\<close>

definition with_shared :: "shared \<Rightarrow> rwg \<Rightarrow> rwg" where
  "with_shared m s = s\<lparr>shared := m\<rparr>"

definition ssim :: "rwg \<Rightarrow> rwg \<Rightarrow> bool" where
  "ssim s e \<longleftrightarrow> e = with_shared (shared e) s \<and> msim (shared s) (shared e) \<and> user_index s < 30"

lemma usim_fields:
  assumes "usim u v"
  shows "u_valid v = u_valid u" "u_id v = u_id u" "u_pid v = u_pid u" "u_sock v = u_sock u"
    "u_name v = u_name u" "name_pipe_record v = name_pipe_record u" "u_batch_flag v = u_batch_flag u"
    "u_ignore v = u_ignore u"
proof -
  obtain ms where "v = u\<lparr>u_msgs := ms\<rparr>" using assms unfolding usim_def by blast
  then show "u_valid v = u_valid u" "u_id v = u_id u" "u_pid v = u_pid u" "u_sock v = u_sock u"
    "u_name v = u_name u" "name_pipe_record v = name_pipe_record u" "u_batch_flag v = u_batch_flag u"
    "u_ignore v = u_ignore u" by simp_all
qed

lemma msim_nth: "msim m m' \<Longrightarrow> i < 31 \<Longrightarrow> usim (shm m ! i) (shm m' ! i)"
  by (auto simp: msim_def list_all2_conv_all_nth)

lemma msim_length: "msim m m' \<Longrightarrow> length (shm m) = 31 \<and> length (shm m') = 31"
  by (auto simp: msim_def dest: list_all2_lengthD)

lemmas msim_fields = usim_fields [OF msim_nth]

lemma msim_kills: "msim m m' \<Longrightarrow> kills m' = kills m"
  by (simp add: msim_def)

lemma msim_update:
  assumes "msim m m'" and "usim u v"
  shows "msim (m\<lparr>shm := (shm m)[i := u], kills := k\<rparr>) (m'\<lparr>shm := (shm m')[i := v], kills := k\<rparr>)"
    and "msim (m\<lparr>shm := (shm m)[i := u]\<rparr>) (m'\<lparr>shm := (shm m')[i := v]\<rparr>)"
  using assms by (auto simp: msim_def intro: list_all2_update_cong)

lemma slots_31: "i \<in> set slots \<Longrightarrow> i < 31"
  by (simp add: slots_def)

lemma find_slot_sim:
  "msim m m' \<Longrightarrow> (\<And>u v. usim u v \<Longrightarrow> P v = P u) \<Longrightarrow>
     List.find (\<lambda>i. P (shm m' ! i)) slots = List.find (\<lambda>i. P (shm m ! i)) slots"
  by (rule find_cong [OF refl]) (use msim_nth slots_31 in blast)

lemma filter_slot_sim:
  "msim m m' \<Longrightarrow> (\<And>u v. usim u v \<Longrightarrow> P v = P u) \<Longrightarrow>
     filter (\<lambda>i. P (shm m' ! i)) slots = filter (\<lambda>i. P (shm m ! i)) slots"
  by (rule filter_cong [OF refl]) (use msim_nth slots_31 in blast)

lemma lookups_sim:
  assumes "msim m m'"
  shows "check_id_exist n (shm m') = check_id_exist n (shm m)"
    and "check_name_exist nm (shm m') = check_name_exist nm (shm m)"
    and "r < 31 \<Longrightarrow> check_name_pipe_exist s r (shm m') = check_name_pipe_exist s r (shm m)"
proof -
  have *: "u_valid (shm m' ! i) = u_valid (shm m ! i)" "u_name (shm m' ! i) = u_name (shm m ! i)" if "i < 30" for i
    using msim_fields [OF assms, of i] that by simp_all
  show "check_id_exist n (shm m') = check_id_exist n (shm m)"
    "check_name_exist nm (shm m') = check_name_exist nm (shm m)"
    using * by (auto simp: check_id_exist_iff check_name_exist_iff)
  show "r < 31 \<Longrightarrow> check_name_pipe_exist s r (shm m') = check_name_pipe_exist s r (shm m)"
    using msim_fields(6) [OF assms] by (simp add: check_name_pipe_exist_def)
qed

lemma usim_updates:
  assumes "usim u v"
  shows "usim (u\<lparr>name_pipe_record := r\<rparr>) (v\<lparr>name_pipe_record := r\<rparr>)"
    "usim (u\<lparr>u_valid := b\<rparr>) (v\<lparr>u_valid := b\<rparr>)" "usim (u\<lparr>u_name := nm\<rparr>) (v\<lparr>u_name := nm\<rparr>)"
    "usim (u\<lparr>u_pid := p\<rparr>) (v\<lparr>u_pid := p\<rparr>)"
    "usim (u\<lparr>u_msgs := u_msgs u @ [row], u_receive := True\<rparr>) (v\<lparr>u_msgs := [row], u_receive := True\<rparr>)"
    "usim (u\<lparr>u_msgs := []\<rparr>) v"
  using assms by (cases u; cases v; auto simp: usim_def)+

lemma set_pipe_record_sim:
  assumes "msim m m'"
  shows "msim (m\<lparr>shm := set_pipe_record s r b (shm m)\<rparr>) (m'\<lparr>shm := set_pipe_record s r b (shm m')\<rparr>)"
proof (cases "r < 31")
  case True
  then have "name_pipe_record (shm m' ! r) = name_pipe_record (shm m ! r)" using msim_fields(6) [OF assms] by simp
  then show ?thesis
    using msim_update(2) [OF assms usim_updates(1) [OF msim_nth [OF assms True]], of r]
    by (simp add: set_pipe_record_def)
next
  case False
  then show ?thesis using assms msim_length [OF assms] by (simp add: set_pipe_record_def list_update_beyond)
qed

lemma clear_name_pipes_sim:
  assumes "msim m m'"
  shows "msim (m\<lparr>shm := clear_name_pipes ix (shm m)\<rparr>) (m'\<lparr>shm := clear_name_pipes ix (shm m')\<rparr>)"
proof -
  have fold: "msim (m\<lparr>shm := fold f xs (shm m)\<rparr>) (m'\<lparr>shm := fold f xs (shm m')\<rparr>)"
    if "\<And>x m m'. msim m m' \<Longrightarrow> msim (m\<lparr>shm := f x (shm m)\<rparr>) (m'\<lparr>shm := f x (shm m')\<rparr>)" and "msim m m'"
    for f :: "'a \<Rightarrow> user list \<Rightarrow> user list" and xs m m'
    using that(2)
  proof (induction xs arbitrary: m m')
    case (Cons x xs)
    from Cons.IH [OF that(1) [OF Cons.prems]] show ?case by simp
  qed simp
  show ?thesis unfolding clear_name_pipes_def
    by (intro fold assms) (simp_all add: set_pipe_record_sim)
qed

lemma logout_sim:
  assumes "msim m m'" and "ix < 31"
  shows "msim (logout ix m) (logout ix m')"
proof -
  note c = clear_name_pipes_sim [OF assms(1), of ix]
  from msim_update(2) [OF c usim_updates(2) [OF msim_nth [OF c assms(2)]], of ix] show ?thesis
    by (simp add: logout_def Let_def)
qed

text \<open>A message is appended to the queue, and overwrites the buffer.\<close>

lemma notify_sim:
  assumes "msim m m'" and "i < 31"
  shows "agree msim (notify i msg m) (early_notify z i msg m')"
proof -
  note u = msim_nth [OF assms]
  have "msim (m\<lparr>shm := (shm m)[i := (shm m ! i)\<lparr>u_msgs := u_msgs (shm m ! i) @ [row], u_receive := True\<rparr>],
        kills := kills m @ [u_pid (shm m ! i)]\<rparr>)
      (m'\<lparr>shm := (shm m')[i := (shm m' ! i)\<lparr>u_msgs := [row], u_receive := True\<rparr>],
        kills := kills m' @ [u_pid (shm m' ! i)]\<rparr>)" for row
    using msim_update(1) [OF assms(1) usim_updates(5) [OF u]] by (simp add: msim_kills [OF assms(1)] usim_fields [OF u])
  then show ?thesis by (cases "c_format msg") (auto simp: notify_def early_notify_def Let_def)
qed

lemma broadcast_loop_sim:
  "msim m m' \<Longrightarrow> \<forall>i\<in>set is. i < 31 \<Longrightarrow> agree msim (broadcast_loop is msg m) (early_broadcast_loop z is msg m')"
proof (induction "is" arbitrary: m m')
  case (Cons i "is")
  have "agree msim (ebind (notify i msg m) (broadcast_loop is msg))
      (ebind (early_notify z i msg m') (early_broadcast_loop z is msg))"
    by (rule agree_bind [OF notify_sim]) (use Cons in auto)
  then show ?case using Cons msim_fields(1) [OF Cons.prems(1), of i] by simp
qed simp

lemma broadcast_sim: "msim m m' \<Longrightarrow> agree msim (broadcast_msg msg m) (early_broadcast z msg m')"
  by (simp add: broadcast_msg_def early_broadcast_def broadcast_loop_sim slots_31)

section \<open>The relation of the shells\<close>

lemma ssimE:
  assumes "ssim s e"
  obtains m' where "e = with_shared m' s" "msim (shared s) m'" "user_index s < 30"
  using assms that unfolding ssim_def by blast

lemma ssimI: "msim (shared s) m' \<Longrightarrow> user_index s < 30 \<Longrightarrow> ssim s (with_shared m' s)"
  by (simp add: ssim_def with_shared_def)

lemma ssim_shared: "ssim s e \<Longrightarrow> msim m m' \<Longrightarrow> ssim (s\<lparr>shared := m\<rparr>) (e\<lparr>shared := m'\<rparr>)"
  by (erule ssimE) (simp add: ssim_def with_shared_def)

lemma ssim_fields:
  assumes "ssim s e"
  shows "user_index s < 30" "user_index e = user_index s" "msim (shared s) (shared e)" "num_pipe_vec e = num_pipe_vec s"
    "ignore e = ignore s" "batch_flag e = batch_flag s" "sh_exited e = sh_exited s" "rw_sock e = rw_sock s"
    "line_end_with_pipe e = line_end_with_pipe s" "sh_env e = sh_env s" "write_file_flag e = write_file_flag s"
    "shock_pipe_out_flag e = shock_pipe_out_flag s" "num_pipe_out_flag e = num_pipe_out_flag s"
    "name_pipe_out_flag e = name_pipe_out_flag s" "announces e = announces s"
  using assms by (auto elim!: ssimE simp: with_shared_def)

lemma rwg_users_sim: "ssim s e \<Longrightarrow> msim (shared s\<lparr>shm := rwg_users s\<rparr>) (shared e\<lparr>shm := rwg_users e\<rparr>)"
  by (simp add: rwg_users_def ssim_fields)

text \<open>An operation that neither reads nor changes the shared memory.\<close>

definition blind :: "(rwg \<Rightarrow> rwg) \<Rightarrow> bool" where
  "blind f \<longleftrightarrow> (\<forall>s m. f (with_shared m s) = with_shared m (f s) \<and> shared (f s) = shared s \<and> user_index (f s) = user_index s)"

lemma blind_sim: "blind f \<Longrightarrow> ssim s e \<Longrightarrow> ssim (f s) (f e)"
  by (auto simp: blind_def elim!: ssimE intro!: ssimI)

definition blind_result :: "(rwg \<Rightarrow> ('a \<times> rwg) result) \<Rightarrow> bool" where
  "blind_result f \<longleftrightarrow> (\<forall>s m.
     (case f s of Inl e \<Rightarrow> f (with_shared m s) = Inl e
      | Inr (a, t) \<Rightarrow> f (with_shared m s) = Inr (a, with_shared m t) \<and> shared t = shared s \<and> user_index t = user_index s))"

lemma blind_result_sim:
  assumes "blind_result f" and "ssim s e"
  shows "agree (\<lambda>(a, s) (b, e). b = a \<and> ssim s e) (f s) (f e)"
proof -
  from assms(2) obtain m where e: "e = with_shared m s" "msim (shared s) m" "user_index s < 30" by (rule ssimE)
  have "case f s of Inl x \<Rightarrow> f (with_shared m s) = Inl x
      | Inr (a, t) \<Rightarrow> f (with_shared m s) = Inr (a, with_shared m t) \<and> shared t = shared s \<and> user_index t = user_index s"
    using assms(1) unfolding blind_result_def by blast
  then show ?thesis using e by (cases "f s") (auto intro!: ssimI)
qed

lemma blind_updates:
  "blind (sh_event ev)" "blind (\<lambda>s. s\<lparr>ignore := b\<rparr>)" "blind decrease_line_count" "blind (setenv_builtin args)"
  "blind (\<lambda>s. s\<lparr>line_end_with_pipe := b\<rparr>)" "blind (\<lambda>s. s\<lparr>sh_exited := b\<rparr>)" "blind (\<lambda>s. s\<lparr>announces := as\<rparr>)"
  "blind (\<lambda>s. s\<lparr>line_end_with_pipe := b, redirection_file_name := nm\<rparr>)"
  "blind (\<lambda>s. s\<lparr>name_pipe_out_id := n\<rparr>)" "blind (\<lambda>s. s\<lparr>name_pipe_in_flag := b, name_pipe_in_file := nm\<rparr>)"
  "blind (\<lambda>s. s\<lparr>name_pipe_out_flag := b, name_pipe_out_file := nm\<rparr>)"
  "blind (\<lambda>s. s\<lparr>shock_pipe_out_flag := b\<rparr>)" "blind (\<lambda>s. s\<lparr>num_pipe_out_flag := b\<rparr>)"
  by (auto simp: blind_def with_shared_def sh_event_def decrease_line_count_def Let_def setenv_builtin_def split: list.split)

lemmas ssim_updates = blind_sim [OF blind_updates(1)] blind_sim [OF blind_updates(2)] blind_sim [OF blind_updates(3)]
  blind_sim [OF blind_updates(4)] blind_sim [OF blind_updates(5)] blind_sim [OF blind_updates(6)]
  blind_sim [OF blind_updates(7)] blind_sim [OF blind_updates(8)] blind_sim [OF blind_updates(9)]
  blind_sim [OF blind_updates(10)] blind_sim [OF blind_updates(11)] blind_sim [OF blind_updates(12)]
  blind_sim [OF blind_updates(13)]

lemma blind_redirection: "blind_result (\<lambda>s. ebind (set_redirection f s) (\<lambda>s. Inr ((), s)))"
  by (simp add: blind_result_def with_shared_def set_redirection_def sh_event_def Let_def)

lemma blind_number_pipe_out: "blind_result (number_pipe_out d w)"
  by (auto simp: blind_result_def with_shared_def number_pipe_out_def sys_pipe_def Let_def split: option.split prod.split)

lemma blind_read_command: "blind_result (read_command raw)"
  by (simp add: blind_result_def with_shared_def read_command_def sh_event_def Let_def)

lemma blind_printenv: "blind_result (\<lambda>s. ebind (rwg_printenv args s) (\<lambda>s. Inr ((), s)))"
  by (auto simp: blind_result_def with_shared_def rwg_printenv_def into_buffer_def sh_event_def split: option.split list.split)

lemma blind_batch: "blind_result (\<lambda>s. ebind (rwg_batch rd args s) (\<lambda>s. Inr ((), s)))"
  by (auto simp: blind_result_def with_shared_def rwg_batch_def Let_def split: option.split list.split)

lemma with_shared_sel:
  "k_fds (with_shared m s) = k_fds s" "write_file_flag (with_shared m s) = write_file_flag s"
  "shock_pipe_out_flag (with_shared m s) = shock_pipe_out_flag s" "num_pipe_out_flag (with_shared m s) = num_pipe_out_flag s"
  "name_pipe_out_flag (with_shared m s) = name_pipe_out_flag s" "num_pipe_in_flag (with_shared m s) = num_pipe_in_flag s"
  "name_pipe_in_flag (with_shared m s) = name_pipe_in_flag s" "name_pipe_in_file (with_shared m s) = name_pipe_in_file s"
  "name_pipe_out_file (with_shared m s) = name_pipe_out_file s" "name_pipe_out_id (with_shared m s) = name_pipe_out_id s"
  "redirection_file_name (with_shared m s) = redirection_file_name s" "num_pipe_vec (with_shared m s) = num_pipe_vec s"
  "announces (with_shared m s) = announces s"
  by (simp_all add: with_shared_def)

lemma with_shared_upd:
  "(with_shared m s)\<lparr>write_file_flag := b\<rparr> = with_shared m (s\<lparr>write_file_flag := b\<rparr>)"
  "(with_shared m s)\<lparr>num_pipe_out_flag := b\<rparr> = with_shared m (s\<lparr>num_pipe_out_flag := b\<rparr>)"
  "(with_shared m s)\<lparr>name_pipe_out_flag := b\<rparr> = with_shared m (s\<lparr>name_pipe_out_flag := b\<rparr>)"
  "(with_shared m s)\<lparr>announces := as\<rparr> = with_shared m (s\<lparr>announces := as\<rparr>)"
  by (simp_all add: with_shared_def)

lemma with_shared_steps:
  "close_0_rest_line_pipe_out (with_shared m s) = with_shared m (close_0_rest_line_pipe_out s)"
  "spawn sys argv t tr (with_shared m s) = with_shared m (spawn sys argv t tr s)"
  "close_fd fd (with_shared m s) = with_shared m (close_fd fd s)"
  "drop_inputs (with_shared m s) = with_shared m (drop_inputs s)"
  "sys_pipe (with_shared m s) = (case sys_pipe s of (r, w, s) \<Rightarrow> (r, w, with_shared m s))"
  by (simp_all add: with_shared_def close_0_rest_line_pipe_out_def spawn_def sh_event_def close_fd_def drop_inputs_def
      drop_dead_pipes_def close_0_rest_line_pipe_in_def sys_pipe_def Let_def split: prod.split)

lemma with_shared_fds:
  "rwg_stdin sys fd_in (with_shared m s) = rwg_stdin sys fd_in s"
  "rwg_single_fds sys (with_shared m s) = rwg_single_fds sys s"
  by (auto simp: rwg_stdin_def rwg_single_fds_def open_user_pipe_def dup_num_pipe_in_def with_shared_sel)

lemmas with_shared = with_shared_sel with_shared_upd with_shared_steps with_shared_fds

lemma process_with_shared:
  "rwg_process sys cmd n prc argv fd_in out (with_shared m s) =
     (case rwg_process sys cmd n prc argv fd_in out s of (fd, t) \<Rightarrow> (fd, with_shared m t))"
  by (simp add: rwg_process_def rwg_exec_redirect_def rwg_exec_numbered_def rwg_exec_user_pipe_def rwg_exec_normal_def
      rwg_file_fds_def rwg_numbered_fds_def rwg_pipeline_fds_def with_shared Let_def split: prod.split)

lemma process_sim:
  assumes "ssim s e" and "rwg_process sys cmd n prc argv fd_in out s = (fd, t)"
  shows "fst (rwg_process sys cmd n prc argv fd_in out e) = fd" and "ssim t (snd (rwg_process sys cmd n prc argv fd_in out e))"
proof -
  obtain m where e: "e = with_shared m s" "msim (shared s) m" "user_index s < 30" using assms(1) by (rule ssimE)
  have "quiet s t" using quiet_process assms(2) by (metis snd_conv)
  then show "fst (rwg_process sys cmd n prc argv fd_in out e) = fd" "ssim t (snd (rwg_process sys cmd n prc argv fd_in out e))"
    using e assms(2) by (auto simp: process_with_shared quiet_def intro!: ssimI)
qed

section \<open>Parsing agrees\<close>

definition psim :: "'a \<times> 'b \<times> rwg \<Rightarrow> 'a \<times> 'b \<times> rwg \<Rightarrow> bool" where
  "psim x y \<longleftrightarrow> (case (x, y) of ((a, b, s), (a', b', e)) \<Rightarrow> a' = a \<and> b' = b \<and> ssim s e)"

lemma psim_simps [simp]: "psim (a, b, s) (a', b', e) \<longleftrightarrow> a' = a \<and> b' = b \<and> ssim s e"
  by (simp add: psim_def)

text \<open>A blind operation with the other results of the parser in front of it.\<close>

lemma blind_bind:
  assumes "blind_result f" and "ssim s e" and "\<And>a s e. ssim s e \<Longrightarrow> agree S (g a s) (h a e)"
  shows "agree S (ebind (f s) (\<lambda>(a, s). g a s)) (ebind (f e) (\<lambda>(a, s). h a s))"
  by (rule agree_bind [OF blind_result_sim [OF assms(1,2)]]) (use assms(3) in auto)

lemma agree_bind2:
  assumes "agree psim r r'"
    and "\<And>a b s e. r = Inr (a, b, s) \<Longrightarrow> ssim s e \<Longrightarrow> agree S (f a b s) (g a b e)"
  shows "agree S (ebind r (\<lambda>(a, b, s). f a b s)) (ebind r' (\<lambda>(a, b, s). g a b s))"
  using assms(1)
proof (cases rule: agree_cases)
  case (both x y)
  then show ?thesis using assms(2) by (cases x; cases y) auto
qed auto

lemma say_sim:
  assumes "ssim s e"
  shows "agree ssim (say msg s) (early_say z msg e)"
  unfolding say_def early_say_def
  by (rule agree_bind [OF broadcast_sim]) (use assms ssim_shared ssim_fields(3) in auto)

lemma users_sim:
  assumes "ssim s e"
  shows "check_id_exist n (rwg_users e) = check_id_exist n (rwg_users s)"
    and "check_name_exist nm (rwg_users e) = check_name_exist nm (rwg_users s)"
    and "r < 31 \<Longrightarrow> check_name_pipe_exist i r (rwg_users e) = check_name_pipe_exist i r (rwg_users s)"
    and "i < 31 \<Longrightarrow> usim (rwg_users s ! i) (rwg_users e ! i)"
  using lookups_sim [OF ssim_fields(3) [OF assms]] msim_nth [OF ssim_fields(3) [OF assms]]
  by (simp_all add: rwg_users_def)

lemma received_msg_sim: "usim u v \<Longrightarrow> usim u' v' \<Longrightarrow> received_msg v v' n cmd = received_msg u u' n cmd"
  by (simp add: received_msg_def usim_fields)

lemma set_record_sim:
  "ssim s e \<Longrightarrow> msim ((shared s)\<lparr>shm := set_pipe_record i r b (rwg_users s)\<rparr>) ((shared e)\<lparr>shm := set_pipe_record i r b (rwg_users e)\<rparr>)"
  using set_pipe_record_sim ssim_fields(3) by (simp add: rwg_users_def)

lemma pipe_in_sim:
  assumes "ssim s e"
  shows "agree ssim (user_pipe_in cmd w s) (early_pipe_in z cmd w e)"
proof (cases "strtok_first (\<lambda>c. c = CHR ''<'') w")
  case (Some digits)
  let ?n = "atoi digits" and ?us = "rwg_users s" and ?ix = "user_index s"
  note f = ssim_fields [OF assms(1)]
  have err: "ssim (sh_event ev (s\<lparr>ignore := True\<rparr>)) (sh_event ev (e\<lparr>ignore := True\<rparr>))" for ev
    by (intro ssim_updates assms)
  have rec: "ssim (s\<lparr>name_pipe_in_flag := True, name_pipe_in_file := fl, shared := (shared s)\<lparr>shm := set_pipe_record a b c ?us\<rparr>\<rparr>)
      (e\<lparr>name_pipe_in_flag := True, name_pipe_in_file := fl, shared := (shared e)\<lparr>shm := set_pipe_record a b c (rwg_users e)\<rparr>\<rparr>)" for fl a b c
    by (intro ssim_shared ssim_updates set_record_sim assms)
  have msg: "received_msg (rwg_users e ! ?ix) (rwg_users e ! nat (?n - 1)) ?n cmd = received_msg (?us ! ?ix) (?us ! nat (?n - 1)) ?n cmd"
    if "check_id_exist ?n ?us"
    by (intro received_msg_sim users_sim(4) [OF assms(1)]) (use that f(1) in \<open>auto simp: check_id_exist_iff\<close>)
  have "check_name_pipe_exist (nat ?n) (?ix + 1) (rwg_users e) = check_name_pipe_exist (nat ?n) (?ix + 1) ?us"
    by (rule users_sim(3) [OF assms(1)]) (use f in simp)
  then show ?thesis
    using Some say_sim [OF rec]
    by (simp add: user_pipe_in_def early_pipe_in_def Let_def users_sim(1) [OF assms(1)] f(2) err msg agree_buffer)
qed (simp add: user_pipe_in_def early_pipe_in_def)

lemma pipe_out_sim:
  assumes "ssim s e"
  shows "agree ssim (user_pipe_out w s) (user_pipe_out w e)"
proof (cases "strtok_first (\<lambda>c. c = CHR ''>'') w")
  case (Some digits)
  let ?n = "atoi digits" and ?us = "rwg_users s" and ?ix = "user_index s"
  note f = ssim_fields [OF assms]
  have err: "ssim (sh_event ev (s\<lparr>name_pipe_out_id := n, ignore := True\<rparr>)) (sh_event ev (e\<lparr>name_pipe_out_id := n, ignore := True\<rparr>))" for ev n
    using ssim_updates(1) [OF ssim_updates(2) [OF ssim_updates(9) [OF assms]]] by simp
  have rec: "ssim (sh_event ev (s\<lparr>name_pipe_out_id := n, name_pipe_out_flag := True, name_pipe_out_file := fl,
        shared := (shared s)\<lparr>shm := set_pipe_record a b c ?us\<rparr>\<rparr>))
      (sh_event ev (e\<lparr>name_pipe_out_id := n, name_pipe_out_flag := True, name_pipe_out_file := fl,
        shared := (shared e)\<lparr>shm := set_pipe_record a b c (rwg_users e)\<rparr>\<rparr>))" for ev n fl a b c
    by (intro ssim_shared ssim_updates set_record_sim assms)
  have "check_name_pipe_exist (?ix + 1) (nat ?n) (rwg_users e) = check_name_pipe_exist (?ix + 1) (nat ?n) ?us"
    if "check_id_exist ?n ?us"
    by (rule users_sim(3) [OF assms]) (use that in \<open>auto simp: check_id_exist_iff\<close>)
  then show ?thesis
    using Some rec err users_sim(1) [OF assms] f
    by (auto simp: user_pipe_out_def Let_def)
qed (simp add: user_pipe_out_def)

lemma op_sim:
  assumes "ssim s e"
  shows "agree psim (rwg_op w rest out s) (rwg_op w rest out e)"
proof -
  have red: "agree psim (ebind (set_redirection f s) (\<lambda>s. Inr (rest, out, s))) (ebind (set_redirection f e) (\<lambda>s. Inr (rest, out, s)))"
    for f rest
  proof -
    have "agree psim (ebind (ebind (set_redirection f s) (\<lambda>s. Inr ((), s))) (\<lambda>(a, s). Inr (rest, out, s)))
        (ebind (ebind (set_redirection f e) (\<lambda>s. Inr ((), s))) (\<lambda>(a, s). Inr (rest, out, s)))"
      by (rule blind_bind [OF blind_redirection assms]) simp
    then show ?thesis by (cases "set_redirection f s"; cases "set_redirection f e") simp_all
  qed
  have num: "agree psim (ebind (number_pipe_out d w (s\<lparr>line_end_with_pipe := True\<rparr>)) (\<lambda>(out, s). Inr (rest, out, upd s)))
      (ebind (number_pipe_out d w (e\<lparr>line_end_with_pipe := True\<rparr>)) (\<lambda>(out, s). Inr (rest, out, upd s)))"
    if "blind upd" for d and upd
    by (rule blind_bind [OF blind_number_pipe_out ssim_updates(5) [OF assms]]) (use blind_sim [OF that] in simp)
  have out: "agree psim (ebind (user_pipe_out w s) (\<lambda>s. Inr (rest, out, s))) (ebind (user_pipe_out w e) (\<lambda>s. Inr (rest, out, s)))"
    by (rule agree_bind [OF pipe_out_sim [OF assms]]) simp
  show ?thesis
    using red num blind_updates(12,13) out assms by (auto simp: rwg_op_def split: list.split)
qed

lemma words_sim: "ssim s e \<Longrightarrow> agree psim (rwg_words cmd acc ws s) (early_words z cmd acc ws e)"
proof (induction cmd acc ws s arbitrary: e rule: rwg_words.induct)
  case (2 cmd acc w ws s)
  have "agree psim (ebind (user_pipe_in cmd w s) (rwg_words cmd acc ws)) (ebind (early_pipe_in z cmd w e) (early_words z cmd acc ws))"
    if "hd w = CHR ''<''"
    by (rule agree_bind [OF pipe_in_sim [OF 2(3)]]) (use 2(1) that in blast)
  then show ?case using 2 by simp
qed simp

lemma combine_sim: "ssim s e \<Longrightarrow> agree psim (rwg_combine cmd toks procs out s) (early_combine z cmd toks procs out e)"
proof (induction cmd toks procs out s arbitrary: e rule: rwg_combine.induct)
  case (1 cmd toks procs out s)
  note step = rwg_combine.simps [of cmd toks procs out s] early_combine.simps [of z cmd toks procs out e]
  show ?case
  proof (cases "toks = [] \<or> 5000 \<le> length procs")
    case True
    then show ?thesis using 1(2) by (auto simp: step)
  next
    case False
    have "agree psim (rwg_words cmd [] toks s) (early_words z cmd [] toks e)" by (rule words_sim [OF 1(2)])
    then show ?thesis
    proof (cases rule: agree_cases)
      case (both x y)
      then obtain p rest t t' where xy: "x = (p, rest, t)" "y = (p, rest, t')" "ssim t t'"
        by (cases x; cases y) auto
      show ?thesis
      proof (cases rest)
        case Nil
        then show ?thesis using both xy False by (simp add: step)
      next
        case (Cons w ws)
        let ?procs = "case p of None \<Rightarrow> procs | Some words \<Rightarrow> procs @ [words]"
        have "agree psim (ebind (rwg_op w ws out t) (\<lambda>(rest, out, s). rwg_combine cmd rest ?procs out s))
            (ebind (rwg_op w ws out t') (\<lambda>(rest, out, s). early_combine z cmd rest ?procs out s))"
        proof (rule agree_bind2 [OF op_sim [OF xy(3)]])
          fix rest' out' u u'
          assume "rwg_op w ws out t = Inr (rest', out', u)" "ssim u u'"
          then show "agree psim (rwg_combine cmd rest' ?procs out' u) (early_combine z cmd rest' ?procs out' u')"
            using 1(1) [of "(p, rest, t)" p "(rest, t)" rest t ?procs w ws "(rest', out', u)" rest' "(out', u)" out' u] False both(1) xy(1) Cons by simp
        qed
        then show ?thesis using both xy False Cons
          by (simp add: step ebind_def split: sum.split)
      qed
    qed (simp_all add: step False 1(2))
  qed
qed

lemma parse_sim: "ssim s e \<Longrightarrow> agree psim (rwg_parse cmd toks s) (early_parse z cmd toks e)"
  by (auto simp: rwg_parse_def early_parse_def combine_sim split: list.split)

section \<open>Execution agrees\<close>

lemma me_sim:
  assumes "ssim s e"
  shows "u_name (me e) = u_name (me s)" and "usim (me s) (me e)"
  using users_sim(4) [OF assms, of "user_index s"] ssim_fields(1,2) [OF assms] by (simp_all add: me_def usim_fields)

lemma exit_sim:
  assumes "ssim s e"
  shows "agree ssim (rwg_exit s) (early_exit z e)"
proof -
  have "agree ssim (ebind (say msg s) (\<lambda>s. Inr (sh_event Exit (s\<lparr>shared := logout (user_index s) (shared s), sh_exited := True\<rparr>))))
      (ebind (early_say z msg e) (\<lambda>s. Inr (sh_event Exit (s\<lparr>shared := logout (user_index s) (shared s), sh_exited := True\<rparr>))))" for msg
  proof (rule agree_bind [OF say_sim [OF assms]])
    fix t u assume tu: "ssim t u"
    note f = ssim_fields [OF tu]
    have "msim (logout (user_index t) (shared t)) (logout (user_index t) (shared u))"
      by (rule logout_sim) (use f in auto)
    from ssim_updates(1) [OF ssim_updates(6) [OF ssim_shared [OF tu this]], of Exit True]
    show "agree ssim (Inr (sh_event Exit (t\<lparr>shared := logout (user_index t) (shared t), sh_exited := True\<rparr>)))
        (Inr (sh_event Exit (u\<lparr>shared := logout (user_index u) (shared u), sh_exited := True\<rparr>)))"
      by (simp add: f)
  qed
  then show ?thesis
    by (simp add: rwg_exit_def early_exit_def me_sim(1) [OF assms] agree_buffer)
qed

lemma yell_sim: "ssim s e \<Longrightarrow> agree ssim (rwg_yell args s) (early_yell z args e)"
  by (simp add: rwg_yell_def early_yell_def me_sim(1) agree_buffer say_sim)

lemma tell_sim:
  assumes "ssim s e"
  shows "agree ssim (rwg_tell args s) (early_tell z args e)"
proof (cases args)
  case (Cons a ws)
  have "agree ssim (ebind (notify i msg (shared s)) (\<lambda>m. Inr (s\<lparr>shared := m\<rparr>)))
      (ebind (early_notify z i msg (shared e)) (\<lambda>m. Inr (e\<lparr>shared := m\<rparr>)))" if "i < 31" for i msg
    by (rule agree_bind [OF notify_sim [OF ssim_fields(3) [OF assms] that]]) (use assms ssim_shared in auto)
  moreover have "nat (atoi a - 1) < 31" if "check_id_exist (atoi a) (rwg_users s)"
    using that by (auto simp: check_id_exist_iff)
  ultimately show ?thesis
    using ssim_updates(1) [OF assms]
    by (auto simp: Cons rwg_tell_def early_tell_def users_sim(1) [OF assms] me_sim(1) [OF assms] Let_def
        intro!: agree_buffer)
qed (simp add: rwg_tell_def early_tell_def)

lemma set_name_sim:
  assumes "ssim s e"
  shows "ssim (set_name nm s) (set_name nm e)"
  using ssim_shared [OF assms msim_update(2) [OF ssim_fields(3) [OF assms] usim_updates(3) [OF me_sim(2) [OF assms]]]]
  by (simp add: set_name_def rwg_users_def ssim_fields [OF assms])

lemma name_sim:
  assumes "ssim s e"
  shows "agree ssim (rwg_name args s) (early_name z args e)"
proof -
  show ?thesis
    using say_sim [OF set_name_sim [OF assms]] ssim_updates(1) [OF assms] set_name_sim [OF assms]
    by (auto simp: rwg_name_def early_name_def users_sim(2) [OF assms] into_buffer_def split: list.split)
qed

lemma who_sim:
  assumes "ssim s e"
  shows "ssim (rwg_who s) (rwg_who e)"
proof -
  let ?f = "\<lambda>i s. if u_valid (rwg_users s ! i) then sh_event (Output (who_line (rw_sock s) (rwg_users s) i)) s else s"
  have step: "ssim (?f i s) (?f i e)" if "ssim s e" "i < 31" for i s e
    using usim_fields [OF users_sim(4) [OF that]] ssim_updates(1) [OF that(1)] ssim_fields(8) [OF that(1)] that(1)
    by (simp add: who_line_def)
  have "ssim (fold ?f is s) (fold ?f is e)" if "\<forall>i\<in>set is. i < 31" "ssim s e" for "is" s e
    using that
  proof (induction "is" arbitrary: s e)
    case (Cons i "is")
    then have "ssim (?f i s) (?f i e)" using step [of s e i] by simp
    from Cons.IH [OF _ this] Cons.prems(1) show ?case by simp
  qed simp
  then show ?thesis unfolding rwg_who_def using ssim_updates(1) [OF assms] slots_31 by blast
qed

lemma plain_sim:
  assumes "blind_result (\<lambda>s. ebind (f s) (\<lambda>s. Inr ((), s)))" and "ssim s e"
  shows "agree ssim (f s) (f e)"
  using blind_result_sim [OF assms] by (cases "f s"; cases "f e") (auto simp: agree_def)

lemma builtin_sim:
  assumes "ssim s e"
  shows "rel_option (agree ssim) (rwg_builtin rd c args s) (early_builtin z rd c args e)"
  using assms plain_sim [OF blind_printenv assms] plain_sim [OF blind_batch assms]
  by (simp add: rwg_builtin_def early_builtin_def exit_sim tell_sim yell_sim name_sim who_sim ssim_updates(4))

lemma loop_sim:
  "ssim s e \<Longrightarrow> agree ssim (rwg_loop sys rd cmd n prc procs fd_in out s) (early_loop z sys rd cmd n prc procs fd_in out e)"
proof (induction sys rd cmd n prc procs fd_in out s arbitrary: e rule: rwg_loop.induct)
  case (3 sys rd cmd n prc c args procs fd_in out s)
  note b = builtin_sim [OF 3(3), of rd c args z]
  show ?case
  proof (cases "rwg_builtin rd c args s")
    case None
    moreover obtain fd t where p: "rwg_process sys cmd n prc (c # args) fd_in out s = (fd, t)" by fastforce
    moreover have "agree ssim (rwg_loop sys rd cmd n (prc + 1) procs fd out t)
        (early_loop z sys rd cmd n (prc + 1) procs fd out (snd (rwg_process sys cmd n prc (c # args) fd_in out e)))"
      using 3(1) [OF None refl] p process_sim [OF 3(3) p] by simp
    ultimately show ?thesis using b process_sim(1) [OF 3(3) p] by (simp add: case_prod_unfold Let_def)
  next
    case (Some r)
    then obtain r' where r': "early_builtin z rd c args e = Some r'" "agree ssim r r'" using b by (cases "early_builtin z rd c args e") auto
    show ?thesis
      unfolding rwg_loop.simps early_loop.simps Some r'(1) option.case
      by (rule agree_bind [OF r'(2)]) (use 3(2) [OF Some] ssim_fields(7) in auto)
  qed
qed simp_all

lemma execute_sim:
  assumes "ssim s e"
  shows "agree ssim (rwg_execute sys rd cmd toks s) (early_execute z sys rd cmd toks e)"
proof -
  let ?c = "\<lambda>s. if toks \<noteq> [] \<and> num_pipe_vec s \<noteq> [] then decrease_line_count s else s"
  have c: "ssim (?c s) (?c e)" using assms ssim_updates(3) [OF assms] ssim_fields(4) [OF assms] by simp
  have end_turn: "agree ssim (ebind r (\<lambda>s. Inr (if sh_exited s \<or> line_end_with_pipe s then s else sh_event WaitAll s)))
      (ebind r' (\<lambda>s. Inr (if sh_exited s \<or> line_end_with_pipe s then s else sh_event WaitAll s)))" if "agree ssim r r'" for r r'
    by (rule agree_bind [OF that]) (simp add: ssim_fields ssim_updates(1))
  show ?thesis
    unfolding rwg_execute_def early_execute_def Let_def
    by (rule agree_bind2 [OF parse_sim [OF c]], rule end_turn)
      (simp add: ssim_fields ssim_updates(2) loop_sim)
qed

lemma line_sim:
  assumes "ssim s e"
  shows "agree ssim (rwg_line sys rd raw s) (early_line z sys rd raw e)"
  unfolding rwg_line_def early_line_def
  by (rule blind_bind [OF blind_read_command ssim_updates(8) [OF assms]], rule agree_same)
    (simp add: ssim_fields ssim_updates(2) execute_sim)

lemma announce_sim:
  assumes "msim m m'" and "ix < 31"
  shows "agree msim (announce ix a m) (early_announce z ix a m')"
proof -
  obtain cmd n where a: "a = (cmd, n)" by fastforce
  have "piped_msg (shm m' ! ix) (shm m' ! nat (n - 1)) cmd = piped_msg (shm m ! ix) (shm m ! nat (n - 1)) cmd"
    if "\<not> n < 1" "\<not> 31 < n"
    using that msim_fields [OF assms] msim_fields [OF assms(1), of "nat (n - 1)"] by (simp add: piped_msg_def)
  then show ?thesis
    using broadcast_sim [OF assms(1)] by (auto simp: a announce_def early_announce_def intro!: agree_buffer)
qed

section \<open>The systems agree\<close>

lemma login_sim:
  assumes "msim m m'"
  shows "agree (\<lambda>(i, m) (j, m'). j = i \<and> msim m m' \<and> i < 30) (login sck addr port m) (early_login z sck addr port m')"
proof -
  let ?u = "\<lambda>u. u\<lparr>u_valid := True, u_sock := sck, u_addr := addr, u_name := ''(no name)'',
       u_port := port, u_batch_flag := False, u_ignore := False, u_receive := False\<rparr>"
  have free: "List.find (\<lambda>i. \<not> u_valid (shm m' ! i)) slots = List.find (\<lambda>i. \<not> u_valid (shm m ! i)) slots"
    by (rule find_slot_sim [OF assms]) (simp add: usim_fields)
  have "msim (m\<lparr>shm := (shm m)[i := (?u (shm m ! i))\<lparr>u_msgs := []\<rparr>]\<rparr>) (m'\<lparr>shm := (shm m')[i := ?u (shm m' ! i)]\<rparr>)" if "i < 30" for i
  proof (rule msim_update(2) [OF assms])
    have "usim (shm m ! i) (shm m' ! i)" using msim_nth [OF assms] that by simp
    then show "usim ((?u (shm m ! i))\<lparr>u_msgs := []\<rparr>) (?u (shm m' ! i))"
      by (cases "shm m ! i"; cases "shm m' ! i") (auto simp: usim_def)
  qed
  moreover have "i < 30" if "List.find (\<lambda>i. \<not> u_valid (shm m ! i)) slots = Some i" for i
    using that by (auto simp: find_Some_iff slots_def)
  ultimately show ?thesis
    by (auto simp: login_def early_login_def free split: option.split)
qed

definition gsim :: "rwg_system \<Rightarrow> rwg_system \<Rightarrow> bool" where
  "gsim g h \<longleftrightarrow> msim (sys_shared g) (sys_shared h) \<and> sys_announces h = sys_announces g \<and>
     (\<forall>(i, a)\<in>set (sys_announces g). i < 31) \<and>
     (\<forall>i. rel_option (\<lambda>s e. e = with_shared (shared e) s \<and> user_index s < 30 \<and> i < 31) (sys_shells g i) (sys_shells h i))"

text \<open>What the handlers print: of the messages in the queue the last.\<close>

definition shows_last :: "string list \<Rightarrow> string list \<Rightarrow> bool" where
  "shows_last out out' \<longleftrightarrow> (out \<noteq> [] \<longrightarrow> out' = [last out])"

lemma turn_sim:
  assumes "gsim g h" and "sys_shells g i = Some s" and "sys_shells h i = Some e"
  shows "agree gsim (turn sys rd raw i s g) (early_turn z sys rd raw i e h)"
proof -
  have e: "e = with_shared (shared e) s" "user_index s < 30" "i < 31"
    using assms unfolding gsim_def by (auto dest!: spec [of _ i])
  have "ssim (s\<lparr>shared := sys_shared g, announces := []\<rparr>) (e\<lparr>shared := sys_shared h, announces := []\<rparr>)"
  proof (rule ssim_updates(7))
    have "e\<lparr>shared := sys_shared h\<rparr> = with_shared (sys_shared h) s" by (subst e(1)) (simp add: with_shared_def)
    then show "ssim (s\<lparr>shared := sys_shared g\<rparr>) (e\<lparr>shared := sys_shared h\<rparr>)"
      using assms(1) e(2) by (simp add: ssim_def with_shared_def gsim_def)
  qed
  note l = line_sim [OF this, of sys rd raw z]
  show ?thesis unfolding turn_def early_turn_def
  proof (rule agree_bind [OF l])
    fix t u assume tu: "ssim t u"
    then have "u = with_shared (shared u) t" by (simp add: ssim_def)
    then show "agree gsim
        (Inr \<lparr>sys_shared = shared t, sys_shells = (sys_shells g)(i := if sh_exited t then None else Some t),
              sys_announces = sys_announces g @ map (Pair i) (announces t)\<rparr>)
        (Inr \<lparr>sys_shared = shared u, sys_shells = (sys_shells h)(i := if sh_exited u then None else Some u),
              sys_announces = sys_announces h @ map (Pair i) (announces u)\<rparr>)"
      using assms(1) ssim_fields [OF tu] e(3) by (auto simp: gsim_def)
  qed
qed

lemma handler_sim:
  assumes "msim m m'"
  shows "shows_last (fst (real_broadcast_msg p m)) (early_handler p m')" and "msim (snd (real_broadcast_msg p m)) m'"
proof -
  have f: "List.find (\<lambda>i. u_valid (shm m' ! i) \<and> u_pid (shm m' ! i) = p) slots =
      List.find (\<lambda>i. u_valid (shm m ! i) \<and> u_pid (shm m ! i) = p) slots"
    by (rule find_slot_sim [OF assms]) (simp add: usim_fields)
  show "shows_last (fst (real_broadcast_msg p m)) (early_handler p m')"
  proof (cases "List.find (\<lambda>i. u_valid (shm m ! i) \<and> u_pid (shm m ! i) = p) slots")
    case (Some i)
    then have "usim (shm m ! i) (shm m' ! i)" using msim_nth [OF assms] slots_31 by (auto simp: find_Some_iff)
    then show ?thesis using Some f by (simp add: shows_last_def real_broadcast_msg_def early_handler_def usim_def)
  qed (simp add: shows_last_def real_broadcast_msg_def)
  show "msim (snd (real_broadcast_msg p m)) m'"
  proof (cases "List.find (\<lambda>i. u_valid (shm m ! i) \<and> u_pid (shm m ! i) = p) slots")
    case (Some i)
    then have i: "i < 31" using slots_31 by (auto simp: find_Some_iff)
    from msim_update(2) [OF assms usim_updates(6) [OF msim_nth [OF assms i]], of i] show ?thesis
      using Some by (simp add: real_broadcast_msg_def)
  qed (simp add: real_broadcast_msg_def assms)
qed

lemma log_in_sim:
  assumes "gsim g h"
  shows "agree gsim (log_in (accept_user sockfd sck addr port childpid t next e (sys_shared g)) g)
    (log_in (early_accept_user z sockfd sck addr port childpid t next e (sys_shared h)) h)"
proof -
  have m: "msim (sys_shared g) (sys_shared h)" using assms by (simp add: gsim_def)
  let ?p = "\<lambda>i m. start_session_process sockfd sck i childpid t next e m"
  have "agree gsim
      (ebind (login sck addr port (sys_shared g)) (\<lambda>(i, m). log_in (Inr (i, ?p i m)) g))
      (ebind (early_login z sck addr port (sys_shared h)) (\<lambda>(i, m). log_in (Inr (i, ?p i m)) h))"
  proof (rule agree_bind [OF login_sim [OF m]], clarify)
    fix i :: nat and m1 m2 assume m12: "msim m1 m2" and i: "i < 30"
    show "agree gsim (log_in (Inr (i, ?p i m1)) g) (log_in (Inr (i, ?p i m2)) h)"
    proof (cases childpid)
      case None
      then show ?thesis using assms m12 by (auto simp: log_in_def start_session_process_def gsim_def)
    next
      case (Some p)
      let ?m = "login_child i p m1" and ?m' = "login_child i p m2"
      have mm: "msim ?m ?m'"
        using msim_update(2) [OF m12 usim_updates(4) [OF msim_nth [OF m12]], of i i] i by (simp add: login_child_def)
      have "login_closes i ?m' = login_closes i ?m"
        using filter_slot_sim [OF mm] msim_fields [OF mm] slots_31
        unfolding login_closes_def by (intro map_cong filter_cong refl) (auto simp: msim_fields [OF mm])
      then have "rwg_start i ?m' (session_fds sockfd sck (login_closes i ?m') t) next e =
          with_shared ?m' (rwg_start i ?m (session_fds sockfd sck (login_closes i ?m) t) next e)"
        using msim_fields [OF mm, of i] i by (simp add: rwg_start_def with_shared_def)
      then show ?thesis
        using assms mm i Some
        by (auto simp: log_in_def start_session_process_def Let_def gsim_def with_shared_def rwg_start_def)
    qed
  qed
  then show ?thesis
    by (simp add: log_in_def accept_user_def early_accept_user_def case_prod_unfold ebind_assoc)
qed

lemma act_sim:
  assumes "gsim g h"
  shows "agree (\<lambda>(g, out) (h, out'). gsim g h \<and> shows_last out out') (rwg_act sys rd ev g) (early_act z sys rd ev h)"
proof -
  let ?R = "\<lambda>(g, out) (h, out'). gsim g h \<and> shows_last out out'"
  have quiet: "agree ?R (ebind r (\<lambda>g. Inr (g, []))) (ebind r' (\<lambda>h. Inr (h, [])))" if "agree gsim r r'" for r r'
    by (rule agree_bind [OF that]) (simp add: shows_last_def)
  have m: "msim (sys_shared g) (sys_shared h)" and a: "sys_announces h = sys_announces g" using assms by (simp_all add: gsim_def)
  show ?thesis
  proof (cases ev)
    case (Connects sockfd sck addr port p t nx e)
    then show ?thesis using quiet [OF log_in_sim [OF assms]] by (simp add: rwg_act_def early_act_def)
  next
    case (Turn i raw)
    have "rel_option (\<lambda>s e. e = with_shared (shared e) s \<and> user_index s < 30 \<and> i < 31) (sys_shells g i) (sys_shells h i)"
      using assms by (simp add: gsim_def)
    then show ?thesis using Turn assms quiet [OF turn_sim [OF assms]]
      by (cases "sys_shells g i"; cases "sys_shells h i") (auto simp: rwg_act_def early_act_def shows_last_def)
  next
    case (Handles p)
    have "gsim (g\<lparr>sys_shared := signalled p (snd (real_broadcast_msg p (sys_shared g)))\<rparr>) (h\<lparr>sys_shared := signalled p (sys_shared h)\<rparr>)"
      using assms handler_sim(2) [OF m, of p] by (auto simp: gsim_def msim_def signalled_def)
    then show ?thesis using Handles assms handler_sim(1) [OF m, of p] msim_kills [OF m]
      by (auto simp: rwg_act_def early_act_def shows_last_def case_prod_unfold Let_def)
  next
    case (Announces k)
    show ?thesis
    proof (cases "length (sys_announces g) \<le> k")
      case False
      obtain i b where ib: "sys_announces g ! k = (i, b)" by (cases "sys_announces g ! k")
      moreover have "sys_announces g ! k \<in> set (sys_announces g)" using False by simp
      ultimately have "i < 31" using assms by (auto simp: gsim_def)
      note an = announce_sim [OF m this, of b z]
      have "agree ?R (ebind (announce i b (sys_shared g)) (\<lambda>m. Inr (g\<lparr>sys_shared := m, sys_announces := take k (sys_announces g) @ drop (k + 1) (sys_announces g)\<rparr>, [])))
          (ebind (early_announce z i b (sys_shared h)) (\<lambda>m. Inr (h\<lparr>sys_shared := m, sys_announces := take k (sys_announces g) @ drop (k + 1) (sys_announces g)\<rparr>, [])))"
        by (rule agree_bind [OF an]) (use assms in \<open>auto simp: gsim_def shows_last_def dest: in_set_takeD in_set_dropD\<close>)
      then show ?thesis using Announces False ib a by (simp add: rwg_act_def early_act_def)
    qed (use Announces assms a in \<open>simp add: rwg_act_def early_act_def shows_last_def\<close>)
  qed
qed

lemma acts_sim:
  "gsim g h \<Longrightarrow> agree (\<lambda>(g, outs) (h, outs'). gsim g h \<and> list_all2 shows_last outs outs')
     (rwg_acts sys rd evs g) (early_acts z sys rd evs h)"
proof (induction evs arbitrary: g h)
  case (Cons ev evs)
  show ?case unfolding rwg_acts.simps early_acts.simps
  proof (rule agree_bind [OF act_sim [OF Cons.prems]], clarsimp)
    fix g h out out' assume gh: "gsim g h" and o: "shows_last out out'"
    show "agree (\<lambda>(g, outs) (h, outs'). gsim g h \<and> list_all2 shows_last outs outs')
        (ebind (rwg_acts sys rd evs g) (\<lambda>(g, outs). Inr (g, out # outs)))
        (ebind (early_acts z sys rd evs h) (\<lambda>(g, outs). Inr (g, out' # outs)))"
      by (rule agree_bind [OF Cons.IH [OF gh]]) (use o in auto)
  qed
qed simp

section \<open>The properties\<close>

definition boot_system :: rwg_system where
  "boot_system = \<lparr>sys_shared = rwg_boot, sys_shells = (\<lambda>_. None), sys_announces = []\<rparr>"

lemma boot_sim: "gsim boot_system boot_system"
proof -
  have "u_msgs (shm rwg_boot ! i) = []" if "i < 31" for i
    using boot_users(2) [of i] boot_users(3) that by (cases "i = 30") (auto simp: zero_user_def)
  then have "msim rwg_boot rwg_boot" by (simp add: msim_def usim_def list_all2_conv_all_nth boot_users(1))
  then show ?thesis by (simp add: gsim_def boot_system_def)
qed

text \<open>
  C26. The part 3 server is the final one with a shorter memory.  From the start, over every sequence of logins,
  lines, signals and announcements, both do the same: the same users, pipes, names, shells, children and signals, and
  each handler of the part 3 server prints the last of the messages that the final one prints, when there is one.  They
  fail for the same reason, unless a buffer of one of them is too small.\<close>

theorem early_server_simulates:
  "rwg_acts sys rd evs boot_system = Inl BufferOverflow \<or> early_acts z sys rd evs boot_system = Inl BufferOverflow \<or>
   (\<exists>e. rwg_acts sys rd evs boot_system = Inl e \<and> early_acts z sys rd evs boot_system = Inl e) \<or>
   (\<exists>g outs h outs'. rwg_acts sys rd evs boot_system = Inr (g, outs) \<and> early_acts z sys rd evs boot_system = Inr (h, outs')
      \<and> gsim g h \<and> list_all2 shows_last outs outs')"
proof -
  have "agree (\<lambda>(g, outs) (h, outs'). gsim g h \<and> list_all2 shows_last outs outs')
      (rwg_acts sys rd evs boot_system) (early_acts z sys rd evs boot_system)" by (rule acts_sim [OF boot_sim])
  then show ?thesis by (cases rule: agree_cases) auto
qed

definition demo_h :: user_h where
  "demo_h = \<lparr>addr_size = 20, name_size = 30, row_size = 200\<rparr>"

text \<open>A user logs in and sends itself a message, and its handler runs: neither server fails.\<close>

definition demo_tell :: "rwg_event list" where
  "demo_tell = [Connects 3 4 ''10.0.0.1'' 4001 (Some 100) demo_fds 0 Map.empty, Turn 0 (''tell 1 hi'' @ [CR, NL]), Handles 100]"

definition all_printed :: "(rwg_system \<times> string list list) result \<Rightarrow> string list list option" where
  "all_printed r = (case r of Inl _ \<Rightarrow> None | Inr (g, outs) \<Rightarrow> Some outs)"

lemma demo_tell_run:
  "all_printed (rwg_acts demo_os Map.empty demo_tell boot_system) = Some [[], [], [tell_msg ''(no name)'' ''hi '']]"
  by code_simp

lemma demo_tell_early_run:
  "all_printed (early_acts demo_h demo_os Map.empty demo_tell boot_system) = Some [[], [], [tell_msg ''(no name)'' ''hi '']]"
  by code_simp

text \<open>The buffer after a broadcast.\<close>

definition buffered :: "string \<Rightarrow> user \<Rightarrow> user" where
  "buffered row u = (if u_valid u then u\<lparr>u_msgs := [row], u_receive := True\<rparr> else u)"

lemma early_loop_spec:
  assumes "c_format msg = Inr row" and "length row < row_size z" and "distinct is" and "\<forall>i\<in>set is. i < length (shm m)"
  shows "\<exists>m'. early_broadcast_loop z is msg m = Inr m' \<and> length (shm m') = length (shm m)
    \<and> (\<forall>j. shm m' ! j = (if j \<in> set is then buffered row (shm m ! j) else shm m ! j))"
  using assms(3,4)
proof (induction "is" arbitrary: m)
  case (Cons i "is")
  show ?case
  proof (cases "u_valid (shm m ! i)")
    case True
    let ?m = "m\<lparr>shm := (shm m)[i := buffered row (shm m ! i)], kills := kills m @ [u_pid (shm m ! i)]\<rparr>"
    have n: "early_notify z i msg m = Inr ?m" using assms(1,2) True by (simp add: early_notify_def buffered_def Let_def)
    from Cons.IH [of ?m] obtain m' where m': "early_broadcast_loop z is msg ?m = Inr m'"
      "length (shm m') = length (shm m)"
      "\<forall>j. shm m' ! j = (if j \<in> set is then buffered row (shm ?m ! j) else shm ?m ! j)" using Cons.prems by auto
    show ?thesis
      by (rule exI [of _ m']) (use n m' True Cons.prems in \<open>auto simp: nth_list_update\<close>)
  next
    case False
    then have "buffered row (shm m ! i) = shm m ! i" by (simp add: buffered_def)
    with Cons.IH [of m] Cons.prems False show ?thesis by auto
  qed
qed auto

lemma early_broadcast_spec:
  assumes "length (shm m) = 31" and "CHR ''%'' \<notin> set msg" and "length msg < row_size z"
  obtains m' where "early_broadcast z msg m = Inr m'" "length (shm m') = 31"
    "\<And>j. j < 30 \<Longrightarrow> shm m' ! j = buffered msg (shm m ! j)"
  using early_loop_spec [OF c_format_plain [OF assms(2)] assms(3), of slots m] assms(1) that
  by (auto simp: early_broadcast_def slots_def)

text \<open>
  C27. Of two messages before the signal is handled the part 3 server loses the first: both broadcasts succeed, and the
  handler of every user prints the second alone, where the queue of the final version has both, in order.\<close>

theorem early_message_lost:
  assumes "length (shm m) = 31" and "CHR ''%'' \<notin> set a" and "CHR ''%'' \<notin> set b"
    and "length a < row_size z" and "length b < row_size z" and "length a < 1500" and "length b < 1500"
    and "i < 30" and "u_valid (shm m ! i)"
    and "\<And>j. j < 30 \<Longrightarrow> u_valid (shm m ! j) \<Longrightarrow> u_pid (shm m ! j) = u_pid (shm m ! i) \<Longrightarrow> j = i"
  shows "\<exists>m1 m2. early_broadcast z a m = Inr m1 \<and> early_broadcast z b m1 = Inr m2
    \<and> early_handler (u_pid (shm m ! i)) m2 = [b]
    \<and> (\<forall>f1 f2. broadcast_msg a m = Inr f1 \<longrightarrow> broadcast_msg b f1 = Inr f2 \<longrightarrow>
        fst (real_broadcast_msg (u_pid (shm m ! i)) f2) = u_msgs (shm m ! i) @ [a, b])"
proof -
  obtain m1 where m1: "early_broadcast z a m = Inr m1" "length (shm m1) = 31"
    "\<And>j. j < 30 \<Longrightarrow> shm m1 ! j = buffered a (shm m ! j)" using early_broadcast_spec [OF assms(1,2,4)] by metis
  obtain m2 where m2: "early_broadcast z b m1 = Inr m2" "\<And>j. j < 30 \<Longrightarrow> shm m2 ! j = buffered b (shm m1 ! j)"
    using early_broadcast_spec [OF m1(2) assms(3,5)] by metis
  have fields: "u_valid (buffered row u) = u_valid u" "u_pid (buffered row u) = u_pid u"
    "u_valid (queued row u) = u_valid u" "u_pid (queued row u) = u_pid u" for row u
    by (simp_all add: buffered_def queued_def)
  have "List.find (\<lambda>j. u_valid (shm m2 ! j) \<and> u_pid (shm m2 ! j) = u_pid (shm m ! i)) slots = Some i"
    by (rule find_slot_unique [OF assms(8)]) (use assms(8-10) m1(3) m2(2) in \<open>auto simp: fields\<close>)
  then have "early_handler (u_pid (shm m ! i)) m2 = [b]"
    using assms(8,9) m1(3) m2(2) by (simp add: early_handler_def fields) (simp add: buffered_def)
  moreover have "fst (real_broadcast_msg (u_pid (shm m ! i)) f2) = u_msgs (shm m ! i) @ [a, b]"
    if f: "broadcast_msg a m = Inr f1" "broadcast_msg b f1 = Inr f2" for f1 f2
  proof -
    have l: "length (shm f1) = 31" using same_core_length [OF broadcast_same_core [OF f(1)]] assms(1) by simp
    have at: "shm f2 ! j = queued b (queued a (shm m ! j))" if "j < 30" for j
      using broadcast_nth [OF f(1) assms(1) c_format_plain [OF assms(2)] assms(6) that]
        broadcast_nth [OF f(2) l c_format_plain [OF assms(3)] assms(7) that] by simp
    have "List.find (\<lambda>j. u_valid (shm f2 ! j) \<and> u_pid (shm f2 ! j) = u_pid (shm m ! i)) slots = Some i"
      by (rule find_slot_unique [OF assms(8)]) (use assms(8-10) at in \<open>auto simp: fields\<close>)
    then show ?thesis using at [OF assms(8)] assms(9) by (simp add: real_broadcast_msg_def queued_def)
  qed
  ultimately show ?thesis using m1(1) m2(1) by blast
qed

theorem early_message_lost_witness:
  "\<exists>m1 m2. early_broadcast demo_h ''one'' demo_shared = Inr m1 \<and> early_broadcast demo_h ''two'' m1 = Inr m2
    \<and> early_handler 101 m2 = [''two'']"
proof -
  have h: "length (shm demo_shared) = 31" "u_valid (shm demo_shared ! 1)" "u_pid (shm demo_shared ! 1) = 101"
    "list_all (\<lambda>j. (u_valid (shm demo_shared ! j) \<and> u_pid (shm demo_shared ! j) = 101) \<longrightarrow> j = 1) [0..<30]"
    by code_simp+
  have u: "j = 1" if "j < 30" "u_valid (shm demo_shared ! j)"
    "u_pid (shm demo_shared ! j) = u_pid (shm demo_shared ! 1)" for j
    using h(4) that unfolding h(3) list_all_iff by force
  have msg: "CHR ''%'' \<notin> set ''one''" "CHR ''%'' \<notin> set ''two''" "length ''one'' < row_size demo_h"
    "length ''two'' < row_size demo_h" "length ''one'' < 1500" "length ''two'' < 1500" "(1::nat) < 30"
    by (simp_all add: demo_h_def)
  from early_message_lost [OF h(1) msg h(2) u] show ?thesis unfolding h(3) by blast
qed

end
