(* ===== verification/Passive_Open.thy ===== *)
theory Passive_Open
  imports Fork_Server Posix
begin

text \<open>
  How the three servers of project 2 get their listening socket: the same calls in
  \<^verbatim>\<open>passiveTCP\<close> of \<^verbatim>\<open>np_single_proc.cpp\<close> and at the start of \<^verbatim>\<open>main\<close> in \<^verbatim>\<open>np_simple.cpp\<close> and
  \<^verbatim>\<open>np_multi_proc.cpp\<close>.  \<^verbatim>\<open>err_dump\<close> only writes a message: every failure is passed over.
\<close>

text \<open>
  What the kernel answers: the socket, which \<^verbatim>\<open>socket\<close> may refuse, whether \<^verbatim>\<open>bind\<close> takes the port, and
  the port that \<^verbatim>\<open>listen\<close> chooses for a socket that is not bound to one.
\<close>

record net =
  net_socket :: bool
  net_bind :: "nat \<Rightarrow> bool"
  net_free_port :: nat

text \<open>The result: the descriptor, -1 as \<^const>\<open>None\<close>, the port the socket listens on, the messages, the table.\<close>

record listening =
  ls_fd :: "nat option"
  ls_port :: "nat option"
  ls_errors :: "string list"
  ls_fds :: fdtable

text \<open>\<^verbatim>\<open>htons\<close> takes the port as 16 bits without a sign.\<close>

definition htons_port :: "int \<Rightarrow> nat" where
  "htons_port port = unat (word_of_int port :: 16 word)"

definition passiveTCP :: "net \<Rightarrow> int \<Rightarrow> fdtable \<Rightarrow> listening" where
  "passiveTCP nw port t =
     (let (fd, t) = (if net_socket nw then (let (fd, t) = fd_alloc (Opened ''socket'') t in (Some fd, t)) else (None, t));
          e1 = (if fd = None then [''server: can't open stream socket''] else []);
          bound = (fd \<noteq> None \<and> net_bind nw (htons_port port));
          e2 = (if bound then [] else [''server: can't bind local address'']);
          p = (if fd = None then None
               else if bound \<and> htons_port port \<noteq> 0 then Some (htons_port port) else Some (net_free_port nw))
      in \<lparr>ls_fd = fd, ls_port = p, ls_errors = e1 @ e2, ls_fds = t\<rparr>)"

text \<open>\<^verbatim>\<open>main\<close> reads its first argument without looking at their number.\<close>

definition start_listening :: "net \<Rightarrow> string list \<Rightarrow> fdtable \<Rightarrow> listening result" where
  "start_listening nw argv t =
     (case argv of _ # port # _ \<Rightarrow> Inr (passiveTCP nw (atoi port) t) | _ \<Rightarrow> Inl NullDeref)"

lemma htons_port_nat: "n < 65536 \<Longrightarrow> htons_port (int n) = n"
  by (simp add: htons_port_def unsigned_of_nat take_bit_nat_def)

lemma htons_port_mod: "htons_port (int n) = n mod 65536"
  by (simp add: htons_port_def unsigned_of_nat take_bit_nat_def)

text \<open>
  A server listens on the port it was told, modulo 65536, only when the port can be bound; when it is
  taken, the server reports that and listens on some other port all the same, where nobody looks for
  it.\<close>

theorem listening_port:
  assumes "n < 2 ^ 31" and "net_socket nw" and "n mod 65536 \<noteq> 0"
  shows "\<exists>l. start_listening nw [prog, dec_nat n] t = Inr l \<and> ls_fd l = Some (lowest_fd t)
    \<and> ls_port l = Some (if net_bind nw (n mod 65536) then n mod 65536 else net_free_port nw)
    \<and> (ls_errors l = [] \<longleftrightarrow> net_bind nw (n mod 65536))"
proof -
  have a: "atoi (dec_nat n) = int n" using assms(1) by (simp add: atoi_dec_nat)
  show ?thesis
    using assms(2,3) by (simp add: start_listening_def a passiveTCP_def htons_port_mod fd_alloc_def Let_def)
qed

theorem listening_port_witness:
  "\<exists>l. start_listening \<lparr>net_socket = True, net_bind = (\<lambda>p. p \<noteq> 7000), net_free_port = 41234\<rparr>
      [''./np_simple'', ''7000''] [None, None, None, None] = Inr l \<and> ls_port l = Some 41234 \<and> ls_errors l \<noteq> []"
proof -
  have d: "''7000'' = dec_nat 7000" by (simp add: dec_nat.simps)
  show ?thesis
    using listening_port [of 7000 "\<lparr>net_socket = True, net_bind = (\<lambda>p. p \<noteq> 7000), net_free_port = 41234\<rparr>"
        "''./np_simple''" "[None, None, None, None]"]
    unfolding d [symmetric] by auto
qed

end
