(* ===== verification/Rwg_Shutdown.thy ===== *)
theory Rwg_Shutdown
  imports Rwg_Server Passive_Open
begin

text \<open>
  The beginning and the end of the multi-process server \<^verbatim>\<open>np_multi_proc.cpp\<close>: what \<^verbatim>\<open>main\<close> finds under
  its keys and how it sets it up, and the handler of \<^verbatim>\<open>SIGINT\<close>, which the processes of the sessions
  inherit.
\<close>

section \<open>What outlives a process\<close>

text \<open>
  The shared segment under its key, with its content, and the set of semaphores.
\<close>

record ipc =
  ipc_segment :: "user list option"
  ipc_sems :: "semset option"

definition SEMKEY1 :: int where
  "SEMKEY1 = 7891"

section \<open>The start\<close>

text \<open>
  \<^verbatim>\<open>shmget\<close> with \<^verbatim>\<open>IPC_CREAT\<close> takes the segment that is there and makes a zero one otherwise; then
  the semaphore, and the loop that numbers the users.  \<^const>\<open>None\<close> is waiting for the lock of the set.
\<close>

definition rwg_setup :: "int \<Rightarrow> ipc \<Rightarrow> (ipc \<times> shared) option" where
  "rwg_setup p k =
     (let us = (case ipc_segment k of None \<Rightarrow> fresh_segment | Some us \<Rightarrow> us)
      in case sem_create p SEMKEY1 1 (ipc_sems k) of
           Waits \<Rightarrow> None
         | Fails \<Rightarrow> Some (k\<lparr>ipc_segment := Some (init_users us)\<rparr>, \<lparr>shm = init_users us, kills = []\<rparr>)
         | Continues s \<Rightarrow>
             Some (k\<lparr>ipc_segment := Some (init_users us), ipc_sems := s\<rparr>, \<lparr>shm = init_users us, kills = []\<rparr>))"

section \<open>The end\<close>

text \<open>
  \<^verbatim>\<open>server_exit\<close> in the process \<open>p\<close>, with what it writes, and the end of the process.  Without a set
  every call on it fails and is reported.
\<close>

definition server_exit :: "int \<Rightarrow> ipc \<Rightarrow> (ipc \<times> string list) option" where
  "server_exit p k =
     (let msgs = (if ipc_segment k = None then [''share memory close erro'' @ [NL]] else []) @ [''SEVER QUIT!'' @ [NL]];
          k = k\<lparr>ipc_segment := None\<rparr>
      in case ipc_sems k of
           None \<Rightarrow> Some (k, msgs @ [''can't semop'', ''can't GETVAL'', ''can't unlock''])
         | Some s \<Rightarrow>
             (case sem_close p s of
                Waits \<Rightarrow> None
              | Fails \<Rightarrow> Some (k\<lparr>ipc_sems := Some (sem_exit p s)\<rparr>, msgs)
              | Continues s \<Rightarrow> Some (k\<lparr>ipc_sems := map_option (sem_exit p) s\<rparr>, msgs)))"

section \<open>What a restart finds\<close>

lemma init_users_nth:
  assumes "length us = 31"
  shows "length (init_users us) = 31"
    and "i < 30 \<Longrightarrow> init_users us ! i = (us ! i)\<lparr>u_valid := False, u_id := int i + 1\<rparr>"
    and "init_users us ! 30 = us ! 30"
proof -
  have *: "length (fold (\<lambda>i us. us[i := (us ! i)\<lparr>u_valid := False, u_id := int i + 1\<rparr>]) [0..<n] us) = length us"
    "n \<le> length us \<Longrightarrow> fold (\<lambda>i us. us[i := (us ! i)\<lparr>u_valid := False, u_id := int i + 1\<rparr>]) [0..<n] us ! j =
      (if j < n then (us ! j)\<lparr>u_valid := False, u_id := int j + 1\<rparr> else us ! j)" for n j and us :: "user list"
    by (induction n) (auto simp: nth_list_update)
  show "length (init_users us) = 31"
    and "i < 30 \<Longrightarrow> init_users us ! i = (us ! i)\<lparr>u_valid := False, u_id := int i + 1\<rparr>"
    and "init_users us ! 30 = us ! 30"
    using assms by (simp_all add: init_users_def slots_def *)
qed

lemma init_users_records: "length us = 31 \<Longrightarrow> i < 31 \<Longrightarrow> name_pipe_record (init_users us ! i) = name_pipe_record (us ! i)"
  using init_users_nth(2) [of us i] init_users_nth(3) [of us] by (cases "i = 30") auto

lemma login_records:
  assumes "login sck addr port m = Inr (j, m')" and "length (shm m) = 31" and "i < 31"
  shows "name_pipe_record (shm m' ! i) = name_pipe_record (shm m ! i)"
proof -
  obtain u where "shm m' = (shm m)[j := u]" "name_pipe_record u = name_pipe_record (shm m ! j)"
    using assms(1) by (auto simp: login_def split: option.splits if_splits)
  then show ?thesis using assms(2,3) by (cases "i = j") simp_all
qed

text \<open>
  A server that was killed leaves its segment behind, and the next one does not start anew: it frees
  the slots, but keeps every recorded user pipe, and a login does not clear it either, so users are
  told of pipes that nobody alive has made.\<close>

theorem restart_keeps_user_pipes:
  assumes "rwg_setup p \<lparr>ipc_segment = Some us, ipc_sems = sems\<rparr> = Some (k, m)" and "length us = 31"
    and "check_name_pipe_exist a b us" and "b < 31" and "login sck addr port m = Inr (i, m')"
  shows "(\<forall>j<30. \<not> u_valid (shm m ! j)) \<and> check_name_pipe_exist a b (shm m')"
proof -
  have m: "shm m = init_users us"
    using assms(1) by (auto simp: rwg_setup_def Let_def split: sem_outcome.splits)
  then have "name_pipe_record (shm m' ! b) = name_pipe_record (us ! b)"
    using login_records [OF assms(5)] init_users_records [OF assms(2,4)] init_users_nth(1) [OF assms(2)] assms(4) by simp
  then show ?thesis using assms(3) m init_users_nth(2) [OF assms(2)] by (simp add: check_name_pipe_exist_def)
qed

section \<open>An interrupted session\<close>

text \<open>
  The handler of the server runs in its sessions too: a single session that is interrupted removes the
  shared segment and the semaphores of all of them, since it closes a set that it has not opened and
  so appears to be its last user; the server that ends afterwards finds neither.\<close>

theorem interrupted_session_removes_everything:
  assumes "in_use 1 s"
  shows "server_exit q \<lparr>ipc_segment = Some us, ipc_sems = Some s\<rparr>
      = Some (\<lparr>ipc_segment = None, ipc_sems = None\<rparr>, [''SEVER QUIT!'' @ [NL]])
    \<and> server_exit p \<lparr>ipc_segment = None, ipc_sems = None\<rparr>
      = Some (\<lparr>ipc_segment = None, ipc_sems = None\<rparr>, [''share memory close erro'' @ [NL], ''SEVER QUIT!'' @ [NL],
          ''can't semop'', ''can't GETVAL'', ''can't unlock''])"
proof -
  have "sem_close q s = Continues None" using sem_close_last [OF assms] .
  then show ?thesis by (simp add: server_exit_def)
qed

definition demo_left :: "user list" where
  "demo_left = fresh_segment[2 := zero_user\<lparr>name_pipe_record := (replicate 31 False)[1 := True]\<rparr>]"

theorem restart_keeps_user_pipes_witness:
  "\<exists>k m i m'. rwg_setup 1 \<lparr>ipc_segment = Some demo_left, ipc_sems = None\<rparr> = Some (k, m)
    \<and> login 4 ''10.0.0.1'' 4000 m = Inr (i, m') \<and> check_name_pipe_exist 1 2 (shm m')"
proof -
  have "case rwg_setup 1 \<lparr>ipc_segment = Some demo_left, ipc_sems = None\<rparr> of None \<Rightarrow> False
      | Some (k, m) \<Rightarrow> (case login 4 ''10.0.0.1'' 4000 m of Inl _ \<Rightarrow> False | Inr _ \<Rightarrow> True)" by code_simp
  then obtain k m where s: "rwg_setup 1 \<lparr>ipc_segment = Some demo_left, ipc_sems = None\<rparr> = Some (k, m)"
    and "case login 4 ''10.0.0.1'' 4000 m of Inl _ \<Rightarrow> False | Inr _ \<Rightarrow> True"
    by (auto split: option.split_asm prod.split_asm)
  then obtain i m' where l: "login 4 ''10.0.0.1'' 4000 m = Inr (i, m')"
    by (cases "login 4 ''10.0.0.1'' 4000 m") auto
  have d: "length demo_left = 31" "check_name_pipe_exist 1 2 demo_left" by code_simp+
  from restart_keeps_user_pipes [OF s d _ l] s l show ?thesis by auto
qed

theorem interrupted_session_removes_everything_witness:
  "server_exit 42 \<lparr>ipc_segment = Some fresh_segment, ipc_sems = Some (demo_set 1 0)\<rparr>
     = Some (\<lparr>ipc_segment = None, ipc_sems = None\<rparr>, [''SEVER QUIT!'' @ [NL]])"
proof -
  have "in_use 1 (demo_set 1 0)" by (simp add: in_use_def demo_set_def BIGCOUNT_def)
  from interrupted_session_removes_everything [OF this] show ?thesis by blast
qed

end
