(* ===== verification/Sp_Shell.thy ===== *)
theory Sp_Shell
  imports Rwg_Exec
begin

text \<open>
  The shell of the single-process remote working ground, \<^verbatim>\<open>nctu_np_project2/final/npshell_2.h\<close> with
  the table of \<^verbatim>\<open>user_2.h\<close>.  One process serves all users: each call of \<^verbatim>\<open>npshell\<close> runs one line of one
  user, the user pipes are pipes of that process, and messages are written straight to the users'
  sockets.  Numbered pipes and redirection are again the definitions of \<^theory_text>\<open>Shell_P1\<close>.
\<close>

section \<open>State\<close>

text \<open>\<^verbatim>\<open>struct User\<close>; \<open>su_name_pipe\<close> are the two descriptors of the pipe from each possible sender.\<close>

record sp_user =
  su_valid :: bool
  su_id :: int
  su_sock :: nat
  su_env :: string
  su_addr :: string
  su_name :: string
  su_port :: int
  su_batch_flag :: bool
  su_ignore :: bool
  su_pipes :: "number_pipe list"
  su_name_pipe :: "(nat \<times> nat) list"

definition zero_sp_user :: sp_user where
  "zero_sp_user = \<lparr>su_valid = False, su_id = 0, su_sock = 0, su_env = [], su_addr = [], su_name = [],
     su_port = 0, su_batch_flag = False, su_ignore = False, su_pipes = [],
     su_name_pipe = replicate 30 (0, 0)\<rparr>"

text \<open>
  The process while it runs a line of user \<open>sp_index\<close>: \<open>num_pipe_vec\<close> is that user's vector, which
  is taken from the table and put back.  \<open>sp_records ! a ! b\<close> is \<^verbatim>\<open>name_pipe_record[a][b]\<close>, by user
  numbers; \<open>sp_junk\<close> is what the uninitialised array \<^verbatim>\<open>name_pipe_out_file\<close> holds.
\<close>

record sp = npshell +
  sp_index :: nat
  sp_users :: "sp_user list"
  sp_records :: "bool list list"
  sp_in_flag :: bool
  sp_out_flag :: bool
  sp_sender :: int
  sp_out_id :: int
  sp_junk :: string

definition sp_me :: "sp \<Rightarrow> sp_user" where
  "sp_me s = sp_users s ! sp_index s"

definition update_user :: "nat \<Rightarrow> (sp_user \<Rightarrow> sp_user) \<Rightarrow> sp \<Rightarrow> sp" where
  "update_user i f s = s\<lparr>sp_users := (sp_users s)[i := f (sp_users s ! i)]\<rparr>"

section \<open>The table\<close>

definition sp_id_exist :: "int \<Rightarrow> sp_user list \<Rightarrow> bool" where
  "sp_id_exist n us \<longleftrightarrow> list_ex (\<lambda>i. su_valid (us ! i) \<and> int i = n - 1) slots"

definition sp_pipe_exist :: "nat \<Rightarrow> nat \<Rightarrow> bool list list \<Rightarrow> bool" where
  "sp_pipe_exist sender receiver m \<longleftrightarrow> m ! sender ! receiver"

definition sp_name_exist :: "string \<Rightarrow> sp_user list \<Rightarrow> bool" where
  "sp_name_exist nm us \<longleftrightarrow> list_ex (\<lambda>i. su_valid (us ! i) \<and> su_name (us ! i) = nm) slots"

definition set_record :: "nat \<Rightarrow> nat \<Rightarrow> bool \<Rightarrow> bool list list \<Rightarrow> bool list list" where
  "set_record a b v m = m[a := (m ! a)[b := v]]"

definition sp_clear_records :: "nat \<Rightarrow> bool list list \<Rightarrow> bool list list" where
  "sp_clear_records ix m =
     fold (\<lambda>i m. fold (\<lambda>j m. if i = ix + 1 \<or> j = ix + 1 then set_record i j False m else m) [1..<31] m)
       [1..<31] m"

text \<open>\<^verbatim>\<open>broadcast_msg\<close> writes to the socket of every valid user.\<close>

definition sends :: "string \<Rightarrow> sp_user list \<Rightarrow> event list" where
  "sends msg us = map (\<lambda>i. Send (su_sock (us ! i)) msg) (filter (\<lambda>i. su_valid (us ! i)) slots)"

definition sp_broadcast :: "string \<Rightarrow> sp \<Rightarrow> sp" where
  "sp_broadcast msg s = s\<lparr>sh_log := sh_log s @ sends msg (sp_users s)\<rparr>"

section \<open>User pipes\<close>

definition sp_received_msg :: "sp_user \<Rightarrow> sp_user \<Rightarrow> int \<Rightarrow> string \<Rightarrow> string" where
  "sp_received_msg u from n cmd =
     ''*** '' @ su_name u @ '' (#'' @ to_string (su_id u) @ '') just received from '' @ su_name from @
     '' (#'' @ to_string n @ '') by '' @ quoted cmd @ '' ***'' @ [NL]"

definition sp_piped_msg :: "sp_user \<Rightarrow> sp_user \<Rightarrow> string \<Rightarrow> string" where
  "sp_piped_msg u to cmd =
     ''*** '' @ su_name u @ '' (#'' @ to_string (su_id u) @ '') just piped '' @ quoted cmd @ '' to '' @
     su_name to @ '' (#'' @ to_string (su_id to) @ '') ***'' @ [NL]"

text \<open>
  An error in the line makes \<^verbatim>\<open>npshell\<close> return at once: the flag of the result says whether it goes
  on.
\<close>

definition sp_pipe_in :: "string \<Rightarrow> string \<Rightarrow> sp \<Rightarrow> (bool \<times> sp) result" where
  "sp_pipe_in cmd w s =
     (case strtok_first (\<lambda>c. c = CHR ''<'') w of
        None \<Rightarrow> Inl NullDeref
      | Some digits \<Rightarrow>
          (let n = atoi digits; us = sp_users s; ix = sp_index s; s = s\<lparr>sp_sender := n\<rparr>
           in if \<not> sp_id_exist n us then Inr (False, sh_event (Output (no_user_msg n)) s)
              else if sp_pipe_exist (nat n) (ix + 1) (sp_records s) then
                ebind (into_buffer 300 (sp_received_msg (us ! ix) (us ! nat (n - 1)) n cmd))
                  (\<lambda>msg. Inr (True, sp_broadcast msg (s\<lparr>sp_in_flag := True,
                     sp_records := set_record (nat n) (ix + 1) False (sp_records s)\<rparr>)))
              else Inr (False, sh_event (Output (pipe_missing_msg n (int ix + 1))) s)))"

definition sp_pipe_out :: "string \<Rightarrow> sp \<Rightarrow> (bool \<times> sp) result" where
  "sp_pipe_out w s =
     (case strtok_first (\<lambda>c. c = CHR ''>'') w of
        None \<Rightarrow> Inl NullDeref
      | Some digits \<Rightarrow>
          (let n = atoi digits; ix = sp_index s; s = s\<lparr>sp_out_id := n\<rparr>
           in if \<not> sp_id_exist n (sp_users s) then Inr (False, sh_event (Output (no_user_msg n)) s)
              else if \<not> sp_pipe_exist (ix + 1) (nat n) (sp_records s) then
                (let (r, w, s) = sys_pipe s;
                     s = update_user (nat (n - 1)) (\<lambda>u. u\<lparr>su_name_pipe := (su_name_pipe u)[ix := (r, w)]\<rparr>) s
                 in Inr (True, s\<lparr>sp_records := set_record (ix + 1) (nat n) True (sp_records s),
                                 sp_out_flag := True\<rparr>))
              else Inr (False, sh_event (Output (pipe_exists_msg (int ix + 1) n)) s)))"

section \<open>Parsing\<close>

text \<open>\<^const>\<open>None\<close> in place of the words or of the processes is the early return.\<close>

fun sp_words ::
  "string \<Rightarrow> string list \<Rightarrow> string list \<Rightarrow> sp \<Rightarrow> ((string list option \<times> string list) option \<times> sp) result" where
  "sp_words cmd acc [] s = Inr (Some (if acc = [] then None else Some acc, []), s)"
| "sp_words cmd acc (w # ws) s =
     (if hd w = CHR ''<'' then
        ebind (sp_pipe_in cmd w s) (\<lambda>(ok, s). if ok then sp_words cmd acc ws s else Inr (None, s))
      else if is_op w then Inr (Some (Some acc, w # ws), s)
      else if 9 \<le> length acc then Inl BufferOverflow
      else sp_words cmd (acc @ [w]) ws s)"

definition sp_op ::
  "string \<Rightarrow> string list \<Rightarrow> nat \<Rightarrow> sp \<Rightarrow> ((string list \<times> nat) option \<times> sp) result" where
  "sp_op w rest out s =
     (if w = ''|'' then Inr (Some (rest, out), s)
      else if w = ''>'' then
        (case rest of
           [] \<Rightarrow> Inl NullDeref
         | f # rest \<Rightarrow> ebind (set_redirection f s) (\<lambda>s. Inr (Some (rest, out), s)))
      else if hd w = CHR ''!'' then
        ebind (number_pipe_out (CHR ''!'') w (s\<lparr>line_end_with_pipe := True\<rparr>))
          (\<lambda>(out, s). Inr (Some (rest, out), s\<lparr>shock_pipe_out_flag := True\<rparr>))
      else if hd w = CHR ''|'' then
        ebind (number_pipe_out (CHR ''|'') w (s\<lparr>line_end_with_pipe := True\<rparr>))
          (\<lambda>(out, s). Inr (Some (rest, out), s\<lparr>num_pipe_out_flag := True\<rparr>))
      else ebind (sp_pipe_out w s) (\<lambda>(ok, s). Inr (if ok then Some (rest, out) else None, s)))"

lemma sp_words_length: "sp_words cmd acc ws s = Inr (Some (p, rest), s') \<Longrightarrow> length rest \<le> length ws"
  by (induction cmd acc ws s rule: sp_words.induct) (fastforce split: if_splits)+

lemma sp_op_length: "sp_op w rest out s = Inr (Some (rest', out'), s') \<Longrightarrow> length rest' \<le> length rest"
  by (auto simp: sp_op_def split: if_splits list.splits prod.splits)

function sp_combine ::
  "string \<Rightarrow> string list \<Rightarrow> string list list \<Rightarrow> nat \<Rightarrow> sp \<Rightarrow> ((string list list \<times> nat) option \<times> sp) result" where
  "sp_combine cmd toks procs out s =
     (if toks = [] then Inr (Some (procs, out), s)
      else if 5000 \<le> length procs then Inl BufferOverflow
      else case sp_words cmd [] toks s of
        Inl e \<Rightarrow> Inl e
      | Inr (None, s) \<Rightarrow> Inr (None, s)
      | Inr (Some (p, rest), s) \<Rightarrow>
          (let procs = (case p of None \<Rightarrow> procs | Some words \<Rightarrow> procs @ [words])
           in case rest of
                [] \<Rightarrow> Inr (Some (procs, out), s)
              | w # rest \<Rightarrow>
                  (case sp_op w rest out s of
                     Inl e \<Rightarrow> Inl e
                   | Inr (None, s) \<Rightarrow> Inr (None, s)
                   | Inr (Some (rest, out), s) \<Rightarrow> sp_combine cmd rest procs out s)))"
  by pat_completeness auto
termination
  by (relation "measure (\<lambda>(_, toks, _). length toks)")
    (auto dest!: sp_words_length sp_op_length)

declare sp_combine.simps [simp del]

definition sp_parse :: "string \<Rightarrow> string list \<Rightarrow> sp \<Rightarrow> ((string list list \<times> nat) option \<times> sp) result" where
  "sp_parse cmd toks s =
     (case toks of
        [] \<Rightarrow> Inl NullDeref
      | w # _ \<Rightarrow>
          if w = ''tell'' \<or> w = ''yell'' then Inr (Some ([toks], 1), s)
          else sp_combine cmd toks [] 1 s)"

end
