(* ===== verification/Sp_Exec.thy ===== *)
theory Sp_Exec
  imports Sp_Shell Rwg_Server
begin

text \<open>
  The execution loop of \<^verbatim>\<open>nctu_np_project2/final/npshell_2.h\<close>, one call of \<^verbatim>\<open>npshell\<close>, and the
  select loop of \<^verbatim>\<open>np_single_proc.cpp\<close> around it.
\<close>

section \<open>Built-in commands\<close>

definition sp_printenv :: "string list \<Rightarrow> sp \<Rightarrow> sp result" where
  "sp_printenv args s =
     (case args of
        [] \<Rightarrow> Inr s
      | a # _ \<Rightarrow> (case sh_env s a of
            None \<Rightarrow> Inr s
          | Some v \<Rightarrow> ebind (into_buffer 200 (v @ [NL])) (\<lambda>env. Inr (sh_event (Output env) s))))"

text \<open>\<^verbatim>\<open>setenv\<close> also stores the value, of whatever variable, as the user's path.\<close>

definition sp_setenv :: "string list \<Rightarrow> sp \<Rightarrow> sp result" where
  "sp_setenv args s =
     (case args of
        a # b # _ \<Rightarrow>
          ebind (into_buffer 200 b) (\<lambda>b.
            Inr (update_user (sp_index s) (\<lambda>u. u\<lparr>su_env := b\<rparr>) (s\<lparr>sh_env := sys_setenv a b (sh_env s)\<rparr>)))
      | _ \<Rightarrow> Inr s)"

text \<open>\<^verbatim>\<open>exit\<close> makes \<^verbatim>\<open>npshell\<close> return 0, which \<open>sh_exited\<close> stands for; the process goes on.\<close>

definition sp_exit :: "sp \<Rightarrow> sp result" where
  "sp_exit s =
     ebind (into_buffer 300 (left_msg (su_name (sp_me s)))) (\<lambda>msg.
       let s = sp_broadcast msg s;
           s = s\<lparr>sp_records := sp_clear_records (sp_index s) (sp_records s)\<rparr>
       in Inr ((update_user (sp_index s) (\<lambda>u. u\<lparr>su_valid := False\<rparr>) s)\<lparr>sh_exited := True\<rparr>))"

text \<open>\<^verbatim>\<open>batch\<close> reads the file into arrays that end with the call: it has no effect.\<close>

definition sp_batch :: "(string \<Rightarrow> string option) \<Rightarrow> string list \<Rightarrow> sp \<Rightarrow> sp result" where
  "sp_batch rd args s =
     (case args of
        [] \<Rightarrow> Inl NullDeref
      | f # _ \<Rightarrow>
          if 100 \<le> length f then Inl BufferOverflow
          else (case rd f of
            None \<Rightarrow> Inl NullDeref
          | Some content \<Rightarrow> if 10 < length (fgets_rows content) then Inl BufferOverflow else Inr s))"

definition sp_who_line :: "nat \<Rightarrow> sp_user list \<Rightarrow> nat \<Rightarrow> string" where
  "sp_who_line sck us i =
     to_string (int i + 1) @ [CHR 0x09] @ su_name (us ! i) @ [CHR 0x09] @ ''CGILAB/511'' @ [CHR 0x09] @
     (if su_sock (us ! i) = sck then ''<-me'' else []) @ [NL]"

definition sp_who :: "sp \<Rightarrow> sp" where
  "sp_who s = s\<lparr>sh_log := sh_log s @ Output who_header #
     map (\<lambda>i. Output (sp_who_line (su_sock (sp_me s)) (sp_users s) i))
       (filter (\<lambda>i. su_valid (sp_users s ! i)) slots)\<rparr>"

definition sp_tell :: "string list \<Rightarrow> sp \<Rightarrow> sp result" where
  "sp_tell args s =
     (case args of
        [] \<Rightarrow> Inl NullDeref
      | a # ws \<Rightarrow>
          (let n = atoi a
           in if sp_id_exist n (sp_users s) then
                ebind (into_buffer 200 (spoken ws)) (\<lambda>t.
                ebind (into_buffer 200 (tell_msg (su_name (sp_me s)) t)) (\<lambda>msg.
                  Inr (sh_event (Send (su_sock (sp_users s ! nat (n - 1))) msg) s)))
              else Inr (sh_event (Output (no_user_msg n)) s)))"

definition sp_yell :: "string list \<Rightarrow> sp \<Rightarrow> sp result" where
  "sp_yell args s =
     ebind (into_buffer 200 (spoken args)) (\<lambda>t.
     ebind (into_buffer 200 (yell_msg (su_name (sp_me s)) t)) (\<lambda>msg. Inr (sp_broadcast msg s)))"

definition sp_name :: "string list \<Rightarrow> sp \<Rightarrow> sp result" where
  "sp_name args s =
     (case args of
        [] \<Rightarrow> Inr (update_user (sp_index s) (\<lambda>u. u\<lparr>su_name := ''(no name)''\<rparr>) s)
      | nm # _ \<Rightarrow>
          if sp_name_exist nm (sp_users s) then Inr (sh_event (Output (name_taken_msg nm)) s)
          else ebind (into_buffer 30 nm) (\<lambda>nm.
            Inr (sp_broadcast (named_msg nm) (update_user (sp_index s) (\<lambda>u. u\<lparr>su_name := nm\<rparr>) s))))"

section \<open>Children\<close>

text \<open>The pipe a \<^verbatim>\<open><n\<close> takes, and the one a \<^verbatim>\<open>>n\<close> has made.\<close>

definition in_pipe :: "sp \<Rightarrow> nat \<times> nat" where
  "in_pipe s = su_name_pipe (sp_me s) ! nat (sp_sender s - 1)"

definition out_pipe :: "sp \<Rightarrow> nat \<times> nat" where
  "out_pipe s = su_name_pipe (sp_users s ! nat (sp_out_id s - 1)) ! sp_index s"

definition sp_stdin :: "nat \<Rightarrow> sp \<Rightarrow> fdtable \<Rightarrow> fdtable" where
  "sp_stdin fd_in s t =
     (if num_pipe_in_flag s then dup_num_pipe_in s t
      else if sp_in_flag s then sys_dup2 (fst (in_pipe s)) 0 t
      else sys_dup2 fd_in 0 t)"

definition sp_redirect_fds :: "os \<Rightarrow> string \<Rightarrow> nat \<Rightarrow> sp \<Rightarrow> fdtable" where
  "sp_redirect_fds sys name fd_in s =
     (if os_open sys name
      then (let (fd, t) = fd_alloc (Opened name) (k_fds s) in sys_dup2 fd 1 (sp_stdin fd_in s t))
      else sp_stdin fd_in s (k_fds s))"

definition sp_numbered_fds :: "nat \<Rightarrow> nat \<Rightarrow> sp \<Rightarrow> fdtable" where
  "sp_numbered_fds fd_in pipe_out s =
     (let t = sp_stdin fd_in s (k_fds s);
          t = (if shock_pipe_out_flag s then sys_dup2 pipe_out 2 t else t)
      in sys_dup2 pipe_out 1 t)"

text \<open>The child of \<^verbatim>\<open>>n\<close> first opens a file by the name in an array that is never set.\<close>

definition sp_user_pipe_fds :: "os \<Rightarrow> nat \<Rightarrow> sp \<Rightarrow> fdtable" where
  "sp_user_pipe_fds sys fd_in s =
     (let t = (if os_open sys (sp_junk s) then snd (fd_alloc (Opened (sp_junk s)) (k_fds s)) else k_fds s)
      in sys_dup2 (snd (out_pipe s)) 1 (sp_stdin fd_in s t))"

definition sp_single_fds :: "sp \<Rightarrow> fdtable" where
  "sp_single_fds s =
     (if num_pipe_in_flag s then dup_num_pipe_in s (k_fds s)
      else if sp_in_flag s then sys_dup2 (fst (in_pipe s)) 0 (k_fds s)
      else k_fds s)"

definition sp_pipeline_fds :: "bool \<Rightarrow> nat \<Rightarrow> nat \<Rightarrow> nat \<Rightarrow> sp \<Rightarrow> fdtable" where
  "sp_pipeline_fds is_last p0 p1 fd_in s =
     (let t = sp_single_fds s;
          t = (if \<not> num_pipe_in_flag s then sys_dup2 fd_in 0 t else t);
          t = sys_close p0 t
      in if \<not> is_last then sys_dup2 p1 1 t else t)"

section \<open>The four branches\<close>

text \<open>
  Before the fork the parent closes the write ends of the pipes that are due; after it, the read
  ends.
\<close>

definition sp_close_outs :: "sp \<Rightarrow> sp" where
  "sp_close_outs s =
     (let s = close_0_rest_line_pipe_out s in if sp_in_flag s then close_fd (snd (in_pipe s)) s else s)"

definition sp_drop_inputs :: "sp \<Rightarrow> sp" where
  "sp_drop_inputs s =
     (let s = drop_dead_pipes s
      in if sp_in_flag s then (close_fd (fst (in_pipe s)) s)\<lparr>sp_in_flag := False\<rparr> else s)"

definition sp_exec_redirect :: "os \<Rightarrow> nat \<Rightarrow> string list \<Rightarrow> nat \<Rightarrow> sp \<Rightarrow> sp" where
  "sp_exec_redirect sys n argv fd_in s =
     (let s = sp_close_outs s;
          name = cstr (redirection_file_name s);
          s = spawn sys argv (sp_redirect_fds sys name fd_in s) (if os_open sys name then Some name else None) s;
          s = (if n \<noteq> 1 then close_fd fd_in s else s)
      in (sp_drop_inputs s)\<lparr>write_file_flag := False\<rparr>)"

definition sp_exec_numbered :: "os \<Rightarrow> nat \<Rightarrow> string list \<Rightarrow> nat \<Rightarrow> nat \<Rightarrow> sp \<Rightarrow> sp" where
  "sp_exec_numbered sys n argv fd_in pipe_out s =
     (let s = sp_close_outs s;
          s = spawn sys argv (sp_numbered_fds fd_in pipe_out s) None s;
          s = (if n \<noteq> 1 then close_fd fd_in s else s)
      in (sp_drop_inputs s)\<lparr>num_pipe_out_flag := False\<rparr>)"

text \<open>
  The child of \<^verbatim>\<open>>n\<close> announces the pipe to everybody from a buffer of 200 bytes, which a long
  command line overflows; its messages are put before its start.
\<close>

definition sp_spawn_user_pipe :: "os \<Rightarrow> string \<Rightarrow> string list \<Rightarrow> nat \<Rightarrow> sp \<Rightarrow> sp" where
  "sp_spawn_user_pipe sys cmd argv fd_in s =
     (case into_buffer 200 (sp_piped_msg (sp_me s) (sp_users s ! nat (sp_out_id s - 1)) cmd) of
        Inl _ \<Rightarrow> sh_event (Spawn \<lparr>ch_argv = argv, ch_fds = k_fds s, ch_trunc = None, ch_end = Crashes\<rparr>) s
      | Inr msg \<Rightarrow>
          spawn sys argv (sp_user_pipe_fds sys fd_in s)
            (if os_open sys (sp_junk s) then Some (sp_junk s) else None) (sp_broadcast msg s))"

definition sp_exec_user_pipe :: "os \<Rightarrow> string \<Rightarrow> nat \<Rightarrow> string list \<Rightarrow> nat \<Rightarrow> sp \<Rightarrow> sp" where
  "sp_exec_user_pipe sys cmd n argv fd_in s =
     (let s = sp_close_outs s;
          s = sp_spawn_user_pipe sys cmd argv fd_in s;
          s = (if n \<noteq> 1 then close_fd fd_in s else s)
      in (sp_drop_inputs s)\<lparr>sp_out_flag := False\<rparr>)"

definition sp_exec_normal :: "os \<Rightarrow> nat \<Rightarrow> nat \<Rightarrow> string list \<Rightarrow> nat \<Rightarrow> sp \<Rightarrow> nat \<times> sp" where
  "sp_exec_normal sys n prc argv fd_in s =
     (if n \<noteq> 1 then
        (let (p0, p1, s) = sys_pipe s;
             s = sp_close_outs s;
             s = spawn sys argv (sp_pipeline_fds (prc = n - 1) p0 p1 fd_in s) None s;
             s = close_fd p1 s;
             s = (if prc = n - 1 then close_fd p0 s else s)
         in (p0, sp_drop_inputs s))
      else
        (let s = sp_close_outs s;
             s = spawn sys argv (sp_single_fds s) None s
         in (fd_in, sp_drop_inputs s)))"

section \<open>One call of npshell\<close>

definition sp_builtin :: "(string \<Rightarrow> string option) \<Rightarrow> string \<Rightarrow> string list \<Rightarrow> sp \<Rightarrow> sp result option" where
  "sp_builtin rd c args s =
     (if c = ''printenv'' then Some (sp_printenv args s)
      else if c = ''setenv'' then Some (sp_setenv args s)
      else if c = ''exit'' then Some (sp_exit s)
      else if c = ''batch'' then Some (sp_batch rd args s)
      else if c = ''who'' then Some (Inr (sp_who s))
      else if c = ''tell'' then Some (sp_tell args s)
      else if c = ''yell'' then Some (sp_yell args s)
      else if c = ''name'' then Some (sp_name args s)
      else None)"

definition sp_process ::
  "os \<Rightarrow> string \<Rightarrow> nat \<Rightarrow> nat \<Rightarrow> string list \<Rightarrow> nat \<Rightarrow> nat \<Rightarrow> sp \<Rightarrow> nat \<times> sp" where
  "sp_process sys cmd n prc argv fd_in pipe_out s =
     (if write_file_flag s \<and> prc = n - 1 then (fd_in, sp_exec_redirect sys n argv fd_in s)
      else if (shock_pipe_out_flag s \<or> num_pipe_out_flag s) \<and> prc = n - 1 then
        (fd_in, sp_exec_numbered sys n argv fd_in pipe_out s)
      else if sp_out_flag s \<and> prc = n - 1 then (fd_in, sp_exec_user_pipe sys cmd n argv fd_in s)
      else sp_exec_normal sys n prc argv fd_in s)"

fun sp_loop ::
  "os \<Rightarrow> (string \<Rightarrow> string option) \<Rightarrow> string \<Rightarrow> nat \<Rightarrow> nat \<Rightarrow> string list list \<Rightarrow> nat \<Rightarrow> nat \<Rightarrow> sp \<Rightarrow> sp result"
where
  "sp_loop sys rd cmd n prc [] fd_in pipe_out s = Inr s"
| "sp_loop sys rd cmd n prc ([] # procs) fd_in pipe_out s = Inl NullDeref"
| "sp_loop sys rd cmd n prc ((c # args) # procs) fd_in pipe_out s =
     (case sp_builtin rd c args s of
        Some r \<Rightarrow> ebind r (\<lambda>s.
          if sh_exited s then Inr s else sp_loop sys rd cmd n (prc + 1) procs fd_in pipe_out s)
      | None \<Rightarrow>
          (let (fd_in, s) = sp_process sys cmd n prc (c # args) fd_in pipe_out s
           in sp_loop sys rd cmd n (prc + 1) procs fd_in pipe_out s))"

definition sp_execute ::
  "os \<Rightarrow> (string \<Rightarrow> string option) \<Rightarrow> string \<Rightarrow> string list \<Rightarrow> sp \<Rightarrow> sp result" where
  "sp_execute sys rd cmd toks s =
     (let s = (if toks \<noteq> [] \<and> num_pipe_vec s \<noteq> [] then decrease_line_count s else s)
      in ebind (sp_parse cmd toks s) (\<lambda>(parsed, s).
         case parsed of
           None \<Rightarrow> Inr s
         | Some (procs, out) \<Rightarrow>
             if su_ignore (sp_me s) then Inr s
             else ebind (sp_loop sys rd cmd (length procs) 0 procs 0 out s) (\<lambda>s.
               Inr (if sh_exited s \<or> line_end_with_pipe s then s else sh_event WaitAll s))))"

text \<open>
  The variables at the start of a call for user \<open>ix\<close>, and what the call leaves in the table.
\<close>

definition sp_begin :: "nat \<Rightarrow> sp \<Rightarrow> sp" where
  "sp_begin ix s =
     s\<lparr>sp_index := ix, sh_env := sys_setenv ''PATH'' (su_env (sp_users s ! ix)) (sh_env s),
       num_pipe_vec := su_pipes (sp_users s ! ix), num_pipe_in_flag := False, num_pipe_out_flag := False,
       shock_pipe_out_flag := False, write_file_flag := False, line_end_with_pipe := False,
       sp_in_flag := False, sp_out_flag := False, sh_exited := False,
       redirection_file_name := replicate 100 NUL\<rparr>"

definition sp_end :: "sp \<Rightarrow> sp" where
  "sp_end s = update_user (sp_index s) (\<lambda>u. u\<lparr>su_pipes := num_pipe_vec s\<rparr>) s"

text \<open>
  \<^verbatim>\<open>npshell\<close>: the bytes \<open>raw\<close> that \<^verbatim>\<open>read\<close> returns are put in front of the \<open>stale\<close> bytes of the
  array, of which only the first one is cleared.  The result is the one of the function, 0 for
  \<^verbatim>\<open>exit\<close> and for the end of the connection.  A \<^verbatim>\<open>read\<close> that fails leaves the cleared byte and returns
  -1, which the server only compares with 0: it does what the read of a single NUL byte does.
\<close>

definition sp_npshell ::
  "os \<Rightarrow> (string \<Rightarrow> string option) \<Rightarrow> string \<Rightarrow> string \<Rightarrow> nat \<Rightarrow> sp \<Rightarrow> (nat \<times> sp) result" where
  "sp_npshell sys rd raw stale ix s =
     (let s = sp_begin ix s; buf = raw @ drop (length raw) (NUL # stale)
      in if su_batch_flag (sp_me s) then Inl OutOfRange
         else if list_all (\<lambda>c. 20 \<le> schar c) buf then Inl BufferOverflow
         else
           (let line = takeWhile (\<lambda>c. 20 \<le> schar c) buf
            in ebind (c_format line) (\<lambda>cmd.
               if line = [] then Inr (length raw, sp_end s)
               else ebind (sp_execute sys rd cmd (tokens (\<lambda>c. c = CHR '' '') line) s) (\<lambda>s.
                 Inr (if sh_exited s then 0 else length raw, sp_end s)))))"

section \<open>The server\<close>

text \<open>
  \<^verbatim>\<open>main\<close>: the process, the listening socket, the active descriptors, and the copies of the three
  standard descriptors.
\<close>

record sp_server =
  srv :: sp
  msock :: nat
  afds :: "nat list"
  saved :: "nat \<times> nat \<times> nat"

definition sp_find_fd_user :: "nat \<Rightarrow> sp_user list \<Rightarrow> nat option" where
  "sp_find_fd_user fd us = List.find (\<lambda>i. su_valid (us ! i) \<and> su_sock (us ! i) = fd) slots"

definition dup3 :: "nat \<Rightarrow> nat \<Rightarrow> nat \<Rightarrow> sp \<Rightarrow> sp" where
  "dup3 a b c s = s\<lparr>k_fds := sys_dup2 c 2 (sys_dup2 b 1 (sys_dup2 a 0 (k_fds s)))\<rparr>"

text \<open>A descriptor that \<^verbatim>\<open>select\<close> reports, other than the listening socket.\<close>

definition sp_ready ::
  "os \<Rightarrow> (string \<Rightarrow> string option) \<Rightarrow> string \<Rightarrow> string \<Rightarrow> nat \<Rightarrow> sp_server \<Rightarrow> sp_server result" where
  "sp_ready sys rd raw stale fd g =
     (case sp_find_fd_user fd (sp_users (srv g)) of
        None \<Rightarrow> Inl OutOfRange
      | Some i \<Rightarrow>
          ebind (sp_npshell sys rd raw stale i (dup3 fd fd fd (srv g))) (\<lambda>(cc, s).
            let (a, b, c) = saved g
            in if cc = 0 then
                 Inr (g\<lparr>srv := close_fd fd (dup3 a b c s), afds := removeAll fd (afds g)\<rparr>)
               else Inr (g\<lparr>srv := dup3 a b c (sh_event (Send fd ''% '') s)\<rparr>)))"

text \<open>A connection: the first free slot, whose numbered pipes and pipe descriptors are not reset.\<close>

definition sp_accept :: "string \<Rightarrow> int \<Rightarrow> sp_server \<Rightarrow> sp_server result" where
  "sp_accept addr port g =
     (let (ssock, t) = fd_alloc (Opened ''socket'') (k_fds (srv g)); s = (srv g)\<lparr>k_fds := t\<rparr>
      in case List.find (\<lambda>i. \<not> su_valid (sp_users s ! i)) slots of
           None \<Rightarrow> Inl OutOfRange
         | Some i \<Rightarrow>
             if 15 \<le> length addr then Inl BufferOverflow
             else
               (let s = update_user i (\<lambda>u. u\<lparr>su_valid := True, su_sock := ssock, su_addr := addr,
                        su_env := ''bin:.'', su_name := ''(no name)'', su_port := port,
                        su_batch_flag := False, su_ignore := False\<rparr>) s;
                    s = sp_broadcast login_msg (sh_event (Send ssock welcome_msg) s)
                in Inr (g\<lparr>srv := sh_event (Send ssock ''% '') s, afds := ssock # afds g\<rparr>)))"

text \<open>
  The start of \<^verbatim>\<open>main\<close>, from the descriptors the process is given: the table, the listening socket
  and the copies of the standard descriptors.
\<close>

definition sys_dup :: "nat \<Rightarrow> fdtable \<Rightarrow> nat \<times> fdtable" where
  "sys_dup fd t = (case fd_get t fd of None \<Rightarrow> (0, t) | Some f \<Rightarrow> fd_alloc f t)"

definition sp_table :: "sp_user list" where
  "sp_table = map (\<lambda>i. zero_sp_user\<lparr>su_id := int i + 1\<rparr>) slots"

definition sp_boot :: "fdtable \<Rightarrow> nat \<Rightarrow> environ \<Rightarrow> string \<Rightarrow> sp_server" where
  "sp_boot t n e junk =
     (let (m, t) = fd_alloc (Opened ''socket'') t;
          (a, t) = sys_dup 0 t; (b, t) = sys_dup 1 t; (c, t) = sys_dup 2 t
      in \<lparr>srv = \<lparr>k_fds = t, k_next = n, sh_env = sys_setenv ''PATH'' ''bin:.'' e, num_pipe_vec = [],
            num_pipe_in_flag = False, num_pipe_out_flag = False, shock_pipe_out_flag = False,
            write_file_flag = False, line_end_with_pipe = False,
            redirection_file_name = replicate 100 NUL, sh_log = [], sh_exited = False,
            sp_index = 0, sp_users = sp_table, sp_records = replicate 31 (replicate 31 False),
            sp_in_flag = False, sp_out_flag = False, sp_sender = 0, sp_out_id = 0, sp_junk = junk\<rparr>,
          msock = m, afds = [m], saved = (a, b, c)\<rparr>)"

end
