(* ===== verification/Sp_Lines.thy ===== *)
theory Sp_Lines
  imports Sp_Exec Rwg_Lines
begin

text \<open>
  How a call of the single-process \<^verbatim>\<open>npshell\<close> runs a line of plain words with a user pipe at its end.
\<close>

section \<open>Calls and lines\<close>

definition sp_user_idle :: "sp_user \<Rightarrow> bool" where
  "sp_user_idle u \<longleftrightarrow> \<not> su_batch_flag u \<and> \<not> su_ignore u \<and> su_pipes u = []"

lemma sp_begin_sel [simp]:
  "sp_index (sp_begin ix s) = ix" "sp_users (sp_begin ix s) = sp_users s" "k_fds (sp_begin ix s) = k_fds s"
  "k_next (sp_begin ix s) = k_next s" "sp_records (sp_begin ix s) = sp_records s"
  "sh_log (sp_begin ix s) = sh_log s" "num_pipe_vec (sp_begin ix s) = su_pipes (sp_users s ! ix)"
  "sp_me (sp_begin ix s) = sp_users s ! ix" "sp_junk (sp_begin ix s) = sp_junk s"
  "\<not> sh_exited (sp_begin ix s)" "\<not> line_end_with_pipe (sp_begin ix s)"
  "\<not> num_pipe_in_flag (sp_begin ix s)" "\<not> num_pipe_out_flag (sp_begin ix s)"
  "\<not> shock_pipe_out_flag (sp_begin ix s)" "\<not> write_file_flag (sp_begin ix s)"
  "\<not> sp_in_flag (sp_begin ix s)" "\<not> sp_out_flag (sp_begin ix s)"
  by (simp_all add: sp_begin_def sp_me_def)

lemma sp_line_plain:
  assumes "\<forall>w\<in>set toks. w \<noteq> [] \<and> (\<forall>c\<in>set w. line_char c \<and> c \<noteq> CHR '' '')" and "toks \<noteq> []"
    and "\<not> su_batch_flag (sp_users s ! ix)"
  defines "line \<equiv> join_with (CHR '' '') toks"
  shows "sp_npshell sys rd (line @ CR # rest) stale ix s =
    ebind (sp_execute sys rd line toks (sp_begin ix s)) (\<lambda>s'.
      Inr (if sh_exited s' then 0 else length (line @ CR # rest), sp_end s'))"
proof -
  have c: "\<forall>c\<in>set line. line_char c" unfolding line_def using assms(1) by (intro join_chars) blast
  have t: "tokens (\<lambda>c. c = CHR '' '') line = toks" unfolding line_def using assms(1) by (intro join_tokens) blast
  have ne: "line \<noteq> []" unfolding line_def using assms(1,2) by (intro join_nonempty) blast+
  let ?buf = "(line @ CR # rest) @ drop (length (line @ CR # rest)) (NUL # stale)"
  have cr: "\<not> 20 \<le> schar CR" by (simp add: CR_def schar_def)
  moreover have "\<forall>c\<in>set line. 20 \<le> schar c" using c by (simp add: line_char_def)
  ultimately have "takeWhile (\<lambda>c. 20 \<le> schar c) ?buf = line" "\<not> list_all (\<lambda>c. 20 \<le> schar c) ?buf"
    by (simp_all add: takeWhile_append_stop)
  then show ?thesis
    using ne assms(3) cr by (simp add: sp_npshell_def Let_def format_plain [OF c] t del: append_assoc)
qed

text \<open>The end of the connection: nothing is read.\<close>

lemma sp_line_eof:
  "\<not> su_batch_flag (sp_users s ! ix) \<Longrightarrow>
     sp_npshell sys rd [] stale ix s = Inr (0, sp_end (sp_begin ix s))"
  by (simp add: sp_npshell_def Let_def NUL_def schar_def)

lemma sp_end_begin:
  assumes "ix < length (sp_users s)"
  shows "sp_users (sp_end (sp_begin ix s)) = sp_users s" "k_fds (sp_end (sp_begin ix s)) = k_fds s"
  using assms by (simp_all add: sp_end_def update_user_def)

section \<open>Parsing and executing\<close>

lemma sp_words_plain:
  assumes "list_all plain_word ws" and "length acc + length ws \<le> 9"
  shows "sp_words cmd acc (ws @ rest) s = sp_words cmd (acc @ ws) rest s"
  using assms by (induction ws arbitrary: acc) (simp_all add: plain_word_def)

lemma sp_no_builtin: "rwg_command (c # args) \<Longrightarrow> sp_builtin rd c args s = None"
  by (simp add: rwg_command_def sp_builtin_def)

lemma sp_parse_out:
  assumes "rwg_command ws" and "sp_pipe_out (pipe_op (CHR ''>'') n) s = Inr (True, s')"
  shows "sp_parse cmd (ws @ [pipe_op (CHR ''>'') n]) s = Inr (Some ([ws], 1), s')"
proof -
  have op: "is_op (pipe_op (CHR ''>'') n)" "hd (pipe_op (CHR ''>'') n) = CHR ''>''"
    "pipe_op (CHR ''>'') n \<noteq> ''>''"
    by (simp_all add: pipe_op_def is_op_def)
  have w: "sp_words cmd [] (ws @ [pipe_op (CHR ''>'') n]) s = Inr (Some (Some ws, [pipe_op (CHR ''>'') n]), s)"
    using assms(1) op by (simp add: sp_words_plain rwg_command_def)
  have o: "sp_op (pipe_op (CHR ''>'') n) [] 1 s = Inr (Some ([], 1), s')"
    using assms(2) op by (auto simp: sp_op_def)
  obtain c cs where "ws = c # cs" using assms(1) by (cases ws) (simp_all add: rwg_command_def)
  then show ?thesis
    using assms(1) w o unfolding sp_parse_def
    by (subst sp_combine.simps) (simp add: rwg_command_def sp_combine.simps [of cmd "[]"])
qed

lemma sp_parse_in:
  assumes "rwg_command ws" and "sp_pipe_in cmd (pipe_op (CHR ''<'') n) s = Inr (True, s')"
  shows "sp_parse cmd (ws @ [pipe_op (CHR ''<'') n]) s = Inr (Some ([ws], 1), s')"
proof -
  have op: "hd (pipe_op (CHR ''<'') n) = CHR ''<''" by (simp add: pipe_op_def)
  have w: "sp_words cmd [] (ws @ [pipe_op (CHR ''<'') n]) s = Inr (Some (Some ws, []), s')"
    using assms op by (simp add: sp_words_plain rwg_command_def)
  obtain c cs where "ws = c # cs" using assms(1) by (cases ws) (simp_all add: rwg_command_def)
  then show ?thesis
    using assms(1) w unfolding sp_parse_def by (subst sp_combine.simps) (simp add: rwg_command_def)
qed

lemma sp_execute_one:
  assumes "rwg_command ws" and "num_pipe_vec s = []" and "sp_parse cmd toks s = Inr (Some ([ws], out), s1)"
    and "\<not> su_ignore (sp_me s1)" and "sp_process sys cmd 1 0 ws 0 out s1 = (fd, s2)"
    and "\<not> sh_exited s2" and "\<not> line_end_with_pipe s2"
  shows "sp_execute sys rd cmd toks s = Inr (sh_event WaitAll s2)"
proof -
  obtain c args where ws: "ws = c # args" using assms(1) by (cases ws) (simp_all add: rwg_command_def)
  have "sp_loop sys rd cmd 1 0 [ws] 0 out s1 = Inr s2"
    using sp_no_builtin [OF assms(1) [unfolded ws]] assms(5) by (simp add: ws)
  then show ?thesis using assms(2-4,6,7) by (simp add: sp_execute_def)
qed

text \<open>A line that is one built-in command.\<close>

lemma sp_parse_words:
  assumes "list_all plain_word (c # args)" and "length args \<le> 8" and "c \<noteq> ''tell''" and "c \<noteq> ''yell''"
  shows "sp_parse cmd (c # args) s = Inr (Some ([c # args], 1), s)"
proof -
  have w: "sp_words cmd [] (c # args) s = Inr (Some (Some (c # args), []), s)"
    using sp_words_plain [of "c # args" "[]" cmd "[]" s] assms(1,2) by simp
  show ?thesis using w assms(3,4) unfolding sp_parse_def by (subst sp_combine.simps) simp
qed

lemma sp_execute_builtin:
  assumes "list_all plain_word (c # args)" and "length args \<le> 8" and "c \<noteq> ''tell''" and "c \<noteq> ''yell''"
    and "\<And>t. sp_me t = sp_me s \<Longrightarrow> \<not> su_ignore (sp_me t)"
  defines "s1 \<equiv> if num_pipe_vec s \<noteq> [] then decrease_line_count s else s"
  assumes "sp_builtin rd c args s1 = Some (Inr s2)"
  shows "sp_execute sys rd cmd (c # args) s =
    Inr (if sh_exited s2 \<or> line_end_with_pipe s2 then s2 else sh_event WaitAll s2)"
proof -
  have "sp_me s1 = sp_me s" by (simp add: s1_def sp_me_def decrease_line_count_def Let_def)
  then have "\<not> su_ignore (sp_me s1)" using assms(5) by blast
  moreover have "sp_loop sys rd cmd 1 0 [c # args] 0 1 s1 = Inr s2"
    using assms(7) by simp
  ultimately show ?thesis
    using sp_parse_words [OF assms(1-4), of cmd s1] by (simp add: sp_execute_def s1_def [symmetric])
qed

end
