(* ===== verification/Sp_Pipes.thy ===== *)
theory Sp_Pipes
  imports Sp_Lines
begin

text \<open>
  The user pipes of the single-process remote working ground: a pipe of the server, made for the
  sender's line and taken over by the receiver's.
\<close>

section \<open>User pipes are pipes of the server\<close>

lemma sends_cong:
  assumes "\<And>i. su_valid (us' ! i) = su_valid (us ! i)" and "\<And>i. su_sock (us' ! i) = su_sock (us ! i)"
  shows "sends msg us' = sends msg us"
  by (simp add: sends_def assms)

lemma put_back_pipes: "su_pipes (us ! i) = v \<Longrightarrow> us[i := (us ! i)\<lparr>su_pipes := v\<rparr>] = us"
  by (metis list_update_id sp_user.surjective sp_user.update_convs(10))

lemma sp_id_existD:
  assumes "sp_id_exist n us"
  shows "1 \<le> nat n" and "nat n < 31" and "su_valid (us ! (nat n - 1))" and "int (nat n) = n"
proof -
  obtain i where i: "i < 30" "su_valid (us ! i)" "int i = n - 1"
    using assms by (auto simp: sp_id_exist_def slots_def list_ex_iff)
  then have "nat n = Suc i" by linarith
  with i show "1 \<le> nat n" "nat n < 31" "su_valid (us ! (nat n - 1))" "int (nat n) = n" by auto
qed

text \<open>The sender's state after the parser, and its child.\<close>

definition with_name_pipe :: "nat \<Rightarrow> nat \<Rightarrow> nat \<times> nat \<Rightarrow> sp_user list \<Rightarrow> sp_user list" where
  "with_name_pipe b a p us = us[b := (us ! b)\<lparr>su_name_pipe := (su_name_pipe (us ! b))[a := p]\<rparr>]"

lemma with_name_pipe_fields:
  "su_valid (with_name_pipe b a p us ! i) = su_valid (us ! i)"
  "su_sock (with_name_pipe b a p us ! i) = su_sock (us ! i)"
  "su_name (with_name_pipe b a p us ! i) = su_name (us ! i)"
  "su_id (with_name_pipe b a p us ! i) = su_id (us ! i)"
  "su_pipes (with_name_pipe b a p us ! i) = su_pipes (us ! i)"
  "su_ignore (with_name_pipe b a p us ! i) = su_ignore (us ! i)"
  "su_batch_flag (with_name_pipe b a p us ! i) = su_batch_flag (us ! i)"
  "length (with_name_pipe b a p us) = length us"
proof -
  have "with_name_pipe b a p us ! i = (if i = b \<and> b < length us
      then (us ! b)\<lparr>su_name_pipe := (su_name_pipe (us ! b))[a := p]\<rparr> else us ! i)"
    by (cases "b < length us") (auto simp: with_name_pipe_def nth_list_update list_update_beyond)
  then show "su_valid (with_name_pipe b a p us ! i) = su_valid (us ! i)"
  "su_sock (with_name_pipe b a p us ! i) = su_sock (us ! i)"
  "su_name (with_name_pipe b a p us ! i) = su_name (us ! i)"
  "su_id (with_name_pipe b a p us ! i) = su_id (us ! i)"
  "su_pipes (with_name_pipe b a p us ! i) = su_pipes (us ! i)"
  "su_ignore (with_name_pipe b a p us ! i) = su_ignore (us ! i)"
  "su_batch_flag (with_name_pipe b a p us ! i) = su_batch_flag (us ! i)"
  "length (with_name_pipe b a p us) = length us"
    by (simp_all add: with_name_pipe_def)
qed

lemma sp_pipe_out_fresh:
  assumes "sp_id_exist (int n) (sp_users s)"
    and "\<not> sp_pipe_exist (sp_index s + 1) n (sp_records s)"
  obtains r w t where "sp_pipe_out (pipe_op (CHR ''>'') n) s = Inr (True, s\<lparr>sp_out_id := int n,
      k_fds := t, k_next := Suc (k_next s), sp_users := with_name_pipe (n - 1) (sp_index s) (r, w) (sp_users s),
      sp_records := set_record (sp_index s + 1) n True (sp_records s), sp_out_flag := True\<rparr>)"
    and "r \<noteq> w" and "fd_get (k_fds s) r = None" and "fd_get (k_fds s) w = None"
    and "\<forall>g. fd_get t g = (if g = w then Some (PipeW (k_next s))
                           else if g = r then Some (PipeR (k_next s)) else fd_get (k_fds s) g)"
proof -
  let ?s = "s\<lparr>sp_out_id := int n\<rparr>"
  obtain r w s1 where p: "sys_pipe ?s = (r, w, s1)" by (cases "sys_pipe ?s")
  then obtain t where s1: "s1 = ?s\<lparr>k_fds := t, k_next := Suc (k_next ?s)\<rparr>"
    and f: "r \<noteq> w" "fd_get (k_fds ?s) r = None" "fd_get (k_fds ?s) w = None"
      "\<And>g. fd_get t g = (if g = w then Some (PipeW (k_next ?s))
                         else if g = r then Some (PipeR (k_next ?s)) else fd_get (k_fds ?s) g)"
    by (rule sys_pipeE) blast
  have at: "atoi (dec_nat n) = int n"
    by (rule atoi_dec_nat) (use sp_id_existD(2) [OF assms(1)] in simp)
  have n: "nat (int n - 1) = n - 1" by simp
  have "sp_pipe_out (pipe_op (CHR ''>'') n) s = Inr (True, s\<lparr>sp_out_id := int n,
      k_fds := t, k_next := Suc (k_next s), sp_users := with_name_pipe (n - 1) (sp_index s) (r, w) (sp_users s),
      sp_records := set_record (sp_index s + 1) n True (sp_records s), sp_out_flag := True\<rparr>)"
    using assms strtok_digits [of "CHR ''>''" n] p
    by (simp add: sp_pipe_out_def pipe_op_def Let_def at n s1 update_user_def with_name_pipe_def)
  then show thesis by (rule that) (use f in simp_all)
qed

text \<open>The standard output of the child.\<close>

lemma user_pipe_child_stdout:
  assumes "\<not> num_pipe_in_flag s" and "\<not> sp_in_flag s" and "out_pipe s = (r, w)"
    and "fd_get (k_fds s) w = Some f"
  shows "fd_get (sp_user_pipe_fds sys 0 s) 1 = Some f"
proof -
  obtain fd t where a: "fd_alloc (Opened (sp_junk s)) (k_fds s) = (fd, t)"
    by (cases "fd_alloc (Opened (sp_junk s)) (k_fds s)")
  have "fd_get (k_fds s) fd = None" using fd.alloc_free [of "k_fds s" "Opened (sp_junk s)"] a by simp
  with assms(4) have "w \<noteq> fd" by auto
  then have "fd_get t w = Some f" using fd.get_alloc [of "Opened (sp_junk s)" "k_fds s" w] a assms(4) by simp
  then show ?thesis using assms a by (auto simp: sp_user_pipe_fds_def sp_stdin_def Let_def)
qed

text \<open>The sender's call.\<close>

lemma sp_process_user_pipe:
  assumes "sp_out_flag s" and "\<not> write_file_flag s" and "\<not> shock_pipe_out_flag s" and "\<not> num_pipe_out_flag s"
    and "\<not> num_pipe_in_flag s" and "\<not> sp_in_flag s" and "num_pipe_vec s = []"
    and "sp_piped_msg (sp_me s) (sp_users s ! nat (sp_out_id s - 1)) cmd = msg" and "length msg < 200"
  shows "\<exists>c. sp_process sys cmd 1 0 ws 0 1 s =
      (0, s\<lparr>sh_log := sh_log s @ sends msg (sp_users s) @ [Spawn c], sp_out_flag := False\<rparr>)
    \<and> ch_argv c = ws \<and> ch_fds c = sp_user_pipe_fds sys 0 s"
proof -
  have co: "sp_close_outs s = s" using assms by (simp add: sp_close_outs_def close_0_rest_line_pipe_out_def)
  let ?c = "\<lparr>ch_argv = ws, ch_fds = sp_user_pipe_fds sys 0 s,
      ch_trunc = (if os_open sys (sp_junk s) then Some (sp_junk s) else None), ch_end = exec_child sys (sh_env s) ws\<rparr>"
  have sp: "sp_spawn_user_pipe sys cmd ws 0 s = s\<lparr>sh_log := sh_log s @ sends msg (sp_users s) @ [Spawn ?c]\<rparr>"
    using assms by (simp add: sp_spawn_user_pipe_def into_buffer_def spawn_def sh_event_def sp_broadcast_def)
  have "sp_process sys cmd 1 0 ws 0 1 s =
      (0, s\<lparr>sh_log := sh_log s @ sends msg (sp_users s) @ [Spawn ?c], sp_out_flag := False\<rparr>)"
    using assms(1-7) sp by (simp add: sp_process_def sp_exec_user_pipe_def co sp_drop_inputs_def drop_dead_pipes_def
      close_0_rest_line_pipe_in_def)
  then show ?thesis by (intro exI [of _ ?c]) simp
qed

lemma sp_sender:
  assumes "rwg_command ws" and "sp_user_idle (sp_users s ! a)" and "a < 30" and "length (sp_users s) = 30"
    and "length (su_name_pipe (sp_users s ! (n - 1))) = 30"
    and "sp_id_exist (int n) (sp_users s)" and "\<not> sp_pipe_exist (a + 1) n (sp_records s)"
  defines "line \<equiv> join_with (CHR '' '') (ws @ [pipe_op (CHR ''>'') n])"
  defines "msg \<equiv> sp_piped_msg (sp_users s ! a) (sp_users s ! (n - 1)) line"
  assumes "length msg < 200"
  obtains s' c r w where "sp_npshell sys rd (line @ CR # rest) stale a s = Inr (length (line @ CR # rest), s')"
    and "sh_log s' = sh_log s @ sends msg (sp_users s) @ [Spawn c, WaitAll]" and "ch_argv c = ws"
    and "fd_get (ch_fds c) 1 = Some (PipeW (k_next s))"
    and "sp_users s' = with_name_pipe (n - 1) a (r, w) (sp_users s)"
    and "sp_records s' = set_record (a + 1) n True (sp_records s)"
    and "r \<noteq> w" and "fd_get (k_fds s) r = None" and "fd_get (k_fds s) w = None"
    and "\<forall>g. fd_get (k_fds s') g = (if g = w then Some (PipeW (k_next s))
          else if g = r then Some (PipeR (k_next s)) else fd_get (k_fds s) g)"
proof -
  let ?s = "sp_begin a s" and ?us = "sp_users s"
  have idle: "\<not> su_batch_flag (?us ! a)" "\<not> su_ignore (?us ! a)" "su_pipes (?us ! a) = []"
    using assms(2) by (simp_all add: sp_user_idle_def)
  have n: "nat (int n - 1) = n - Suc 0" by linarith
  have b: "n - 1 < 30" using sp_id_existD(2) [OF assms(6)] by simp
  have words: "\<forall>x\<in>set (ws @ [pipe_op (CHR ''>'') n]). x \<noteq> [] \<and> (\<forall>c\<in>set x. line_char c \<and> c \<noteq> CHR '' '')"
    using assms(1) plain_word_chars pipe_op_chars [of "CHR ''>''" n]
    by (auto simp: rwg_command_def list_all_iff pipe_op_def)
  obtain r w t where po: "sp_pipe_out (pipe_op (CHR ''>'') n) ?s = Inr (True, ?s\<lparr>sp_out_id := int n,
      k_fds := t, k_next := Suc (k_next s), sp_users := with_name_pipe (n - 1) a (r, w) ?us,
      sp_records := set_record (a + 1) n True (sp_records s), sp_out_flag := True\<rparr>)" (is "_ = Inr (True, ?s1)")
    and f: "r \<noteq> w" "fd_get (k_fds s) r = None" "fd_get (k_fds s) w = None"
      "\<forall>g. fd_get t g = (if g = w then Some (PipeW (k_next s))
          else if g = r then Some (PipeR (k_next s)) else fd_get (k_fds s) g)"
    by (rule sp_pipe_out_fresh [of n ?s, unfolded sp_begin_sel, OF assms(6,7)]) (rule that; assumption)
  note pa = sp_parse_out [OF assms(1) po, of line]
  have me1: "sp_me ?s1 = with_name_pipe (n - 1) a (r, w) ?us ! a" by (simp add: sp_me_def)
  have out: "out_pipe ?s1 = (r, w)"
    using b assms(3,4,5) by (simp add: out_pipe_def with_name_pipe_def n)
  have m2: "sp_piped_msg (sp_me ?s1) (sp_users ?s1 ! nat (sp_out_id ?s1 - 1)) line = msg"
    by (simp add: sp_piped_msg_def msg_def sp_me_def with_name_pipe_fields n)
  have lg: "sends msg (with_name_pipe (n - 1) a (r, w) ?us) = sends msg ?us"
    by (rule sends_cong) (simp_all add: with_name_pipe_fields)
  obtain c where proc: "sp_process sys line 1 0 ws 0 1 ?s1 =
      (0, ?s1\<lparr>sh_log := sh_log ?s1 @ sends msg (sp_users ?s1) @ [Spawn c], sp_out_flag := False\<rparr>)"
    and c: "ch_argv c = ws" "ch_fds c = sp_user_pipe_fds sys 0 ?s1"
    using sp_process_user_pipe [of ?s1, OF _ _ _ _ _ _ _ m2 assms(10)] idle(3) by fastforce
  let ?s3 = "?s1\<lparr>sh_log := sh_log ?s1 @ sends msg (sp_users ?s1) @ [Spawn c], sp_out_flag := False\<rparr>"
  have ex: "sp_execute sys rd line (ws @ [pipe_op (CHR ''>'') n]) ?s = Inr (sh_event WaitAll ?s3)"
    by (rule sp_execute_one [OF assms(1) _ pa _ proc]) (use idle me1 in \<open>simp_all add: with_name_pipe_fields\<close>)
  have ln: "sp_npshell sys rd (line @ CR # rest) stale a s =
      Inr (length (line @ CR # rest), sp_end (sh_event WaitAll ?s3))"
    unfolding line_def by (subst sp_line_plain) (use words idle ex in \<open>auto simp: line_def sh_event_def\<close>)
  have us: "sp_users (sp_end (sh_event WaitAll ?s3)) = with_name_pipe (n - 1) a (r, w) ?us"
    using idle(3) with_name_pipe_fields(5) [of "n - 1" a "(r, w)" ?us a]
    by (simp add: sp_end_def update_user_def sh_event_def put_back_pipes)
  have "fd_get (ch_fds c) 1 = Some (PipeW (k_next s))"
    unfolding c by (rule user_pipe_child_stdout [OF _ _ out]) (use f(4) in simp_all)
  then show thesis
    by (intro that [OF ln, of c r w])
      (use us f c lg in \<open>simp_all add: sp_end_def update_user_def sh_event_def\<close>)
qed

section \<open>The receiver\<close>

lemma sp_pipe_in_ready:
  assumes "sp_id_exist (int n) (sp_users s)" and "sp_pipe_exist n (sp_index s + 1) (sp_records s)"
    and "sp_received_msg (sp_me s) (sp_users s ! (n - 1)) (int n) cmd = msg" and "length msg < 300"
  shows "sp_pipe_in cmd (pipe_op (CHR ''<'') n) s = Inr (True, s\<lparr>sp_sender := int n, sp_in_flag := True,
      sp_records := set_record n (sp_index s + 1) False (sp_records s),
      sh_log := sh_log s @ sends msg (sp_users s)\<rparr>)"
proof -
  have at: "atoi (dec_nat n) = int n"
    by (rule atoi_dec_nat) (use sp_id_existD(2) [OF assms(1)] in simp)
  have n: "nat (int n - 1) = n - Suc 0" by linarith
  have m: "into_buffer 300 (sp_received_msg (sp_users s ! sp_index s) (sp_users s ! (n - Suc 0)) (int n) cmd) = Inr msg"
    using assms(3,4) by (simp add: into_buffer_def sp_me_def)
  show ?thesis
    using assms(1,2) strtok_digits [of "CHR ''<''" n]
    by (simp add: sp_pipe_in_def pipe_op_def Let_def at n m sp_broadcast_def)
qed

lemma sp_process_user_in:
  assumes "sp_in_flag s" and "in_pipe s = (r, w)" and "\<not> write_file_flag s" and "\<not> shock_pipe_out_flag s"
    and "\<not> num_pipe_out_flag s" and "\<not> num_pipe_in_flag s" and "\<not> sp_out_flag s" and "num_pipe_vec s = []"
  shows "\<exists>c. sp_process sys cmd 1 0 ws 0 1 s =
      (0, s\<lparr>k_fds := sys_close r (sys_close w (k_fds s)), sh_log := sh_log s @ [Spawn c], sp_in_flag := False\<rparr>)
    \<and> ch_argv c = ws \<and> ch_fds c = sys_dup2 r 0 (sys_close w (k_fds s))"
proof -
  have in_pipe: "in_pipe (s\<lparr>k_fds := t\<rparr>) = (r, w)" "in_pipe (s\<lparr>k_fds := t, sh_log := l\<rparr>) = (r, w)" for t l
    using assms(2) by (simp_all add: in_pipe_def sp_me_def)
  show ?thesis
    by (rule exI [of _ "\<lparr>ch_argv = ws, ch_fds = sys_dup2 r 0 (sys_close w (k_fds s)), ch_trunc = None,
          ch_end = exec_child sys (sh_env s) ws\<rparr>"])
      (use assms in_pipe in \<open>simp add: sp_process_def sp_exec_normal_def sp_close_outs_def close_0_rest_line_pipe_out_def close_fd_def
        spawn_def sh_event_def sp_drop_inputs_def drop_dead_pipes_def sp_single_fds_def\<close>)
qed

lemma sp_receiver:
  assumes "rwg_command ws" and "sp_user_idle (sp_users s ! b)"
    and "sp_id_exist (int n) (sp_users s)" and "sp_pipe_exist n (b + 1) (sp_records s)"
    and "su_name_pipe (sp_users s ! b) ! (n - 1) = (r, w)"
  defines "line \<equiv> join_with (CHR '' '') (ws @ [pipe_op (CHR ''<'') n])"
  defines "msg \<equiv> sp_received_msg (sp_users s ! b) (sp_users s ! (n - 1)) (int n) line"
  assumes "length msg < 300"
  obtains s' c where "sp_npshell sys rd (line @ CR # rest) stale b s = Inr (length (line @ CR # rest), s')"
    and "sh_log s' = sh_log s @ sends msg (sp_users s) @ [Spawn c, WaitAll]" and "ch_argv c = ws"
    and "ch_fds c = sys_dup2 r 0 (sys_close w (k_fds s))" and "sp_users s' = sp_users s"
    and "sp_records s' = set_record n (b + 1) False (sp_records s)"
    and "k_fds s' = sys_close r (sys_close w (k_fds s))"
proof -
  let ?s = "sp_begin b s"
  have idle: "\<not> su_batch_flag (sp_users s ! b)" "\<not> su_ignore (sp_users s ! b)" "su_pipes (sp_users s ! b) = []"
    using assms(2) by (simp_all add: sp_user_idle_def)
  have words: "\<forall>x\<in>set (ws @ [pipe_op (CHR ''<'') n]). x \<noteq> [] \<and> (\<forall>c\<in>set x. line_char c \<and> c \<noteq> CHR '' '')"
    using assms(1) plain_word_chars pipe_op_chars [of "CHR ''<''" n]
    by (auto simp: rwg_command_def list_all_iff pipe_op_def)
  have pi: "sp_pipe_in line (pipe_op (CHR ''<'') n) ?s = Inr (True, ?s\<lparr>sp_sender := int n, sp_in_flag := True,
      sp_records := set_record n (b + 1) False (sp_records s), sh_log := sh_log s @ sends msg (sp_users s)\<rparr>)"
    (is "_ = Inr (True, ?s1)")
    using sp_pipe_in_ready [of n ?s line msg] assms(3,4,8) by (simp add: msg_def)
  note pa = sp_parse_in [OF assms(1) pi]
  have n: "nat (int n - 1) = n - Suc 0" by linarith
  have "in_pipe ?s1 = (r, w)" using assms(5) by (simp add: in_pipe_def sp_me_def n)
  then obtain c where proc: "sp_process sys line 1 0 ws 0 1 ?s1 =
      (0, ?s1\<lparr>k_fds := sys_close r (sys_close w (k_fds ?s1)), sh_log := sh_log ?s1 @ [Spawn c], sp_in_flag := False\<rparr>)"
      (is "_ = (0, ?s2)")
    and c: "ch_argv c = ws" "ch_fds c = sys_dup2 r 0 (sys_close w (k_fds ?s1))"
    using sp_process_user_in [of ?s1 r w] idle(3) by fastforce
  have me: "sp_me ?s1 = sp_users s ! b" by (simp add: sp_me_def)
  have ex: "sp_execute sys rd line (ws @ [pipe_op (CHR ''<'') n]) ?s = Inr (sh_event WaitAll ?s2)"
    by (rule sp_execute_one [OF assms(1) _ pa _ proc]) (use idle me in simp_all)
  have ln: "sp_npshell sys rd (line @ CR # rest) stale b s =
      Inr (length (line @ CR # rest), sp_end (sh_event WaitAll ?s2))"
    unfolding line_def by (subst sp_line_plain) (use words idle ex in \<open>auto simp: line_def sh_event_def\<close>)
  show thesis
    by (intro that [OF ln, of c])
      (use idle c in \<open>simp_all add: sp_end_def update_user_def sh_event_def put_back_pipes\<close>)
qed

end
