(* ===== verification/Sp_Server.thy ===== *)
theory Sp_Server
  imports Sp_Exec
begin

text \<open>
  All runs of the single-process server: what a call of \<^verbatim>\<open>npshell\<close> leaves of the table, the reachable
  states of the select loop, and the invariant of the table, the records and the active descriptors.
\<close>

section \<open>The table is well formed\<close>

text \<open>
  The entries have their numbers, the arrays their sizes, and a record stands only between two users
  who are logged in.
\<close>

definition sp_wf :: "sp_user list \<Rightarrow> bool list list \<Rightarrow> bool" where
  "sp_wf us m \<longleftrightarrow> length us = 30
     \<and> (\<forall>i<30. su_id (us ! i) = int i + 1 \<and> length (su_name_pipe (us ! i)) = 30)
     \<and> length m = 31 \<and> (\<forall>a<31. length (m ! a) = 31)
     \<and> (\<forall>a<31. \<forall>b<31. m ! a ! b \<longrightarrow> 1 \<le> a \<and> 1 \<le> b \<and> su_valid (us ! (a - 1)) \<and> su_valid (us ! (b - 1)))"

text \<open>What no operation but \<^verbatim>\<open>exit\<close> and a new login changes of a user.\<close>

definition sp_core :: "sp_user \<Rightarrow> bool \<times> int \<times> nat \<times> nat" where
  "sp_core u = (su_valid u, su_id u, su_sock u, length (su_name_pipe u))"

definition sp_same :: "sp \<Rightarrow> sp \<Rightarrow> bool" where
  "sp_same s s' \<longleftrightarrow> sp_index s' = sp_index s \<and> sh_exited s' = sh_exited s
     \<and> map sp_core (sp_users s') = map sp_core (sp_users s)"

definition sp_fine :: "sp \<Rightarrow> sp \<Rightarrow> bool" where
  "sp_fine s s' \<longleftrightarrow> sp_same s s' \<and>
     (sp_wf (sp_users s) (sp_records s) \<and> sp_index s < 30 \<and> su_valid (sp_me s)
        \<longrightarrow> sp_wf (sp_users s') (sp_records s'))"

lemma core_nth:
  assumes "map sp_core us' = map sp_core us" and "i < length us"
  shows "su_valid (us' ! i) = su_valid (us ! i)" and "su_id (us' ! i) = su_id (us ! i)"
    and "su_sock (us' ! i) = su_sock (us ! i)" and "length (su_name_pipe (us' ! i)) = length (su_name_pipe (us ! i))"
proof -
  have "sp_core (us' ! i) = sp_core (us ! i)"
    using assms by (metis length_map nth_map)
  then show "su_valid (us' ! i) = su_valid (us ! i)" "su_id (us' ! i) = su_id (us ! i)"
    "su_sock (us' ! i) = su_sock (us ! i)" "length (su_name_pipe (us' ! i)) = length (su_name_pipe (us ! i))"
    by (simp_all add: sp_core_def)
qed

lemma sp_wf_core:
  assumes "map sp_core us' = map sp_core us" and "sp_wf us m"
  shows "sp_wf us' m"
proof -
  have l: "length us = 30" "length us' = 30" using assms by (auto simp: sp_wf_def dest: map_eq_imp_length_eq)
  have "a - 1 < 30" if "a < 31" for a :: nat using that by simp
  then show ?thesis
    using assms(2) core_nth [OF assms(1)] l by (simp add: sp_wf_def)
qed

lemma core_update: "sp_core (f u) = sp_core u \<Longrightarrow> us ! i = u \<Longrightarrow> map sp_core (us[i := f u]) = map sp_core us"
  by (metis list_update_id map_update)

lemma sp_same_refl [simp]: "sp_same s s"
  by (simp add: sp_same_def)

lemma sp_same_me: "sp_same s s' \<Longrightarrow> sp_index s < length (sp_users s) \<Longrightarrow> su_valid (sp_me s') = su_valid (sp_me s)"
  using core_nth(1) [of "sp_users s'" "sp_users s" "sp_index s"] by (simp add: sp_same_def sp_me_def)

lemma sp_fine_refl [simp]: "sp_fine s s"
  by (simp add: sp_fine_def)

lemma sp_fine_trans:
  assumes "sp_fine s t" and "sp_fine t u"
  shows "sp_fine s u"
proof -
  have "su_valid (sp_me t)" if "sp_wf (sp_users s) (sp_records s)" "sp_index s < 30" "su_valid (sp_me s)"
    using that assms(1) sp_same_me [of s t] by (simp add: sp_fine_def sp_wf_def)
  then show ?thesis using assms by (simp add: sp_fine_def sp_same_def)
qed

lemma sp_fineI:
  assumes "map sp_core (sp_users s') = map sp_core (sp_users s)" and "sp_records s' = sp_records s"
    and "sp_index s' = sp_index s" and "sh_exited s' = sh_exited s"
  shows "sp_fine s s'"
  using assms sp_wf_core [OF assms(1)] by (simp add: sp_fine_def sp_same_def)

section \<open>Operations that leave the table alone\<close>

definition sp_quiet :: "sp \<Rightarrow> sp \<Rightarrow> bool" where
  "sp_quiet s s' \<longleftrightarrow> sp_users s' = sp_users s \<and> sp_records s' = sp_records s \<and> sp_index s' = sp_index s
     \<and> sh_exited s' = sh_exited s"

lemma sp_quiet_fine: "sp_quiet s s' \<Longrightarrow> sp_fine s s'"
  by (simp add: sp_quiet_def sp_fineI)

lemma sp_quiet_refl [simp]: "sp_quiet s s"
  by (simp add: sp_quiet_def)

lemma sp_quiet_trans: "sp_quiet s t \<Longrightarrow> sp_quiet t u \<Longrightarrow> sp_quiet s u"
  by (simp add: sp_quiet_def)

lemma sp_quiet_ops [simp]:
  "sp_quiet s (sh_event e s)" "sp_quiet s (sp_broadcast msg s)" "sp_quiet s (decrease_line_count s)"
  "sp_quiet s (close_fd fd s)" "sp_quiet s (spawn sys argv t tr s)" "sp_quiet s (sp_close_outs s)"
  "sp_quiet s (sp_drop_inputs s)" "sp_quiet s (sp_who s)"
  "sp_quiet s (s\<lparr>line_end_with_pipe := b\<rparr>)" "sp_quiet s (s\<lparr>shock_pipe_out_flag := b\<rparr>)"
  "sp_quiet s (s\<lparr>num_pipe_out_flag := b\<rparr>)" "sp_quiet s (s\<lparr>write_file_flag := b\<rparr>)"
  "sp_quiet s (s\<lparr>sp_out_flag := b\<rparr>)"
  by (simp_all add: sp_quiet_def sh_event_def sp_broadcast_def decrease_line_count_def Let_def close_fd_def
      spawn_def sp_close_outs_def close_0_rest_line_pipe_out_def sp_drop_inputs_def drop_dead_pipes_def
      close_0_rest_line_pipe_in_def sp_who_def)

lemma sp_quiet_redirection: "set_redirection f s = Inr s' \<Longrightarrow> sp_quiet s s'"
  by (auto simp: sp_quiet_def set_redirection_def sh_event_def Let_def split: if_splits)

lemma sp_quiet_sys_pipe: "sys_pipe s = (r, w, s') \<Longrightarrow> sp_quiet s s'"
  by (erule sys_pipeE) (simp add: sp_quiet_def)

lemma sp_quiet_number_pipe: "number_pipe_out d w s = Inr (out, s') \<Longrightarrow> sp_quiet s s'"
  by (auto simp: number_pipe_out_def Let_def sp_quiet_def split: option.splits prod.splits
      dest!: sp_quiet_sys_pipe)

lemma sp_quiet_spawn_user_pipe [simp]: "sp_quiet s (sp_spawn_user_pipe sys cmd argv fd_in s)"
  by (auto simp: sp_spawn_user_pipe_def sp_quiet_def spawn_def sh_event_def sp_broadcast_def split: sum.splits)

lemma sp_quiet_if: "sp_quiet s t \<Longrightarrow> sp_quiet s u \<Longrightarrow> sp_quiet s (if b then t else u)"
  by simp

lemma sp_quiet_redirect: "sp_quiet s (sp_exec_redirect sys n argv fd_in s)"
  unfolding sp_exec_redirect_def Let_def
  by (intro sp_quiet_trans [OF _ sp_quiet_ops(12)] sp_quiet_trans [OF _ sp_quiet_ops(7)]
      sp_quiet_if sp_quiet_trans [OF _ sp_quiet_ops(4)] sp_quiet_trans [OF _ sp_quiet_ops(5)] sp_quiet_ops(6))

lemma sp_quiet_numbered: "sp_quiet s (sp_exec_numbered sys n argv fd_in out s)"
  unfolding sp_exec_numbered_def Let_def
  by (intro sp_quiet_trans [OF _ sp_quiet_ops(11)] sp_quiet_trans [OF _ sp_quiet_ops(7)]
      sp_quiet_if sp_quiet_trans [OF _ sp_quiet_ops(4)] sp_quiet_trans [OF _ sp_quiet_ops(5)] sp_quiet_ops(6))

lemma sp_quiet_user_pipe: "sp_quiet s (sp_exec_user_pipe sys cmd n argv fd_in s)"
  unfolding sp_exec_user_pipe_def Let_def
  by (intro sp_quiet_trans [OF _ sp_quiet_ops(13)] sp_quiet_trans [OF _ sp_quiet_ops(7)]
      sp_quiet_if sp_quiet_trans [OF _ sp_quiet_ops(4)] sp_quiet_trans [OF _ sp_quiet_spawn_user_pipe] sp_quiet_ops(6))

lemma sp_quiet_normal: "sp_exec_normal sys n prc argv fd_in s = (fd, s') \<Longrightarrow> sp_quiet s s'"
  unfolding sp_exec_normal_def Let_def
  by (auto split: if_splits prod.splits dest!: sp_quiet_sys_pipe
      intro!: sp_quiet_trans [OF _ sp_quiet_ops(7)] sp_quiet_trans [OF _ sp_quiet_ops(4)]
        sp_quiet_trans [OF _ sp_quiet_ops(5)] sp_quiet_trans [OF _ sp_quiet_ops(6)])

lemma sp_quiet_process: "sp_process sys cmd n prc argv fd_in out s = (fd, s') \<Longrightarrow> sp_quiet s s'"
  by (auto simp: sp_process_def sp_quiet_redirect sp_quiet_numbered sp_quiet_user_pipe
      split: if_splits dest: sp_quiet_normal)

section \<open>Operations on the table\<close>

lemma sp_fine_update_user:
  assumes "\<And>u. sp_core (f u) = sp_core u"
  shows "sp_fine s (update_user i f s)"
  by (rule sp_fineI) (simp_all add: update_user_def core_update assms)

lemma sp_wf_set_record:
  assumes "sp_wf us m"
    and "v \<Longrightarrow> 1 \<le> a \<and> 1 \<le> b \<and> su_valid (us ! (a - 1)) \<and> su_valid (us ! (b - 1))"
  shows "sp_wf us (set_record a b v m)"
proof -
  have l: "length (set_record a b v m) = length m" by (simp add: set_record_def)
  have r: "set_record a b v m ! x = (if x = a \<and> a < length m then (m ! a)[b := v] else m ! x)" for x
    by (cases "a < length m") (auto simp: set_record_def nth_list_update list_update_beyond)
  have e: "set_record a b v m ! x ! y \<Longrightarrow> y < 31 \<Longrightarrow> m ! x ! y \<or> (v \<and> x = a \<and> y = b)" if "x < 31" for x y
    using assms(1) that by (cases "y = b") (auto simp: r sp_wf_def split: if_splits)
  show ?thesis
    unfolding sp_wf_def
  proof (intro conjI allI impI)
    fix x y
    assume h: "x < 31" "y < 31" "set_record a b v m ! x ! y"
    from e [OF h(1,3,2)] show "1 \<le> x" "1 \<le> y" "su_valid (us ! (x - 1))" "su_valid (us ! (y - 1))"
      using assms h(1,2) by (auto simp: sp_wf_def)
  qed (use assms(1) in \<open>auto simp: sp_wf_def l r\<close>)
qed

lemma sp_id_existE:
  assumes "sp_id_exist n us"
  shows "1 \<le> nat n" and "nat n < 31" and "su_valid (us ! (nat n - 1))"
proof -
  obtain i where i: "i < 30" "su_valid (us ! i)" "int i = n - 1"
    using assms by (auto simp: sp_id_exist_def slots_def list_ex_iff)
  then have "nat n = Suc i" by linarith
  with i show "1 \<le> nat n" "nat n < 31" "su_valid (us ! (nat n - 1))" by auto
qed

lemma sp_fine_pipe_in:
  assumes "sp_pipe_in cmd w s = Inr (ok, s')"
  shows "sp_fine s s'"
proof -
  have "sp_users s' = sp_users s \<and> sp_index s' = sp_index s \<and> sh_exited s' = sh_exited s
      \<and> (sp_records s' = sp_records s \<or> (\<exists>a b. sp_records s' = set_record a b False (sp_records s)))"
    using assms by (fastforce simp: sp_pipe_in_def Let_def into_buffer_def sh_event_def sp_broadcast_def
        split: option.splits if_splits)
  then obtain a b where "sp_users s' = sp_users s" "sp_index s' = sp_index s" "sh_exited s' = sh_exited s"
    "sp_records s' = sp_records s \<or> sp_records s' = set_record a b False (sp_records s)" by blast
  then show ?thesis
    using sp_wf_set_record [of "sp_users s" "sp_records s" False a b]
    by (auto simp: sp_fine_def sp_same_def)
qed

lemma sp_fine_pipe_out:
  assumes "sp_pipe_out w s = Inr (ok, s')"
  shows "sp_fine s s'"
proof -
  obtain digits where d: "strtok_first (\<lambda>c. c = CHR ''>'') w = Some digits"
    using assms by (auto simp: sp_pipe_out_def split: option.splits)
  define n where "n = atoi digits"
  note eq = assms [unfolded sp_pipe_out_def d option.case Let_def, folded n_def]
  show ?thesis
  proof (cases "sp_id_exist n (sp_users s) \<and> \<not> sp_pipe_exist (sp_index s + 1) (nat n) (sp_records s)")
    case False
    with eq show ?thesis by (auto simp: sp_quiet_def sh_event_def split: if_splits intro!: sp_quiet_fine)
  next
    case True
    note n = sp_id_existE [OF conjunct1 [OF True]]
    obtain r w t where p: "sys_pipe (s\<lparr>sp_out_id := n\<rparr>) = (r, w, t)" by (cases "sys_pipe (s\<lparr>sp_out_id := n\<rparr>)")
    have t: "sp_users t = sp_users s" "sp_records t = sp_records s" "sp_index t = sp_index s"
        "sh_exited t = sh_exited s"
      using sp_quiet_sys_pipe [OF p] by (simp_all add: sp_quiet_def)
    let ?u = "update_user (nat (n - 1)) (\<lambda>u. u\<lparr>su_name_pipe := (su_name_pipe u)[sp_index s := (r, w)]\<rparr>) t"
    have s': "s' = ?u\<lparr>sp_records := set_record (sp_index s + 1) (nat n) True (sp_records ?u), sp_out_flag := True\<rparr>"
      using eq True p by simp
    have c: "map sp_core (sp_users ?u) = map sp_core (sp_users s)"
      by (simp add: update_user_def core_update sp_core_def t)
    have v: "su_valid (sp_users ?u ! (nat n - 1)) = su_valid (sp_users s ! (nat n - 1))"
      "su_valid (sp_users ?u ! sp_index s) = su_valid (sp_users s ! sp_index s)"
      if "length (sp_users s) = 30" "sp_index s < 30"
      using that n core_nth(1) [OF c] by simp_all
    have "sp_wf (sp_users s') (sp_records s')"
      if h: "sp_wf (sp_users s) (sp_records s)" "sp_index s < 30" "su_valid (sp_me s)"
    proof -
      have "length (sp_users s) = 30" using h(1) by (simp add: sp_wf_def)
      note v = v [OF this h(2)]
      have "sp_wf (sp_users ?u) (set_record (sp_index s + 1) (nat n) True (sp_records s))"
        by (rule sp_wf_set_record [OF sp_wf_core [OF c h(1)]]) (use v n h(3) in \<open>simp add: sp_me_def\<close>)
      then show ?thesis by (simp add: s' update_user_def t)
    qed
    moreover have "sp_same s s'" using c by (simp add: s' sp_same_def update_user_def t)
    ultimately show ?thesis by (simp add: sp_fine_def)
  qed
qed

lemma sp_fine_words: "sp_words cmd acc ws s = Inr (r, s') \<Longrightarrow> sp_fine s s'"
proof (induction cmd acc ws s rule: sp_words.induct)
  case (2 cmd acc w ws s)
  show ?case
  proof (cases "hd w = CHR ''<''")
    case True
    with 2(3) obtain ok t where t: "sp_pipe_in cmd w s = Inr (ok, t)"
      and r: "(if ok then sp_words cmd acc ws t else Inr (None, t)) = Inr (r, s')"
      by (auto elim!: ebind_eq_InrE)
    show ?thesis
    proof (cases ok)
      case True
      with 2(1) [OF \<open>hd w = CHR ''<''\<close>] t r sp_fine_pipe_in [OF t] show ?thesis
        using sp_fine_trans by auto
    qed (use r sp_fine_pipe_in [OF t] in simp)
  next
    case False
    with 2(2,3) show ?thesis by (auto split: if_splits)
  qed
qed simp

lemma sp_fine_redirection: "set_redirection f s = Inr s' \<Longrightarrow> sp_fine s s'"
  by (rule sp_quiet_fine) (rule sp_quiet_redirection)

lemma sp_fine_number_pipe:
  "number_pipe_out d w (s\<lparr>line_end_with_pipe := True\<rparr>) = Inr (out, t) \<Longrightarrow>
     sp_fine s (t\<lparr>shock_pipe_out_flag := True\<rparr>) \<and> sp_fine s (t\<lparr>num_pipe_out_flag := True\<rparr>)"
  by (drule sp_quiet_number_pipe) (auto simp: sp_quiet_def intro!: sp_quiet_fine)

lemma sp_fine_op: "sp_op w rest out s = Inr (r, s') \<Longrightarrow> sp_fine s s'"
  unfolding sp_op_def
  by (auto split: if_splits list.splits dest!: sp_fine_number_pipe dest: sp_fine_redirection sp_fine_pipe_out)

lemma sp_fine_combine: "sp_combine cmd toks procs out s = Inr (r, s') \<Longrightarrow> sp_fine s s'"
proof (induction cmd toks procs out s rule: sp_combine.induct)
  case (1 cmd toks procs out s)
  note eq = 1(2) [unfolded sp_combine.simps [of cmd toks procs out s]]
  show ?case
  proof (cases "toks = [] \<or> 5000 \<le> length procs")
    case True
    with eq show ?thesis by (auto split: if_splits)
  next
    case False
    then obtain q t where w: "sp_words cmd [] toks s = Inr (q, t)"
      using eq by (auto split: sum.splits)
    note ft = sp_fine_words [OF w]
    show ?thesis
    proof (cases q)
      case None
      with eq False w ft show ?thesis by simp
    next
      case (Some pr)
      then obtain p rest where q: "q = Some (p, rest)" by (cases pr) simp
      show ?thesis
      proof (cases rest)
        case Nil
        with eq False w ft q show ?thesis by (simp add: Let_def)
      next
        case (Cons o1 rest1)
        then obtain q2 u where o2: "sp_op o1 rest1 out t = Inr (q2, u)"
          using eq False w q by (auto simp: Let_def split: sum.splits)
        note fu = sp_fine_trans [OF ft sp_fine_op [OF o2]]
        show ?thesis
        proof (cases q2)
          case None
          with eq False w q Cons o2 fu show ?thesis by (simp add: Let_def)
        next
          case (Some pr2)
          then obtain rest2 out2 where q2: "q2 = Some (rest2, out2)" by (cases pr2) simp
          have "sp_fine u s'"
            by (rule 1(1) [OF _ _ w refl q refl refl Cons o2 refl q2 refl])
              (use eq False w q Cons o2 q2 in \<open>auto simp: Let_def\<close>)
          with fu show ?thesis by (rule sp_fine_trans)
        qed
      qed
    qed
  qed
qed

section \<open>Leaving\<close>

definition records_shape :: "bool list list \<Rightarrow> bool" where
  "records_shape m \<longleftrightarrow> length m = 31 \<and> (\<forall>a<31. length (m ! a) = 31)"

lemma set_record_False:
  assumes "records_shape m" and "a < 31" and "b < 31"
  shows "records_shape (set_record a b False m)"
    and "x < 31 \<Longrightarrow> y < 31 \<Longrightarrow> set_record a b False m ! x ! y \<longleftrightarrow> m ! x ! y \<and> \<not> (x = a \<and> y = b)"
  using assms by (auto simp: set_record_def records_shape_def nth_list_update)

lemma clear_row:
  fixes P :: "nat \<Rightarrow> bool"
  assumes "records_shape m" and "i < 31" and "set js \<subseteq> {..<31}"
  defines "m' \<equiv> fold (\<lambda>j m. if P j then set_record i j False m else m) js m"
  shows "records_shape m' \<and> (\<forall>x<31. \<forall>y<31. m' ! x ! y \<longleftrightarrow> m ! x ! y \<and> \<not> (x = i \<and> y \<in> set js \<and> P y))"
  using assms(1,3) unfolding m'_def
proof (induction js arbitrary: m)
  case (Cons j js)
  let ?m = "if P j then set_record i j False m else m"
  have s: "records_shape ?m" "x < 31 \<Longrightarrow> y < 31 \<Longrightarrow> ?m ! x ! y \<longleftrightarrow> m ! x ! y \<and> \<not> (x = i \<and> y = j \<and> P j)" for x y
    using Cons.prems set_record_False [of m i j] assms(2) by auto
  show ?case using Cons.IH [OF s(1)] Cons.prems(2) s(2) by auto
qed simp

lemma clear_rows:
  fixes P :: "nat \<Rightarrow> nat \<Rightarrow> bool"
  assumes "records_shape m" and "set is \<subseteq> {..<31}" and "set js \<subseteq> {..<31}"
  defines "m' \<equiv> fold (\<lambda>i m. fold (\<lambda>j m. if P i j then set_record i j False m else m) js m) is m"
  shows "records_shape m'
    \<and> (\<forall>x<31. \<forall>y<31. m' ! x ! y \<longleftrightarrow> m ! x ! y \<and> \<not> (x \<in> set is \<and> y \<in> set js \<and> P x y))"
  using assms(1,2) unfolding m'_def
proof (induction "is" arbitrary: m)
  case (Cons i "is")
  have i: "i < 31" using Cons.prems(2) by simp
  note s = clear_row [OF Cons.prems(1) i assms(3), of "P i"]
  show ?case using Cons.IH [OF conjunct1 [OF s]] Cons.prems(2) s by auto
qed simp

lemma sp_clear_records_nth:
  assumes "records_shape m"
  shows "records_shape (sp_clear_records ix m)"
    and "x < 31 \<Longrightarrow> y < 31 \<Longrightarrow> sp_clear_records ix m ! x ! y \<longleftrightarrow>
      m ! x ! y \<and> \<not> (1 \<le> x \<and> 1 \<le> y \<and> (x = ix + 1 \<or> y = ix + 1))"
proof -
  have r: "set [1..<31] \<subseteq> {..<31::nat}" by auto
  note c = clear_rows [OF assms r r, of "\<lambda>i j. i = ix + 1 \<or> j = ix + 1", folded sp_clear_records_def]
  show "records_shape (sp_clear_records ix m)" using c by blast
  show "sp_clear_records ix m ! x ! y \<longleftrightarrow> m ! x ! y \<and> \<not> (1 \<le> x \<and> 1 \<le> y \<and> (x = ix + 1 \<or> y = ix + 1))"
    if "x < 31" "y < 31"
    using conjunct2 [OF c] that by auto
qed

definition sp_left :: "sp \<Rightarrow> sp \<Rightarrow> bool" where
  "sp_left s s' \<longleftrightarrow> sh_exited s' \<and> sp_index s' = sp_index s
     \<and> map sp_core (sp_users s') = map sp_core ((sp_users s)[sp_index s := (sp_me s)\<lparr>su_valid := False\<rparr>])
     \<and> (sp_wf (sp_users s) (sp_records s) \<and> sp_index s < 30 \<and> su_valid (sp_me s)
          \<longrightarrow> sp_wf (sp_users s') (sp_records s'))"

lemma sp_wf_leave:
  assumes "sp_wf us m" and "ix < 30"
  shows "sp_wf (us[ix := (us ! ix)\<lparr>su_valid := False\<rparr>]) (sp_clear_records ix m)"
proof -
  have sh: "records_shape m" and l: "length us = 30" using assms(1) by (auto simp: sp_wf_def records_shape_def)
  note c = sp_clear_records_nth [OF sh]
  show ?thesis
    unfolding sp_wf_def
  proof (intro conjI allI impI)
    fix a b
    assume h: "a < 31" "b < 31" "sp_clear_records ix m ! a ! b"
    with c(2) have "m ! a ! b" "\<not> (1 \<le> a \<and> 1 \<le> b \<and> (a = ix + 1 \<or> b = ix + 1))" by blast+
    moreover from this h assms(1) have "1 \<le> a" "1 \<le> b" "su_valid (us ! (a - 1))" "su_valid (us ! (b - 1))"
      by (auto simp: sp_wf_def)
    ultimately show "1 \<le> a" "1 \<le> b" "su_valid (us[ix := (us ! ix)\<lparr>su_valid := False\<rparr>] ! (a - 1))"
      "su_valid (us[ix := (us ! ix)\<lparr>su_valid := False\<rparr>] ! (b - 1))"
      by (auto simp: nth_list_update)
  qed (use assms l c(1) in \<open>auto simp: sp_wf_def records_shape_def nth_list_update\<close>)
qed

lemma sp_left_exit: "sp_exit s = Inr s' \<Longrightarrow> sp_left s s'"
  using sp_wf_leave [of "sp_users s" "sp_records s" "sp_index s"]
  by (auto simp: sp_exit_def into_buffer_def Let_def sp_left_def update_user_def sh_event_def sp_broadcast_def
      sp_me_def split: if_splits)

lemma sp_fine_left: "sp_fine s t \<Longrightarrow> sp_left t u \<Longrightarrow> sp_index s < 30 \<Longrightarrow> length (sp_users s) = 30 \<Longrightarrow> sp_left s u"
proof -
  assume h: "sp_fine s t" "sp_left t u" "sp_index s < 30" "length (sp_users s) = 30"
  then have m: "map sp_core (sp_users t) = map sp_core (sp_users s)" "sp_index t = sp_index s"
    by (simp_all add: sp_fine_def sp_same_def)
  have c: "sp_core (sp_me t) = sp_core (sp_me s)"
    using m h(3,4) by (metis length_map nth_map sp_me_def)
  then have "sp_core ((sp_me t)\<lparr>su_valid := False\<rparr>) = sp_core ((sp_me s)\<lparr>su_valid := False\<rparr>)"
    and v: "su_valid (sp_me t) = su_valid (sp_me s)"
    by (simp_all add: sp_core_def)
  then have "map sp_core (sp_users u) = map sp_core ((sp_users s)[sp_index s := (sp_me s)\<lparr>su_valid := False\<rparr>])"
    using h(2) m by (simp add: sp_left_def map_update)
  then show ?thesis using h m v by (simp add: sp_left_def sp_fine_def)
qed

section \<open>A call of npshell\<close>

lemma sp_fine_builtin:
  assumes "sp_builtin rd c args s = Some (Inr s')" and "c \<noteq> ''exit''"
  shows "sp_fine s s'"
proof -
  have u: "sp_fine s (update_user i (\<lambda>u. u\<lparr>su_env := v\<rparr>) (s\<lparr>sh_env := e\<rparr>))"
    "sp_fine s (update_user i (\<lambda>u. u\<lparr>su_name := v\<rparr>) s)"
    "sp_fine s (sp_broadcast msg (update_user i (\<lambda>u. u\<lparr>su_name := v\<rparr>) s))" for i v e msg
    by (rule sp_fineI, simp_all add: update_user_def sp_broadcast_def core_update sp_core_def)+
  have q: "sp_fine s (sh_event e s)" "sp_fine s (sp_broadcast msg s)" "sp_fine s (sp_who s)" for e msg
    by (simp_all add: sp_quiet_fine)
  show ?thesis
    using assms u q
    by (auto simp: sp_builtin_def sp_printenv_def sp_setenv_def sp_batch_def sp_tell_def sp_yell_def sp_name_def
        into_buffer_def Let_def split: if_splits list.splits option.splits)
qed

lemma sp_left_builtin: "sp_builtin rd ''exit'' args s = Some (Inr s') \<Longrightarrow> sp_left s s'"
  by (simp add: sp_builtin_def sp_left_exit)

definition sp_after :: "sp \<Rightarrow> sp \<Rightarrow> bool" where
  "sp_after s s' \<longleftrightarrow> sp_fine s s' \<or> sp_left s s'"

definition sp_inside :: "sp \<Rightarrow> bool" where
  "sp_inside s \<longleftrightarrow> sp_index s < 30 \<and> length (sp_users s) = 30 \<and> \<not> sh_exited s"

lemma sp_inside_fine: "sp_inside s \<Longrightarrow> sp_fine s t \<Longrightarrow> sp_inside t"
  by (auto simp: sp_inside_def sp_fine_def sp_same_def dest: map_eq_imp_length_eq)

lemma sp_after_fine: "sp_inside s \<Longrightarrow> sp_fine s t \<Longrightarrow> sp_after t u \<Longrightarrow> sp_after s u"
  using sp_fine_trans sp_fine_left by (auto simp: sp_after_def sp_inside_def)

lemma sp_after_loop:
  "sp_loop sys rd cmd n prc procs fd_in out s = Inr s' \<Longrightarrow> sp_inside s \<Longrightarrow> sp_after s s'"
proof (induction sys rd cmd n prc procs fd_in out s rule: sp_loop.induct)
  case (3 sys rd cmd n prc c args procs fd_in out s)
  show ?case
  proof (cases "sp_builtin rd c args s")
    case None
    obtain fd t where p: "sp_process sys cmd n prc (c # args) fd_in out s = (fd, t)"
      by (cases "sp_process sys cmd n prc (c # args) fd_in out s")
    have f: "sp_fine s t" using sp_quiet_process [OF p] by (rule sp_quiet_fine)
    have "sp_after t s'"
      using 3(1) [OF None p [symmetric] refl] 3(3) None p sp_inside_fine [OF 3(4) f] by simp
    with 3(4) f show ?thesis by (rule sp_after_fine)
  next
    case (Some r)
    then obtain t where r: "r = Inr t" and eq: "(if sh_exited t then Inr t
        else sp_loop sys rd cmd n (prc + 1) procs fd_in out t) = Inr s'"
      using 3(3) by auto
    show ?thesis
    proof (cases "c = ''exit''")
      case True
      then have "sp_left s t" using Some r sp_left_builtin by simp
      then show ?thesis using eq by (simp add: sp_after_def sp_left_def)
    next
      case False
      then have f: "sp_fine s t" using Some r sp_fine_builtin by simp
      have i: "sp_inside t" using 3(4) f by (rule sp_inside_fine)
      have "sp_after t s'"
        using 3(2) [OF Some _ _ i] eq i r by (simp add: sp_inside_def)
      with 3(4) f show ?thesis by (rule sp_after_fine)
    qed
  qed
qed (simp_all add: sp_after_def)

lemma sp_fine_parse: "sp_parse cmd toks s = Inr (r, s') \<Longrightarrow> sp_fine s s'"
  by (auto simp: sp_parse_def split: list.splits if_splits dest: sp_fine_combine)

lemma sp_after_execute:
  assumes "sp_execute sys rd cmd toks s = Inr s'" and "sp_inside s"
  shows "sp_after s s'"
proof -
  define s1 where "s1 = (if toks \<noteq> [] \<and> num_pipe_vec s \<noteq> [] then decrease_line_count s else s)"
  have f1: "sp_fine s s1" by (simp add: s1_def sp_quiet_fine)
  obtain p s2 where p: "sp_parse cmd toks s1 = Inr (p, s2)"
    using assms(1) by (auto simp: sp_execute_def Let_def s1_def [symmetric])
  note f2 = sp_fine_trans [OF f1 sp_fine_parse [OF p]]
  have "sp_after s2 s'"
  proof (cases "p = None \<or> su_ignore (sp_me s2)")
    case True
    then have "s' = s2" using assms(1) p
      by (auto simp: sp_execute_def Let_def s1_def [symmetric] split: option.splits)
    then show ?thesis by (simp add: sp_after_def)
  next
    case False
    then obtain procs out where pp: "p = Some (procs, out)" by auto
    then obtain s3 where l: "sp_loop sys rd cmd (length procs) 0 procs 0 out s2 = Inr s3"
      and s': "s' = (if sh_exited s3 \<or> line_end_with_pipe s3 then s3 else sh_event WaitAll s3)"
      using assms(1) p False by (auto simp: sp_execute_def Let_def s1_def [symmetric])
    have "sp_after s2 s3" using l sp_inside_fine [OF assms(2) f2] by (rule sp_after_loop)
    then show ?thesis
      using s' sp_fine_trans [OF _ sp_quiet_fine [OF sp_quiet_ops(1)], of s2 s3 WaitAll]
      by (auto simp: sp_after_def sp_left_def)
  qed
  with assms(2) f2 show ?thesis by (rule sp_after_fine)
qed

lemma sp_npshell_result:
  assumes "sp_npshell sys rd raw stale ix s = Inr (n, s')" and "ix < 30"
    and "sp_wf (sp_users s) (sp_records s)" and "su_valid (sp_users s ! ix)"
  shows "sp_wf (sp_users s') (sp_records s')"
    and "map sp_core (sp_users s') = map sp_core (sp_users s)
      \<or> n = 0 \<and> map sp_core (sp_users s') = map sp_core ((sp_users s)[ix := (sp_users s ! ix)\<lparr>su_valid := False\<rparr>])"
proof -
  let ?s = "sp_begin ix s"
  have b: "sp_users ?s = sp_users s" "sp_records ?s = sp_records s" "sp_index ?s = ix" "sp_me ?s = sp_users s ! ix"
    "\<not> sh_exited ?s"
    by (simp_all add: sp_begin_def sp_me_def)
  have i: "sp_inside ?s" using assms(2,3) b by (simp add: sp_inside_def sp_wf_def)
  have "\<exists>t. sp_after ?s t \<and> s' = sp_end t \<and> (sh_exited t \<longrightarrow> n = 0)"
  proof -
    have "s' = sp_end ?s \<or> (\<exists>cmd toks t. sp_execute sys rd cmd toks ?s = Inr t \<and> s' = sp_end t
        \<and> (sh_exited t \<longrightarrow> n = 0))"
      using assms(1) by (fastforce simp: sp_npshell_def Let_def split: if_splits)
    then show ?thesis
    proof
      assume "s' = sp_end ?s"
      then show ?thesis using b(5) by (intro exI [of _ ?s]) (simp add: sp_after_def)
    qed (use sp_after_execute [OF _ i] in blast)
  qed
  then obtain t where t: "sp_after ?s t" "s' = sp_end t" "sh_exited t \<longrightarrow> n = 0" by blast
  have e: "map sp_core (sp_users s') = map sp_core (sp_users t)" "sp_records s' = sp_records t"
    by (simp_all add: t(2) sp_end_def update_user_def core_update sp_core_def)
  have w: "sp_wf (sp_users t) (sp_records t)"
    using t(1) assms(2-4) b by (auto simp: sp_after_def sp_fine_def sp_left_def)
  show "sp_wf (sp_users s') (sp_records s')" using sp_wf_core [OF e(1) w] e(2) by simp
  show "map sp_core (sp_users s') = map sp_core (sp_users s)
      \<or> n = 0 \<and> map sp_core (sp_users s') = map sp_core ((sp_users s)[ix := (sp_users s ! ix)\<lparr>su_valid := False\<rparr>])"
    using t e b by (auto simp: sp_after_def sp_fine_def sp_same_def sp_left_def)
qed

section \<open>Every run of the server\<close>

text \<open>
  The select loop: connections come, and descriptors in the active set become ready with whatever
  was sent; the files and programs of the system may be others each time.
\<close>

inductive sp_step :: "sp_server \<Rightarrow> sp_server \<Rightarrow> bool" where
  accepts: "sp_accept addr port g = Inr g' \<Longrightarrow> sp_step g g'"
| serves: "fd \<in> set (afds g) \<Longrightarrow> fd \<noteq> msock g \<Longrightarrow> sp_ready sys rd raw stale fd g = Inr g' \<Longrightarrow> sp_step g g'"

inductive sp_reachable :: "sp_server \<Rightarrow> bool" where
  boots: "sp_reachable (sp_boot t n e junk)"
| steps: "sp_reachable g \<Longrightarrow> sp_step g g' \<Longrightarrow> sp_reachable g'"

definition has_user :: "sp_user list \<Rightarrow> nat \<Rightarrow> bool" where
  "has_user us fd \<longleftrightarrow> (\<exists>i<30. su_valid (us ! i) \<and> su_sock (us ! i) = fd)"

definition sp_inv :: "sp_server \<Rightarrow> bool" where
  "sp_inv g \<longleftrightarrow> sp_wf (sp_users (srv g)) (sp_records (srv g))
     \<and> (\<forall>fd\<in>set (afds g). fd \<noteq> msock g \<longrightarrow> has_user (sp_users (srv g)) fd)"

lemma find_fd_user_iff: "sp_find_fd_user fd us \<noteq> None \<longleftrightarrow> has_user us fd"
  by (auto simp: sp_find_fd_user_def has_user_def find_None_iff slots_def)

lemma find_fd_userD: "sp_find_fd_user fd us = Some i \<Longrightarrow> i < 30 \<and> su_valid (us ! i) \<and> su_sock (us ! i) = fd"
  by (auto simp: sp_find_fd_user_def find_Some_iff slots_def)

lemma sp_table_nth: "i < 30 \<Longrightarrow> sp_table ! i = zero_sp_user\<lparr>su_id := int i + 1\<rparr>"
  by (simp add: sp_table_def slots_def)

lemma sp_inv_boot: "sp_inv (sp_boot t n e junk)"
  by (simp add: sp_inv_def sp_boot_def Let_def sp_wf_def sp_table_nth zero_sp_user_def split: prod.splits)
    (simp add: sp_table_def slots_def)

lemma sp_inv_accept:
  assumes "sp_accept addr port g = Inr g'" and "sp_inv g"
  shows "sp_inv g'"
proof -
  let ?us = "sp_users (srv g)"
  obtain ssock t where t: "fd_alloc (Opened ''socket'') (k_fds (srv g)) = (ssock, t)"
    by (cases "fd_alloc (Opened ''socket'') (k_fds (srv g))")
  obtain i where i: "List.find (\<lambda>i. \<not> su_valid (?us ! i)) slots = Some i"
    using assms(1) t by (auto simp: sp_accept_def Let_def split: option.splits)
  then have i30: "i < 30" and inv: "\<not> su_valid (?us ! i)" by (auto simp: find_Some_iff slots_def)
  let ?u = "(?us ! i)\<lparr>su_valid := True, su_sock := ssock, su_addr := addr,
      su_env := ''bin:.'', su_name := ''(no name)'', su_port := port, su_batch_flag := False, su_ignore := False\<rparr>"
  have g': "sp_users (srv g') = ?us[i := ?u]" "sp_records (srv g') = sp_records (srv g)"
    "afds g' = ssock # afds g" "msock g' = msock g"
    using assms(1) t i
    by (auto simp: sp_accept_def Let_def update_user_def sp_broadcast_def sh_event_def split: if_splits)
  have l: "length ?us = 30" and w: "sp_wf ?us (sp_records (srv g))" using assms(2) by (auto simp: sp_inv_def sp_wf_def)
  have n: "?us[i := ?u] ! k = (if k = i then ?u else ?us ! k)" for k
    using i30 l by (auto simp: nth_list_update)
  have "sp_wf (?us[i := ?u]) (sp_records (srv g))"
    using w by (auto simp: sp_wf_def n)
  moreover have "has_user (?us[i := ?u]) ssock" using i30 by (auto simp: has_user_def n)
  moreover have "has_user (?us[i := ?u]) fd" if "has_user ?us fd" for fd
    using that inv by (fastforce simp: has_user_def n)
  ultimately show ?thesis using assms(2) by (auto simp: sp_inv_def g')
qed

lemma has_user_core:
  assumes "map sp_core us' = map sp_core us" and "length us = 30"
  shows "has_user us' fd = has_user us fd"
  using core_nth [OF assms(1)] assms(2) by (auto simp: has_user_def)

lemma sp_inv_ready:
  assumes "sp_ready sys rd raw stale fd g = Inr g'" and "sp_inv g"
  shows "sp_inv g'"
proof -
  let ?us = "sp_users (srv g)"
  obtain i where i: "sp_find_fd_user fd ?us = Some i"
    using assms(1) by (auto simp: sp_ready_def split: option.splits)
  note iD = find_fd_userD [OF i]
  obtain n s where n: "sp_npshell sys rd raw stale i (dup3 fd fd fd (srv g)) = Inr (n, s)"
    using assms(1) i by (auto simp: sp_ready_def)
  have d: "sp_users (dup3 x y z s) = sp_users s" "sp_records (dup3 x y z s) = sp_records s" for x y z s
    by (simp_all add: dup3_def)
  have w: "sp_wf ?us (sp_records (srv g))" and l: "length ?us = 30"
    using assms(2) by (auto simp: sp_inv_def sp_wf_def)
  note r = sp_npshell_result [OF n, unfolded d, OF conjunct1 [OF iD] w conjunct1 [OF conjunct2 [OF iD]]]
  have g': "sp_users (srv g') = sp_users s" "sp_records (srv g') = sp_records s" "msock g' = msock g"
    "afds g' = (if n = 0 then removeAll fd (afds g) else afds g)"
    using assms(1) i n by (auto simp: sp_ready_def dup3_def close_fd_def sh_event_def Let_def split: prod.splits if_splits)
  have "has_user (sp_users s) f" if f: "f \<in> set (afds g')" "f \<noteq> msock g" for f
  proof -
    have u: "has_user ?us f" using f assms(2) g' by (auto simp: sp_inv_def split: if_splits)
    from r(2) show ?thesis
    proof
      assume "map sp_core (sp_users s) = map sp_core ?us"
      from has_user_core [OF this l] u show ?thesis by blast
    next
      assume h: "n = 0 \<and> map sp_core (sp_users s) = map sp_core (?us[i := (?us ! i)\<lparr>su_valid := False\<rparr>])"
      then have "f \<noteq> fd" using f g' by auto
      from u obtain k where k: "k < 30" "su_valid (?us ! k)" "su_sock (?us ! k) = f" by (auto simp: has_user_def)
      with \<open>f \<noteq> fd\<close> iD have "i \<noteq> k" by auto
      with k have "has_user (?us[i := (?us ! i)\<lparr>su_valid := False\<rparr>]) f"
        unfolding has_user_def by (intro exI [of _ k]) simp
      moreover have "length (?us[i := (?us ! i)\<lparr>su_valid := False\<rparr>]) = 30" using l by simp
      ultimately show ?thesis using has_user_core [OF conjunct2 [OF h]] by blast
    qed
  qed
  then show ?thesis using r(1) by (auto simp: sp_inv_def g')
qed

lemma sp_reachable_inv: "sp_reachable g \<Longrightarrow> sp_inv g"
proof (induction rule: sp_reachable.induct)
  case (steps g g')
  then show ?case using sp_inv_accept sp_inv_ready by (auto elim!: sp_step.cases)
qed (rule sp_inv_boot)

end
