(* ===== verification/Sp_Claims.thy ===== *)
theory Sp_Claims
  imports Sp_Pipes Sp_Server
begin

text \<open>
  The properties of the single-process remote working ground: what a user pipe delivers through a
  pipe of the server, and what the users of one process inherit from each other.
\<close>

section \<open>The standard descriptors of the server\<close>

lemma dup3_sel [simp]:
  "sp_users (dup3 a b c s) = sp_users s" "sp_records (dup3 a b c s) = sp_records s"
  "sh_log (dup3 a b c s) = sh_log s" "k_next (dup3 a b c s) = k_next s"
  "k_fds (dup3 a b c s) = sys_dup2 c 2 (sys_dup2 b 1 (sys_dup2 a 0 (k_fds s)))"
  by (simp_all add: dup3_def)

text \<open>The descriptors at which an open file can be found.\<close>

definition only_at :: "fdtable \<Rightarrow> ofile \<Rightarrow> nat set \<Rightarrow> bool" where
  "only_at t f D \<longleftrightarrow> (\<forall>h. fd_get t h = Some f \<longrightarrow> h \<in> D)"

lemma only_at_dup2: "only_at t f D \<Longrightarrow> fd \<notin> D \<Longrightarrow> only_at (sys_dup2 fd h t) f D"
  by (auto simp: only_at_def)

lemma only_at_close: "only_at t f D \<Longrightarrow> only_at (sys_close fd t) f (D - {fd})"
  by (auto simp: only_at_def)

lemma only_at_dup3:
  "only_at (k_fds s) f D \<Longrightarrow> a \<notin> D \<Longrightarrow> b \<notin> D \<Longrightarrow> c \<notin> D \<Longrightarrow> only_at (k_fds (dup3 a b c s)) f D"
  by (simp add: only_at_dup2)

lemma dup3_open: "fd_get (k_fds s) h \<noteq> None \<Longrightarrow> fd_get (k_fds (dup3 a b c s)) h \<noteq> None"
  by auto

lemma dup3_std: "fd_get (k_fds s) f \<noteq> None \<Longrightarrow> h < 3 \<Longrightarrow> fd_get (k_fds (dup3 f f f s)) h \<noteq> None"
  by (auto simp: numeral_3_eq_3 less_Suc_eq)

lemma dup3_other: "3 \<le> h \<Longrightarrow> fd_get (k_fds (dup3 a b c s)) h = fd_get (k_fds s) h"
  by simp

lemma sp_ready_line:
  assumes "sp_find_fd_user fd (sp_users (srv g)) = Some i" and "saved g = (a, b, c)" and "n \<noteq> 0"
    and "sp_npshell sys rd raw stale i (dup3 fd fd fd (srv g)) = Inr (n, s')"
  shows "sp_ready sys rd raw stale fd g = Inr (g\<lparr>srv := dup3 a b c (sh_event (Send fd ''% '') s')\<rparr>)"
  using assms by (simp add: sp_ready_def)

lemma sp_find_fd_userD:
  assumes "sp_find_fd_user fd us = Some i"
  shows "i < 30" and "su_valid (us ! i)" and "su_sock (us ! i) = fd" and "sp_id_exist (int (i + 1)) us"
  using assms by (auto simp: sp_find_fd_user_def find_Some_iff sp_id_exist_def slots_def list_ex_iff)

lemma sp_find_with_name_pipe [simp]:
  "sp_find_fd_user fd (with_name_pipe b a p us) = sp_find_fd_user fd us"
  by (simp add: sp_find_fd_user_def with_name_pipe_fields)

section \<open>The two calls\<close>

lemma server_sender:
  assumes "rwg_command ws" and "sp_find_fd_user f (sp_users (srv g)) = Some a"
    and "sp_user_idle (sp_users (srv g) ! a)" and "length (sp_users (srv g)) = 30"
    and "length (su_name_pipe (sp_users (srv g) ! b)) = 30"
    and "sp_id_exist (int (b + 1)) (sp_users (srv g))" and "\<not> sp_pipe_exist (a + 1) (b + 1) (sp_records (srv g))"
    and "fd_get (k_fds (srv g)) f \<noteq> None" and "saved g = (x, y, z)"
    and "\<forall>h\<in>{x, y, z}. fd_get (k_fds (srv g)) h \<noteq> None"
    and "only_at (k_fds (srv g)) (PipeR (k_next (srv g))) {}" and "only_at (k_fds (srv g)) (PipeW (k_next (srv g))) {}"
  defines "line \<equiv> join_with (CHR '' '') (ws @ [pipe_op (CHR ''>'') (b + 1)])"
  defines "msg \<equiv> sp_piped_msg (sp_users (srv g) ! a) (sp_users (srv g) ! b) line"
  assumes "length msg < 200"
  obtains g' c r w where "sp_ready sys rd (line @ CR # rest) stale f g = Inr g'"
    and "sh_log (srv g') = sh_log (srv g) @ sends msg (sp_users (srv g)) @ [Spawn c, WaitAll, Send f ''% '']"
    and "ch_argv c = ws" and "fd_get (ch_fds c) 1 = Some (PipeW (k_next (srv g)))"
    and "sp_users (srv g') = with_name_pipe b a (r, w) (sp_users (srv g))"
    and "sp_records (srv g') = set_record (a + 1) (b + 1) True (sp_records (srv g))" and "saved g' = saved g"
    and "r \<noteq> w" and "3 \<le> r" and "3 \<le> w"
    and "fd_get (k_fds (srv g')) r = Some (PipeR (k_next (srv g)))"
    and "fd_get (k_fds (srv g')) w = Some (PipeW (k_next (srv g)))"
    and "only_at (k_fds (srv g')) (PipeR (k_next (srv g))) {r}"
    and "only_at (k_fds (srv g')) (PipeW (k_next (srv g))) {w}"
    and "\<forall>h. fd_get (k_fds (srv g)) h \<noteq> None \<longrightarrow> h \<noteq> r \<and> h \<noteq> w \<and> fd_get (k_fds (srv g')) h \<noteq> None"
proof -
  let ?k = "k_next (srv g)" and ?s = "dup3 f f f (srv g)"
  have a: "a < 30" using assms(2) by (rule sp_find_fd_userD)
  obtain s' c r w where ln: "sp_npshell sys rd (line @ CR # rest) stale a ?s = Inr (length (line @ CR # rest), s')"
    and lg: "sh_log s' = sh_log (srv g) @ sends msg (sp_users (srv g)) @ [Spawn c, WaitAll]" and c: "ch_argv c = ws"
      "fd_get (ch_fds c) 1 = Some (PipeW ?k)"
    and us: "sp_users s' = with_name_pipe b a (r, w) (sp_users (srv g))"
    and rc: "sp_records s' = set_record (a + 1) (b + 1) True (sp_records (srv g))"
    and rw: "r \<noteq> w" "fd_get (k_fds ?s) r = None" "fd_get (k_fds ?s) w = None"
    and t: "\<forall>h. fd_get (k_fds s') h = (if h = w then Some (PipeW ?k)
          else if h = r then Some (PipeR ?k) else fd_get (k_fds ?s) h)"
    by (rule sp_sender [of ws ?s a "b + 1" sys rd rest stale, unfolded dup3_sel(1-4) diff_add_inverse2,
          OF assms(1,3) a assms(4,5,6,7) assms(15)[unfolded msg_def line_def], folded line_def msg_def]) blast
  have fresh: "only_at (k_fds ?s) (PipeR ?k) {}" "only_at (k_fds ?s) (PipeW ?k) {}"
    using assms(11,12) by (simp_all add: only_at_dup2)
  have rw3: "3 \<le> r" "3 \<le> w"
    using dup3_std [OF assms(8), of r] dup3_std [OF assms(8), of w] rw by (auto simp: not_le [symmetric])
  have opn: "h \<noteq> r \<and> h \<noteq> w \<and> fd_get (k_fds s') h \<noteq> None" if "fd_get (k_fds (srv g)) h \<noteq> None" for h
  proof -
    have "fd_get (k_fds ?s) h \<noteq> None" using that by (rule dup3_open)
    with rw t show ?thesis by auto
  qed
  have at: "only_at (k_fds s') (PipeR ?k) {r}" "only_at (k_fds s') (PipeW ?k) {w}"
    using fresh t rw(1) by (auto simp: only_at_def)
  have xyz: "x \<noteq> r" "x \<noteq> w" "y \<noteq> r" "y \<noteq> w" "z \<noteq> r" "z \<noteq> w"
    using assms(10) opn by auto
  define s2 where "s2 = sh_event (Send f ''% '') s'"
  have s2: "sh_log s2 = sh_log s' @ [Send f ''% '']" "sp_users s2 = sp_users s'" "sp_records s2 = sp_records s'"
    "k_fds s2 = k_fds s'"
    by (simp_all add: s2_def sh_event_def)
  let ?g = "g\<lparr>srv := dup3 x y z s2\<rparr>"
  have rd: "sp_ready sys rd (line @ CR # rest) stale f g = Inr ?g"
    unfolding s2_def by (rule sp_ready_line [OF assms(2,9) _ ln]) simp
  have at2: "only_at (k_fds (srv ?g)) (PipeR ?k) {r}" "only_at (k_fds (srv ?g)) (PipeW ?k) {w}"
    using at xyz by (simp_all add: s2 only_at_dup2)
  have get: "fd_get (k_fds (srv ?g)) r = Some (PipeR ?k)" "fd_get (k_fds (srv ?g)) w = Some (PipeW ?k)"
    using dup3_other [OF rw3(1), of x y z s2] dup3_other [OF rw3(2), of x y z s2] t rw(1) by (simp_all add: s2)
  have opn2: "\<forall>h. fd_get (k_fds (srv g)) h \<noteq> None \<longrightarrow> h \<noteq> r \<and> h \<noteq> w \<and> fd_get (k_fds (srv ?g)) h \<noteq> None"
    using opn dup3_open [of s2] by (simp add: s2)
  show thesis
    by (rule that [OF rd _ c _ _ _ rw(1) rw3 get at2 opn2]) (simp_all add: s2 lg us rc)
qed

lemma server_receiver:
  assumes "rwg_command ws" and "sp_find_fd_user f (sp_users (srv g)) = Some b"
    and "sp_user_idle (sp_users (srv g) ! b)" and "sp_id_exist (int (a + 1)) (sp_users (srv g))"
    and "sp_pipe_exist (a + 1) (b + 1) (sp_records (srv g))"
    and "su_name_pipe (sp_users (srv g) ! b) ! a = (r, w)" and "r \<noteq> w" and "3 \<le> r" and "3 \<le> w"
    and "fd_get (k_fds (srv g)) r = Some (PipeR k)"
    and "only_at (k_fds (srv g)) (PipeR k) {r}" and "only_at (k_fds (srv g)) (PipeW k) {w}"
    and "saved g = (x, y, z)" and "\<forall>h\<in>{f, x, y, z}. h \<noteq> r \<and> h \<noteq> w"
  defines "line \<equiv> join_with (CHR '' '') (ws @ [pipe_op (CHR ''<'') (a + 1)])"
  defines "msg \<equiv> sp_received_msg (sp_users (srv g) ! b) (sp_users (srv g) ! a) (int (a + 1)) line"
  assumes "length msg < 300"
  obtains g' c where "sp_ready sys rd (line @ CR # rest) stale f g = Inr g'"
    and "sh_log (srv g') = sh_log (srv g) @ sends msg (sp_users (srv g)) @ [Spawn c, WaitAll, Send f ''% '']"
    and "ch_argv c = ws" and "fd_get (ch_fds c) 0 = Some (PipeR k)" and "only_at (ch_fds c) (PipeW k) {}"
    and "sp_records (srv g') = set_record (a + 1) (b + 1) False (sp_records (srv g))"
    and "only_at (k_fds (srv g')) (PipeR k) {}" and "only_at (k_fds (srv g')) (PipeW k) {}"
proof -
  let ?s = "dup3 f f f (srv g)"
  obtain s' c where ln: "sp_npshell sys rd (line @ CR # rest) stale b ?s = Inr (length (line @ CR # rest), s')"
    and lg: "sh_log s' = sh_log (srv g) @ sends msg (sp_users (srv g)) @ [Spawn c, WaitAll]" and c: "ch_argv c = ws"
      "ch_fds c = sys_dup2 r 0 (sys_close w (k_fds ?s))"
    and rc: "sp_records s' = set_record (a + 1) (b + 1) False (sp_records (srv g))"
    and t: "k_fds s' = sys_close r (sys_close w (k_fds ?s))"
    by (rule sp_receiver [where ws = ws and s = ?s and b = b and n = "a + 1" and r = r and w = w and rest = rest and sys = sys
          and rd = rd and stale = stale, unfolded dup3_sel(1-4) diff_add_inverse2,
          OF assms(1,3,4,5,6) assms(17)[unfolded msg_def line_def], folded line_def msg_def]) blast
  have nf: "f \<notin> {r}" "f \<notin> {w}" using assms(14) by auto
  have atR: "only_at (k_fds ?s) (PipeR k) {r}" using assms(11) nf(1,1,1) by (rule only_at_dup3)
  have atW: "only_at (k_fds ?s) (PipeW k) {w}" using assms(12) nf(2,2,2) by (rule only_at_dup3)
  have cw: "only_at (sys_close w (k_fds ?s)) (PipeW k) {}" using only_at_close [OF atW, of w] by simp
  have rr: "fd_get (sys_close w (k_fds ?s)) r = Some (PipeR k)"
    using assms(7,10) dup3_other [OF assms(8), of f f f "srv g"] by simp
  have c0: "fd_get (ch_fds c) 0 = Some (PipeR k)" "only_at (ch_fds c) (PipeW k) {}"
    using c(2) rr only_at_dup2 [OF cw] by simp_all
  have cr: "only_at (sys_close w (k_fds ?s)) (PipeR k) {r}" using atR by (auto simp: only_at_def)
  have t0: "only_at (k_fds s') (PipeR k) {}" "only_at (k_fds s') (PipeW k) {}"
    unfolding t using only_at_close [OF cr, of r] only_at_close [OF cw, of r] by simp_all
  define s2 where "s2 = sh_event (Send f ''% '') s'"
  have s2: "sh_log s2 = sh_log s' @ [Send f ''% '']" "sp_records s2 = sp_records s'" "k_fds s2 = k_fds s'"
    by (simp_all add: s2_def sh_event_def)
  let ?g = "g\<lparr>srv := dup3 x y z s2\<rparr>"
  have rd: "sp_ready sys rd (line @ CR # rest) stale f g = Inr ?g"
    unfolding s2_def by (rule sp_ready_line [OF assms(2,13) _ ln]) simp
  have "only_at (k_fds (srv ?g)) (PipeR k) {}" "only_at (k_fds (srv ?g)) (PipeW k) {}"
    using t0 by (simp_all add: s2 only_at_dup2)
  then show thesis by (intro that [OF rd _ c(1) c0]) (simp_all add: s2 lg rc)
qed

lemma set_record_back:
  "\<not> m ! a ! b \<Longrightarrow> set_record a b False (set_record a b True m) = m"
proof -
  assume "\<not> m ! a ! b"
  then have "(m ! a)[b := False] = m ! a" by (cases "b < length (m ! a)") (auto simp: list_update_beyond list_update_same_conv)
  then show ?thesis by (cases "a < length m") (auto simp: set_record_def list_update_beyond)
qed

section \<open>A server with two users\<close>

definition sp_demo_fds :: fdtable where
  "sp_demo_fds = map (\<lambda>i. Some (Inherited i)) [0..<3] @ [Some (Opened ''socket''),
     Some (Inherited 0), Some (Inherited 1), Some (Inherited 2), Some (Opened ''socket''), Some (Opened ''socket'')]"

definition sp_demo_os :: os where
  "sp_demo_os = \<lparr>os_exec = (\<lambda>_ _. True), os_access = (\<lambda>_. True), os_open = (\<lambda>_. False)\<rparr>"

definition sp_demo_user :: "nat \<Rightarrow> nat \<Rightarrow> sp_user" where
  "sp_demo_user i sck = zero_sp_user\<lparr>su_valid := True, su_id := int i + 1, su_sock := sck, su_env := ''bin:.'',
     su_addr := ''10.0.0.1'', su_name := ''(no name)'', su_port := 4000\<rparr>"

definition sp_demo0 :: sp_server where
  "sp_demo0 = sp_boot (take 3 sp_demo_fds) 0 Map.empty []"

definition sp_demo1 :: sp_server where
  "sp_demo1 = sp_demo0\<lparr>srv := (srv sp_demo0)\<lparr>k_fds := take 8 sp_demo_fds,
     sp_users := sp_demo_user 0 7 # drop 1 sp_table,
     sh_log := [Send 7 welcome_msg, Send 7 login_msg, Send 7 ''% '']\<rparr>, afds := [7, 3]\<rparr>"

definition sp_demo :: sp_server where
  "sp_demo = sp_demo1\<lparr>srv := (srv sp_demo1)\<lparr>k_fds := sp_demo_fds,
     sp_users := sp_demo_user 0 7 # sp_demo_user 1 8 # drop 2 sp_table,
     sh_log := sh_log (srv sp_demo1) @ [Send 8 welcome_msg, Send 7 login_msg, Send 8 login_msg, Send 8 ''% '']\<rparr>,
     afds := [8, 7, 3]\<rparr>"

lemma sp_demo1_accepted: "sp_accept ''10.0.0.1'' 4000 sp_demo0 = Inr sp_demo1"
proof -
  have f: "fd_alloc (Opened ''socket'') (k_fds (srv sp_demo0)) = (7, take 8 sp_demo_fds)"
    "List.find (\<lambda>i. \<not> su_valid (sp_users (srv sp_demo0) ! i)) slots = Some 0"
    "sends login_msg (sp_demo_user 0 7 # drop 1 sp_table) = [Send 7 login_msg]"
    by code_simp+
  have u: "sp_users (srv sp_demo0) = sp_table" "sh_log (srv sp_demo0) = []" "afds sp_demo0 = [3]"
    by code_simp+
  have t: "sp_table[0 := (sp_table ! 0)\<lparr>su_valid := True, su_sock := 7, su_addr := ''10.0.0.1'',
      su_env := ''bin:.'', su_name := ''(no name)'', su_port := 4000, su_batch_flag := False, su_ignore := False\<rparr>]
    = sp_demo_user 0 7 # drop 1 sp_table"
    by code_simp
  show ?thesis
    using f t by (simp add: sp_accept_def u update_user_def sp_broadcast_def sh_event_def sp_demo1_def)
qed

lemma sp_demo_accepted: "sp_accept ''10.0.0.1'' 4000 sp_demo1 = Inr sp_demo"
proof -
  let ?us = "sp_demo_user 0 7 # drop 1 sp_table" and ?us' = "sp_demo_user 0 7 # sp_demo_user 1 8 # drop 2 sp_table"
  have f: "fd_alloc (Opened ''socket'') (k_fds (srv sp_demo1)) = (8, sp_demo_fds)"
    "List.find (\<lambda>i. \<not> su_valid (sp_users (srv sp_demo1) ! i)) slots = Some 1"
    "sends login_msg ?us' = [Send 7 login_msg, Send 8 login_msg]"
    by code_simp+
  have u: "sp_users (srv sp_demo1) = ?us" "afds sp_demo1 = [7, 3]"
    by (simp_all add: sp_demo1_def)
  have t: "?us[1 := (?us ! 1)\<lparr>su_valid := True, su_sock := 8, su_addr := ''10.0.0.1'',
      su_env := ''bin:.'', su_name := ''(no name)'', su_port := 4000, su_batch_flag := False, su_ignore := False\<rparr>] = ?us'"
    by code_simp
  show ?thesis
    using f(1,2,3) t
    by (simp add: sp_accept_def u update_user_def sp_broadcast_def sh_event_def sp_demo_def
        del: list_update_code nth_Cons_numeral)
qed

lemma sp_demo_reachable: "sp_reachable sp_demo"
proof -
  have "sp_reachable sp_demo0" unfolding sp_demo0_def by (rule sp_reachable.boots)
  then have "sp_reachable sp_demo1" by (rule sp_reachable.steps) (rule sp_step.accepts [OF sp_demo1_accepted])
  then show ?thesis by (rule sp_reachable.steps) (rule sp_step.accepts [OF sp_demo_accepted])
qed

lemma sp_demo_facts:
  "sp_find_fd_user 7 (sp_users (srv sp_demo)) = Some 0" "sp_find_fd_user 8 (sp_users (srv sp_demo)) = Some 1"
  "length (sp_users (srv sp_demo)) = 30" "length (sp_records (srv sp_demo)) = 31"
  "length (sp_records (srv sp_demo) ! (0 + 1)) = 31" "saved sp_demo = (4, 5, 6)"
  "\<not> sp_pipe_exist (0 + 1) (1 + 1) (sp_records (srv sp_demo))" "k_next (srv sp_demo) = 0"
  "sp_users (srv sp_demo) ! 0 = sp_demo_user 0 7" "sp_users (srv sp_demo) ! 1 = sp_demo_user 1 8"
  "k_fds (srv sp_demo) = sp_demo_fds"
  by code_simp+

lemma sp_demo_user_facts: "sp_user_idle (sp_demo_user i f)" "length (su_name_pipe (sp_demo_user i f)) = 30"
  by (simp_all add: sp_demo_user_def sp_user_idle_def zero_sp_user_def)

lemma sp_demo_no_pipes: "only_at sp_demo_fds (PipeR n) {}" "only_at sp_demo_fds (PipeW n) {}"
  by (auto simp: only_at_def sp_demo_fds_def fd_get_def nth_Cons' upt_rec split: if_splits)

section \<open>The property\<close>

text \<open>
  C13. A user pipe of the single-process server carries the sender's output to the receiver.  When the
  socket of user \<open>a + 1\<close> is ready with a command ending in \<^verbatim>\<open>>b+1\<close> and then the socket of user \<open>b + 1\<close>
  with a command ending in \<^verbatim>\<open><a+1\<close>, both calls return; the sender's child has the write end of a new
  pipe as its standard output and the receiver's child the read end of the same pipe as its standard
  input; the receiver's child holds no write end, so its input ends when the sender's child ends;
  afterwards the server holds neither end and the record is clear again.  All users are told of both
  calls, and both users get a new prompt.  The server waits for the sender's child before anybody can
  read the pipe, as the order of the events shows.
\<close>

theorem sp_user_pipe_delivers:
  assumes "rwg_command ws" and "rwg_command ws'"
    and "sp_find_fd_user f (sp_users (srv g)) = Some a" and "sp_find_fd_user f' (sp_users (srv g)) = Some b"
    and "sp_user_idle (sp_users (srv g) ! a)" and "sp_user_idle (sp_users (srv g) ! b)"
    and "length (sp_users (srv g)) = 30" and "length (su_name_pipe (sp_users (srv g) ! b)) = 30"
    and "length (sp_records (srv g)) = 31" and "length (sp_records (srv g) ! (a + 1)) = 31"
    and "\<not> sp_pipe_exist (a + 1) (b + 1) (sp_records (srv g))" and "saved g = (x, y, z)"
    and "\<forall>h\<in>{f, f', x, y, z}. fd_get (k_fds (srv g)) h \<noteq> None"
    and "only_at (k_fds (srv g)) (PipeR (k_next (srv g))) {}" and "only_at (k_fds (srv g)) (PipeW (k_next (srv g))) {}"
    and "line = join_with (CHR '' '') (ws @ [pipe_op (CHR ''>'') (b + 1)])"
    and "line' = join_with (CHR '' '') (ws' @ [pipe_op (CHR ''<'') (a + 1)])"
    and "msg = sp_piped_msg (sp_users (srv g) ! a) (sp_users (srv g) ! b) line" and "length msg < 200"
    and "msg' = sp_received_msg (sp_users (srv g) ! b) (sp_users (srv g) ! a) (int (a + 1)) line'"
    and "length msg' < 300"
  shows "\<exists>g1 g2 c c'. sp_ready sys rd (line @ CR # rest) stale f g = Inr g1
    \<and> sp_ready sys rd (line' @ CR # rest') stale' f' g1 = Inr g2
    \<and> sh_log (srv g2) = sh_log (srv g)
        @ sends msg (sp_users (srv g)) @ [Spawn c, WaitAll, Send f ''% '']
        @ sends msg' (sp_users (srv g)) @ [Spawn c', WaitAll, Send f' ''% '']
    \<and> ch_argv c = ws \<and> ch_argv c' = ws'
    \<and> fd_get (ch_fds c) 1 = Some (PipeW (k_next (srv g)))
    \<and> fd_get (ch_fds c') 0 = Some (PipeR (k_next (srv g)))
    \<and> only_at (ch_fds c') (PipeW (k_next (srv g))) {}
    \<and> only_at (k_fds (srv g2)) (PipeR (k_next (srv g))) {}
    \<and> only_at (k_fds (srv g2)) (PipeW (k_next (srv g))) {}
    \<and> sp_records (srv g2) = sp_records (srv g)"
proof -
  let ?k = "k_next (srv g)" and ?us = "sp_users (srv g)"
  have ab: "a < 30" "b < 30" using sp_find_fd_userD(1) assms(3,4) by blast+
  note ids = sp_find_fd_userD(4) [OF assms(3)] sp_find_fd_userD(4) [OF assms(4)]
  have xyz: "\<forall>h\<in>{x, y, z}. fd_get (k_fds (srv g)) h \<noteq> None" "fd_get (k_fds (srv g)) f \<noteq> None"
    using assms(13) by simp_all
  obtain g1 c r w where A: "sp_ready sys rd (line @ CR # rest) stale f g = Inr g1"
      "sh_log (srv g1) = sh_log (srv g) @ sends msg ?us @ [Spawn c, WaitAll, Send f ''% '']"
      "ch_argv c = ws" "fd_get (ch_fds c) 1 = Some (PipeW ?k)"
    and us: "sp_users (srv g1) = with_name_pipe b a (r, w) ?us"
    and rc: "sp_records (srv g1) = set_record (a + 1) (b + 1) True (sp_records (srv g))"
    and sv: "saved g1 = saved g"
    and rw: "r \<noteq> w" "3 \<le> r" "3 \<le> w" "fd_get (k_fds (srv g1)) r = Some (PipeR ?k)"
      "only_at (k_fds (srv g1)) (PipeR ?k) {r}" "only_at (k_fds (srv g1)) (PipeW ?k) {w}"
    and opn: "\<forall>h. fd_get (k_fds (srv g)) h \<noteq> None \<longrightarrow> h \<noteq> r \<and> h \<noteq> w \<and> fd_get (k_fds (srv g1)) h \<noteq> None"
    using server_sender [OF assms(1,3,5,7,8) ids(2) assms(11) xyz(2) assms(12) xyz(1) assms(14,15)
        assms(19)[unfolded assms(18,16)], folded assms(18,16)] by metis
  have find: "sp_find_fd_user f' (sp_users (srv g1)) = Some b" using assms(4) by (simp add: us)
  have idle: "sp_user_idle (sp_users (srv g1) ! b)"
    using assms(6) by (simp add: us sp_user_idle_def with_name_pipe_fields)
  have exist: "sp_id_exist (int (a + 1)) (sp_users (srv g1))"
    using ids(1) by (simp add: us sp_id_exist_def with_name_pipe_fields)
  have rec: "sp_pipe_exist (a + 1) (b + 1) (sp_records (srv g1))"
    using ab assms(9,10) by (simp add: rc sp_pipe_exist_def set_record_def)
  have pipe: "su_name_pipe (sp_users (srv g1) ! b) ! a = (r, w)"
    using ab assms(7,8) by (simp add: us with_name_pipe_def)
  have msg': "sp_received_msg (sp_users (srv g1) ! b) (sp_users (srv g1) ! a) (int (a + 1)) line' = msg'"
    by (simp add: us assms(20) sp_received_msg_def with_name_pipe_fields)
  have lg': "sends msg' (sp_users (srv g1)) = sends msg' ?us"
    unfolding us by (rule sends_cong) (simp_all add: with_name_pipe_fields)
  have far: "\<forall>h\<in>{f', x, y, z}. h \<noteq> r \<and> h \<noteq> w" using opn assms(13) by simp
  have sv': "saved g1 = (x, y, z)" using sv assms(12) by simp
  have undo: "set_record (a + 1) (b + 1) False (sp_records (srv g1)) = sp_records (srv g)"
    unfolding rc using assms(11) by (intro set_record_back) (simp_all add: sp_pipe_exist_def)
  obtain g2 c' where B: "sp_ready sys rd (line' @ CR # rest') stale' f' g1 = Inr g2"
      "sh_log (srv g2) = sh_log (srv g1) @ sends msg' (sp_users (srv g1)) @ [Spawn c', WaitAll, Send f' ''% '']"
      "ch_argv c' = ws'" "fd_get (ch_fds c') 0 = Some (PipeR ?k)" "only_at (ch_fds c') (PipeW ?k) {}"
      "sp_records (srv g2) = set_record (a + 1) (b + 1) False (sp_records (srv g1))"
      "only_at (k_fds (srv g2)) (PipeR ?k) {}" "only_at (k_fds (srv g2)) (PipeW ?k) {}"
    using server_receiver [OF assms(2) find idle exist rec pipe rw sv' far, folded assms(17), unfolded msg', OF assms(21)]
    by metis
  show ?thesis
    by (intro exI [of _ g1] exI [of _ g2] exI [of _ c] exI [of _ c'] conjI)
      (use A B lg' undo in \<open>simp_all only: append_assoc append.simps\<close>)
qed

lemma sp_user_pipe_delivers_witness:
  "\<exists>g1 g2. sp_ready sp_demo_os (\<lambda>_. None) (''cat a >2'' @ [CR, NL]) [] 7 sp_demo = Inr g1
    \<and> sp_ready sp_demo_os (\<lambda>_. None) (''wc <1'' @ [CR, NL]) [] 8 g1 = Inr g2
    \<and> only_at (k_fds (srv g2)) (PipeR 0) {} \<and> only_at (k_fds (srv g2)) (PipeW 0) {}"
proof -
  have c: "rwg_command [''cat'', ''a'']" "rwg_command [''wc'']" by code_simp+
  have l: "join_with (CHR '' '') ([''cat'', ''a''] @ [pipe_op (CHR ''>'') (1 + 1)]) = ''cat a >2''"
    "join_with (CHR '' '') ([''wc''] @ [pipe_op (CHR ''<'') (0 + 1)]) = ''wc <1''" by code_simp+
  have i: "sp_user_idle (sp_users (srv sp_demo) ! 0)" "sp_user_idle (sp_users (srv sp_demo) ! 1)"
    "length (su_name_pipe (sp_users (srv sp_demo) ! 1)) = 30"
    by (simp_all only: sp_demo_facts sp_demo_user_facts)
  have f: "\<forall>h\<in>{7, 8, 4, 5, 6}. fd_get (k_fds (srv sp_demo)) h \<noteq> None" by code_simp
  have p: "only_at (k_fds (srv sp_demo)) (PipeR (k_next (srv sp_demo))) {}"
    "only_at (k_fds (srv sp_demo)) (PipeW (k_next (srv sp_demo))) {}"
    by (simp_all only: sp_demo_facts sp_demo_no_pipes)
  have m: "length (sp_piped_msg (sp_users (srv sp_demo) ! 0) (sp_users (srv sp_demo) ! 1) ''cat a >2'') < 200"
    "length (sp_received_msg (sp_users (srv sp_demo) ! 1) (sp_users (srv sp_demo) ! 0) (int (0 + 1)) ''wc <1'') < 300"
    by code_simp+
  show ?thesis
    using sp_user_pipe_delivers [OF c sp_demo_facts(1,2) i(1,2) sp_demo_facts(3) i(3) sp_demo_facts(4,5,7,6) f p
        l [symmetric] refl m(1) refl m(2), of sp_demo_os "\<lambda>_. None" "[NL]" "[]" "[NL]" "[]"]
    by (elim exE conjE) (intro exI conjI, simp_all only: append.simps sp_demo_facts(8))
qed

section \<open>Every reachable state\<close>

text \<open>
  C16. In every run of the single-process server each active descriptor but the listening socket
  belongs to a user who is logged in, so a ready descriptor always finds its user and the table is
  never read at index -1.\<close>

theorem sp_ready_socket_has_user:
  assumes "sp_reachable g" and "fd \<in> set (afds g)" and "fd \<noteq> msock g"
  shows "\<exists>i. sp_find_fd_user fd (sp_users (srv g)) = Some i \<and> i < 30 \<and> su_valid (sp_users (srv g) ! i)
    \<and> su_sock (sp_users (srv g) ! i) = fd \<and> su_id (sp_users (srv g) ! i) = int i + 1"
proof -
  have inv: "sp_inv g" using assms(1) by (rule sp_reachable_inv)
  then have "sp_find_fd_user fd (sp_users (srv g)) \<noteq> None"
    unfolding find_fd_user_iff using assms(2,3) by (simp add: sp_inv_def)
  then obtain i where i: "sp_find_fd_user fd (sp_users (srv g)) = Some i" by blast
  with find_fd_userD [OF i] inv show ?thesis by (auto simp: sp_inv_def sp_wf_def)
qed

lemma sp_ready_socket_has_user_witness:
  "\<exists>i. sp_find_fd_user 8 (sp_users (srv sp_demo)) = Some i \<and> su_valid (sp_users (srv sp_demo) ! i)"
proof -
  have "8 \<in> set (afds sp_demo)" "8 \<noteq> msock sp_demo" by code_simp+
  from sp_ready_socket_has_user [OF sp_demo_reachable this] show ?thesis by blast
qed

text \<open>
  C17. In every run of the single-process server a recorded user pipe joins two users whose slots are in
  use: \<^verbatim>\<open>exit\<close> clears every record from and to the user who leaves, so nobody who gets the slot
  later has a pipe he did not make or was not sent.\<close>

theorem sp_records_join_users:
  assumes "sp_reachable g" and "sp_pipe_exist a b (sp_records (srv g))" and "a < 31" and "b < 31"
  shows "1 \<le> a \<and> 1 \<le> b \<and> su_valid (sp_users (srv g) ! (a - 1)) \<and> su_valid (sp_users (srv g) ! (b - 1))"
  using sp_reachable_inv [OF assms(1)] assms(2-4) by (simp add: sp_inv_def sp_wf_def sp_pipe_exist_def)

text \<open>The two users of the example after the first has sent the second a pipe.\<close>

lemma sp_demo_piped:
  obtains g1 where "sp_reachable g1" and "sp_pipe_exist 1 2 (sp_records (srv g1))"
proof -
  have c: "rwg_command [''cat'', ''a'']" by code_simp
  have i: "sp_user_idle (sp_users (srv sp_demo) ! 0)" "length (su_name_pipe (sp_users (srv sp_demo) ! 1)) = 30"
    by (simp_all only: sp_demo_facts sp_demo_user_facts)
  have e: "sp_id_exist (int (1 + 1)) (sp_users (srv sp_demo))"
    "fd_get (k_fds (srv sp_demo)) 7 \<noteq> None" "\<forall>h\<in>{4, 5, 6}. fd_get (k_fds (srv sp_demo)) h \<noteq> None"
    by code_simp+
  have p: "only_at (k_fds (srv sp_demo)) (PipeR (k_next (srv sp_demo))) {}"
    "only_at (k_fds (srv sp_demo)) (PipeW (k_next (srv sp_demo))) {}"
    by (simp_all only: sp_demo_facts sp_demo_no_pipes)
  have m: "length (sp_piped_msg (sp_users (srv sp_demo) ! 0) (sp_users (srv sp_demo) ! 1)
      (join_with (CHR '' '') ([''cat'', ''a''] @ [pipe_op (CHR ''>'') (1 + 1)]))) < 200"
    by code_simp
  obtain g1 raw where r: "sp_ready sp_demo_os (\<lambda>_. None) raw [] 7 sp_demo = Inr g1"
    and rc: "sp_records (srv g1) = set_record (0 + 1) (1 + 1) True (sp_records (srv sp_demo))"
    using server_sender [OF c sp_demo_facts(1) i(1) sp_demo_facts(3) i(2) e(1) sp_demo_facts(7) e(2)
        sp_demo_facts(6) e(3) p m, of sp_demo_os "\<lambda>_. None" "[NL]" "[]"] by metis
  have "7 \<in> set (afds sp_demo)" "7 \<noteq> msock sp_demo" by code_simp+
  from sp_step.serves [OF this r] have s: "sp_reachable g1" by (rule sp_reachable.steps [OF sp_demo_reachable])
  have "sp_pipe_exist 1 2 (sp_records (srv g1))"
    unfolding rc by code_simp
  with s show thesis by (rule that)
qed

lemma sp_records_join_users_witness:
  "\<exists>g. sp_reachable g \<and> sp_pipe_exist 1 2 (sp_records (srv g))
    \<and> su_valid (sp_users (srv g) ! (1 - 1)) \<and> su_valid (sp_users (srv g) ! (2 - 1))"
proof -
  obtain g1 where g: "sp_reachable g1" "sp_pipe_exist 1 2 (sp_records (srv g1))" by (rule sp_demo_piped)
  have n: "1 < (31::nat)" "2 < (31::nat)" by simp_all
  from sp_records_join_users [OF g n] g show ?thesis by blast
qed

section \<open>What users of one process inherit\<close>

lemma alloc_lowest:
  assumes "fd_get t f = None" and "\<forall>h<f. fd_get t h \<noteq> None"
  shows "fst (fd_alloc x t) = f"
proof (rule linorder_cases [of "fst (fd_alloc x t)" f])
  assume "fst (fd_alloc x t) < f"
  then show ?thesis using assms(2) fd.alloc_free [of t x] by blast
next
  assume "f < fst (fd_alloc x t)"
  then show ?thesis using assms(1) fd.alloc_least [of f x t] by blast
qed

lemma find_slot: "List.find P slots = Some j \<Longrightarrow> P j \<and> j < 30 \<and> (\<forall>k<j. \<not> P k)"
  by (auto simp: find_Some_iff slots_def)

lemma accept_slot:
  assumes "fst (fd_alloc (Opened ''socket'') (k_fds (srv g))) = f" and "length addr < 15"
    and "List.find (\<lambda>i. \<not> su_valid (sp_users (srv g) ! i)) slots = Some j"
  obtains g' where "sp_accept addr port g = Inr g'" and "afds g' = f # afds g"
    and "k_fds (srv g') = snd (fd_alloc (Opened ''socket'') (k_fds (srv g)))"
    and "sp_users (srv g') = (sp_users (srv g))[j := (sp_users (srv g) ! j)\<lparr>su_valid := True, su_sock := f,
      su_addr := addr, su_env := ''bin:.'', su_name := ''(no name)'', su_port := port, su_batch_flag := False,
      su_ignore := False\<rparr>]"
proof -
  obtain t where a: "fd_alloc (Opened ''socket'') (k_fds (srv g)) = (f, t)" using assms(1) by (metis prod.collapse)
  show thesis
    by (rule that [of "projr (sp_accept addr port g)"])
      (use assms(2,3) a in \<open>simp_all add: sp_accept_def Let_def update_user_def sp_broadcast_def sh_event_def\<close>)
qed

text \<open>
  A user of the single-process server whose connection ends without \<^verbatim>\<open>exit\<close> stays logged in with
  the number of the closed socket.  The next connection gets that number from the kernel, and from
  then on the lines of the new user run as the user who has gone: the new user's slot is never found.\<close>

theorem closed_connection_leaves_ghost:
  assumes "sp_find_fd_user f (sp_users (srv g)) = Some i" and "\<not> su_batch_flag (sp_users (srv g) ! i)"
    and "length (sp_users (srv g)) = 30" and "3 \<le> f" and "\<forall>h<f. fd_get (k_fds (srv g)) h \<noteq> None"
    and "List.find (\<lambda>k. \<not> su_valid (sp_users (srv g) ! k)) slots = Some j" and "i < j" and "length addr < 15"
  shows "\<exists>g1 g2. sp_ready sys rd [] stale f g = Inr g1 \<and> f \<notin> set (afds g1)
    \<and> su_valid (sp_users (srv g1) ! i)
    \<and> sp_accept addr port g1 = Inr g2 \<and> f \<in> set (afds g2)
    \<and> su_valid (sp_users (srv g2) ! j) \<and> su_sock (sp_users (srv g2) ! j) = f
    \<and> sp_find_fd_user f (sp_users (srv g2)) = Some i"
proof -
  let ?us = "sp_users (srv g)" and ?s = "dup3 f f f (srv g)"
  have i: "i < 30" "su_valid (?us ! i)" "su_sock (?us ! i) = f" "\<forall>k<i. \<not> (su_valid (?us ! k) \<and> su_sock (?us ! k) = f)"
    using assms(1) by (auto simp: sp_find_fd_user_def dest: find_slot)
  have j: "j < 30" "\<not> su_valid (?us ! j)" using find_slot [OF assms(6)] by auto
  obtain x y z where sv: "saved g = (x, y, z)" by (cases "saved g")
  define s where "s = sp_end (sp_begin i ?s)"
  have ln: "sp_npshell sys rd [] stale i ?s = Inr (0, s)" unfolding s_def using assms(2) by (simp add: sp_line_eof)
  have s: "sp_users s = ?us" "k_fds s = k_fds ?s"
    using sp_end_begin [of i ?s] i(1) assms(3) by (simp_all add: s_def)
  let ?g = "g\<lparr>srv := close_fd f (dup3 x y z s), afds := removeAll f (afds g)\<rparr>"
  have r: "sp_ready sys rd [] stale f g = Inr ?g" using assms(1) sv ln by (simp add: sp_ready_def)
  have us: "sp_users (srv ?g) = ?us" by (simp add: close_fd_def s)
  have free: "fd_get (k_fds (srv ?g)) f = None" by (simp add: close_fd_def)
  have low: "\<forall>h<f. fd_get (k_fds (srv ?g)) h \<noteq> None"
    using assms(5) dup3_open [of "srv g"] dup3_open [of s] by (simp add: close_fd_def s del: dup3_sel)
  obtain g2 where a: "sp_accept addr port ?g = Inr g2" "afds g2 = f # afds ?g"
    and u: "sp_users (srv g2) = ?us[j := (?us ! j)\<lparr>su_valid := True, su_sock := f, su_addr := addr,
      su_env := ''bin:.'', su_name := ''(no name)'', su_port := port, su_batch_flag := False, su_ignore := False\<rparr>]"
    by (rule accept_slot [OF alloc_lowest [OF free low] assms(8), of j port]) (use assms(6) us in simp_all)
  have "sp_find_fd_user f (sp_users (srv g2)) = Some i"
    unfolding sp_find_fd_user_def find_Some_iff
    by (rule exI [of _ i]) (use i j assms(3,7) in \<open>simp add: slots_def u nth_list_update\<close>)
  then show ?thesis
    using r a i j assms(3) us u by - (rule exI [of _ ?g], rule exI [of _ g2], simp add: close_fd_def)
qed

lemma closed_connection_leaves_ghost_witness:
  "\<exists>g1 g2. sp_ready sp_demo_os (\<lambda>_. None) [] [] 8 sp_demo = Inr g1
    \<and> sp_accept ''10.0.0.3'' 4003 g1 = Inr g2 \<and> su_sock (sp_users (srv g2) ! 2) = 8
    \<and> sp_find_fd_user 8 (sp_users (srv g2)) = Some 1"
proof -
  have "\<not> su_batch_flag (sp_users (srv sp_demo) ! 1)" "\<forall>h<8. fd_get (k_fds (srv sp_demo)) h \<noteq> None"
    "List.find (\<lambda>k. \<not> su_valid (sp_users (srv sp_demo) ! k)) slots = Some 2" "length ''10.0.0.3'' < 15"
    by code_simp+
  from closed_connection_leaves_ghost [OF sp_demo_facts(2) this(1) sp_demo_facts(3) _ this(2,3) _ this(4)]
  show ?thesis by (fastforce simp: numeral_2_eq_2)
qed

text \<open>A line of one built-in command, as one call.\<close>

lemma sp_builtin_line:
  assumes "list_all plain_word (c # args)" and "length args \<le> 8" and "c \<noteq> ''tell''" and "c \<noteq> ''yell''"
    and "\<not> su_batch_flag (sp_users s ! i)" and "\<not> su_ignore (sp_users s ! i)"
    and "sp_builtin rd c args (if su_pipes (sp_users s ! i) \<noteq> [] then decrease_line_count (sp_begin i s)
        else sp_begin i s) = Some (Inr s2)"
  defines "line \<equiv> join_with (CHR '' '') (c # args)"
  shows "sp_npshell sys rd (line @ CR # rest) stale i s =
    Inr (if sh_exited s2 then 0 else length (line @ CR # rest),
         sp_end (if sh_exited s2 \<or> line_end_with_pipe s2 then s2 else sh_event WaitAll s2))"
proof -
  have words: "\<forall>w\<in>set (c # args). w \<noteq> [] \<and> (\<forall>x\<in>set w. line_char x \<and> x \<noteq> CHR '' '')"
    using assms(1) plain_word_chars unfolding list_all_iff by blast
  have ex: "sp_execute sys rd line (c # args) (sp_begin i s) =
      Inr (if sh_exited s2 \<or> line_end_with_pipe s2 then s2 else sh_event WaitAll s2)"
  proof (rule sp_execute_builtin [OF assms(1-4)])
    show "\<not> su_ignore (sp_me t)" if "sp_me t = sp_me (sp_begin i s)" for t
      unfolding that using assms(6) by simp
  qed (use assms(7) in \<open>simp only: sp_begin_sel\<close>)
  show ?thesis
    unfolding line_def by (subst sp_line_plain [OF words _ assms(5)]) (use ex in \<open>simp_all add: line_def sh_event_def\<close>)
qed

lemma sp_exit_result:
  assumes "length (left_msg (su_name (sp_me s))) < 300"
  obtains s' where "sp_exit s = Inr s'" and "sh_exited s'" and "num_pipe_vec s' = num_pipe_vec s"
    and "k_fds s' = k_fds s" and "sp_index s' = sp_index s"
    and "sp_users s' = (sp_users s)[sp_index s := (sp_me s)\<lparr>su_valid := False\<rparr>]"
  using assms by (auto simp: sp_exit_def into_buffer_def Let_def update_user_def sh_event_def sp_broadcast_def sp_me_def)

text \<open>
  A user of the single-process server who leaves with \<^verbatim>\<open>exit\<close> while numbered pipes are waiting
  leaves them, one line closer, to the next user who gets the slot: neither \<^verbatim>\<open>exit\<close> nor a new login
  resets \<^verbatim>\<open>num_pipe_vec\<close>, and the descriptors stay open.  When a pipe is due, the new user's command
  reads what the old user's command wrote.\<close>

theorem next_user_inherits_numbered_pipes:
  assumes "sp_find_fd_user f (sp_users (srv g)) = Some i" and "length (sp_users (srv g)) = 30"
    and "\<not> su_batch_flag (sp_users (srv g) ! i)" and "\<not> su_ignore (sp_users (srv g) ! i)"
    and "\<forall>k<i. su_valid (sp_users (srv g) ! k)" and "su_pipes (sp_users (srv g) ! i) = ps"
    and "length (left_msg (su_name (sp_users (srv g) ! i))) < 300" and "length addr < 15"
    and "p \<in> set ps" and "3 \<le> np_r p" and "np_r p \<noteq> f" and "fd_get (k_fds (srv g)) (np_r p) = Some (PipeR k)"
  shows "\<exists>g1 g2. sp_ready sys rd (''exit'' @ CR # rest) stale f g = Inr g1 \<and> \<not> su_valid (sp_users (srv g1) ! i)
    \<and> sp_accept addr port g1 = Inr g2 \<and> su_valid (sp_users (srv g2) ! i)
    \<and> su_pipes (sp_users (srv g2) ! i) = map (\<lambda>t. t\<lparr>rest_line := rest_line t - 1\<rparr>) ps
    \<and> fd_get (k_fds (srv g2)) (np_r p) = Some (PipeR k)"
proof -
  let ?us = "sp_users (srv g)" and ?s = "dup3 f f f (srv g)"
  let ?b = "if su_pipes (?us ! i) \<noteq> [] then decrease_line_count (sp_begin i ?s) else sp_begin i ?s"
  let ?ps = "map (\<lambda>t. t\<lparr>rest_line := rest_line t - 1\<rparr>) ps"
  have i: "i < 30" using assms(1) by (auto simp: sp_find_fd_user_def dest: find_slot)
  have b: "sp_users ?b = ?us" "sp_index ?b = i" "sp_me ?b = ?us ! i" "k_fds ?b = k_fds ?s" "num_pipe_vec ?b = ?ps"
    using assms(6) by (auto simp: decrease_line_count_def sp_me_def Let_def)
  obtain s2 where e: "sp_exit ?b = Inr s2" "sh_exited s2" "num_pipe_vec s2 = ?ps" "k_fds s2 = k_fds ?s"
      "sp_index s2 = i" "sp_users s2 = ?us[i := (?us ! i)\<lparr>su_valid := False\<rparr>]"
    by (rule sp_exit_result [of ?b]) (use assms(7) b in simp_all)
  have w: "list_all plain_word [''exit'']" by code_simp
  have ln: "sp_npshell sys rd (''exit'' @ CR # rest) stale i ?s = Inr (0, sp_end s2)"
    using sp_builtin_line [OF w, of ?s i rd s2 sys rest stale] assms(3,4) e(1,2) by (simp add: sp_builtin_def)
  define s where "s = sp_end s2"
  have s: "sp_users s = ?us[i := (?us ! i)\<lparr>su_valid := False, su_pipes := ?ps\<rparr>]" "k_fds s = k_fds ?s"
    using e i assms(2) by (simp_all add: s_def sp_end_def update_user_def)
  obtain x y z where sv: "saved g = (x, y, z)" by (cases "saved g")
  let ?g = "g\<lparr>srv := close_fd f (dup3 x y z s), afds := removeAll f (afds g)\<rparr>"
  have r: "sp_ready sys rd (''exit'' @ CR # rest) stale f g = Inr ?g"
    using assms(1) sv ln by (simp add: sp_ready_def s_def)
  have us: "sp_users (srv ?g) = ?us[i := (?us ! i)\<lparr>su_valid := False, su_pipes := ?ps\<rparr>]"
    by (simp add: close_fd_def s)
  have slot: "List.find (\<lambda>k. \<not> su_valid (sp_users (srv ?g) ! k)) slots = Some i"
    unfolding find_Some_iff us
    by (rule exI [of _ i]) (use i assms(2,5) in \<open>simp add: slots_def nth_list_update\<close>)
  obtain g2 where a: "sp_accept addr port ?g = Inr g2"
    and u: "sp_users (srv g2) = (sp_users (srv ?g))[i := (sp_users (srv ?g) ! i)\<lparr>su_valid := True,
      su_sock := fst (fd_alloc (Opened ''socket'') (k_fds (srv ?g))), su_addr := addr,
      su_env := ''bin:.'', su_name := ''(no name)'', su_port := port, su_batch_flag := False, su_ignore := False\<rparr>]"
    and t: "k_fds (srv g2) = snd (fd_alloc (Opened ''socket'') (k_fds (srv ?g)))"
    by (rule accept_slot [OF refl assms(8) slot, of port]) blast
  have pr: "fd_get (k_fds (srv ?g)) (np_r p) = Some (PipeR k)"
    using assms(10-12) dup3_other [OF assms(10), of x y z s] dup3_other [OF assms(10), of f f f "srv g"]
    by (simp add: close_fd_def s)
  then have "fd_get (k_fds (srv g2)) (np_r p) = Some (PipeR k)"
    using fd.alloc_free [of "k_fds (srv ?g)" "Opened ''socket''"] by (auto simp: t)
  then show ?thesis
    using r a us u i assms(2) by - (rule exI [of _ ?g], rule exI [of _ g2], simp)
qed

definition sp_demo_pending :: sp_server where
  "sp_demo_pending = sp_demo\<lparr>srv := (srv sp_demo)\<lparr>k_fds := sp_demo_fds @ [Some (PipeR 0), Some (PipeW 0)],
     k_next := 1, sp_users := sp_demo_user 0 7
       # (sp_demo_user 1 8)\<lparr>su_pipes := [\<lparr>rest_line = 2, np_r = 9, np_w = 10\<rparr>]\<rparr> # drop 2 sp_table\<rparr>\<rparr>"

lemma next_user_inherits_numbered_pipes_witness:
  "\<exists>g1 g2. sp_ready sp_demo_os (\<lambda>_. None) (''exit'' @ [CR, NL]) [] 8 sp_demo_pending = Inr g1
    \<and> sp_accept ''10.0.0.3'' 4003 g1 = Inr g2
    \<and> map rest_line (su_pipes (sp_users (srv g2) ! 1)) = [1] \<and> fd_get (k_fds (srv g2)) 9 = Some (PipeR 0)"
proof -
  let ?p = "\<lparr>rest_line = 2, np_r = 9, np_w = 10\<rparr>"
  have f: "sp_find_fd_user 8 (sp_users (srv sp_demo_pending)) = Some 1" "length (sp_users (srv sp_demo_pending)) = 30"
    "\<not> su_batch_flag (sp_users (srv sp_demo_pending) ! 1)" "\<not> su_ignore (sp_users (srv sp_demo_pending) ! 1)"
    "\<forall>k<1. su_valid (sp_users (srv sp_demo_pending) ! k)"
    "su_pipes (sp_users (srv sp_demo_pending) ! 1) = [?p]"
    "length (left_msg (su_name (sp_users (srv sp_demo_pending) ! 1))) < 300" "length ''10.0.0.3'' < 15"
    "3 \<le> np_r ?p" "np_r ?p \<noteq> 8" "fd_get (k_fds (srv sp_demo_pending)) (np_r ?p) = Some (PipeR 0)"
    by code_simp+
  have m: "?p \<in> set [?p]" by simp
  show ?thesis
    using next_user_inherits_numbered_pipes [OF f(1-8) m f(9-11), of sp_demo_os "\<lambda>_. None" "[NL]" "[]" 4003]
    by (elim exE conjE) (intro exI conjI, assumption+, simp_all)
qed

text \<open>
  The environment of the single-process server is one for all users: a variable that one user
  sets has its value in the next call of every user.  And whatever the variable is, its value becomes
  the path of the user who set it.\<close>

theorem setenv_reaches_every_user:
  assumes "list_all plain_word [a, v]" and "a \<noteq> ''PATH''" and "CHR ''='' \<notin> set a" and "length v < 200"
    and "i < length (sp_users s)" and "\<not> su_batch_flag (sp_users s ! i)" and "\<not> su_ignore (sp_users s ! i)"
    and "line = join_with (CHR '' '') [''setenv'', a, v]"
  shows "\<exists>s'. sp_npshell sys rd (line @ CR # rest) stale i s = Inr (length (line @ CR # rest), s')
    \<and> sh_env (sp_begin j s') a = Some v
    \<and> sh_env (sp_begin i s') ''PATH'' = Some v"
proof -
  let ?b = "if su_pipes (sp_users s ! i) \<noteq> [] then decrease_line_count (sp_begin i s) else sp_begin i s"
  have b: "sp_index ?b = i" "sp_users ?b = sp_users s" "\<not> sh_exited ?b" "\<not> line_end_with_pipe ?b"
    by (simp_all add: decrease_line_count_def Let_def)
  let ?s2 = "update_user i (\<lambda>u. u\<lparr>su_env := v\<rparr>) (?b\<lparr>sh_env := sys_setenv a v (sh_env ?b)\<rparr>)"
  have bi: "sp_builtin rd ''setenv'' [a, v] ?b = Some (Inr ?s2)"
    using assms(4) b(1) by (simp add: sp_builtin_def sp_setenv_def into_buffer_def)
  have w: "list_all plain_word [''setenv'', a, v]" using assms(1) by (simp, code_simp)
  have run: "\<not> sh_exited ?s2" "\<not> line_end_with_pipe ?s2" using b by (simp_all add: update_user_def)
  have ln: "sp_npshell sys rd (line @ CR # rest) stale i s =
      Inr (length (line @ CR # rest), sp_end (sh_event WaitAll ?s2))"
    using sp_builtin_line [OF w _ _ _ assms(6,7) bi, of sys rest stale] run assms(8) by simp
  have e: "sh_env (sp_end (sh_event WaitAll ?s2)) a = Some v"
    using assms(1,3) by (simp add: sp_end_def update_user_def sh_event_def sys_setenv_def plain_word_def)
  have u: "su_env (sp_users (sp_end (sh_event WaitAll ?s2)) ! i) = v"
    using assms(5) b by (simp add: sp_end_def update_user_def sh_event_def)
  show ?thesis
    by (rule exI [of _ "sp_end (sh_event WaitAll ?s2)"])
      (use ln e u assms(2) in \<open>simp add: sp_begin_def sys_setenv_def\<close>)
qed

lemma setenv_reaches_every_user_witness:
  "\<exists>s'. sp_npshell sp_demo_os (\<lambda>_. None) (''setenv LANG C'' @ [CR, NL]) [] 0 (srv sp_demo) = Inr (15, s')
    \<and> sh_env (sp_begin 1 s') ''LANG'' = Some ''C'' \<and> sh_env (sp_begin 0 s') ''PATH'' = Some ''C''"
proof -
  have f: "list_all plain_word [''LANG'', ''C'']" "''LANG'' \<noteq> ''PATH''" "CHR ''='' \<notin> set ''LANG''"
    "length ''C'' < 200" "0 < length (sp_users (srv sp_demo))" "\<not> su_batch_flag (sp_users (srv sp_demo) ! 0)"
    "\<not> su_ignore (sp_users (srv sp_demo) ! 0)" "''setenv LANG C'' = join_with (CHR '' '') [''setenv'', ''LANG'', ''C'']"
    by code_simp+
  show ?thesis
    using setenv_reaches_every_user [OF f, of sp_demo_os "\<lambda>_. None" "[NL]" "[]" 1]
    by (elim exE conjE) (intro exI conjI, simp_all)
qed

section \<open>Refused lines\<close>

text \<open>What a line that ends with a user pipe operator is refused for.\<close>

definition sp_refusal :: "sp_user list \<Rightarrow> bool list list \<Rightarrow> nat \<Rightarrow> char \<Rightarrow> nat \<Rightarrow> string option" where
  "sp_refusal us m ix d n =
     (if \<not> sp_id_exist (int n) us then Some (no_user_msg (int n))
      else if d = CHR ''<'' \<and> \<not> sp_pipe_exist n (ix + 1) m then Some (pipe_missing_msg (int n) (int ix + 1))
      else if d = CHR ''>'' \<and> sp_pipe_exist (ix + 1) n m then Some (pipe_exists_msg (int ix + 1) (int n))
      else None)"

lemma sp_parse_refused:
  assumes "rwg_command ws" and "n < 2 ^ 31" and "d = CHR ''<'' \<or> d = CHR ''>''"
    and "sp_refusal (sp_users s) (sp_records s) (sp_index s) d n = Some msg"
  shows "\<exists>x y. sp_parse cmd (ws @ [pipe_op d n]) s =
    Inr (None, sh_event (Output msg) (s\<lparr>sp_sender := x, sp_out_id := y\<rparr>))"
proof -
  have at: "atoi (dec_nat n) = int n" using assms(2) by (rule atoi_dec_nat)
  note st = strtok_digits [OF assms(3), of n]
  obtain c cs where ws: "ws = c # cs" using assms(1) by (cases ws) (simp_all add: rwg_command_def)
  have pl: "list_all plain_word ws" "length ws \<le> 9" "c \<noteq> ''tell''" "c \<noteq> ''yell''"
    using assms(1) by (simp_all add: rwg_command_def ws)
  show ?thesis
  proof (cases "d = CHR ''<''")
    case True
    have "sp_pipe_in cmd (pipe_op d n) s = Inr (False, sh_event (Output msg) (s\<lparr>sp_sender := int n\<rparr>))"
      using assms(4) st True by (auto simp: sp_pipe_in_def pipe_op_def at Let_def sp_refusal_def split: if_splits)
    then have "sp_words cmd [] (ws @ [pipe_op d n]) s = Inr (None, sh_event (Output msg) (s\<lparr>sp_sender := int n\<rparr>))"
      using sp_words_plain [OF pl(1), of "[]" cmd "[pipe_op d n]" s] pl(2) True by (simp add: pipe_op_def)
    then have "sp_parse cmd (ws @ [pipe_op d n]) s = Inr (None, sh_event (Output msg) (s\<lparr>sp_sender := int n\<rparr>))"
      using pl unfolding sp_parse_def by (subst sp_combine.simps) (simp add: ws)
    then show ?thesis by (intro exI [of _ "int n"] exI [of _ "sp_out_id s"]) simp
  next
    case False
    with assms(3) have d: "d = CHR ''>''" by simp
    have po: "sp_pipe_out (pipe_op d n) s = Inr (False, sh_event (Output msg) (s\<lparr>sp_out_id := int n\<rparr>))"
      using assms(4) st d by (auto simp: sp_pipe_out_def pipe_op_def at Let_def sp_refusal_def split: if_splits)
    have op: "is_op (pipe_op d n)" "hd (pipe_op d n) = CHR ''>''" "pipe_op d n \<noteq> ''>''"
      by (simp_all add: pipe_op_def is_op_def d)
    have w: "sp_words cmd [] (ws @ [pipe_op d n]) s = Inr (Some (Some ws, [pipe_op d n]), s)"
      using sp_words_plain [OF pl(1), of "[]" cmd "[pipe_op d n]" s] pl(2) op ws by simp
    have o: "sp_op (pipe_op d n) [] 1 s = Inr (None, sh_event (Output msg) (s\<lparr>sp_out_id := int n\<rparr>))"
      using po op by (auto simp: sp_op_def)
    have "sp_parse cmd (ws @ [pipe_op d n]) s = Inr (None, sh_event (Output msg) (s\<lparr>sp_out_id := int n\<rparr>))"
      using pl w o unfolding sp_parse_def by (subst sp_combine.simps) (simp add: ws)
    then show ?thesis by (intro exI [of _ "sp_sender s"] exI [of _ "int n"]) simp
  qed
qed

text \<open>The numbered pipes of a user after a line that is not blank.\<close>

definition pipes_counted :: "sp_user \<Rightarrow> sp_user" where
  "pipes_counted u = u\<lparr>su_pipes := map (\<lambda>t. t\<lparr>rest_line := rest_line t - 1\<rparr>) (su_pipes u)\<rparr>"

text \<open>
  C20. A line of plain words with one user pipe at its end which the user cannot have is refused by the
  single-process server: the user is told the reason, which is that there is no such user, no such pipe, or
  already a pipe; no child is started, nobody else hears of it, the records and the descriptors stay, and
  so does the table but for the user's own numbered pipes, which the line counts down as any line does.  (A line with
  another operator before the refused one can have changed more: what a \<open><a\<close> in front of it took is gone.)\<close>

theorem sp_refused_line_reports:
  assumes "rwg_command ws" and "\<not> su_batch_flag (sp_users s ! i)" and "n < 2 ^ 31"
    and "d = CHR ''<'' \<or> d = CHR ''>''" and "sp_refusal (sp_users s) (sp_records s) i d n = Some msg"
    and "line = join_with (CHR '' '') (ws @ [pipe_op d n])"
  shows "\<exists>s'. sp_npshell sys rd (line @ CR # rest) stale i s = Inr (length (line @ CR # rest), s')
    \<and> sh_log s' = sh_log s @ [Output msg] \<and> sp_users s' = (sp_users s)[i := pipes_counted (sp_users s ! i)]
    \<and> sp_records s' = sp_records s \<and> k_fds s' = k_fds s"
proof -
  have words: "\<forall>x\<in>set (ws @ [pipe_op d n]). x \<noteq> [] \<and> (\<forall>c\<in>set x. line_char c \<and> c \<noteq> CHR '' '')"
    using assms(1) plain_word_chars pipe_op_chars [OF assms(4), of n]
    by (auto simp: rwg_command_def list_all_iff pipe_op_def)
  let ?b = "sp_begin i s"
  let ?c = "if num_pipe_vec ?b \<noteq> [] then decrease_line_count ?b else ?b"
  have c: "sp_users ?c = sp_users s" "sp_records ?c = sp_records s" "sp_index ?c = i" "k_fds ?c = k_fds s"
    "sh_log ?c = sh_log s" "\<not> sh_exited ?c"
    "num_pipe_vec ?c = map (\<lambda>t. t\<lparr>rest_line := rest_line t - 1\<rparr>) (su_pipes (sp_users s ! i))"
    by (simp_all add: decrease_line_count_def Let_def)
  have "sp_refusal (sp_users ?c) (sp_records ?c) (sp_index ?c) d n = Some msg" using assms(5) unfolding c .
  from sp_parse_refused [OF assms(1,3,4) this, of line] obtain x y where
    pa: "sp_parse line (ws @ [pipe_op d n]) ?c = Inr (None, sh_event (Output msg) (?c\<lparr>sp_sender := x, sp_out_id := y\<rparr>))"
      (is "_ = Inr (None, ?t)") by blast
  have ex: "sp_execute sys rd line (ws @ [pipe_op d n]) ?b = Inr ?t"
    unfolding sp_execute_def Let_def using pa by simp
  have t: "sp_users ?t = sp_users s" "sp_records ?t = sp_records s" "sp_index ?t = i" "k_fds ?t = k_fds s"
    "sh_log ?t = sh_log s @ [Output msg]" "\<not> sh_exited ?t" "num_pipe_vec ?t = num_pipe_vec ?c"
    using c(1-6) by (simp_all add: sh_event_def)
  have "sp_npshell sys rd (line @ CR # rest) stale i s = Inr (length (line @ CR # rest), sp_end ?t)"
    unfolding assms(6) sp_line_plain [OF words _ assms(2), of sys rd rest stale, simplified]
    unfolding assms(6) [symmetric] ex using t(6) by simp
  then show ?thesis
    using t c(7) by (intro exI [of _ "sp_end ?t"]) (simp add: sp_end_def update_user_def pipes_counted_def)
qed

lemma sp_refused_line_reports_witness:
  "\<exists>s'. sp_npshell sp_demo_os (\<lambda>_. None) (''cat <2'' @ [CR, NL]) [] 0 (srv sp_demo) = Inr (8, s')
    \<and> sh_log s' = sh_log (srv sp_demo) @ [Output (pipe_missing_msg 2 1)]"
proof -
  have "sp_user_idle (sp_users (srv sp_demo) ! 0)" by (simp only: sp_demo_facts sp_demo_user_facts)
  then have i: "\<not> su_batch_flag (sp_users (srv sp_demo) ! 0)" by (simp add: sp_user_idle_def)
  have c: "rwg_command [''cat'']" by code_simp
  have f: "(2::nat) < 2 ^ 31" "CHR ''<'' = CHR ''<'' \<or> CHR ''<'' = CHR ''>''" by simp_all
  have r: "sp_refusal (sp_users (srv sp_demo)) (sp_records (srv sp_demo)) 0 (CHR ''<'') 2 = Some (pipe_missing_msg 2 1)"
    by code_simp
  have l: "''cat <2'' = join_with (CHR '' '') ([''cat''] @ [pipe_op (CHR ''<'') 2])" by code_simp
  show ?thesis
    using sp_refused_line_reports [OF c i f r l, of sp_demo_os "\<lambda>_. None" "[NL]" "[]"]
    by (elim exE conjE) (intro exI conjI, simp_all)
qed

end
