(* ===== verification/Sp_Select.thy ===== *)
theory Sp_Select
  imports Sp_Claims Passive_Open
begin

text \<open>
  The select loop of \<^verbatim>\<open>np_single_proc.cpp\<close> as it is written: one turn of \<^verbatim>\<open>while(1)\<close> waits, takes at
  most one connection and then goes through the descriptor numbers.  Its turns are runs of the step
  relation of \<^theory_text>\<open>Sp_Server\<close>.
\<close>

text \<open>
  What \<^verbatim>\<open>select\<close> does: it leaves the ready descriptors in \<^verbatim>\<open>rfds\<close>, is interrupted, or fails
  otherwise, when \<^verbatim>\<open>rfds\<close> stays the copy of \<^verbatim>\<open>afds\<close>.
\<close>

datatype select_result = Selected "nat list" | Interrupted | SelectFails

text \<open>The descriptors left in \<^verbatim>\<open>rfds\<close>; \<^verbatim>\<open>select\<close> looks at the numbers below \<open>nfds\<close>.\<close>

definition sp_rfds :: "nat \<Rightarrow> select_result \<Rightarrow> nat list \<Rightarrow> nat list" where
  "sp_rfds nfds w active =
     (case w of Selected fds \<Rightarrow> filter (\<lambda>fd. fd < nfds \<and> fd \<in> set fds) active | _ \<Rightarrow> active)"

text \<open>A failed \<^verbatim>\<open>accept\<close> is reported, and then \<^verbatim>\<open>FD_SET\<close> is called with -1.\<close>

definition sp_listen :: "(string \<times> int) option \<Rightarrow> sp_server \<Rightarrow> sp_server result" where
  "sp_listen conn g =
     (case conn of None \<Rightarrow> Inl OutOfRange | Some (addr, port) \<Rightarrow> sp_accept addr port g)"

text \<open>The loop over the descriptor numbers, which are the list here: \<open>inp\<close> is what can be read from each of them.\<close>

fun sp_serve_all ::
  "os \<Rightarrow> (string \<Rightarrow> string option) \<Rightarrow> (nat \<Rightarrow> string \<times> string) \<Rightarrow> nat list \<Rightarrow> nat list \<Rightarrow> sp_server \<Rightarrow>
     sp_server result" where
  "sp_serve_all sys rd inp rfds [] g = Inr g"
| "sp_serve_all sys rd inp rfds (fd # fds) g =
     (if fd \<noteq> msock g \<and> fd \<in> set rfds
      then ebind (sp_ready sys rd (fst (inp fd)) (snd (inp fd)) fd g) (sp_serve_all sys rd inp rfds fds)
      else sp_serve_all sys rd inp rfds fds g)"

definition sp_pass ::
  "os \<Rightarrow> (string \<Rightarrow> string option) \<Rightarrow> nat \<Rightarrow> select_result \<Rightarrow> (string \<times> int) option \<Rightarrow> (nat \<Rightarrow> string \<times> string) \<Rightarrow>
     sp_server \<Rightarrow> sp_server result" where
  "sp_pass sys rd nfds w conn inp g =
     (if w = Interrupted then Inr g
      else
        (let rfds = sp_rfds nfds w (afds g)
         in ebind (if msock g \<in> set rfds then sp_listen conn g else Inr g) (sp_serve_all sys rd inp rfds [0..<nfds])))"

section \<open>What a turn does, as a run of actions\<close>

text \<open>A connection is taken from an address, or the client of an active descriptor is served with what it has sent.\<close>

datatype sp_action = Accepts string int | Serves nat

inductive sp_run ::
  "os \<Rightarrow> (string \<Rightarrow> string option) \<Rightarrow> (nat \<Rightarrow> string \<times> string) \<Rightarrow> sp_server \<Rightarrow> sp_action list \<Rightarrow> sp_server \<Rightarrow> bool"
  for sys :: os and rd :: "string \<Rightarrow> string option" and inp :: "nat \<Rightarrow> string \<times> string" where
  rests: "sp_run sys rd inp g [] g"
| takes: "sp_accept addr port g = Inr g1 \<Longrightarrow> sp_run sys rd inp g1 as g' \<Longrightarrow>
    sp_run sys rd inp g (Accepts addr port # as) g'"
| answers: "fd \<in> set (afds g) \<Longrightarrow> fd \<noteq> msock g \<Longrightarrow> sp_ready sys rd (fst (inp fd)) (snd (inp fd)) fd g = Inr g1 \<Longrightarrow>
    sp_run sys rd inp g1 as g' \<Longrightarrow> sp_run sys rd inp g (Serves fd # as) g'"

lemma sp_run_steps: "sp_run sys rd inp g as g' \<Longrightarrow> sp_step\<^sup>*\<^sup>* g g'"
proof (induction rule: sp_run.induct)
  case (takes addr port g g1 as g')
  then show ?case using sp_step.accepts by (meson converse_rtranclp_into_rtranclp)
next
  case (answers fd g g1 as g')
  then show ?case using sp_step.serves by (meson converse_rtranclp_into_rtranclp)
qed simp

lemma sp_reachable_run: "sp_step\<^sup>*\<^sup>* g g' \<Longrightarrow> sp_reachable g \<Longrightarrow> sp_reachable g'"
  by (induction rule: rtranclp_induct) (auto intro: sp_reachable.steps)

lemma sp_listen_kept: "sp_listen conn g = Inr g' \<Longrightarrow> set (afds g) \<subseteq> set (afds g') \<and> msock g' = msock g"
  by (auto simp: sp_listen_def sp_accept_def Let_def split: option.splits prod.splits if_splits)

lemma sp_ready_kept:
  "sp_ready sys rd raw stale fd g = Inr g' \<Longrightarrow> set (afds g) \<subseteq> insert fd (set (afds g')) \<and> msock g' = msock g"
  by (auto simp: sp_ready_def Let_def split: option.splits prod.splits if_splits)

lemma sp_serve_all_run:
  assumes "sp_serve_all sys rd inp rfds fds g = Inr g'" and "set fds \<inter> set rfds \<subseteq> set (afds g)" and "distinct fds"
  shows "sp_run sys rd inp g (map Serves (filter (\<lambda>fd. fd \<noteq> msock g \<and> fd \<in> set rfds) fds)) g'"
  using assms
proof (induction fds arbitrary: g)
  case (Cons fd fds)
  show ?case
  proof (cases "fd \<noteq> msock g \<and> fd \<in> set rfds")
    case True
    then obtain g1 where g1: "sp_ready sys rd (fst (inp fd)) (snd (inp fd)) fd g = Inr g1"
      "sp_serve_all sys rd inp rfds fds g1 = Inr g'"
      using Cons.prems(1) by auto
    have k: "set (afds g) \<subseteq> insert fd (set (afds g1))" "msock g1 = msock g" using sp_ready_kept [OF g1(1)] by simp_all
    have "sp_run sys rd inp g1 (map Serves (filter (\<lambda>fd. fd \<noteq> msock g1 \<and> fd \<in> set rfds) fds)) g'"
      by (rule Cons.IH [OF g1(2)]) (use Cons.prems(2,3) k(1) in auto)
    then show ?thesis using True Cons.prems(2) g1(1) k(2) by (simp add: sp_run.answers)
  next
    case False
    then have "sp_serve_all sys rd inp rfds fds g = Inr g'" using Cons.prems(1) by (simp split: if_splits)
    from Cons.IH [OF this] False Cons.prems(2,3) show ?thesis by auto
  qed
qed (simp add: sp_run.rests)

text \<open>
  C15. The select loop serves every client that is ready: a turn of it that comes to its end is a run that first takes
  the waiting connection, if the listening socket is ready, and then serves the active descriptors that
  are ready, each exactly once, in ascending order, and each with what it has sent; when \<^verbatim>\<open>select\<close> is
  interrupted it does nothing.  Its actions are steps of the server, so each reachable state stays reachable.\<close>

theorem select_loop_refines_steps:
  assumes "sp_pass sys rd nfds w conn inp g = Inr g'" and "sp_reachable g"
  defines "ready \<equiv> \<lambda>fd. fd \<in> set (afds g) \<and> (\<forall>fds. w = Selected fds \<longrightarrow> fd < nfds \<and> fd \<in> set fds)"
  shows "(if w = Interrupted then g' = g
     else \<exists>conns clients. sp_run sys rd inp g (conns @ map Serves clients) g'
       \<and> (if ready (msock g) then \<exists>addr port. conn = Some (addr, port) \<and> conns = [Accepts addr port] else conns = [])
       \<and> set clients = {fd. ready fd \<and> fd < nfds \<and> fd \<noteq> msock g} \<and> sorted clients \<and> distinct clients)
    \<and> sp_step\<^sup>*\<^sup>* g g' \<and> sp_reachable g'"
proof (cases "w = Interrupted")
  case True
  then show ?thesis using assms(1,2) by (simp add: sp_pass_def)
next
  case False
  let ?r = "sp_rfds nfds w (afds g)"
  let ?clients = "filter (\<lambda>fd. fd \<noteq> msock g \<and> fd \<in> set ?r) [0..<nfds]"
  have r: "fd \<in> set ?r \<longleftrightarrow> ready fd" for fd
    using False by (auto simp: sp_rfds_def ready_def split: select_result.splits)
  obtain g1 where g1: "(if msock g \<in> set ?r then sp_listen conn g else Inr g) = Inr g1"
    and rest: "sp_serve_all sys rd inp ?r [0..<nfds] g1 = Inr g'"
    using assms(1) False by (auto simp: sp_pass_def Let_def)
  have k: "set (afds g) \<subseteq> set (afds g1)" "msock g1 = msock g"
    using g1 sp_listen_kept [of conn g g1] by (auto split: if_splits)
  have "set [0..<nfds] \<inter> set ?r \<subseteq> set (afds g1)" using k(1) r by (auto simp: ready_def)
  from sp_serve_all_run [OF rest this] have served: "sp_run sys rd inp g1 (map Serves ?clients) g'"
    by (simp add: k(2))
  have "\<exists>conns. sp_run sys rd inp g (conns @ map Serves ?clients) g'
      \<and> (if ready (msock g) then \<exists>addr port. conn = Some (addr, port) \<and> conns = [Accepts addr port] else conns = [])"
  proof (cases "ready (msock g)")
    case True
    then obtain addr port where c: "conn = Some (addr, port)" "sp_accept addr port g = Inr g1"
      using g1 r by (auto simp: sp_listen_def split: option.splits)
    then show ?thesis
      using True sp_run.takes [OF c(2) served] by (intro exI [of _ "[Accepts addr port]"]) simp
  next
    case nr: False
    then have "g1 = g" using g1 r by simp
    then show ?thesis using nr served by (intro exI [of _ "[]"]) simp
  qed
  then obtain conns where run: "sp_run sys rd inp g (conns @ map Serves ?clients) g'"
    and conns: "if ready (msock g) then \<exists>addr port. conn = Some (addr, port) \<and> conns = [Accepts addr port] else conns = []"
    by blast
  have cl: "set ?clients = {fd. ready fd \<and> fd < nfds \<and> fd \<noteq> msock g}" "sorted ?clients" "distinct ?clients"
    using r by (auto intro: sorted_wrt_filter)
  have "sp_step\<^sup>*\<^sup>* g g'" by (rule sp_run_steps [OF run])
  moreover from this have "sp_reachable g'" using assms(2) by (rule sp_reachable_run)
  ultimately show ?thesis
    unfolding if_not_P [OF False] using run conns cl by blast
qed

theorem select_loop_refines_steps_witness:
  "sp_pass sp_demo_os (\<lambda>_. None) 64 (Selected [3, 99]) (Some (''10.0.0.1'', 4000)) (\<lambda>_. ([], [])) sp_demo1 = Inr sp_demo
    \<and> (\<exists>clients. sp_run sp_demo_os (\<lambda>_. None) (\<lambda>_. ([], [])) sp_demo1 (Accepts ''10.0.0.1'' 4000 # map Serves clients) sp_demo)"
proof -
  have "sp_rfds 64 (Selected [3, 99]) (afds sp_demo1) = [3]" "msock sp_demo1 = 3" "msock sp_demo = 3" "3 \<in> set (afds sp_demo1)"
    by code_simp+
  moreover have none: "sp_serve_all sys rd inp [3] fds g = Inr g" if "msock g = 3" for sys rd inp fds g
    using that by (induction fds) auto
  ultimately have p: "sp_pass sp_demo_os (\<lambda>_. None) 64 (Selected [3, 99]) (Some (''10.0.0.1'', 4000)) (\<lambda>_. ([], [])) sp_demo1
      = Inr sp_demo" and m: "msock sp_demo1 = 3" "3 \<in> set (afds sp_demo1)"
    using sp_demo_accepted by (simp_all add: sp_pass_def sp_listen_def)
  have "sp_reachable sp_demo1"
    by (rule sp_reachable.steps [OF _ sp_step.accepts [OF sp_demo1_accepted]])
      (simp add: sp_demo0_def sp_reachable.boots)
  note turn = select_loop_refines_steps [OF p this]
  show ?thesis using turn p m by auto
qed

end
