(* ===== verification/Sp_First.thy ===== *)
theory Sp_First
  imports Sp_Claims
begin

text \<open>
  The version of the single-process shell that was handed in for part 2,
  \<^verbatim>\<open>nctu_np_project2/part2/npshell.h\<close>.  Its text is that of \<^verbatim>\<open>final/npshell_2.h\<close> but for one line: behind
  the child of \<^verbatim>\<open>>n\<close> it compares \<^verbatim>\<open>name_pipe_out_flag\<close> with 1 and throws the result away, where the final
  version clears the flag.  The definitions that contain this line are modelled again.
\<close>

section \<open>The definitions with the flag that stays\<close>

definition first_exec_user_pipe :: "os \<Rightarrow> string \<Rightarrow> nat \<Rightarrow> string list \<Rightarrow> nat \<Rightarrow> sp \<Rightarrow> sp" where
  "first_exec_user_pipe sys cmd n argv fd_in s =
     (let s = sp_close_outs s;
          s = sp_spawn_user_pipe sys cmd argv fd_in s;
          s = (if n \<noteq> 1 then close_fd fd_in s else s)
      in sp_drop_inputs s)"

definition first_process ::
  "os \<Rightarrow> string \<Rightarrow> nat \<Rightarrow> nat \<Rightarrow> string list \<Rightarrow> nat \<Rightarrow> nat \<Rightarrow> sp \<Rightarrow> nat \<times> sp" where
  "first_process sys cmd n prc argv fd_in pipe_out s =
     (if write_file_flag s \<and> prc = n - 1 then (fd_in, sp_exec_redirect sys n argv fd_in s)
      else if (shock_pipe_out_flag s \<or> num_pipe_out_flag s) \<and> prc = n - 1 then
        (fd_in, sp_exec_numbered sys n argv fd_in pipe_out s)
      else if sp_out_flag s \<and> prc = n - 1 then (fd_in, first_exec_user_pipe sys cmd n argv fd_in s)
      else sp_exec_normal sys n prc argv fd_in s)"

fun first_loop ::
  "os \<Rightarrow> (string \<Rightarrow> string option) \<Rightarrow> string \<Rightarrow> nat \<Rightarrow> nat \<Rightarrow> string list list \<Rightarrow> nat \<Rightarrow> nat \<Rightarrow> sp \<Rightarrow> sp result"
where
  "first_loop sys rd cmd n prc [] fd_in pipe_out s = Inr s"
| "first_loop sys rd cmd n prc ([] # procs) fd_in pipe_out s = Inl NullDeref"
| "first_loop sys rd cmd n prc ((c # args) # procs) fd_in pipe_out s =
     (case sp_builtin rd c args s of
        Some r \<Rightarrow> ebind r (\<lambda>s.
          if sh_exited s then Inr s else first_loop sys rd cmd n (prc + 1) procs fd_in pipe_out s)
      | None \<Rightarrow>
          (let (fd_in, s) = first_process sys cmd n prc (c # args) fd_in pipe_out s
           in first_loop sys rd cmd n (prc + 1) procs fd_in pipe_out s))"

definition first_execute ::
  "os \<Rightarrow> (string \<Rightarrow> string option) \<Rightarrow> string \<Rightarrow> string list \<Rightarrow> sp \<Rightarrow> sp result" where
  "first_execute sys rd cmd toks s =
     (let s = (if toks \<noteq> [] \<and> num_pipe_vec s \<noteq> [] then decrease_line_count s else s)
      in ebind (sp_parse cmd toks s) (\<lambda>(parsed, s).
         case parsed of
           None \<Rightarrow> Inr s
         | Some (procs, out) \<Rightarrow>
             if su_ignore (sp_me s) then Inr s
             else ebind (first_loop sys rd cmd (length procs) 0 procs 0 out s) (\<lambda>s.
               Inr (if sh_exited s \<or> line_end_with_pipe s then s else sh_event WaitAll s))))"

definition first_npshell ::
  "os \<Rightarrow> (string \<Rightarrow> string option) \<Rightarrow> string \<Rightarrow> string \<Rightarrow> nat \<Rightarrow> sp \<Rightarrow> (nat \<times> sp) result" where
  "first_npshell sys rd raw stale ix s =
     (let s = sp_begin ix s; buf = raw @ drop (length raw) (NUL # stale)
      in if su_batch_flag (sp_me s) then Inl OutOfRange
         else if list_all (\<lambda>c. 20 \<le> schar c) buf then Inl BufferOverflow
         else
           (let line = takeWhile (\<lambda>c. 20 \<le> schar c) buf
            in ebind (c_format line) (\<lambda>cmd.
               if line = [] then Inr (length raw, sp_end s)
               else ebind (first_execute sys rd cmd (tokens (\<lambda>c. c = CHR '' '') line) s) (\<lambda>s.
                 Inr (if sh_exited s then 0 else length raw, sp_end s)))))"

section \<open>Both versions agree\<close>

text \<open>The state without the flag, which is a variable of the call.\<close>

definition no_flag :: "sp \<Rightarrow> sp" where
  "no_flag s = s\<lparr>sp_out_flag := False\<rparr>"

lemma no_flag_sel [simp]:
  "sh_exited (no_flag s) = sh_exited s" "line_end_with_pipe (no_flag s) = line_end_with_pipe s"
  "no_flag (sh_event e s) = sh_event e (no_flag s)" "no_flag (no_flag s) = no_flag s"
  by (simp_all add: no_flag_def sh_event_def)

lemma no_flag_end: "no_flag (sp_end s) = sp_end (no_flag s)"
  by (simp add: no_flag_def sp_end_def update_user_def)

lemma no_flag_begin: "no_flag s = no_flag t \<Longrightarrow> sp_begin ix s = sp_begin ix t"
  by (cases s, cases t) (simp add: no_flag_def sp_begin_def)

text \<open>Two results that agree but for the flag.\<close>

definition same_but_flag :: "sp result \<Rightarrow> sp result \<Rightarrow> bool" where
  "same_but_flag r r' \<longleftrightarrow> ebind r (\<lambda>s. Inr (no_flag s)) = ebind r' (\<lambda>s. Inr (no_flag s))"

lemma same_but_flag_refl [simp]: "same_but_flag r r"
  by (simp add: same_but_flag_def)

lemma same_but_flag_cases:
  assumes "same_but_flag r r'"
  obtains (fails) e where "r = Inl e" "r' = Inl e"
  | (returns) s s' where "r = Inr s" "r' = Inr s'" "no_flag s = no_flag s'"
  using assms by (cases r; cases r') (auto simp: same_but_flag_def)

lemma first_exec_user_pipe:
  "no_flag (first_exec_user_pipe sys cmd n argv fd_in s) = no_flag (sp_exec_user_pipe sys cmd n argv fd_in s)"
  by (simp add: first_exec_user_pipe_def sp_exec_user_pipe_def no_flag_def Let_def)

lemma first_loop_same:
  "prc + length procs = n \<Longrightarrow>
     same_but_flag (first_loop sys rd cmd n prc procs fd_in out s) (sp_loop sys rd cmd n prc procs fd_in out s)"
proof (induction sys rd cmd n prc procs fd_in out s rule: sp_loop.induct)
  case (3 sys rd cmd n prc c args procs fd_in out s)
  show ?case
  proof (cases "sp_builtin rd c args s")
    case (Some r)
    then show ?thesis using 3 by (cases r) auto
  next
    case None
    let ?p = "sp_process sys cmd n prc (c # args) fd_in out s"
    let ?q = "first_process sys cmd n prc (c # args) fd_in out s"
    show ?thesis
    proof (cases "?q = ?p")
      case True
      then show ?thesis using 3(1) [OF None refl prod.collapse] 3(3) None
        by (simp add: case_prod_unfold Let_def)
    next
      case False
      then have "prc = n - 1" and u: "?q = (fd_in, first_exec_user_pipe sys cmd n (c # args) fd_in s)"
        "?p = (fd_in, sp_exec_user_pipe sys cmd n (c # args) fd_in s)"
        by (auto simp: first_process_def sp_process_def split: if_splits)
      then have "length procs = 0" using 3(3) by (cases n) auto
      then have "procs = []" by simp
      then show ?thesis using None u first_exec_user_pipe by (simp add: same_but_flag_def)
    qed
  qed
qed simp_all

lemma first_execute_same: "same_but_flag (first_execute sys rd cmd toks s) (sp_execute sys rd cmd toks s)"
proof -
  let ?s = "if toks \<noteq> [] \<and> num_pipe_vec s \<noteq> [] then decrease_line_count s else s"
  show ?thesis
  proof (cases "sp_parse cmd toks ?s")
    case (Inl e)
    then show ?thesis by (simp add: first_execute_def sp_execute_def Let_def)
  next
    case (Inr r)
    obtain parsed t where r: "r = (parsed, t)" by (cases r)
    show ?thesis
    proof (cases "parsed = None \<or> su_ignore (sp_me t)")
      case True
      then show ?thesis using Inr r
        by (auto simp: first_execute_def sp_execute_def Let_def split: option.split)
    next
      case False
      then obtain procs out where p: "parsed = Some (procs, out)" by auto
      have "same_but_flag (first_loop sys rd cmd (length procs) 0 procs 0 out t)
          (sp_loop sys rd cmd (length procs) 0 procs 0 out t)" by (rule first_loop_same) simp
      then show ?thesis
      proof (cases rule: same_but_flag_cases)
        case (fails e)
        then show ?thesis using Inr r p False by (simp add: first_execute_def sp_execute_def Let_def)
      next
        case (returns u u')
        moreover have "sh_exited u = sh_exited u'" "line_end_with_pipe u = line_end_with_pipe u'"
          using returns(3) no_flag_sel(1,2) by metis+
        ultimately show ?thesis using Inr r p False
          by (simp add: first_execute_def sp_execute_def Let_def same_but_flag_def)
      qed
    qed
  qed
qed

text \<open>A sequence of calls: the input, the stale bytes and the user of each, and the results.\<close>

fun npshell_calls :: "(string \<Rightarrow> string \<Rightarrow> nat \<Rightarrow> sp \<Rightarrow> (nat \<times> sp) result) \<Rightarrow> (string \<times> string \<times> nat) list \<Rightarrow> sp \<Rightarrow>
    (nat list \<times> sp) result" where
  "npshell_calls f [] s = Inr ([], s)"
| "npshell_calls f ((raw, stale, ix) # cs) s =
     ebind (f raw stale ix s) (\<lambda>(n, s). ebind (npshell_calls f cs s) (\<lambda>(ns, s). Inr (n # ns, s)))"

lemma first_npshell_same:
  assumes "no_flag s = no_flag s'"
  shows "ebind (first_npshell sys rd raw stale ix s) (\<lambda>(n, s). Inr (n, no_flag s)) =
    ebind (sp_npshell sys rd raw stale ix s') (\<lambda>(n, s). Inr (n, no_flag s))"
proof -
  let ?buf = "raw @ drop (length raw) (NUL # stale)"
  let ?line = "takeWhile (\<lambda>c. 20 \<le> schar c) ?buf"
  note b = no_flag_begin [OF assms, of ix]
  have x: "same_but_flag (first_execute sys rd cmd (tokens (\<lambda>c. c = CHR '' '') ?line) (sp_begin ix s'))
      (sp_execute sys rd cmd (tokens (\<lambda>c. c = CHR '' '') ?line) (sp_begin ix s'))" for cmd
    by (rule first_execute_same)
  show ?thesis
  proof (cases "c_format ?line")
    case (Inl e)
    then show ?thesis by (simp add: first_npshell_def sp_npshell_def b Let_def)
  next
    case (Inr cmd)
    from x [of cmd] show ?thesis
    proof (cases rule: same_but_flag_cases)
      case (fails e)
      then show ?thesis using Inr by (simp add: first_npshell_def sp_npshell_def b Let_def)
    next
      case (returns t t')
      moreover have "sh_exited t = sh_exited t'" using returns(3) no_flag_sel(1) by metis
      ultimately show ?thesis using Inr
        by (simp add: first_npshell_def sp_npshell_def b Let_def no_flag_end)
    qed
  qed
qed

text \<open>
  C23. The comparison in place of an assignment in part 2 has no effect: over every sequence of calls for
  whatever users, the first version and the final one return the same results or fail alike, and
  leave the same server, its children, messages, tables and descriptors, but for a flag that the
  next call sets anew.\<close>

theorem first_shell_equals_final:
  "ebind (npshell_calls (first_npshell sys rd) cs s) (\<lambda>(ns, s). Inr (ns, no_flag s)) =
   ebind (npshell_calls (sp_npshell sys rd) cs s) (\<lambda>(ns, s). Inr (ns, no_flag s))"
proof -
  have "ebind (npshell_calls (first_npshell sys rd) cs s) (\<lambda>(ns, s). Inr (ns, no_flag s)) =
      ebind (npshell_calls (sp_npshell sys rd) cs s') (\<lambda>(ns, s). Inr (ns, no_flag s))"
    if "no_flag s = no_flag s'" for s s'
    using that
  proof (induction cs arbitrary: s s')
    case (Cons c cs)
    obtain raw stale ix where c: "c = (raw, stale, ix)" by (cases c)
    note e = first_npshell_same [OF Cons.prems, of sys rd raw stale ix]
    show ?case
    proof (cases "first_npshell sys rd raw stale ix s")
      case (Inl x)
      with e have "sp_npshell sys rd raw stale ix s' = Inl x"
        by (cases "sp_npshell sys rd raw stale ix s'") auto
      with Inl show ?thesis by (simp add: c)
    next
      case (Inr r)
      obtain n t where r: "r = (n, t)" by (cases r)
      with Inr e obtain t' where t': "sp_npshell sys rd raw stale ix s' = Inr (n, t')" "no_flag t = no_flag t'"
        by (cases "sp_npshell sys rd raw stale ix s'") auto
      from Cons.IH [OF t'(2)] show ?thesis
        by (cases "npshell_calls (first_npshell sys rd) cs t"; cases "npshell_calls (sp_npshell sys rd) cs t'")
          (auto simp: c Inr r t'(1))
    qed
  qed simp
  then show ?thesis by blast
qed

end
