(* ===== verification/Spec2Isabelle.thy ===== *)
theory Spec2Isabelle
  imports Socks_Server Console_Process Win_Sessions Cgi_Samples Text_Filters
    Shell_P1_Claims Path_Claims Proxied_Shell Rwg_Races Rwg_Sections Early_Claims Rwg_Shutdown Sp_Claims Sp_Select Sp_First
begin

text \<open>
  A verification development for the network programming course projects: a shell with numbered
  pipes (\<^verbatim>\<open>nctu_np_project1\<close>), the remote working ground (\<^verbatim>\<open>nctu_np_project2\<close>), an HTTP server with
  CGI programs and its Windows variant (\<^verbatim>\<open>nctu_np_project3\<close>), and a SOCKS4 proxy with a web console
  behind it (\<^verbatim>\<open>nctu_np_project4\<close>).

  \<^bold>\<open>Shared theories.\<close>  \<^theory_text>\<open>NP_Prelude\<close> has the error values (\<^verbatim>\<open>cxx_error\<close>: reads out of range, null
  pointers, dangling pointers, writes past a buffer, user text as a format, exceptions), the error monad and list
  lemmas.  \<^theory_text>\<open>C_Strings\<close> has the library functions on strings the sources call (C strings, \<^verbatim>\<open>strtok\<close>,
  \<^verbatim>\<open>atoi\<close>, \<^verbatim>\<open>to_string\<close>, \<^verbatim>\<open>find\<close>/\<^verbatim>\<open>substr\<close>, \<^verbatim>\<open>getline\<close>).  \<^theory_text>\<open>Posix\<close> has the descriptor table with \<^verbatim>\<open>open\<close>, \<^verbatim>\<open>close\<close>, \<^verbatim>\<open>dup2\<close>
  and \<^verbatim>\<open>pipe\<close>, behind the locale \<open>descriptors\<close>, the environment, and what a forked child looks like
  when it calls \<^verbatim>\<open>execvp\<close>.  \<^theory_text>\<open>Side_By_Side\<close> is the locale of sessions that run in one process and share its output,
  whatever the order of their events; the consoles of both systems interpret it.  \<^theory_text>\<open>Passive_Open\<close> is how the servers of project 2 get their listening socket.

  \<^bold>\<open>The shell of project 1\<close> (\<^verbatim>\<open>nctu_np_project1/npshell.cpp\<close>).  \<^theory_text>\<open>Shell_P1\<close> defines the variables of
  \<^verbatim>\<open>main\<close> as a record, the parser (\<open>combine\<close>, \<open>parse_op\<close>, \<open>number_pipe_out\<close>), the three ways a process
  is started (\<open>exec_redirect\<close>, \<open>exec_numbered\<close>, \<open>exec_normal\<close>) and one turn of the loop (\<open>shell_line\<close>).
  \<^theory_text>\<open>Shell_P1_Pipes\<close> holds the invariant on the numbered pipes and descriptors and shows that every
  operation keeps it, \<^theory_text>\<open>Shell_P1_Lines\<close> evaluates pipelines and numbered lines, and \<^theory_text>\<open>Shell_P1_Claims\<close> states
  the properties.

  \<^bold>\<open>The early shell of project 1\<close> (\<^verbatim>\<open>nctu_np_project1/server.cpp\<close>).  \<^theory_text>\<open>Path_Shell\<close> is what differs from the
  later one: the search path it keeps itself, with pointers into a line that is gone in the next turn
  (\<open>path_array\<close>), the look-up before a process is started, the built-in commands and the loop.
  \<^theory_text>\<open>Path_Claims\<close> shows where the two agree and what the early one does with unknown commands and paths.

  \<^bold>\<open>The concurrent server\<close> (\<^verbatim>\<open>nctu_np_project2/final/np_simple.cpp\<close>, \<^verbatim>\<open>npshell_1.h\<close>).  \<^theory_text>\<open>Simple_Shell\<close> has the
  reading of a line from the connection or from a batch file, the turn of the loop and the accept loop with its
  children; parser and processes are those of \<^theory_text>\<open>Shell_P1\<close>.  \<^theory_text>\<open>Simple_Claims\<close> shows that a session is the
  project 1 shell as long as no batch is used, so the properties of that shell are properties of the
  sessions, and what a batch and the end of the input do.

  \<^bold>\<open>The remote working ground\<close>, multi-process version (\<^verbatim>\<open>nctu_np_project2/final\<close>: \<^verbatim>\<open>np_multi_proc.cpp\<close>,
  \<^verbatim>\<open>npshell_3.h\<close>, \<^verbatim>\<open>user_3.h\<close>, \<^verbatim>\<open>semaphore.h\<close>).  \<^theory_text>\<open>Semaphores\<close> models the semaphore operations over the
  kernel's atomic operation lists with their undo adjustments, and the processes that share a set
  as a step relation, and shows that they implement a lock with an owner.  \<^theory_text>\<open>Rwg_Users\<close> is the shared table: users, message queues, user-pipe records,
  login and logout.  \<^theory_text>\<open>Rwg_Shell\<close> and \<^theory_text>\<open>Rwg_Exec\<close> are the shell over that table; the numbered pipes
  and the redirection are the definitions of \<^theory_text>\<open>Shell_P1\<close>, whose code the header file repeats word for
  word.  \<^theory_text>\<open>Rwg_Turns\<close> shows that every operation keeps the table's invariant and other users' slots;
  \<^theory_text>\<open>Rwg_Server\<close> is the system of all sessions as a step relation (logins, turns, signal handlers,
  announcing children) with the invariant of its reachable states; \<^theory_text>\<open>Rwg_Lines\<close> evaluates lines of
  plain words with user pipes; \<^theory_text>\<open>Rwg_Claims\<close> states what a user pipe and a broadcast deliver.
  \<^theory_text>\<open>Rwg_Sections\<close> has the processes at the grain at which they interleave: every turn is a sequence of single
  accesses to the table (\<open>line_sections\<close>), and the system of these accesses, with processes that die, failed
  forks and arbitrary sockets, is what the properties about all users are stated over.  There too is the client
  that goes away, with the \<^verbatim>\<open>SIGPIPE\<close> of the next prompt.  \<^theory_text>\<open>Rwg_Shutdown\<close> is the set-up over
  what an earlier server has left behind and the handler of \<^verbatim>\<open>SIGINT\<close>.  \<^theory_text>\<open>Rwg_Races\<close> takes \<^verbatim>\<open>name\<close> and \<^verbatim>\<open>>n\<close> apart
  into the look at the table and the change of it, and shows what another process's step in between breaks.  \<^theory_text>\<open>Rwg_Early\<close> is the version of
  \<^verbatim>\<open>part3\<close>, with one message buffer per user; \<^theory_text>\<open>Early_Claims\<close> shows that it simulates the final one over every
  sequence of events but for the messages it loses.

  \<^bold>\<open>The remote working ground\<close>, single-process version (\<^verbatim>\<open>np_single_proc.cpp\<close>, \<^verbatim>\<open>npshell_2.h\<close>,
  \<^verbatim>\<open>user_2.h\<close>).  \<^theory_text>\<open>Sp_Shell\<close> is the table, the user pipes, which are kernel pipes of the server here,
  and the parser; \<^theory_text>\<open>Sp_Exec\<close> the built-in commands, the four ways a child is started, one call of
  \<^verbatim>\<open>npshell\<close>, and the server's steps: set-up, a connection, a ready socket.  \<^theory_text>\<open>Sp_Server\<close> has every run of
  the select loop as a step relation and the invariant of its reachable states, \<^theory_text>\<open>Sp_Lines\<close> and
  \<^theory_text>\<open>Sp_Pipes\<close> evaluate the lines of a sender and a receiver, and \<^theory_text>\<open>Sp_Claims\<close> states the properties.
  \<^theory_text>\<open>Sp_Select\<close> is one turn of the select loop as it is written, a scan of the descriptors from 0, shown to be
  the run of steps that accepts and then serves every ready client once, each with its own input;
  \<^theory_text>\<open>Sp_First\<close> is the version of the shell in \<^verbatim>\<open>part2\<close>, which is shown to be equivalent.

  \<^bold>\<open>The HTTP server\<close> (\<^verbatim>\<open>nctu_np_project3/http_server.cpp\<close>): \<^theory_text>\<open>Http_Request\<close> is the request parser,
  \<^theory_text>\<open>Http_Server\<close> the array of 1024 bytes it reads into (\<open>fill_data\<close>), the handler with its CGI environment and the accepting process.  \<^theory_text>\<open>Fork_Server\<close> is the
  accept-and-fork contract as the locale \<open>forking_server\<close>, which the HTTP and the SOCKS server
  interpret.  \<^theory_text>\<open>Win_Server\<close> is the Windows variant (\<^verbatim>\<open>windows_cgi_server/main.cpp\<close>), \<^theory_text>\<open>Win_Sessions\<close> its sessions side by
  side on the socket of the browser, with what each sends and what the browser gets, and its \<^verbatim>\<open>main\<close>.  \<^theory_text>\<open>Cgi_Samples\<close> are the sample programs of
  \<^verbatim>\<open>nctu_np_project3/cgi\<close>.

  \<^bold>\<open>The web console\<close> (\<^verbatim>\<open>nctu_np_project3/console.cpp\<close>, \<^verbatim>\<open>nctu_np_project4/hw4.cpp\<close>): \<^theory_text>\<open>Console_Page\<close> is the
  query string and the page, \<^theory_text>\<open>Web_Console\<close> a shell session and the scripts it prints, behind the
  locales \<open>char_code\<close> and \<open>paced_session\<close>; the browser is a parameter there, the values of string literals
  and the text of HTML, of which the documented laws are assumed that the statement names. \<^theory_text>\<open>Socks_Client\<close> is the client of the proxy, up to the answer that the proxy's
  relay gives it after resolving and connecting, or does not.  \<^theory_text>\<open>Console_Shell\<close> closes
  the loop: the session in front of the concurrent server of project 2, where the lines of its file are
  executed one by one.  The locale \<open>console_on_shell\<close> holds for every paced session and every shell.
  \<^theory_text>\<open>Console_Process\<close> is the console as a process, from the environment the HTTP server gives it to its sessions side by
  side on one standard output, and \<^theory_text>\<open>Proxied_Shell\<close> the whole chain of console, CONNECT relay and shell.

  \<^bold>\<open>The SOCKS4 proxy\<close> (\<^verbatim>\<open>nctu_np_project4/socks_server.cpp\<close>): \<^theory_text>\<open>Socks_Request\<close> is the request, the firewall and
  the reply, \<^theory_text>\<open>Socks_Relay\<close> the CONNECT and BIND relays as state machines over completion events, with the end of the
  session object when no operation holds it any more (\<open>http_release\<close>, \<open>bind_release\<close>), and
  \<^theory_text>\<open>Socks_Server\<close> the listening process.

  \<^bold>\<open>The filters\<close> (\<^verbatim>\<open>removetag\<close>, \<^verbatim>\<open>delayedremovetag\<close>, \<^verbatim>\<open>removetag0\<close>, \<^verbatim>\<open>number\<close>, \<^verbatim>\<open>noop\<close>): \<^theory_text>\<open>Text_Filters\<close>.
\<close>

text \<open>
  \<^bold>\<open>Conventions.\<close>  A function that can leave its buffers, dereference null or read out of range
  returns a \<^verbatim>\<open>result\<close>, with the offending branch as a value; sizes of all fixed buffers are written
  out.  Loops are structural recursion or recursion with a length measure, so nothing needs fuel:
  one call is one turn of a server or shell loop, and the endless outer loops are the functions
  over lists of events and the step relations.  What the programs are told by the kernel or the
  network (which programs and files exist, results of system calls, addresses, bytes received) is
  an argument.  Bytes and ports of the SOCKS messages are words of 8 and 16 bits.

  Where the code writes past an array the model has an error value: the 5000 rows and nine words of \<open>combine\<close>,
  the message queues, the names.  That such an error does not occur is never assumed of the code; a
  property that excludes it says so.  The lines left of a numbered pipe are an unbounded number, where the
  code counts an \<^verbatim>\<open>int\<close> down; it would wrap around after 2147483648 lines.  Which free port the kernel chooses
  for a server whose own port is taken is an argument.  A \<^verbatim>\<open>read\<close> that fails is an argument of the
  loops that look at its result; in the single-process server it acts as a read of one zero byte, the
  state in which its result of -1 leaves the line.

  \<^bold>\<open>Interleaving.\<close>  The working ground is modelled at two grains.  In \<^theory_text>\<open>Rwg_Server\<close> a shell's turn, a login, a signal
  handler and a child's announcement are each one step: its invariant is that of turns that do not overlap.  The
  critical sections of the code are shorter than a turn, and the look at the table and the later change are
  different sections; in \<^theory_text>\<open>Rwg_Sections\<close> each access is a step of its own and a change is not tied to what was
  looked at, so what is shown there holds of every interleaving.  What an interleaving breaks is shown
  in \<^theory_text>\<open>Rwg_Races\<close> (\<open>names_can_clash\<close>, \<open>pipe_to_departed_user\<close>).  The stdio buffers, which delay what
  \<^verbatim>\<open>printf\<close> writes, and a \<^verbatim>\<open>SIGUSR1\<close> in the middle of a system call are not modelled, but for what an
  interrupted wait does to the semaphore (\<open>interrupted_wait_breaks_exclusion\<close>).

  \<^bold>\<open>Failures.\<close>  The accepting servers take the results of \<^verbatim>\<open>accept\<close> and \<^verbatim>\<open>fork\<close> as arguments.  In the
  multi-process server a failed \<^verbatim>\<open>accept\<close> puts the socket -1 into the table and a failed \<^verbatim>\<open>fork\<close> leaves a
  user without a process (\<open>accept_user\<close>).  In the single-process server the paths that the code cannot survive are
  error values.

  \<^bold>\<open>Not modelled.\<close>  The header \<^verbatim>\<open>user.h\<close> of \<^verbatim>\<open>nctu_np_project2/part3\<close>, which is not in the repository: the sizes of its
  arrays are a parameter (\<open>user_h\<close>).  The text of \<^verbatim>\<open>part1\<close>, \<^verbatim>\<open>nctu_np_project4/console.cpp\<close> and the
  other copies whose text the modelled files repeat; scripts, pages and logs; the limit on
  descriptors and the size of an \<^verbatim>\<open>fd_set\<close>, \<^verbatim>\<open>SIGPIPE\<close> outside \<^theory_text>\<open>Rwg_Sections\<close>, and the texts of most error reports.
\<close>

end
